(* ===== verification/Asc_Prelude.thy ===== *)
theory Asc_Prelude
  imports Main "HOL-Library.Word"
begin

unbundle bit_operations_syntax

text \<open>
  Shared vocabulary of the development: the C integer types as words, the exceptions of
  \<^verbatim>\<open>asc_exception.h\<close>, the result type of every function that can throw or
  touch memory, the loop combinator, checked memory accesses, and generic facts on lists and
  words.
\<close>

section \<open>Machine types\<close>

text \<open>
  \<^verbatim>\<open>uint8_t\<close> and \<^verbatim>\<open>char\<close> are bytes, \<^verbatim>\<open>size_t\<close>
  is the 64-bit type of the native build. A \<^verbatim>\<open>char\<close> is kept as its byte; where
  the code promotes it to \<^verbatim>\<open>int\<close> its sign is read with \<open>sint\<close>.
\<close>

type_synonym byte = "8 word"
type_synonym size_t = "64 word"

section \<open>Exceptions and faults\<close>

datatype asc_exception =
    ASC_ERROR_UNKOWN
  | ASC_ERROR_NO_ERROR
  | ASC_ERROR_DATA_TOO_LONG
  | ASC_ERROR_CHECKSUM_PROBLEM
  | ASC_ERROR_INVALID_FRAME
  | ASC_ERROR_INVALID_FRAME_PERIOD
  | ASC_ERROR_NOT_HEX_CHAR
  | ASC_ERROR_COMMAND_NOT_IMPLEMENTED
  | ASC_ERROR_UNEXPECTED_COMMAND
  | ASC_ERROR_DATA_TOO_SHORT
  | ASC_ERROR_REG_BLOCK_NULL
  | ASC_ERROR_REGNUM_OOB
  | ASC_ERROR_REGVAL_LEN
  | ASC_ERROR_CB_OOB
  | ASC_ERROR_CB_POP_EMPTY
  | ASC_ERROR_CB_BAD_CAPACITY
  | ASC_ERROR_FILE_READ
  | ASC_ERROR_FILE_WRITE

text \<open>The numeric value of each enumerator.\<close>

primrec asc_exception_code :: "asc_exception \<Rightarrow> nat" where
  "asc_exception_code ASC_ERROR_UNKOWN = 0"
| "asc_exception_code ASC_ERROR_NO_ERROR = 1"
| "asc_exception_code ASC_ERROR_DATA_TOO_LONG = 0x10"
| "asc_exception_code ASC_ERROR_CHECKSUM_PROBLEM = 0x11"
| "asc_exception_code ASC_ERROR_INVALID_FRAME = 0x12"
| "asc_exception_code ASC_ERROR_INVALID_FRAME_PERIOD = 0x13"
| "asc_exception_code ASC_ERROR_NOT_HEX_CHAR = 0x14"
| "asc_exception_code ASC_ERROR_COMMAND_NOT_IMPLEMENTED = 0x15"
| "asc_exception_code ASC_ERROR_UNEXPECTED_COMMAND = 0x16"
| "asc_exception_code ASC_ERROR_DATA_TOO_SHORT = 0x17"
| "asc_exception_code ASC_ERROR_REG_BLOCK_NULL = 0x20"
| "asc_exception_code ASC_ERROR_REGNUM_OOB = 0x21"
| "asc_exception_code ASC_ERROR_REGVAL_LEN = 0x22"
| "asc_exception_code ASC_ERROR_CB_OOB = 0x30"
| "asc_exception_code ASC_ERROR_CB_POP_EMPTY = 0x31"
| "asc_exception_code ASC_ERROR_CB_BAD_CAPACITY = 0x32"
| "asc_exception_code ASC_ERROR_FILE_READ = 0x40"
| "asc_exception_code ASC_ERROR_FILE_WRITE = 0x41"

lemma asc_exception_code_inject [simp]:
  "asc_exception_code a = asc_exception_code b \<longleftrightarrow> a = b"
  by (cases a; cases b) simp_all

lemma asc_exception_code_less: "asc_exception_code a < 256"
  by (cases a) simp_all

text \<open>The enumerators are ordered by their numeric values.\<close>

instantiation asc_exception :: linorder
begin

definition less_eq_asc_exception :: "asc_exception \<Rightarrow> asc_exception \<Rightarrow> bool" where
  "a \<le> b \<longleftrightarrow> asc_exception_code a \<le> asc_exception_code b"

definition less_asc_exception :: "asc_exception \<Rightarrow> asc_exception \<Rightarrow> bool" where
  "a < b \<longleftrightarrow> asc_exception_code a < asc_exception_code b"

instance
  by standard (auto simp: less_eq_asc_exception_def less_asc_exception_def order_antisym)

end

text \<open>
  A function leaves normally, or by \<^verbatim>\<open>Throw(e)\<close>, or by an access outside the
  memory it was given, which C leaves undefined and the model makes a value of its own.
\<close>

datatype fault = Throw asc_exception | UB

type_synonym 'a exc = "fault + 'a"
type_synonym ('a, 's) res = "(fault + 'a) \<times> 's"

text \<open>
  \<open>bind_exc\<close> sequences two computations that read the state, \<open>bind_res\<close> two that
  change it: a throw keeps the state reached so far, as \<^verbatim>\<open>longjmp\<close> does.
\<close>

definition bind_exc :: "'a exc \<Rightarrow> ('a \<Rightarrow> 'b exc) \<Rightarrow> 'b exc" where
  "bind_exc r f = (case r of Inl e \<Rightarrow> Inl e | Inr v \<Rightarrow> f v)"

definition bind_res :: "('a, 's) res \<Rightarrow> ('a \<Rightarrow> 's \<Rightarrow> ('b, 's) res) \<Rightarrow> ('b, 's) res" where
  "bind_res r f = (case fst r of Inl e \<Rightarrow> (Inl e, snd r) | Inr v \<Rightarrow> f v (snd r))"

lemma bind_exc_simps [simp]:
  "bind_exc (Inl e) f = Inl e"
  "bind_exc (Inr v) f = f v"
  by (simp_all add: bind_exc_def)

lemma bind_res_simps [simp]:
  "bind_res (Inl e, s) f = (Inl e, s)"
  "bind_res (Inr v, s) f = f v s"
  by (simp_all add: bind_res_def)

lemma bind_res_Inr [simp]: "fst r = Inr v \<Longrightarrow> bind_res r f = f v (snd r)"
  by (simp add: bind_res_def)

lemma bind_res_Inl [simp]: "fst r = Inl e \<Longrightarrow> bind_res r f = (Inl e, snd r)"
  by (simp add: bind_res_def)

text \<open>The result of a call that the code ignores.\<close>

definition discard :: "('a, 's) res \<Rightarrow> (unit, 's) res" where
  "discard r = bind_res r (\<lambda>_ s. (Inr (), s))"

lemma snd_discard [simp]: "snd (discard r) = snd r"
  by (cases r) (auto simp: discard_def bind_res_def split: sum.splits)

lemma fst_discard_Inr [simp]: "fst r = Inr v \<Longrightarrow> fst (discard r) = Inr ()"
  by (simp add: discard_def)

lemma discard_Inl [simp]: "fst r = Inl e \<Longrightarrow> discard r = (Inl e, snd r)"
  by (simp add: discard_def)

lemma bind_exc_cong [fundef_cong]:
  "r = r' \<Longrightarrow> (\<And>v. r' = Inr v \<Longrightarrow> f v = f' v) \<Longrightarrow> bind_exc r f = bind_exc r' f'"
  by (auto simp: bind_exc_def split: sum.splits)

lemma bind_res_cong [fundef_cong]:
  "r = r' \<Longrightarrow> (\<And>v s. r' = (Inr v, s) \<Longrightarrow> f v s = f' v s) \<Longrightarrow> bind_res r f = bind_res r' f'"
  by (cases r) (auto simp: bind_res_def split: sum.splits)

lemma bind_res_eq_InrD:
  assumes "bind_res r f = (Inr v, s)"
  obtains v1 s1 where "r = (Inr v1, s1)" and "f v1 s1 = (Inr v, s)"
  using assms by (cases r) (auto simp: bind_res_def split: sum.splits)

text \<open>A computation on a part of the state, read by \<open>get\<close> and written back by \<open>put\<close>.\<close>

definition zoom :: "('s \<Rightarrow> 't) \<Rightarrow> ('t \<Rightarrow> 's \<Rightarrow> 's) \<Rightarrow> ('t \<Rightarrow> ('a, 't) res) \<Rightarrow> 's \<Rightarrow> ('a, 's) res" where
  "zoom get put f s = (case f (get s) of (r, t) \<Rightarrow> (r, put t s))"

lemma zoom_sel [simp]:
  "fst (zoom get put f s) = fst (f (get s))"
  "snd (zoom get put f s) = put (snd (f (get s))) s"
  by (simp_all add: zoom_def split_beta)

text \<open>\<^verbatim>\<open>for (i = lo; i < hi; i++) body\<close> is \<open>for_each body [lo..<hi]\<close>.\<close>

fun for_each :: "('x \<Rightarrow> 's \<Rightarrow> (unit, 's) res) \<Rightarrow> 'x list \<Rightarrow> 's \<Rightarrow> (unit, 's) res" where
  "for_each f [] s = (Inr (), s)"
| "for_each f (x # xs) s = bind_res (f x s) (\<lambda>_ s'. for_each f xs s')"

lemma for_each_Nil [simp]: "for_each f [] = Pair (Inr ())"
  by (rule ext) simp

lemma for_each_append:
  "for_each f (xs @ ys) s = bind_res (for_each f xs s) (\<lambda>_ s'. for_each f ys s')"
  by (induction xs arbitrary: s) (auto simp: bind_res_def split: sum.splits)

lemma for_each_invariant:
  assumes "P s" and "\<And>x s. x \<in> set xs \<Longrightarrow> P s \<Longrightarrow> P (snd (f x s))"
  shows "P (snd (for_each f xs s))"
  using assms
  by (induction xs arbitrary: s) (auto simp: bind_res_def split: sum.splits)

lemma for_each_cong [fundef_cong]:
  "xs = ys \<Longrightarrow> s = t \<Longrightarrow> (\<And>x s. x \<in> set ys \<Longrightarrow> f x s = g x s) \<Longrightarrow> for_each f xs s = for_each g ys t"
proof (induction ys arbitrary: xs s t)
  case Nil
  then show ?case by simp
next
  case (Cons y ys)
  have *: "for_each f ys = for_each g ys"
  proof
    fix u show "for_each f ys u = for_each g ys u"
      using Cons.IH [of ys u u] Cons.prems(3) by simp
  qed
  show ?case using Cons.prems by (simp add: *)
qed

section \<open>Memory\<close>

text \<open>An array is the list of its elements; an access outside of it is a fault.\<close>

definition mem_read :: "'a list \<Rightarrow> size_t \<Rightarrow> 'a exc" where
  "mem_read xs i = (if unat i < length xs then Inr (xs ! unat i) else Inl UB)"

definition mem_write :: "'a list \<Rightarrow> size_t \<Rightarrow> 'a \<Rightarrow> 'a list exc" where
  "mem_write xs i v = (if unat i < length xs then Inr (xs[unat i := v]) else Inl UB)"

lemma mem_read_ok [simp]: "unat i < length xs \<Longrightarrow> mem_read xs i = Inr (xs ! unat i)"
  by (simp add: mem_read_def)

lemma mem_write_ok [simp]: "unat i < length xs \<Longrightarrow> mem_write xs i v = Inr (xs[unat i := v])"
  by (simp add: mem_write_def)

text \<open>
  A \<^verbatim>\<open>char *\<close> into an array is the offset it points to: \<open>load\<close> and
  \<open>store\<close> go through it, and \<open>mem_put p bs\<close> is the array after the bytes
  \<open>bs\<close> were stored from \<open>p\<close> on.
\<close>

definition load :: "'a list \<Rightarrow> nat \<Rightarrow> 'a exc" where
  "load mem p = (if p < length mem then Inr (mem ! p) else Inl UB)"

definition store :: "nat \<Rightarrow> 'a \<Rightarrow> 'a list \<Rightarrow> (unit, 'a list) res" where
  "store p v mem = (if p < length mem then (Inr (), mem[p := v]) else (Inl UB, mem))"

definition mem_put :: "nat \<Rightarrow> 'a list \<Rightarrow> 'a list \<Rightarrow> 'a list" where
  "mem_put p bs mem = take p mem @ bs @ drop (p + length bs) mem"

lemma load_ok [simp]: "p < length mem \<Longrightarrow> load mem p = Inr (mem ! p)"
  by (simp add: load_def)

lemma store_ok [simp]: "p < length mem \<Longrightarrow> store p v mem = (Inr (), mem[p := v])"
  by (simp add: store_def)

lemma length_mem_put [simp]: "p + length bs \<le> length mem \<Longrightarrow> length (mem_put p bs mem) = length mem"
  by (simp add: mem_put_def)

lemma mem_put_Nil [simp]: "mem_put p [] mem = mem"
  by (simp add: mem_put_def)

lemma nth_mem_put:
  assumes "p + length bs \<le> length mem" "i < length mem"
  shows "mem_put p bs mem ! i = (if p \<le> i \<and> i < p + length bs then bs ! (i - p) else mem ! i)"
  using assms by (auto simp: mem_put_def nth_append min_def not_less)

lemma mem_put_append:
  assumes "p + length as + length bs \<le> length mem"
  shows "mem_put p as (mem_put (p + length as) bs mem) = mem_put p (as @ bs) mem"
  using assms by (auto simp: mem_put_def min_def drop_append ac_simps)

lemma mem_put_single: "p < length mem \<Longrightarrow> mem[p := v] = mem_put p [v] mem"
  by (simp add: mem_put_def upd_conv_take_nth_drop)

lemma take_drop_mem_put [simp]:
  "p + length bs \<le> length mem \<Longrightarrow> take (length bs) (drop p (mem_put p bs mem)) = bs"
  by (simp add: mem_put_def)

text \<open>What a loop left in the variables it assigns, when it was not left by a fault.\<close>

definition final_state :: "(unit, 's) res \<Rightarrow> 's exc" where
  "final_state r = (case fst r of Inl e \<Rightarrow> Inl e | Inr _ \<Rightarrow> Inr (snd r))"

lemma final_state_simps [simp]:
  "final_state (Inl e, s) = Inl e"
  "final_state (Inr u, s) = Inr s"
  by (simp_all add: final_state_def)

text \<open>Reading a block: \<open>len\<close> elements from the offset \<open>off\<close> on.\<close>

definition mem_range :: "'a list \<Rightarrow> size_t \<Rightarrow> size_t \<Rightarrow> 'a list exc" where
  "mem_range xs off len =
     (if unat off + unat len \<le> length xs then Inr (take (unat len) (drop (unat off) xs)) else Inl UB)"

section \<open>Words\<close>

lemma unat_less_64 [simp]: "unat (x :: size_t) < 18446744073709551616"
  using unsigned_less [of x] by simp

lemma unat_of_nat_64: "n < 18446744073709551616 \<Longrightarrow> unat (of_nat n :: size_t) = n"
  by (simp add: unat_of_nat take_bit_eq_mod)

lemma unat_Suc_64: "unat (x :: size_t) < unat (y :: size_t) \<Longrightarrow> unat (x + 1) = Suc (unat x)"
  using le_less_trans [OF Suc_leI unat_less_64 [of y], of "unat x"]
  by (simp add: unat_word_ariths)

lemma unat_dec_64: "x \<noteq> 0 \<Longrightarrow> unat (x - 1 :: size_t) = unat x - 1"
  by (simp add: unat_minus_one)

text \<open>A property of the words below a bound, checked one by one.\<close>

lemma word_below_all:
  assumes "list_all (\<lambda>i. P (of_nat i :: 'a::len word)) [0..<n]" and "unat x < n"
  shows "P x"
proof -
  have "P (of_nat (unat x))" using assms by (simp add: list_all_iff del: of_nat_unat)
  then show ?thesis by simp
qed

lemma bit_top:
  assumes "2 ^ n \<le> unat (y :: size_t)" "unat y < 2 ^ (n + 1)"
  shows "bit y n"
proof -
  have "unat y div 2 ^ n = 1" using assms by (simp add: div_nat_eqI)
  then have "bit (unat y) n" by (simp add: bit_iff_odd)
  then show ?thesis by (simp add: bit_unsigned_iff)
qed

end
