(* ===== verification/Ring.thy ===== *)
theory Ring
  imports Asc_Prelude
begin

text \<open>
  The contents of a ring buffer: \<open>ring buf s n\<close> lists the \<open>n\<close> elements that
  start at slot \<open>s\<close> of the array \<open>buf\<close> and run around its end. The lemmas say
  what writing a slot and moving \<open>s\<close> and \<open>n\<close> do to that list; they are the
  arithmetic under every operation of the circular buffer.
\<close>

definition ring :: "'a list \<Rightarrow> nat \<Rightarrow> nat \<Rightarrow> 'a list" where
  "ring buf s n = map (\<lambda>i. buf ! ((s + i) mod length buf)) [0..<n]"

lemma length_ring [simp]: "length (ring buf s n) = n"
  by (simp add: ring_def)

lemma ring_0 [simp]: "ring buf s 0 = []"
  by (simp add: ring_def)

lemma nth_ring: "i < n \<Longrightarrow> ring buf s n ! i = buf ! ((s + i) mod length buf)"
  by (simp add: ring_def)

lemma ring_mod: "ring buf (s mod length buf) n = ring buf s n"
  by (simp add: ring_def mod_simps)

lemma ring_Suc_front: "ring buf s (Suc n) = buf ! (s mod length buf) # ring buf (Suc s) n"
  by (simp add: ring_def upt_conv_Cons map_Suc_upt [symmetric] del: upt_Suc)

lemma ring_Suc_back: "ring buf s (Suc n) = ring buf s n @ [buf ! ((s + n) mod length buf)]"
  by (simp add: ring_def)

lemma ring_add: "ring buf s (m + n) = ring buf s m @ ring buf (s + m) n"
  by (induction n) (simp_all add: ring_Suc_back add.assoc)

lemma drop_ring: "k \<le> n \<Longrightarrow> drop k (ring buf s n) = ring buf (s + k) (n - k)"
  using ring_add [of buf s k "n - k"] by simp

lemma take_ring: "k \<le> n \<Longrightarrow> take k (ring buf s n) = ring buf s k"
  using ring_add [of buf s k "n - k"] by simp

text \<open>Slots of different elements are different.\<close>

lemma ring_slot_neq:
  assumes "i < j" and "j < i + L"
  shows "(s + i) mod L \<noteq> (s + j) mod (L :: nat)"
proof
  assume "(s + i) mod L = (s + j) mod L"
  then have "L dvd (s + j) - (s + i)"
    using assms(1) by (metis add_le_mono1 add.commute less_imp_le_nat mod_eq_dvd_iff_nat)
  then have "L dvd j - i" by simp
  then show False using assms by (auto dest: dvd_imp_le)
qed

lemma ring_write_after:
  assumes "n \<le> k" and "k < length buf"
  shows "ring (buf[(s + k) mod length buf := x]) s n = ring buf s n"
  unfolding ring_def
proof (rule map_cong [OF refl])
  fix i assume "i \<in> set [0..<n]"
  then have "(s + i) mod length buf \<noteq> (s + k) mod length buf"
    using assms by (intro ring_slot_neq) auto
  then show "buf[(s + k) mod length buf := x] ! ((s + i) mod length (buf[(s + k) mod length buf := x]))
    = buf ! ((s + i) mod length buf)"
    by simp
qed

lemma ring_push_back:
  assumes "n < length buf"
  shows "ring (buf[(s + n) mod length buf := x]) s (Suc n) = ring buf s n @ [x]"
proof -
  have "(s + n) mod length buf < length buf" using assms by (metis le_less_trans mod_less_divisor zero_le)
  then show ?thesis using assms by (simp add: ring_Suc_back ring_write_after)
qed

lemma ring_push_back_full:
  assumes "0 < length buf"
  shows "ring (buf[s mod length buf := x]) (Suc s) (length buf) = tl (ring buf s (length buf)) @ [x]"
proof -
  obtain m where m: "length buf = Suc m" using assms by (cases "length buf") auto
  have s: "(Suc s + m) mod length buf = s mod length buf"
    using m by (metis add_Suc_right add_Suc_shift mod_add_self2)
  have "ring (buf[(Suc s + m) mod length buf := x]) (Suc s) (Suc m) = ring buf (Suc s) m @ [x]"
    by (rule ring_push_back) (simp add: m)
  then have "ring (buf[s mod length buf := x]) (Suc s) (Suc m) = ring buf (Suc s) m @ [x]"
    unfolding s .
  then show ?thesis using ring_Suc_front [of buf s m] by (simp only: m list.sel)
qed

lemma ring_push_front:
  assumes "n < length buf"
  shows "ring (buf[p mod length buf := x]) p (Suc n) = x # ring buf (Suc p) n"
proof -
  have pl: "p mod length buf < length buf" using assms by (metis le_less_trans mod_less_divisor zero_le)
  have "ring (buf[p mod length buf := x]) (Suc p) n = ring buf (Suc p) n"
  proof -
    have "(Suc p + (length buf - 1)) mod length buf = p mod length buf"
      using assms by (cases "length buf") (simp, metis add_Suc_right add_Suc_shift diff_Suc_1 mod_add_self2)
    then show ?thesis using ring_write_after [of n "length buf - 1" buf "Suc p" x] assms by simp
  qed
  then show ?thesis using pl by (simp add: ring_Suc_front)
qed

lemma ring_flat:
  assumes "s + n \<le> length buf"
  shows "ring buf s n = take n (drop s buf)"
proof (rule nth_equalityI)
  show "length (ring buf s n) = length (take n (drop s buf))" using assms by simp
next
  fix i assume "i < length (ring buf s n)"
  then show "ring buf s n ! i = take n (drop s buf) ! i" using assms by (simp add: nth_ring)
qed

lemma ring_wrap:
  assumes "s \<le> length buf" and "length buf \<le> s + n" and "s + n \<le> 2 * length buf"
  shows "ring buf s n = drop s buf @ take (s + n - length buf) buf"
proof -
  have "ring buf s n = ring buf s ((length buf - s) + (s + n - length buf))" using assms by simp
  also have "\<dots> = ring buf s (length buf - s) @ ring buf (length buf) (s + n - length buf)"
    using assms by (subst ring_add) simp
  also have "ring buf (length buf) (s + n - length buf) = ring buf 0 (s + n - length buf)"
    using ring_mod [of buf "length buf"] by simp
  finally show ?thesis using assms by (simp add: ring_flat)
qed

text \<open>Writing a block behind the elements, up to the end of the array: what does not fit beside them overwrites the first ones.\<close>

lemma ring_put:
  fixes buf bs :: "'a list" and s n
  defines "k \<equiv> length bs" and "L \<equiv> length buf" and "stop \<equiv> (s + n) mod length buf"
  assumes n: "n \<le> L" and k: "stop + k \<le> L" and L: "0 < L"
  shows "ring (mem_put stop bs buf) (s + (n + k - L)) (min (n + k) L) = drop (n + k - L) (ring buf s n @ bs)"
proof (rule nth_equalityI)
  show "length (ring (mem_put stop bs buf) (s + (n + k - L)) (min (n + k) L)) = length (drop (n + k - L) (ring buf s n @ bs))"
    by (simp add: k_def)
next
  fix i assume i: "i < length (ring (mem_put stop bs buf) (s + (n + k - L)) (min (n + k) L))"
  define j where "j = n + k - L + i"
  have j: "j < n + k" "n + k \<le> j + L" using i by (auto simp: j_def)
  have len: "length (mem_put stop bs buf) = L" using k by (simp add: k_def L_def)
  have put: "mem_put stop bs buf ! p = (if stop \<le> p \<and> p < stop + k then bs ! (p - stop) else buf ! p)" if "p < L" for p
    using nth_mem_put [of stop bs buf p] k that by (simp add: k_def L_def)
  have slot: "(s + n + m) mod L = stop + m" if "m < k" for m
    using that k by (simp add: stop_def L_def [symmetric] mod_add_left_eq [of "s + n" L m, symmetric])
  have "mem_put stop bs buf ! ((s + j) mod L) = (ring buf s n @ bs) ! j"
  proof (cases "j < n")
    case True
    have ns: "\<not> (stop \<le> (s + j) mod L \<and> (s + j) mod L < stop + k)"
    proof
      assume a: "stop \<le> (s + j) mod L \<and> (s + j) mod L < stop + k"
      let ?m = "(s + j) mod L - stop"
      have m: "?m < k" "(s + (n + ?m)) mod L = (s + j) mod L" using a slot [of ?m] by (auto simp: add.assoc)
      have "(s + j) mod L \<noteq> (s + (n + ?m)) mod L"
        by (rule ring_slot_neq) (use True j m(1) in auto)
      then show False using m(2) by simp
    qed
    have "mem_put stop bs buf ! ((s + j) mod L) = buf ! ((s + j) mod L)"
      using ns put [of "(s + j) mod L"] L by auto
    then show ?thesis using True by (simp add: nth_append nth_ring L_def)
  next
    case False
    define m where "m = j - n"
    have m: "j = n + m" "m < k" using False j by (auto simp: m_def)
    have "(s + j) mod L = stop + m" using slot [OF m(2)] by (simp add: m(1) add.assoc)
    then show ?thesis using m put [of "stop + m"] k by (simp add: nth_append)
  qed
  then show "ring (mem_put stop bs buf) (s + (n + k - L)) (min (n + k) L) ! i = drop (n + k - L) (ring buf s n @ bs) ! i"
    using i nth_drop [of "n + k - L" "ring buf s n @ bs" i]
    by (simp add: nth_ring len j_def add.assoc k_def del: drop_append)
qed

end
