(* ===== verification/Circular_Buffer.thy ===== *)
theory Circular_Buffer
  imports Ring
begin

text \<open>
  The circular buffer of bytes, \<^verbatim>\<open>circular_buffer.h\<close> and
  \<^verbatim>\<open>circular_buffer.c\<close>: its state and every operation on it that needs no
  file descriptor. The operations keep the names of the C functions. An operation that changes
  the buffer returns its outcome paired with the new buffer; one that only reads returns its
  outcome. The pointer \<^verbatim>\<open>buffer\<close> is the array it points to, as long as the
  memory the buffer was initialised with.
\<close>

section \<open>State\<close>

record circular_buffer_uint8 =
  capacity :: size_t
  cb_size :: size_t
  iStart :: size_t
  iStop :: size_t
  buffer :: "byte list"

section \<open>Operations\<close>

definition isPowerOfTwo :: "size_t \<Rightarrow> bool" where
  "isPowerOfTwo x \<longleftrightarrow> x \<noteq> 0 \<and> (x AND (NOT x + 1)) = x"

definition inc_iStart_uint8 :: "circular_buffer_uint8 \<Rightarrow> circular_buffer_uint8" where
  "inc_iStart_uint8 buf = buf\<lparr>iStart := (iStart buf + 1) AND (capacity buf - 1)\<rparr>"

definition inc_iStop_uint8 :: "circular_buffer_uint8 \<Rightarrow> circular_buffer_uint8" where
  "inc_iStop_uint8 buf = buf\<lparr>iStop := (iStop buf + 1) AND (capacity buf - 1)\<rparr>"

definition dec_iStart_uint8 :: "circular_buffer_uint8 \<Rightarrow> circular_buffer_uint8" where
  "dec_iStart_uint8 buf =
     (if iStart buf = 0 then buf\<lparr>iStart := capacity buf - 1\<rparr>
      else buf\<lparr>iStart := (iStart buf - 1) AND (capacity buf - 1)\<rparr>)"

definition dec_iStop_uint8 :: "circular_buffer_uint8 \<Rightarrow> circular_buffer_uint8" where
  "dec_iStop_uint8 buf =
     (if iStop buf = 0 then buf\<lparr>iStop := capacity buf - 1\<rparr>
      else buf\<lparr>iStop := (iStop buf - 1) AND (capacity buf - 1)\<rparr>)"

definition write_buffer :: "size_t \<Rightarrow> byte \<Rightarrow> circular_buffer_uint8 \<Rightarrow> (unit, circular_buffer_uint8) res" where
  "write_buffer i x cb =
     (case mem_write (buffer cb) i x of
        Inl e \<Rightarrow> (Inl e, cb)
      | Inr b \<Rightarrow> (Inr (), cb\<lparr>buffer := b\<rparr>))"

text \<open>Initialisation: \<open>mem\<close> is the array the argument \<^verbatim>\<open>buffer\<close> points to.\<close>

definition circular_buffer_init_uint8 ::
  "circular_buffer_uint8 \<Rightarrow> size_t \<Rightarrow> byte list \<Rightarrow> (unit, circular_buffer_uint8) res" where
  "circular_buffer_init_uint8 cb cap mem =
     (if \<not> isPowerOfTwo cap then (Inl (Throw ASC_ERROR_CB_BAD_CAPACITY), cb)
      else for_each (\<lambda>i cb. write_buffer (of_nat i) 0x40 cb) [0..<unat cap]
             (cb\<lparr>capacity := cap, cb_size := 0, iStart := 0, iStop := 0, buffer := mem\<rparr>))"

definition circular_buffer_get_size_uint8 :: "circular_buffer_uint8 \<Rightarrow> size_t" where
  "circular_buffer_get_size_uint8 cb = cb_size cb"

definition circular_buffer_is_full_uint8 :: "circular_buffer_uint8 \<Rightarrow> bool" where
  "circular_buffer_is_full_uint8 cb \<longleftrightarrow> circular_buffer_get_size_uint8 cb = capacity cb"

definition circular_buffer_is_empty_uint8 :: "circular_buffer_uint8 \<Rightarrow> bool" where
  "circular_buffer_is_empty_uint8 cb \<longleftrightarrow> circular_buffer_get_size_uint8 cb = 0"

definition circular_buffer_get_element_uint8 :: "circular_buffer_uint8 \<Rightarrow> size_t \<Rightarrow> byte exc" where
  "circular_buffer_get_element_uint8 cb iElement =
     (if iElement \<ge> circular_buffer_get_size_uint8 cb then Inl (Throw ASC_ERROR_CB_OOB)
      else mem_read (buffer cb) ((iStart cb + iElement) AND (capacity cb - 1)))"

definition circular_buffer_push_front_uint8 ::
  "circular_buffer_uint8 \<Rightarrow> byte \<Rightarrow> (unit, circular_buffer_uint8) res" where
  "circular_buffer_push_front_uint8 cb element =
     (let cb = dec_iStart_uint8 cb in
      bind_res (write_buffer (iStart cb) element cb) (\<lambda>_ cb.
        (Inr (), if cb_size cb = capacity cb then dec_iStop_uint8 cb
                 else cb\<lparr>cb_size := cb_size cb + 1\<rparr>)))"

definition circular_buffer_push_back_uint8 ::
  "circular_buffer_uint8 \<Rightarrow> byte \<Rightarrow> (unit, circular_buffer_uint8) res" where
  "circular_buffer_push_back_uint8 cb element =
     bind_res (write_buffer (iStop cb) element cb) (\<lambda>_ cb.
       let cb = inc_iStop_uint8 cb in
       (Inr (), if cb_size cb = capacity cb then inc_iStart_uint8 cb
                else cb\<lparr>cb_size := cb_size cb + 1\<rparr>))"

definition circular_buffer_pop_front_uint8 ::
  "circular_buffer_uint8 \<Rightarrow> (byte, circular_buffer_uint8) res" where
  "circular_buffer_pop_front_uint8 cb =
     (if cb_size cb = 0 then (Inl (Throw ASC_ERROR_CB_POP_EMPTY), cb)
      else bind_res (mem_read (buffer cb) (iStart cb), cb) (\<lambda>result cb.
        let cb = inc_iStart_uint8 cb in (Inr result, cb\<lparr>cb_size := cb_size cb - 1\<rparr>)))"

definition circular_buffer_pop_back_uint8 ::
  "circular_buffer_uint8 \<Rightarrow> (byte, circular_buffer_uint8) res" where
  "circular_buffer_pop_back_uint8 cb =
     (if cb_size cb = 0 then (Inl (Throw ASC_ERROR_CB_POP_EMPTY), cb)
      else let cb = dec_iStop_uint8 cb; cb = cb\<lparr>cb_size := cb_size cb - 1\<rparr> in
        (mem_read (buffer cb) (iStop cb), cb))"

text \<open>The loop \<^verbatim>\<open>for (i = 0; i < n; i++) circular_buffer_pop_front_uint8(circ_buf)\<close>.\<close>

definition pop_front_times :: "nat \<Rightarrow> circular_buffer_uint8 \<Rightarrow> (unit, circular_buffer_uint8) res" where
  "pop_front_times n = for_each (\<lambda>_ cb. discard (circular_buffer_pop_front_uint8 cb)) [0..<n]"

lemma pop_front_size:
  assumes "circular_buffer_pop_front_uint8 cb = (Inr v, cb')"
  shows "cb_size cb \<noteq> 0" and "cb_size cb' = cb_size cb - 1" and "Suc (unat (cb_size cb')) = unat (cb_size cb)"
proof -
  show "cb_size cb \<noteq> 0" "cb_size cb' = cb_size cb - 1"
    using assms by (auto simp: circular_buffer_pop_front_uint8_def bind_res_def inc_iStart_uint8_def
        Let_def split: if_splits sum.splits)
  then show "Suc (unat (cb_size cb')) = unat (cb_size cb)" by (simp add: unat_dec_64 unat_gt_0)
qed

lemma pop_back_size:
  assumes "circular_buffer_pop_back_uint8 cb = (Inr v, cb')"
  shows "unat (cb_size cb') < unat (cb_size cb)"
proof -
  have "cb_size cb \<noteq> 0" "cb_size cb' = cb_size cb - 1"
    using assms by (auto simp: circular_buffer_pop_back_uint8_def dec_iStop_uint8_def Let_def split: if_splits)
  then show ?thesis by (simp add: unat_dec_64 unat_gt_0)
qed

lemma pop_front_times_size:
  "pop_front_times n cb = (Inr (), cb') \<Longrightarrow> unat (cb_size cb') + n = unat (cb_size cb)"
proof (induction n arbitrary: cb')
  case 0
  then show ?case by (simp add: pop_front_times_def)
next
  case (Suc n)
  from Suc.prems obtain s where s: "pop_front_times n cb = (Inr (), s)"
    and d: "discard (circular_buffer_pop_front_uint8 s) = (Inr (), cb')"
    by (cases "pop_front_times n cb")
      (auto simp: pop_front_times_def for_each_append bind_res_def discard_def split: sum.splits)
  from d obtain b where "circular_buffer_pop_front_uint8 s = (Inr b, cb')"
    by (auto simp: discard_def elim!: bind_res_eq_InrD)
  from pop_front_size(3) [OF this] Suc.IH [OF s] show ?case by simp
qed

function circular_buffer_remove_front_to_uint8 ::
  "circular_buffer_uint8 \<Rightarrow> byte \<Rightarrow> bool \<Rightarrow> (unit, circular_buffer_uint8) res" where
  "circular_buffer_remove_front_to_uint8 cb val inclusive =
     (if cb_size cb > 0 then
        bind_res (circular_buffer_get_element_uint8 cb 0, cb) (\<lambda>iValue cb.
          if iValue = val then
            if inclusive then discard (circular_buffer_pop_front_uint8 cb) else (Inr (), cb)
          else bind_res (circular_buffer_pop_front_uint8 cb) (\<lambda>_ cb.
            circular_buffer_remove_front_to_uint8 cb val inclusive))
      else (Inr (), cb))"
  by pat_completeness auto
termination
  by (relation "measure (\<lambda>(cb, _, _). unat (cb_size cb))") (auto dest: pop_front_size)

function circular_buffer_remove_back_to_uint8 ::
  "circular_buffer_uint8 \<Rightarrow> byte \<Rightarrow> bool \<Rightarrow> (unit, circular_buffer_uint8) res" where
  "circular_buffer_remove_back_to_uint8 cb val inclusive =
     (if cb_size cb > 0 then
        bind_res (circular_buffer_get_element_uint8 cb (cb_size cb - 1), cb) (\<lambda>iValue cb.
          if iValue = val then
            if inclusive then discard (circular_buffer_pop_back_uint8 cb) else (Inr (), cb)
          else bind_res (circular_buffer_pop_back_uint8 cb) (\<lambda>_ cb.
            circular_buffer_remove_back_to_uint8 cb val inclusive))
      else (Inr (), cb))"
  by pat_completeness auto
termination
  by (relation "measure (\<lambda>(cb, _, _). unat (cb_size cb))") (auto dest: pop_back_size)

text \<open>The searches, from the element \<open>i\<close> up and from below \<open>i\<close> down.\<close>

function find_first_from :: "circular_buffer_uint8 \<Rightarrow> byte \<Rightarrow> size_t \<Rightarrow> size_t exc" where
  "find_first_from cb val iElement =
     (if iElement < cb_size cb then
        bind_exc (circular_buffer_get_element_uint8 cb iElement) (\<lambda>iValue.
          if iValue = val then Inr iElement else find_first_from cb val (iElement + 1))
      else Inr (cb_size cb))"
  by pat_completeness auto
termination
  by (relation "measure (\<lambda>(cb, _, i). unat (cb_size cb) - unat i)")
    (auto simp: word_less_nat_alt unat_Suc_64)

definition circular_buffer_find_first_uint8 :: "circular_buffer_uint8 \<Rightarrow> byte \<Rightarrow> size_t exc" where
  "circular_buffer_find_first_uint8 cb val = find_first_from cb val 0"

function find_last_from :: "circular_buffer_uint8 \<Rightarrow> byte \<Rightarrow> size_t \<Rightarrow> size_t exc" where
  "find_last_from cb val iElement =
     (if iElement > 0 then
        let iElement = iElement - 1 in
        bind_exc (circular_buffer_get_element_uint8 cb iElement) (\<lambda>iValue.
          if iValue = val then Inr iElement else find_last_from cb val iElement)
      else Inr (cb_size cb))"
  by pat_completeness auto
termination
  by (relation "measure (\<lambda>(_, _, i). unat i)") (auto simp: unat_dec_64 unat_gt_0 word_gt_0)

definition circular_buffer_find_last_uint8 :: "circular_buffer_uint8 \<Rightarrow> byte \<Rightarrow> size_t exc" where
  "circular_buffer_find_last_uint8 cb val = find_last_from cb val (cb_size cb)"

definition circular_buffer_count_uint8 :: "circular_buffer_uint8 \<Rightarrow> byte \<Rightarrow> size_t exc" where
  "circular_buffer_count_uint8 cb val =
     (case for_each (\<lambda>iElement n.
         bind_res (circular_buffer_get_element_uint8 cb (of_nat iElement), n) (\<lambda>iValue n.
           (Inr (), if iValue = val then n + 1 else n)))
         [0..<unat (cb_size cb)] 0 of
        (Inl e, _) \<Rightarrow> Inl e
      | (Inr _, n) \<Rightarrow> Inr n)"

text \<open>
  \<^verbatim>\<open>get_first_block\<close> hands out a pointer into the array: its offset, with the
  length of the block.
\<close>

definition circular_buffer_get_first_block_uint8 :: "circular_buffer_uint8 \<Rightarrow> size_t \<times> size_t" where
  "circular_buffer_get_first_block_uint8 cb =
     (iStart cb,
      if iStart cb + cb_size cb > capacity cb then capacity cb - iStart cb else cb_size cb)"

definition circular_buffer_delete_first_block_uint8 ::
  "circular_buffer_uint8 \<Rightarrow> (size_t, circular_buffer_uint8) res" where
  "circular_buffer_delete_first_block_uint8 cb =
     (if iStart cb + cb_size cb > capacity cb then
        let toPop = capacity cb - iStart cb in
        bind_res (pop_front_times (unat toPop) cb) (\<lambda>_ cb. (Inr toPop, cb))
      else (Inr (cb_size cb), cb\<lparr>cb_size := 0, iStart := 0, iStop := 0\<rparr>))"

definition circular_buffer_push_back_block_uint8 ::
  "circular_buffer_uint8 \<Rightarrow> byte list \<Rightarrow> size_t \<Rightarrow> (unit, circular_buffer_uint8) res" where
  "circular_buffer_push_back_block_uint8 cb source src_size =
     for_each (\<lambda>iElement cb. bind_res (mem_read source (of_nat iElement), cb) (\<lambda>b cb.
       circular_buffer_push_back_uint8 cb b)) [0..<unat src_size] cb"

text \<open>\<^verbatim>\<open>pop_front_block\<close> changes the destination array as well, the first part of the state.\<close>

definition circular_buffer_pop_front_block_uint8 ::
  "circular_buffer_uint8 \<Rightarrow> byte list \<Rightarrow> size_t \<Rightarrow> (size_t, byte list \<times> circular_buffer_uint8) res" where
  "circular_buffer_pop_front_block_uint8 cb destination dest_size =
     (let outBlock = iStart cb;
          nBlock = (if iStart cb + cb_size cb > capacity cb then capacity cb - iStart cb else cb_size cb);
          nWritten = (if dest_size < nBlock then dest_size else nBlock) in
      bind_res (for_each (\<lambda>iByte (dest, cb).
          case bind_exc (mem_read (buffer cb) (outBlock + of_nat iByte)) (mem_write dest (of_nat iByte)) of
            Inl e \<Rightarrow> (Inl e, (dest, cb))
          | Inr dest' \<Rightarrow> (Inr (), (dest', cb)))
        [0..<unat nWritten] (destination, cb)) (\<lambda>_ (dest, cb).
      let cb = cb\<lparr>cb_size := cb_size cb - nWritten\<rparr> in
      (Inr nWritten, (dest,
        if cb_size cb = 0 then cb\<lparr>iStart := 0, iStop := 0\<rparr>
        else cb\<lparr>iStart := (iStart cb + nWritten) AND (capacity cb - 1)\<rparr>))))"

definition circular_buffer_clear_uint8 :: "circular_buffer_uint8 \<Rightarrow> circular_buffer_uint8" where
  "circular_buffer_clear_uint8 cb = cb\<lparr>cb_size := 0, iStart := 0, iStop := 0\<rparr>"

text \<open>
  \<^verbatim>\<open>push_back_string\<close> walks the characters up to the terminating 0; the string
  is the memory from the pointer on. It returns \<^verbatim>\<open>nPushed\<close>, which the loop
  never changes.
\<close>

fun push_back_string_loop ::
  "circular_buffer_uint8 \<Rightarrow> byte list \<Rightarrow> (unit, circular_buffer_uint8) res" where
  "push_back_string_loop cb [] = (Inl UB, cb)"
| "push_back_string_loop cb (c # string) =
     (if c = 0 then (Inr (), cb)
      else bind_res (circular_buffer_push_back_uint8 cb c) (\<lambda>_ cb. push_back_string_loop cb string))"

definition circular_buffer_push_back_string_uint8 ::
  "circular_buffer_uint8 \<Rightarrow> byte list \<Rightarrow> (size_t, circular_buffer_uint8) res" where
  "circular_buffer_push_back_string_uint8 cb string =
     bind_res (push_back_string_loop cb string) (\<lambda>_ cb. (Inr 0, cb))"

text \<open>
  \<^verbatim>\<open>get_blocks\<close>: the output arrays as a record, a block by the offset of its
  pointer from \<^verbatim>\<open>buffer\<close> (\<open>None\<close> for the null pointer).
\<close>

record cb_blocks =
  nBlocks :: nat
  block0 :: size_t
  block1 :: "size_t option"
  block_size0 :: size_t
  block_size1 :: size_t

definition circular_buffer_get_blocks_uint8 ::
  "circular_buffer_uint8 \<Rightarrow> size_t \<Rightarrow> size_t \<Rightarrow> cb_blocks exc" where
  "circular_buffer_get_blocks_uint8 cb start nElem =
     (if start + nElem > circular_buffer_get_size_uint8 cb then Inl (Throw ASC_ERROR_CB_OOB)
      else let wraps = iStart cb + start + nElem > capacity cb; b0 = iStart cb + start in
        if wraps then
          let n0 = capacity cb - iStart cb - start in
          Inr \<lparr>nBlocks = 2, block0 = b0, block1 = Some 0, block_size0 = n0, block_size1 = nElem - n0\<rparr>
        else Inr \<lparr>nBlocks = 1, block0 = b0, block1 = None, block_size0 = nElem, block_size1 = 0\<rparr>)"

end
