(* ===== verification/Byte_Queue.thy ===== *)
theory Byte_Queue
  imports Asc_Prelude
begin

text \<open>
  The interface of a bounded queue of bytes, as the framing code uses one: it pushes at the back,
  pops at the front, and a push into a full queue drops the oldest byte. The lemmas inside the
  locale are what its clients need: pushing a whole list, popping a number of bytes, reading a
  block. \<^verbatim>\<open>circular_buffer_uint8\<close> provides it.
\<close>

locale byte_queue =
  fixes invar :: "'q \<Rightarrow> bool"
    and content :: "'q \<Rightarrow> byte list"
    and bound :: "'q \<Rightarrow> nat"
    and push :: "'q \<Rightarrow> byte \<Rightarrow> (unit, 'q) res"
    and pop :: "'q \<Rightarrow> (byte, 'q) res"
  assumes bounded: "invar q \<Longrightarrow> length (content q) \<le> bound q"
    and bound_pos: "invar q \<Longrightarrow> 0 < bound q"
    and push_ok: "invar q \<Longrightarrow> fst (push q x) = Inr ()"
    and push_invar: "invar q \<Longrightarrow> invar (snd (push q x))"
    and push_bound: "invar q \<Longrightarrow> bound (snd (push q x)) = bound q"
    and push_content: "invar q \<Longrightarrow> content (snd (push q x)) =
          (if length (content q) = bound q then tl (content q) else content q) @ [x]"
    and pop_ok: "invar q \<Longrightarrow> content q \<noteq> [] \<Longrightarrow> fst (pop q) = Inr (hd (content q))"
    and pop_invar: "invar q \<Longrightarrow> content q \<noteq> [] \<Longrightarrow> invar (snd (pop q))"
    and pop_bound: "invar q \<Longrightarrow> content q \<noteq> [] \<Longrightarrow> bound (snd (pop q)) = bound q"
    and pop_content: "invar q \<Longrightarrow> content q \<noteq> [] \<Longrightarrow> content (snd (pop q)) = tl (content q)"
    and pop_empty: "invar q \<Longrightarrow> content q = [] \<Longrightarrow> pop q = (Inl (Throw ASC_ERROR_CB_POP_EMPTY), q)"
begin

lemma push_all:
  assumes "invar q"
  shows "fst (for_each (\<lambda>x q. push q x) xs q) = Inr ()"
    and "invar (snd (for_each (\<lambda>x q. push q x) xs q))"
    and "bound (snd (for_each (\<lambda>x q. push q x) xs q)) = bound q"
    and "content (snd (for_each (\<lambda>x q. push q x) xs q)) =
      drop (length (content q) + length xs - bound q) (content q @ xs)"
proof -
  have "fst (for_each (\<lambda>x q. push q x) xs q) = Inr () \<and> invar (snd (for_each (\<lambda>x q. push q x) xs q))
    \<and> bound (snd (for_each (\<lambda>x q. push q x) xs q)) = bound q
    \<and> content (snd (for_each (\<lambda>x q. push q x) xs q)) =
      drop (length (content q) + length xs - bound q) (content q @ xs)"
    using assms
  proof (induction xs arbitrary: q)
    case Nil
    then show ?case using bounded [of q] by simp
  next
    case (Cons x xs)
    let ?q = "snd (push q x)"
    have IH: "invar ?q \<Longrightarrow> fst (for_each (\<lambda>x q. push q x) xs ?q) = Inr ()
      \<and> invar (snd (for_each (\<lambda>x q. push q x) xs ?q))
      \<and> bound (snd (for_each (\<lambda>x q. push q x) xs ?q)) = bound ?q
      \<and> content (snd (for_each (\<lambda>x q. push q x) xs ?q)) =
        drop (length (content ?q) + length xs - bound ?q) (content ?q @ xs)"
      by (rule Cons.IH)
    have "drop (length (content ?q) + length xs - bound ?q) (content ?q @ xs) =
      drop (length (content q) + length (x # xs) - bound q) (content q @ x # xs)"
    proof (cases "length (content q) = bound q")
      case True
      with Cons.prems bound_pos [of q] obtain y ys where "content q = y # ys"
        by (cases "content q") auto
      then show ?thesis using True Cons.prems by (simp add: push_content push_bound flip: True)
    next
      case False
      then show ?thesis using Cons.prems by (simp add: push_content push_bound)
    qed
    then show ?case using IH Cons.prems by (simp add: push_ok push_invar push_bound)
  qed
  then show "fst (for_each (\<lambda>x q. push q x) xs q) = Inr ()"
    "invar (snd (for_each (\<lambda>x q. push q x) xs q))"
    "bound (snd (for_each (\<lambda>x q. push q x) xs q)) = bound q"
    "content (snd (for_each (\<lambda>x q. push q x) xs q)) =
      drop (length (content q) + length xs - bound q) (content q @ xs)" by auto
qed

lemma push_all_room:
  assumes "invar q" and "length (content q) + length xs \<le> bound q"
  shows "content (snd (for_each (\<lambda>x q. push q x) xs q)) = content q @ xs"
  using push_all(4) [OF assms(1), of xs] assms(2) by simp

lemma pop_times:
  assumes "invar q"
  shows "fst (for_each (\<lambda>_ q. discard (pop q)) [0..<n] q) =
      (if n \<le> length (content q) then Inr () else Inl (Throw ASC_ERROR_CB_POP_EMPTY))"
    and "invar (snd (for_each (\<lambda>_ q. discard (pop q)) [0..<n] q))"
    and "bound (snd (for_each (\<lambda>_ q. discard (pop q)) [0..<n] q)) = bound q"
    and "content (snd (for_each (\<lambda>_ q. discard (pop q)) [0..<n] q)) = drop n (content q)"
proof -
  let ?loop = "\<lambda>n. for_each (\<lambda>_ q. discard (pop q)) [0..<n] q"
  have "fst (?loop n) = (if n \<le> length (content q) then Inr () else Inl (Throw ASC_ERROR_CB_POP_EMPTY))
    \<and> invar (snd (?loop n)) \<and> bound (snd (?loop n)) = bound q \<and> content (snd (?loop n)) = drop n (content q)"
  proof (induction n)
    case 0
    then show ?case using assms by simp
  next
    case (Suc n)
    have step: "?loop (Suc n) = bind_res (?loop n) (\<lambda>_ q. bind_res (discard (pop q)) (\<lambda>_ q. (Inr (), q)))"
      by (simp add: for_each_append)
    consider "Suc n \<le> length (content q)" | "n = length (content q)" | "length (content q) < n"
      by linarith
    then show ?case
    proof cases
      case 1
      then have ne: "content (snd (?loop n)) \<noteq> []" using Suc by simp
      then show ?thesis using Suc 1
        by (simp add: step pop_ok [OF _ ne] pop_invar [OF _ ne] pop_bound [OF _ ne] pop_content [OF _ ne]
            tl_drop drop_Suc del: upt_Suc)
    next
      case 2
      then have l: "n \<le> length (content q)" "\<not> Suc n \<le> length (content q)"
        "drop n (content q) = []" "drop (Suc n) (content q) = []" by simp_all
      then have "pop (snd (?loop n)) = (Inl (Throw ASC_ERROR_CB_POP_EMPTY), snd (?loop n))"
        using Suc by (intro pop_empty) simp_all
      then show ?thesis using Suc by (simp add: step l del: upt_Suc)
    next
      case 3
      then show ?thesis using Suc by (simp add: step del: upt_Suc)
    qed
  qed
  then show "fst (?loop n) = (if n \<le> length (content q) then Inr () else Inl (Throw ASC_ERROR_CB_POP_EMPTY))"
    "invar (snd (?loop n))" "bound (snd (?loop n)) = bound q" "content (snd (?loop n)) = drop n (content q)"
    by auto
qed

end

end
