(* ===== verification/Circular_Buffer_Spec.thy ===== *)
theory Circular_Buffer_Spec
  imports Circular_Buffer Byte_Queue
begin

text \<open>
  The circular buffer as a list: the invariant that holds between its fields, the list of its
  elements, and for every operation what it does to that list. Under the invariant no operation
  touches memory outside the array.
\<close>

section \<open>Invariant and abstraction\<close>

definition cb_wf :: "circular_buffer_uint8 \<Rightarrow> bool" where
  "cb_wf cb \<longleftrightarrow> isPowerOfTwo (capacity cb) \<and> length (buffer cb) = unat (capacity cb)
     \<and> unat (cb_size cb) \<le> unat (capacity cb) \<and> unat (iStart cb) < unat (capacity cb)
     \<and> unat (iStop cb) = (unat (iStart cb) + unat (cb_size cb)) mod unat (capacity cb)"

definition cb_list :: "circular_buffer_uint8 \<Rightarrow> byte list" where
  "cb_list cb = ring (buffer cb) (unat (iStart cb)) (unat (cb_size cb))"

definition cb_cap :: "circular_buffer_uint8 \<Rightarrow> nat" where
  "cb_cap cb = unat (capacity cb)"

lemma length_cb_list [simp]: "length (cb_list cb) = unat (cb_size cb)"
  by (simp add: cb_list_def)

lemma cb_list_Nil_iff [simp]: "cb_list cb = [] \<longleftrightarrow> cb_size cb = 0"
  by (metis length_0_conv length_cb_list unsigned_0 unat_eq_zero)

lemma cb_wf_size: "cb_wf cb \<Longrightarrow> length (cb_list cb) \<le> cb_cap cb"
  by (simp add: cb_wf_def cb_cap_def)

section \<open>Powers of two and masks\<close>

lemma isPowerOfTwo_iff: "isPowerOfTwo x \<longleftrightarrow> (\<exists>k<64. x = 2 ^ k)"
proof
  assume p: "isPowerOfTwo x"
  then have x0: "x \<noteq> 0" by (simp add: isPowerOfTwo_def)
  then have nz: "unat x \<ge> 1" by (simp add: Suc_le_eq unat_gt_0)
  have "NOT x + 1 = - x" by (simp add: not_eq_complement)
  then have "x AND NOT (x - 1) = x" using p by (simp add: isPowerOfTwo_def not_eq_complement)
  then have z: "\<not> (bit x i \<and> bit (x - 1) i)" for i
    by (metis bit_and_iff bit_not_iff)
  obtain n where n: "2 ^ n \<le> unat x" "unat x < 2 ^ (n + 1)"
    using ex_power_ivl1 [of 2 "unat x"] nz by auto
  have "(2::nat) ^ n < 2 ^ 64" using le_less_trans [OF n(1) unat_less_64] by simp
  then have n64: "n < 64" by (rule power_less_imp_less_exp [rotated]) simp
  have "unat x = 2 ^ n"
  proof (rule ccontr)
    assume "unat x \<noteq> 2 ^ n"
    then have "bit (x - 1) n"
      using n x0 by (intro bit_top) (simp_all add: unat_dec_64)
    then show False using z bit_top [OF n] by blast
  qed
  moreover have "x = word_of_nat (unat x)" by simp
  ultimately have "x = 2 ^ n" by (metis of_nat_numeral of_nat_power)
  then show "\<exists>k<64. x = 2 ^ k" using n64 by blast
next
  assume "\<exists>k<64. x = 2 ^ k"
  then obtain k where k: "k < 64" "x = 2 ^ k" by blast
  have m: "x - 1 = mask k" using k by (simp add: mask_eq_decr_exp)
  have "x AND NOT (x - 1) = x" unfolding m
    unfolding k(2) by (rule bit_eqI) (auto simp: bit_simps)
  moreover have "NOT x + 1 = NOT (x - 1)" by (simp add: not_eq_complement)
  moreover have "x \<noteq> 0" using k by auto
  ultimately show "isPowerOfTwo x" by (simp add: isPowerOfTwo_def)
qed

lemma mask_mod:
  assumes "isPowerOfTwo c"
  shows "unat (x AND (c - 1)) = unat x mod unat c"
proof -
  obtain k where k: "k < 64" "c = 2 ^ k" using assms isPowerOfTwo_iff by blast
  have "c - 1 = mask k" using k by (simp add: mask_eq_decr_exp)
  then have "x AND (c - 1) = take_bit k x" by (simp add: take_bit_eq_mask)
  moreover have "unat c = 2 ^ k" using k 
    using k unat_of_nat_64 [of "2 ^ k"] power_strict_increasing [of k 64 "2::nat"] by simp
  moreover have "unat (take_bit k x) = unat x mod 2 ^ k"
  proof -
    have "unat (take_bit k x) = take_bit k (unat x)" by (rule unsigned_take_bit_eq)
    then show ?thesis by (simp only: take_bit_nat_def)
  qed
  ultimately show ?thesis by simp
qed
lemma power_of_two_bound:
  assumes "isPowerOfTwo c"
  shows "0 < unat c" and "unat c \<le> 9223372036854775808"
proof -
  obtain k where k: "k < 64" "c = 2 ^ k" using assms isPowerOfTwo_iff by blast
  have "unat c = 2 ^ k"
    using k unat_of_nat_64 [of "2 ^ k"] power_strict_increasing [of k 64 "2::nat"] by simp
  moreover have "(2::nat) ^ k \<le> 2 ^ 63" using k by (intro power_increasing) auto
  ultimately show "0 < unat c" "unat c \<le> 9223372036854775808" by simp_all
qed

text \<open>Adding two indices below the capacity does not wrap around.\<close>

lemma mask_add:
  assumes "isPowerOfTwo c" and "unat x < unat c" and "unat y \<le> unat c"
  shows "unat ((x + y) AND (c - 1)) = (unat x + unat y) mod unat c"
proof -
  have "unat x + unat y < 18446744073709551616"
    using assms power_of_two_bound [of c] by linarith
  then have "unat (x + y) = unat x + unat y" by (simp add: unat_word_ariths)
  then show ?thesis using assms by (simp add: mask_mod)
qed

lemma mask_pred:
  assumes "isPowerOfTwo c" and "unat x < unat c"
  shows "unat (if x = 0 then c - 1 else (x - 1) AND (c - 1)) = (unat x + (unat c - 1)) mod unat c"
proof (cases "x = 0")
  case True
  then show ?thesis using power_of_two_bound [OF assms(1)] by (simp add: unat_dec_64 unat_gt_0)
next
  case False
  then have "unat ((x - 1) AND (c - 1)) = unat x - 1"
    using assms by (simp add: mask_mod unat_dec_64)
  moreover have "(unat x + (unat c - 1)) mod unat c = unat x - 1"
  proof -
    have "unat x + (unat c - 1) = (unat x - 1) + unat c"
      using False assms unat_gt_0 [of x] by linarith
    then have "(unat x + (unat c - 1)) mod unat c = (unat x - 1) mod unat c"
      by (simp only: mod_add_self2)
    then show ?thesis using assms by simp
  qed
  ultimately show ?thesis using False by simp
qed

section \<open>Push and pop\<close>

lemma push_back_explicit:
  assumes wf: "cb_wf cb"
  shows "circular_buffer_push_back_uint8 cb x =
    (Inr (), cb\<lparr>buffer := (buffer cb)[unat (iStop cb) := x],
       iStop := (iStop cb + 1) AND (capacity cb - 1),
       iStart := (if cb_size cb = capacity cb then (iStart cb + 1) AND (capacity cb - 1) else iStart cb),
       cb_size := (if cb_size cb = capacity cb then cb_size cb else cb_size cb + 1)\<rparr>)"
proof -
  have "unat (iStop cb) < length (buffer cb)"
    using wf power_of_two_bound [of "capacity cb"] by (simp add: cb_wf_def)
  then show ?thesis
    by (simp add: circular_buffer_push_back_uint8_def write_buffer_def inc_iStop_uint8_def
        inc_iStart_uint8_def)
qed

text \<open>The facts of the invariant on naturals, and the two ways an index moves.\<close>

lemma cb_wfD:
  assumes "cb_wf cb"
  shows "isPowerOfTwo (capacity cb)" and "length (buffer cb) = unat (capacity cb)"
    and "unat (cb_size cb) \<le> unat (capacity cb)" and "unat (iStart cb) < unat (capacity cb)"
    and "unat (iStop cb) = (unat (iStart cb) + unat (cb_size cb)) mod unat (capacity cb)"
    and "unat (iStop cb) < unat (capacity cb)" and "0 < unat (capacity cb)"
  using assms by (auto simp: cb_wf_def intro!: mod_less_divisor power_of_two_bound)

lemma cb_wfI:
  assumes "isPowerOfTwo (capacity cb)" and "length (buffer cb) = unat (capacity cb)"
    and "unat (cb_size cb) \<le> unat (capacity cb)" and "unat (iStart cb) < unat (capacity cb)"
    and "unat (iStop cb) = (unat (iStart cb) + unat (cb_size cb)) mod unat (capacity cb)"
  shows "cb_wf cb"
  using assms by (simp add: cb_wf_def)

lemma full_iff: "cb_size cb = capacity cb \<longleftrightarrow> unat (cb_size cb) = unat (capacity cb)"
  by (simp add: word_unat_eq_iff)

lemma size_Suc:
  "unat (cb_size cb) < unat (capacity cb) \<Longrightarrow> unat (cb_size cb + 1) = Suc (unat (cb_size cb))"
  by (rule unat_Suc_64)

lemma index_inc:
  assumes "isPowerOfTwo c" and "unat x < unat c"
  shows "unat ((x + 1) AND (c - 1)) = Suc (unat x) mod unat c"
proof -
  have "unat (1 :: size_t) \<le> unat c" using power_of_two_bound [OF assms(1)] by simp
  from mask_add [OF assms this] show ?thesis by simp
qed

lemma push_back_wf_list:
  assumes wf: "cb_wf cb"
  shows "cb_wf (snd (circular_buffer_push_back_uint8 cb x))" (is "cb_wf ?cb")
    and "cb_list (snd (circular_buffer_push_back_uint8 cb x)) =
      (if length (cb_list cb) = cb_cap cb then tl (cb_list cb) else cb_list cb) @ [x]"
proof -
  let ?c = "unat (capacity cb)" and ?s = "unat (iStart cb)" and ?n = "unat (cb_size cb)"
  note w = cb_wfD [OF wf]
  note p = push_back_explicit [OF wf, of x]
  have stop: "unat ((iStop cb + 1) AND (capacity cb - 1)) = Suc (?s + ?n) mod ?c"
    using index_inc [OF w(1,6)] by (simp add: w(5) mod_Suc_eq)
  have start: "unat ((iStart cb + 1) AND (capacity cb - 1)) = Suc ?s mod ?c"
    using index_inc [OF w(1,4)] .
  have "cb_wf ?cb \<and> cb_list ?cb = (if length (cb_list cb) = cb_cap cb then tl (cb_list cb) else cb_list cb) @ [x]"
  proof (cases "?n = ?c")
    case True
    then have full: "cb_size cb = capacity cb" by (simp add: full_iff)
    have cb: "?cb = cb\<lparr>buffer := (buffer cb)[unat (iStop cb) := x],
      iStop := (iStop cb + 1) AND (capacity cb - 1), iStart := (iStart cb + 1) AND (capacity cb - 1)\<rparr>"
      by (simp add: p full)
    have "Suc (?s + ?c) mod ?c = (Suc ?s mod ?c + ?c) mod ?c"
      by (metis add_Suc mod_add_self2 mod_mod_trivial)
    then have 1: "cb_wf ?cb"
      unfolding cb by (intro cb_wfI) (simp_all add: w(1,2,7) True stop start)
    have i: "unat (iStop cb) = ?s mod length (buffer cb)" using w(5) True w(2) by simp
    have "cb_list ?cb = ring ((buffer cb)[unat (iStop cb) := x]) (Suc ?s mod ?c) ?c"
      unfolding cb by (simp add: cb_list_def start True)
    also have "\<dots> = ring ((buffer cb)[?s mod length (buffer cb) := x]) (Suc ?s) ?c"
      using ring_mod [of "(buffer cb)[?s mod length (buffer cb) := x]" "Suc ?s" ?c] by (simp add: i w(2))
    also have "\<dots> = tl (cb_list cb) @ [x]"
      using ring_push_back_full [of "buffer cb" ?s x] w(2,7) by (simp add: cb_list_def True)
    finally show ?thesis using 1 True by (simp add: cb_cap_def)
  next
    case False
    then have lt: "?n < ?c" and nf: "cb_size cb \<noteq> capacity cb" using w(3) by (auto simp: full_iff)
    have cb: "?cb = cb\<lparr>buffer := (buffer cb)[unat (iStop cb) := x],
      iStop := (iStop cb + 1) AND (capacity cb - 1), cb_size := cb_size cb + 1\<rparr>"
      by (simp add: p nf)
    have 1: "cb_wf ?cb"
      unfolding cb using lt by (intro cb_wfI) (simp_all add: w stop size_Suc)
    have "cb_list ?cb = cb_list cb @ [x]"
      unfolding cb using ring_push_back [of ?n "buffer cb" ?s x] lt
      by (simp add: cb_list_def w(2,5) size_Suc)
    then show ?thesis using 1 False by (simp add: cb_cap_def)
  qed
  then show "cb_wf ?cb" and "cb_list ?cb =
      (if length (cb_list cb) = cb_cap cb then tl (cb_list cb) else cb_list cb) @ [x]" by blast+
qed

lemma push_back_ok: "cb_wf cb \<Longrightarrow> fst (circular_buffer_push_back_uint8 cb x) = Inr ()"
  by (simp add: push_back_explicit)

lemma push_back_cap: "cb_wf cb \<Longrightarrow> cb_cap (snd (circular_buffer_push_back_uint8 cb x)) = cb_cap cb"
  by (simp add: push_back_explicit cb_cap_def)

lemma pop_front_empty:
  "cb_size cb = 0 \<Longrightarrow> circular_buffer_pop_front_uint8 cb = (Inl (Throw ASC_ERROR_CB_POP_EMPTY), cb)"
  by (simp add: circular_buffer_pop_front_uint8_def)

lemma pop_front_explicit:
  assumes wf: "cb_wf cb" and ne: "cb_size cb \<noteq> 0"
  shows "circular_buffer_pop_front_uint8 cb =
    (Inr (hd (cb_list cb)), cb\<lparr>iStart := (iStart cb + 1) AND (capacity cb - 1), cb_size := cb_size cb - 1\<rparr>)"
proof -
  note w = cb_wfD [OF wf]
  obtain m where m: "unat (cb_size cb) = Suc m" using ne by (metis not0_implies_Suc unat_eq_zero)
  have "hd (cb_list cb) = buffer cb ! unat (iStart cb)"
    using w(2,4) by (simp add: cb_list_def m ring_Suc_front)
  then show ?thesis using ne w(2,4)
    by (simp add: circular_buffer_pop_front_uint8_def inc_iStart_uint8_def)
qed

lemma pop_front_refines:
  assumes wf: "cb_wf cb" and ne: "cb_size cb \<noteq> 0"
  shows pop_front_ok: "fst (circular_buffer_pop_front_uint8 cb) = Inr (hd (cb_list cb))"
    and pop_front_wf: "cb_wf (snd (circular_buffer_pop_front_uint8 cb))"
    and pop_front_cap: "cb_cap (snd (circular_buffer_pop_front_uint8 cb)) = cb_cap cb"
    and pop_front_list: "cb_list (snd (circular_buffer_pop_front_uint8 cb)) = tl (cb_list cb)"
proof -
  note w = cb_wfD [OF wf]
  note p = pop_front_explicit [OF wf ne]
  obtain m where m: "unat (cb_size cb) = Suc m" using ne by (metis not0_implies_Suc unat_eq_zero)
  have dec: "unat (cb_size cb - 1) = m" using ne m by (simp add: unat_dec_64)
  have start: "unat ((iStart cb + 1) AND (capacity cb - 1)) = Suc (unat (iStart cb)) mod unat (capacity cb)"
    using index_inc [OF w(1,4)] .
  show "fst (circular_buffer_pop_front_uint8 cb) = Inr (hd (cb_list cb))"
    "cb_cap (snd (circular_buffer_pop_front_uint8 cb)) = cb_cap cb"
    by (simp_all add: p cb_cap_def)
  have "unat (iStop cb) = (Suc (unat (iStart cb)) mod unat (capacity cb) + m) mod unat (capacity cb)"
    using w(5) by (simp add: m mod_add_left_eq)
  then show "cb_wf (snd (circular_buffer_pop_front_uint8 cb))"
    using w(1,2,3,7) m by (auto simp: p dec start intro!: cb_wfI)
  show "cb_list (snd (circular_buffer_pop_front_uint8 cb)) = tl (cb_list cb)"
    using ring_mod [of "buffer cb" "Suc (unat (iStart cb))" m]
    by (simp add: p cb_list_def dec start m ring_Suc_front w(2))
qed

lemma pop_back_empty:
  "cb_size cb = 0 \<Longrightarrow> circular_buffer_pop_back_uint8 cb = (Inl (Throw ASC_ERROR_CB_POP_EMPTY), cb)"
  by (simp add: circular_buffer_pop_back_uint8_def)

lemma index_dec:
  assumes "isPowerOfTwo c" and "unat x < unat c"
  shows "unat (if x = 0 then c - 1 else (x - 1) AND (c - 1)) = (unat x + (unat c - 1)) mod unat c"
  using mask_pred [OF assms] .

lemma dec_iStop_explicit:
  "dec_iStop_uint8 cb = cb\<lparr>iStop := (if iStop cb = 0 then capacity cb - 1 else (iStop cb - 1) AND (capacity cb - 1))\<rparr>"
  by (simp add: dec_iStop_uint8_def)

lemma dec_iStart_explicit:
  "dec_iStart_uint8 cb = cb\<lparr>iStart := (if iStart cb = 0 then capacity cb - 1 else (iStart cb - 1) AND (capacity cb - 1))\<rparr>"
  by (simp add: dec_iStart_uint8_def)

lemma mod_dec_after:
  assumes "0 < (c :: nat)"
  shows "((s + Suc m) mod c + (c - 1)) mod c = (s + m) mod c"
proof -
  have "((s + Suc m) mod c + (c - 1)) mod c = (s + Suc m + (c - 1)) mod c" by (rule mod_add_left_eq)
  also have "s + Suc m + (c - 1) = (s + m) + c" using assms by simp
  finally show ?thesis by simp
qed

lemma pop_back_refines:
  assumes wf: "cb_wf cb" and ne: "cb_size cb \<noteq> 0"
  shows pop_back_ok: "fst (circular_buffer_pop_back_uint8 cb) = Inr (last (cb_list cb))"
    and pop_back_wf: "cb_wf (snd (circular_buffer_pop_back_uint8 cb))"
    and pop_back_cap: "cb_cap (snd (circular_buffer_pop_back_uint8 cb)) = cb_cap cb"
    and pop_back_list: "cb_list (snd (circular_buffer_pop_back_uint8 cb)) = butlast (cb_list cb)"
proof -
  note w = cb_wfD [OF wf]
  obtain m where m: "unat (cb_size cb) = Suc m" using ne by (metis not0_implies_Suc unat_eq_zero)
  have dec: "unat (cb_size cb - 1) = m" using ne m by (simp add: unat_dec_64)
  let ?stop = "if iStop cb = 0 then capacity cb - 1 else (iStop cb - 1) AND (capacity cb - 1)"
  have stop: "unat ?stop = (unat (iStart cb) + m) mod unat (capacity cb)"
    using index_dec [OF w(1,6)] mod_dec_after [OF w(7)] by (simp only: w(5) m)
  have p: "circular_buffer_pop_back_uint8 cb =
    (mem_read (buffer cb) ?stop, cb\<lparr>iStop := ?stop, cb_size := cb_size cb - 1\<rparr>)"
    using ne by (simp add: circular_buffer_pop_back_uint8_def dec_iStop_explicit Let_def)
  have lt: "unat ?stop < length (buffer cb)" unfolding stop w(2) using w(7) by simp
  have l: "cb_list cb = ring (buffer cb) (unat (iStart cb)) m @ [buffer cb ! unat ?stop]"
    unfolding stop by (simp add: cb_list_def m ring_Suc_back w(2))
  show "fst (circular_buffer_pop_back_uint8 cb) = Inr (last (cb_list cb))"
    unfolding p mem_read_ok [OF lt] l by simp
  show "cb_cap (snd (circular_buffer_pop_back_uint8 cb)) = cb_cap cb"
    by (simp add: p cb_cap_def)
  show "cb_wf (snd (circular_buffer_pop_back_uint8 cb))"
    using w(1,2,3,4) m unfolding p by (intro cb_wfI) (simp_all add: dec stop del: if_split)
  show "cb_list (snd (circular_buffer_pop_back_uint8 cb)) = butlast (cb_list cb)"
    by (simp add: p l, simp add: cb_list_def dec)
qed

lemma push_front_refines:
  assumes wf: "cb_wf cb"
  shows push_front_ok: "fst (circular_buffer_push_front_uint8 cb x) = Inr ()"
    and push_front_wf: "cb_wf (snd (circular_buffer_push_front_uint8 cb x))"
    and push_front_cap: "cb_cap (snd (circular_buffer_push_front_uint8 cb x)) = cb_cap cb"
    and push_front_list: "cb_list (snd (circular_buffer_push_front_uint8 cb x)) =
      x # (if length (cb_list cb) = cb_cap cb then butlast (cb_list cb) else cb_list cb)"
proof -
  note w = cb_wfD [OF wf]
  let ?c = "unat (capacity cb)" and ?s = "unat (iStart cb)" and ?n = "unat (cb_size cb)"
  let ?start = "if iStart cb = 0 then capacity cb - 1 else (iStart cb - 1) AND (capacity cb - 1)"
  let ?stop = "if iStop cb = 0 then capacity cb - 1 else (iStop cb - 1) AND (capacity cb - 1)"
  have start: "unat ?start = (?s + (?c - 1)) mod ?c" using index_dec [OF w(1,4)] .
  have lt: "unat ?start < length (buffer cb)" unfolding start w(2) using w(7) by simp
  have step: "Suc (unat ?start) mod ?c = ?s"
  proof -
    have "Suc (unat ?start) mod ?c = Suc (?s + (?c - 1)) mod ?c" unfolding start by (simp only: mod_Suc_eq)
    also have "Suc (?s + (?c - 1)) = ?s + ?c" using w(7) by simp
    finally show ?thesis using w(4) by simp
  qed
  have p: "circular_buffer_push_front_uint8 cb x = (Inr (), if cb_size cb = capacity cb
      then cb\<lparr>iStart := ?start, buffer := (buffer cb)[unat ?start := x], iStop := ?stop\<rparr>
      else cb\<lparr>iStart := ?start, buffer := (buffer cb)[unat ?start := x], cb_size := cb_size cb + 1\<rparr>)"
    unfolding circular_buffer_push_front_uint8_def dec_iStart_explicit Let_def dec_iStop_explicit write_buffer_def
    using mem_write_ok [OF lt, of x] by (simp del: if_split)
  show "fst (circular_buffer_push_front_uint8 cb x) = Inr ()"
    "cb_cap (snd (circular_buffer_push_front_uint8 cb x)) = cb_cap cb"
    by (simp_all add: p cb_cap_def)
  have r: "ring ((buffer cb)[unat ?start := x]) (unat ?start) (Suc m) = x # ring (buffer cb) ?s m"
    if "m < ?c" for m
  proof -
    have "unat ?start mod length (buffer cb) = unat ?start" using lt by simp
    then show ?thesis using ring_push_front [of m "buffer cb" "unat ?start" x] that
        ring_mod [of "buffer cb" "Suc (unat ?start)" m] by (simp only: w(2) step)
  qed
  have "cb_wf (snd (circular_buffer_push_front_uint8 cb x)) \<and>
    cb_list (snd (circular_buffer_push_front_uint8 cb x)) =
      x # (if length (cb_list cb) = cb_cap cb then butlast (cb_list cb) else cb_list cb)"
  proof (cases "?n = ?c")
    case True
    then obtain m where m: "?c = Suc m" using w(7) by (metis gr0_implies_Suc)
    have stop: "unat ?stop = unat ?start"
      using index_dec [OF w(1,6)] start w(4,5) by (simp only: True mod_add_self2 mod_add_left_eq)
    have q: "snd (circular_buffer_push_front_uint8 cb x) =
       cb\<lparr>iStart := ?start, buffer := (buffer cb)[unat ?start := x], iStop := ?stop\<rparr>"
      using True by (simp add: p full_iff del: if_split)
    have 1: "cb_wf (snd (circular_buffer_push_front_uint8 cb x))"
      unfolding q using lt w(1,2) True by (intro cb_wfI) (simp_all add: stop del: if_split)
    have "cb_list (snd (circular_buffer_push_front_uint8 cb x)) = x # ring (buffer cb) ?s m"
      unfolding q using r [of m] by (simp add: cb_list_def True m del: if_split)
    then show ?thesis using 1 True by (simp add: cb_list_def cb_cap_def m ring_Suc_back del: if_split)
  next
    case False
    then have l: "?n < ?c" using w(3) by simp
    have q: "snd (circular_buffer_push_front_uint8 cb x) =
       cb\<lparr>iStart := ?start, buffer := (buffer cb)[unat ?start := x], cb_size := cb_size cb + 1\<rparr>"
      using False by (simp add: p full_iff del: if_split)
    have "unat (iStop cb) = (unat ?start + Suc ?n) mod ?c"
      unfolding w(5) by (metis add_Suc_shift step mod_add_left_eq)
    then have 1: "cb_wf (snd (circular_buffer_push_front_uint8 cb x))"
      unfolding q using lt w(1,2) l by (intro cb_wfI) (simp_all add: size_Suc del: if_split)
    have "cb_list (snd (circular_buffer_push_front_uint8 cb x)) = x # cb_list cb"
      unfolding q using r [OF l] l by (simp add: cb_list_def size_Suc del: if_split)
    then show ?thesis using 1 False by (simp add: cb_cap_def)
  qed
  then show "cb_wf (snd (circular_buffer_push_front_uint8 cb x))"
    "cb_list (snd (circular_buffer_push_front_uint8 cb x)) =
      x # (if length (cb_list cb) = cb_cap cb then butlast (cb_list cb) else cb_list cb)" by blast+
qed

section \<open>The circular buffer is a bounded byte queue\<close>

interpretation cbq: byte_queue cb_wf cb_list cb_cap
  circular_buffer_push_back_uint8 circular_buffer_pop_front_uint8
proof unfold_locales
  fix q :: circular_buffer_uint8 and x
  assume wf: "cb_wf q"
  show "length (cb_list q) \<le> cb_cap q" using wf by (rule cb_wf_size)
  show "0 < cb_cap q" using cb_wfD(7) [OF wf] by (simp add: cb_cap_def)
  show "fst (circular_buffer_push_back_uint8 q x) = Inr ()" using wf by (rule push_back_ok)
  show "cb_wf (snd (circular_buffer_push_back_uint8 q x))" using wf by (rule push_back_wf_list)
  show "cb_cap (snd (circular_buffer_push_back_uint8 q x)) = cb_cap q" using wf by (rule push_back_cap)
  show "cb_list (snd (circular_buffer_push_back_uint8 q x)) =
    (if length (cb_list q) = cb_cap q then tl (cb_list q) else cb_list q) @ [x]"
    using wf by (rule push_back_wf_list)
qed (simp_all add: pop_front_refines pop_front_empty)

lemmas pop_front_times_refines =
  cbq.pop_times [folded pop_front_times_def]

section \<open>Reading\<close>

lemma mask_index:
  assumes wf: "cb_wf cb" and i: "unat i \<le> unat (capacity cb)"
  shows "unat ((iStart cb + i) AND (capacity cb - 1)) = (unat (iStart cb) + unat i) mod unat (capacity cb)"
  using mask_add [OF cb_wfD(1,4) [OF wf] i] .

lemma get_element_refines:
  assumes wf: "cb_wf cb"
  shows "circular_buffer_get_element_uint8 cb i =
    (if unat i < length (cb_list cb) then Inr (cb_list cb ! unat i) else Inl (Throw ASC_ERROR_CB_OOB))"
proof (cases "unat i < unat (cb_size cb)")
  case True
  note w = cb_wfD [OF wf]
  have "unat i \<le> unat (capacity cb)" using True w(3) by simp
  from mask_index [OF wf this] show ?thesis using True w(2,7)
    by (simp add: circular_buffer_get_element_uint8_def circular_buffer_get_size_uint8_def
        word_le_nat_alt cb_list_def nth_ring)
next
  case False
  then show ?thesis
    by (simp add: circular_buffer_get_element_uint8_def circular_buffer_get_size_uint8_def word_le_nat_alt)
qed

text \<open>The index of the first and of the last occurrence, the length where there is none.\<close>

definition first_index :: "'a list \<Rightarrow> 'a \<Rightarrow> nat" where
  "first_index xs v = length (takeWhile (\<lambda>x. x \<noteq> v) xs)"

definition last_index :: "'a list \<Rightarrow> 'a \<Rightarrow> nat" where
  "last_index xs v = (if v \<in> set xs then length xs - 1 - first_index (rev xs) v else length xs)"

lemma first_index_le: "first_index xs v \<le> length xs"
  by (simp add: first_index_def length_takeWhile_le)

lemma first_index_less_iff: "first_index xs v < length xs \<longleftrightarrow> v \<in> set xs"
  unfolding first_index_def
  by (induction xs) auto

lemma first_index_append:
  "first_index (xs @ ys) v = (if v \<in> set xs then first_index xs v else length xs + first_index ys v)"
  by (induction xs) (auto simp: first_index_def)

lemma nth_first_index: "v \<in> set xs \<Longrightarrow> xs ! first_index xs v = v"
  unfolding first_index_def by (induction xs) auto

lemma last_index_append:
  "last_index (xs @ ys) v = (if v \<in> set ys then length xs + last_index ys v
     else if v \<in> set xs then last_index xs v else length xs + length ys)"
proof -
  have "first_index (rev ys) v < length ys" if "v \<in> set ys"
    using first_index_less_iff [of "rev ys" v] that by simp
  then show ?thesis by (auto simp: last_index_def first_index_append)
qed

lemma last_index_less_iff: "last_index xs v < length xs \<longleftrightarrow> v \<in> set xs"
  by (cases xs) (auto simp: last_index_def)

lemma last_index_le: "last_index xs v \<le> length xs"
  by (simp add: last_index_def)

declare find_first_from.simps [simp del] and find_last_from.simps [simp del]
declare circular_buffer_remove_front_to_uint8.simps [simp del]
  and circular_buffer_remove_back_to_uint8.simps [simp del]

lemma find_first_from_refines:
  assumes wf: "cb_wf cb" and i: "unat i \<le> length (cb_list cb)"
  shows "find_first_from cb v i = Inr (of_nat (unat i + first_index (drop (unat i) (cb_list cb)) v))"
  using i
proof (induction "unat (cb_size cb) - unat i" arbitrary: i)
  case 0
  then have "unat i = unat (cb_size cb)" by simp
  then show ?case by (simp add: find_first_from.simps [of cb v i] word_less_nat_alt first_index_def)
next
  case (Suc k)
  then have l: "unat i < length (cb_list cb)" by simp
  then have s: "unat (i + 1) = Suc (unat i)" by (simp add: unat_Suc_64 [of i "cb_size cb"])
  have d: "drop (unat i) (cb_list cb) = (cb_list cb ! unat i) # drop (Suc (unat i)) (cb_list cb)"
    using l by (rule Cons_nth_drop_Suc [symmetric])
  have IH: "find_first_from cb v (i + 1) =
    Inr (of_nat (Suc (unat i) + first_index (drop (Suc (unat i)) (cb_list cb)) v))"
    using Suc.hyps(1) [of "i + 1"] Suc.hyps(2) l by (simp add: s)
  show ?case using l
    by (simp add: find_first_from.simps [of cb v i] word_less_nat_alt get_element_refines [OF wf] IH d
        first_index_def)
qed

lemma find_first_refines:
  assumes "cb_wf cb"
  shows "circular_buffer_find_first_uint8 cb v = Inr (of_nat (first_index (cb_list cb) v))"
  using find_first_from_refines [OF assms, of 0] by (simp add: circular_buffer_find_first_uint8_def)

lemma find_last_from_refines:
  assumes wf: "cb_wf cb" and i: "unat i \<le> length (cb_list cb)"
  shows "find_last_from cb v i = Inr (if v \<in> set (take (unat i) (cb_list cb))
    then of_nat (last_index (take (unat i) (cb_list cb)) v) else cb_size cb)"
  using i
proof (induction "unat i" arbitrary: i)
  case 0
  then have "i = 0" by (metis unat_eq_zero)
  then show ?case using find_last_from.simps [of cb v 0] by simp
next
  case (Suc k)
  then have nz: "i \<noteq> 0" by auto
  then have k: "unat (i - 1) = k" and i: "unat i = Suc k" using Suc.hyps(2) by (simp_all add: unat_dec_64)
  have l: "k < length (cb_list cb)" using Suc.prems i by simp
  have t: "take (Suc k) (cb_list cb) = take k (cb_list cb) @ [cb_list cb ! k]"
    using l by (rule take_Suc_conv_app_nth)
  have IH: "find_last_from cb v (i - 1) = Inr (if v \<in> set (take k (cb_list cb))
    then of_nat (last_index (take k (cb_list cb)) v) else cb_size cb)"
    using Suc.hyps(1) [of "i - 1"] l k by simp
  have "i - 1 = of_nat (unat (i - 1))" by simp
  then have w: "i - 1 = of_nat k" by (simp only: k)
  show ?case using l nz
    by (simp add: find_last_from.simps [of cb v i] word_gt_0 Let_def get_element_refines [OF wf] k IH i t
        last_index_append, simp add: last_index_def first_index_def w)
qed

lemma find_last_refines:
  assumes "cb_wf cb"
  shows "circular_buffer_find_last_uint8 cb v = Inr (of_nat (last_index (cb_list cb) v))"
proof -
  have "length (cb_list cb) = unat (cb_size cb)" by simp
  then show ?thesis
  using find_last_from_refines [OF assms, of "cb_size cb" v]
  by (auto simp: circular_buffer_find_last_uint8_def last_index_def)
qed

lemma count_loop:
  assumes wf: "cb_wf cb" and "n \<le> length (cb_list cb)"
  shows "for_each (\<lambda>iElement c.
         bind_res (circular_buffer_get_element_uint8 cb (of_nat iElement), c) (\<lambda>iValue c.
           (Inr (), if iValue = v then c + 1 else c))) [0..<n] 0
    = (Inr (), of_nat (count_list (take n (cb_list cb)) v) :: size_t)"
  using assms(2)
proof (induction n)
  case 0
  then show ?case by simp
next
  case (Suc n)
  then have l: "n < length (cb_list cb)" by simp
  have t: "take (Suc n) (cb_list cb) = take n (cb_list cb) @ [cb_list cb ! n]"
    using l by (rule take_Suc_conv_app_nth)
  have "unat (of_nat n :: size_t) = n"
    using l unat_less_64 [of "cb_size cb"] by (intro unat_of_nat_64) (simp del: unat_less_64)
  then show ?case using Suc l
    by (simp add: for_each_append get_element_refines [OF wf] t)
qed

lemma count_refines:
  assumes wf: "cb_wf cb"
  shows "circular_buffer_count_uint8 cb v = Inr (of_nat (count_list (cb_list cb) v))"
proof -
  have "take (unat (cb_size cb)) (cb_list cb) = cb_list cb" by simp
  then show ?thesis using count_loop [OF wf, of "unat (cb_size cb)" v]
    by (simp add: circular_buffer_count_uint8_def)
qed

text \<open>
  \<open>cb_returns r v n xs\<close>: the operation returned \<open>v\<close> and left a well-formed buffer
  of capacity \<open>n\<close> that holds \<open>xs\<close>; \<open>cb_throws\<close> the same for a throw.
\<close>

definition cb_returns :: "('a, circular_buffer_uint8) res \<Rightarrow> 'a \<Rightarrow> nat \<Rightarrow> byte list \<Rightarrow> bool" where
  "cb_returns r v n xs \<longleftrightarrow>
     fst r = Inr v \<and> cb_wf (snd r) \<and> cb_cap (snd r) = n \<and> cb_list (snd r) = xs"

definition cb_throws :: "('a, circular_buffer_uint8) res \<Rightarrow> asc_exception \<Rightarrow> nat \<Rightarrow> byte list \<Rightarrow> bool" where
  "cb_throws r e n xs \<longleftrightarrow>
     fst r = Inl (Throw e) \<and> cb_wf (snd r) \<and> cb_cap (snd r) = n \<and> cb_list (snd r) = xs"

lemma cb_returnsD:
  assumes "cb_returns r v n xs"
  shows "fst r = Inr v" and "cb_wf (snd r)" and "cb_cap (snd r) = n" and "cb_list (snd r) = xs"
  using assms by (auto simp: cb_returns_def)

lemma cb_returns_bind:
  assumes "cb_returns r v n xs" and "\<And>cb. cb_wf cb \<Longrightarrow> cb_cap cb = n \<Longrightarrow> cb_list cb = xs \<Longrightarrow> cb_returns (f v cb) w m ys"
  shows "cb_returns (bind_res r f) w m ys"
  using assms by (simp add: cb_returns_def)

lemma cb_returns_Inr [simp]:
  "cb_returns (Inr v, cb) w n xs \<longleftrightarrow> v = w \<and> cb_wf cb \<and> cb_cap cb = n \<and> cb_list cb = xs"
  by (auto simp: cb_returns_def)

lemma cb_returns_discard: "cb_returns r v n xs \<Longrightarrow> cb_returns (discard r) () n xs"
  by (simp add: cb_returns_def)

lemma push_back_returns:
  "cb_wf cb \<Longrightarrow> cb_returns (circular_buffer_push_back_uint8 cb x) () (cb_cap cb)
     ((if length (cb_list cb) = cb_cap cb then tl (cb_list cb) else cb_list cb) @ [x])"
  by (simp add: cb_returns_def cbq.push_ok cbq.push_invar cbq.push_bound cbq.push_content)

lemma pop_front_returns:
  "cb_wf cb \<Longrightarrow> cb_list cb = x # xs \<Longrightarrow> cb_returns (circular_buffer_pop_front_uint8 cb) x (cb_cap cb) xs"
  by (simp add: cb_returns_def cbq.pop_ok cbq.pop_invar cbq.pop_bound cbq.pop_content del: cb_list_Nil_iff)

lemma pop_back_returns:
  "cb_wf cb \<Longrightarrow> cb_list cb = xs @ [x] \<Longrightarrow> cb_returns (circular_buffer_pop_back_uint8 cb) x (cb_cap cb) xs"
  using pop_back_refines [of cb] cb_list_Nil_iff [of cb] by (simp add: cb_returns_def)

lemma pop_front_times_returns:
  "cb_wf cb \<Longrightarrow> n \<le> length (cb_list cb) \<Longrightarrow>
    cb_returns (pop_front_times n cb) () (cb_cap cb) (drop n (cb_list cb))"
  by (simp add: cb_returns_def pop_front_times_refines)

lemma get_element_0:
  "cb_wf cb \<Longrightarrow> cb_list cb = x # xs \<Longrightarrow> circular_buffer_get_element_uint8 cb 0 = Inr x"
  using get_element_refines [of cb 0] by simp

lemma size_gt_0: "cb_list cb = x # xs \<Longrightarrow> 0 < cb_size cb"
  by (metis cb_list_Nil_iff list.distinct(1) word_gt_0)

lemma remove_front_to_returns:
  "cb_wf cb \<Longrightarrow> cb_returns (circular_buffer_remove_front_to_uint8 cb v incl) () (cb_cap cb)
     (let rest = dropWhile (\<lambda>x. x \<noteq> v) (cb_list cb) in if incl then tl rest else rest)"
proof (induction "cb_list cb" arbitrary: cb)
  case Nil
  then have "cb_size cb = 0" using cb_list_Nil_iff [of cb] by simp
  then show ?case using Nil
    by (simp add: circular_buffer_remove_front_to_uint8.simps [of cb] flip: Nil.hyps)
next
  case (Cons x xs)
  note l = Cons.hyps(2) [symmetric] and wf = Cons.prems
  note p = pop_front_returns [OF wf l]
  show ?case
  proof (cases "x = v")
    case True
    then show ?thesis using wf l p
      by (simp add: circular_buffer_remove_front_to_uint8.simps [of cb] size_gt_0 get_element_0
          cb_returns_discard)
  next
    case False
    have "cb_returns (bind_res (circular_buffer_pop_front_uint8 cb)
        (\<lambda>_ cb. circular_buffer_remove_front_to_uint8 cb v incl)) () (cb_cap cb)
        (let rest = dropWhile (\<lambda>x. x \<noteq> v) xs in if incl then tl rest else rest)"
      by (rule cb_returns_bind [OF p]) (use Cons.hyps(1) in fastforce)
    then show ?thesis using False wf l
      by (simp add: circular_buffer_remove_front_to_uint8.simps [of cb] size_gt_0 get_element_0)
  qed
qed

lemma get_element_last:
  "cb_wf cb \<Longrightarrow> cb_list cb = xs @ [x] \<Longrightarrow>
    circular_buffer_get_element_uint8 cb (cb_size cb - 1) = Inr x"
proof -
  assume wf: "cb_wf cb" and l: "cb_list cb = xs @ [x]"
  have n: "unat (cb_size cb) = Suc (length xs)"
    using l length_cb_list [of cb] by simp
  then have "cb_size cb \<noteq> 0" by auto
  then show ?thesis using wf l n by (simp add: get_element_refines unat_dec_64 nth_append)
qed

lemma remove_back_to_returns:
  "cb_wf cb \<Longrightarrow> cb_returns (circular_buffer_remove_back_to_uint8 cb v incl) () (cb_cap cb)
     (let rest = dropWhile (\<lambda>x. x \<noteq> v) (rev (cb_list cb)) in rev (if incl then tl rest else rest))"
proof (induction "cb_list cb" arbitrary: cb rule: rev_induct)
  case Nil
  then have "cb_size cb = 0" using cb_list_Nil_iff [of cb] by simp
  then show ?case using Nil
    by (simp add: circular_buffer_remove_back_to_uint8.simps [of cb] flip: Nil.hyps)
next
  case (snoc x xs)
  note l = snoc.hyps(2) [symmetric] and wf = snoc.prems
  have g: "0 < cb_size cb" using l by (metis cb_list_Nil_iff snoc_eq_iff_butlast word_gt_0)
  note p = pop_back_returns [OF wf l]
  show ?case
  proof (cases "x = v")
    case True
    then show ?thesis using wf l p g
      by (simp add: circular_buffer_remove_back_to_uint8.simps [of cb] get_element_last
          cb_returns_discard)
  next
    case False
    have "cb_returns (bind_res (circular_buffer_pop_back_uint8 cb)
        (\<lambda>_ cb. circular_buffer_remove_back_to_uint8 cb v incl)) () (cb_cap cb)
        (let rest = dropWhile (\<lambda>x. x \<noteq> v) (rev xs) in rev (if incl then tl rest else rest))"
      by (rule cb_returns_bind [OF p]) (use snoc.hyps(1) in fastforce)
    then show ?thesis using False wf l g
      by (simp add: circular_buffer_remove_back_to_uint8.simps [of cb] get_element_last)
  qed
qed

section \<open>Initialisation\<close>

lemma init_loop:
  assumes "n \<le> length mem" and "n < 18446744073709551616" and "buffer cb = mem"
  shows "for_each (\<lambda>i cb. write_buffer (of_nat i) 0x40 cb) [0..<n] cb =
    (Inr (), cb\<lparr>buffer := replicate n 0x40 @ drop n mem\<rparr>)"
  using assms
proof (induction n)
  case 0
  then show ?case by simp
next
  case (Suc n)
  have u: "unat (of_nat n :: size_t) = n" using Suc.prems by (intro unat_of_nat_64) simp
  have "(replicate n 0x40 @ drop n mem)[n := 0x40 :: byte] = replicate (Suc n) 0x40 @ drop (Suc n) mem"
    using Suc.prems(1) by (simp add: list_update_append replicate_append_same Cons_nth_drop_Suc [symmetric] flip: replicate_Suc)
  then show ?case using Suc u by (simp add: for_each_append write_buffer_def)
qed

lemma init_ok:
  assumes p: "isPowerOfTwo cap" and l: "length mem = unat cap"
  shows "circular_buffer_init_uint8 cb cap mem = (Inr (), cb\<lparr>capacity := cap, cb_size := 0, iStart := 0,
    iStop := 0, buffer := replicate (unat cap) 0x40\<rparr>)"
  using p init_loop [of "unat cap" mem "cb\<lparr>capacity := cap, cb_size := 0, iStart := 0, iStop := 0, buffer := mem\<rparr>"] l
  by (simp add: circular_buffer_init_uint8_def)

lemma init_returns:
  assumes p: "isPowerOfTwo cap" and l: "length mem = unat cap"
  shows "cb_returns (circular_buffer_init_uint8 cb cap mem) () (unat cap) []"
  using power_of_two_bound [OF p] p
  by (auto simp: init_ok [OF p l] cb_cap_def intro!: cb_wfI)

lemma init_throws:
  "\<not> isPowerOfTwo cap \<Longrightarrow> circular_buffer_init_uint8 cb cap mem = (Inl (Throw ASC_ERROR_CB_BAD_CAPACITY), cb)"
  by (simp add: circular_buffer_init_uint8_def)

section \<open>Blocks\<close>

text \<open>Whether the elements run around the end of the array.\<close>

lemma wraps_iff:
  assumes wf: "cb_wf cb"
  shows "iStart cb + cb_size cb > capacity cb \<longleftrightarrow> unat (capacity cb) < unat (iStart cb) + unat (cb_size cb)"
proof -
  note w = cb_wfD [OF wf]
  have "unat (iStart cb) + unat (cb_size cb) < 18446744073709551616"
    using w(3,4) power_of_two_bound(2) [OF w(1)] by linarith
  then have "unat (iStart cb + cb_size cb) = unat (iStart cb) + unat (cb_size cb)"
    by (simp add: unat_word_ariths)
  then show ?thesis by (simp add: word_less_nat_alt)
qed

lemma unat_cap_minus_start:
  assumes wf: "cb_wf cb"
  shows "unat (capacity cb - iStart cb) = unat (capacity cb) - unat (iStart cb)"
  using cb_wfD(4) [OF wf] by (simp add: unat_sub word_le_nat_alt)

text \<open>The number of elements up to the end of the array.\<close>

definition first_block_len :: "circular_buffer_uint8 \<Rightarrow> nat" where
  "first_block_len cb = min (unat (cb_size cb)) (unat (capacity cb) - unat (iStart cb))"

lemma first_block_len_eq:
  assumes wf: "cb_wf cb"
  shows "unat (if iStart cb + cb_size cb > capacity cb then capacity cb - iStart cb else cb_size cb)
    = first_block_len cb"
  using wraps_iff [OF wf] unat_cap_minus_start [OF wf] by (auto simp: first_block_len_def)

lemma buffer_first_block:
  assumes wf: "cb_wf cb" and n: "n \<le> first_block_len cb"
  shows "take n (drop (unat (iStart cb)) (buffer cb)) = take n (cb_list cb)"
proof -
  note w = cb_wfD [OF wf]
  have "unat (iStart cb) + n \<le> length (buffer cb)" using n w(2,4) by (simp add: first_block_len_def) linarith
  then have "ring (buffer cb) (unat (iStart cb)) n = take n (drop (unat (iStart cb)) (buffer cb))"
    by (rule ring_flat)
  then show ?thesis using n by (simp add: cb_list_def take_ring first_block_len_def)
qed

lemma get_first_block_refines:
  assumes wf: "cb_wf cb"
  shows "case circular_buffer_get_first_block_uint8 cb of (off, len) \<Rightarrow>
    unat len = first_block_len cb \<and> mem_range (buffer cb) off len = Inr (take (first_block_len cb) (cb_list cb))"
proof -
  note w = cb_wfD [OF wf]
  have "unat (iStart cb) + first_block_len cb \<le> length (buffer cb)"
    using w(2,4) by (simp add: first_block_len_def)
  then show ?thesis using first_block_len_eq [OF wf] buffer_first_block [OF wf order_refl]
    by (simp add: circular_buffer_get_first_block_uint8_def mem_range_def del: if_split)
qed

lemma delete_first_block_returns:
  assumes wf: "cb_wf cb"
  shows "cb_returns (circular_buffer_delete_first_block_uint8 cb) (of_nat (first_block_len cb)) (cb_cap cb)
    (drop (first_block_len cb) (cb_list cb))"
proof (cases "iStart cb + cb_size cb > capacity cb")
  case True
  have n: "unat (capacity cb - iStart cb) = first_block_len cb"
    using first_block_len_eq [OF wf] True by simp
  then have w: "capacity cb - iStart cb = of_nat (first_block_len cb)" by (metis of_nat_unat ucast_id unsigned_of_nat word_unat_eq_iff)
  have le: "first_block_len cb \<le> length (cb_list cb)" by (simp add: first_block_len_def)
  have "cb_returns (bind_res (pop_front_times (first_block_len cb) cb) (\<lambda>_ q. (Inr (of_nat (first_block_len cb)), q)))
    (of_nat (first_block_len cb)) (cb_cap cb) (drop (first_block_len cb) (cb_list cb))"
    by (rule cb_returns_bind [OF pop_front_times_returns [OF wf le]]) simp
  then show ?thesis using True
    by (simp add: circular_buffer_delete_first_block_uint8_def n) (simp add: w)
next
  case False
  have n: "unat (cb_size cb) = first_block_len cb" using first_block_len_eq [OF wf] False by simp
  have e: "cb_list (cb\<lparr>cb_size := 0, iStart := 0, iStop := 0\<rparr>) = []" by (simp add: cb_list_def)
  have "cb_wf (cb\<lparr>cb_size := 0, iStart := 0, iStop := 0\<rparr>)"
    using cb_wfD [OF wf] by (intro cb_wfI) simp_all
  then show ?thesis using False e
    by (simp add: circular_buffer_delete_first_block_uint8_def cb_cap_def flip: n)
qed

lemma clear_list [simp]: "cb_list (circular_buffer_clear_uint8 cb) = []"
  by (simp add: circular_buffer_clear_uint8_def cb_list_def)

lemma clear_wf: "cb_wf cb \<Longrightarrow> cb_wf (circular_buffer_clear_uint8 cb)"
  using cb_wfD [of cb] by (auto simp: circular_buffer_clear_uint8_def intro!: cb_wfI)

lemma clear_cap [simp]: "cb_cap (circular_buffer_clear_uint8 cb) = cb_cap cb"
  by (simp add: circular_buffer_clear_uint8_def cb_cap_def)

lemma push_all_returns:
  assumes "cb_wf cb"
  shows "cb_returns (for_each (\<lambda>x cb. circular_buffer_push_back_uint8 cb x) xs cb) () (cb_cap cb)
    (drop (length (cb_list cb) + length xs - cb_cap cb) (cb_list cb @ xs))"
  using cbq.push_all [OF assms, of xs] by (simp add: cb_returns_def)

lemma for_each_nth:
  assumes "n \<le> length xs"
  shows "for_each (\<lambda>i. f (xs ! i)) [0..<n] s = for_each f (take n xs) s"
  using assms
proof (induction n)
  case 0
  then show ?case by simp
next
  case (Suc n)
  then have "take (Suc n) xs = take n xs @ [xs ! n]" by (simp add: take_Suc_conv_app_nth)
  then show ?case using Suc by (simp add: for_each_append)
qed

lemma push_back_block_returns:
  assumes wf: "cb_wf cb" and n: "unat n \<le> length source"
  shows "cb_returns (circular_buffer_push_back_block_uint8 cb source n) () (cb_cap cb)
    (drop (length (cb_list cb) + unat n - cb_cap cb) (cb_list cb @ take (unat n) source))"
proof -
  have "for_each (\<lambda>iElement cb. bind_res (mem_read source (of_nat iElement), cb) (\<lambda>b cb.
       circular_buffer_push_back_uint8 cb b)) [0..<unat n] cb =
    for_each (\<lambda>i cb. circular_buffer_push_back_uint8 cb (source ! i)) [0..<unat n] cb"
  proof (rule for_each_cong [OF refl refl])
    fix i s assume "i \<in> set [0..<unat n]"
    then have "i < unat n" by simp
    then have "unat (of_nat i :: size_t) = i"
      using less_trans [OF _ unat_less_64] by (intro unat_of_nat_64) blast
    then show "bind_res (mem_read source (of_nat i), s) (\<lambda>b cb. circular_buffer_push_back_uint8 cb b) =
      circular_buffer_push_back_uint8 s (source ! i)" using \<open>i < unat n\<close> n by simp
  qed
  also have "\<dots> = for_each (\<lambda>x cb. circular_buffer_push_back_uint8 cb x) (take (unat n) source) cb"
    using for_each_nth [OF n, of "\<lambda>x cb. circular_buffer_push_back_uint8 cb x" cb] by simp
  finally show ?thesis using push_all_returns [OF wf, of "take (unat n) source"] n
    by (simp add: circular_buffer_push_back_block_uint8_def min_absorb2)
qed

lemma push_back_string_loop_returns:
  assumes "cb_wf cb" and "0 \<notin> set xs"
  shows "cb_returns (push_back_string_loop cb (xs @ 0 # rest)) () (cb_cap cb)
    (drop (length (cb_list cb) + length xs - cb_cap cb) (cb_list cb @ xs))"
proof -
  have "push_back_string_loop cb (xs @ 0 # rest) = for_each (\<lambda>x cb. circular_buffer_push_back_uint8 cb x) xs cb"
    using assms(2) by (induction xs arbitrary: cb) (auto simp: bind_res_def split: sum.splits)
  then show ?thesis using push_all_returns [OF assms(1), of xs] by simp
qed

lemma push_back_string_returns:
  assumes "cb_wf cb" and "0 \<notin> set xs"
  shows "cb_returns (circular_buffer_push_back_string_uint8 cb (xs @ 0 # rest)) 0 (cb_cap cb)
    (drop (length (cb_list cb) + length xs - cb_cap cb) (cb_list cb @ xs))"
  unfolding circular_buffer_push_back_string_uint8_def
  by (rule cb_returns_bind [OF push_back_string_loop_returns [OF assms]]) simp

text \<open>Copying the first \<open>n\<close> elements to the destination.\<close>

lemma pop_block_loop:
  assumes wf: "cb_wf cb" and n: "n \<le> first_block_len cb" and d: "n \<le> length dest"
  shows "for_each (\<lambda>iByte (dest, q).
          case bind_exc (mem_read (buffer q) (iStart cb + of_nat iByte)) (mem_write dest (of_nat iByte)) of
            Inl e \<Rightarrow> (Inl e, (dest, q))
          | Inr dest' \<Rightarrow> (Inr (), (dest', q))) [0..<n] (dest, cb)
    = (Inr (), (take n (cb_list cb) @ drop n dest, cb))"
  using n d
proof (induction n)
  case 0
  then show ?case by simp
next
  case (Suc n)
  note w = cb_wfD [OF wf]
  have c: "unat (capacity cb) \<le> 9223372036854775808" by (rule power_of_two_bound [OF w(1)])
  have l: "n < unat (cb_size cb)" "unat (iStart cb) + n < unat (capacity cb)"
    using Suc.prems(1) by (simp_all add: first_block_len_def) linarith
  then have "n < 18446744073709551616" using c by simp
  then have u: "unat (of_nat n :: size_t) = n" by (rule unat_of_nat_64)
  have a: "unat (iStart cb + of_nat n) = unat (iStart cb) + n"
    using l c by (simp add: unat_word_ariths u)
  have b: "buffer cb ! (unat (iStart cb) + n) = cb_list cb ! n"
    using l w(2,4) by (simp add: cb_list_def nth_ring)
  have t: "take (Suc n) (cb_list cb) = take n (cb_list cb) @ [cb_list cb ! n]"
    using l by (simp add: take_Suc_conv_app_nth)
  have "(take n (cb_list cb) @ drop n dest)[n := cb_list cb ! n] = take (Suc n) (cb_list cb) @ drop (Suc n) dest"
    using l Suc.prems(2) by (simp add: t list_update_append Cons_nth_drop_Suc [symmetric])
  then show ?case using Suc l w(2) u a b by (simp add: for_each_append)
qed

text \<open>Dropping the first \<open>k\<close> elements: the size shrinks, and the start moves or goes back to 0.\<close>

definition advance_front :: "circular_buffer_uint8 \<Rightarrow> size_t \<Rightarrow> circular_buffer_uint8" where
  "advance_front cb k =
     (let cb = cb\<lparr>cb_size := cb_size cb - k\<rparr> in
      if cb_size cb = 0 then cb\<lparr>iStart := 0, iStop := 0\<rparr>
      else cb\<lparr>iStart := (iStart cb + k) AND (capacity cb - 1)\<rparr>)"

lemma advance_front_refines:
  assumes wf: "cb_wf cb" and k: "unat nw = k" "k \<le> unat (cb_size cb)"
  shows "cb_wf (advance_front cb nw) \<and> cb_cap (advance_front cb nw) = cb_cap cb
    \<and> cb_list (advance_front cb nw) = drop k (cb_list cb)"
proof -
  note w = cb_wfD [OF wf]
  have sz: "unat (cb_size cb - nw) = unat (cb_size cb) - k"
    using k by (simp add: unat_sub word_le_nat_alt)
  show ?thesis
  proof (cases "cb_size cb - nw = 0")
    case True
    then have "k = unat (cb_size cb)" using sz k by simp
    then show ?thesis using True w
      by (auto simp: advance_front_def Let_def cb_list_def cb_cap_def intro!: cb_wfI)
  next
    case False
    have kc: "unat nw \<le> unat (capacity cb)" using k w(3) by simp
    have st: "unat ((iStart cb + nw) AND (capacity cb - 1)) = (unat (iStart cb) + k) mod unat (capacity cb)"
      using mask_index [OF wf kc] k by simp
    have "unat (iStop cb) = ((unat (iStart cb) + k) mod unat (capacity cb) + (unat (cb_size cb) - k)) mod unat (capacity cb)"
    proof -
      have "unat (iStart cb) + unat (cb_size cb) = (unat (iStart cb) + k) + (unat (cb_size cb) - k)"
        using k by simp
      then show ?thesis unfolding w(5) by (simp only: mod_add_left_eq)
    qed
    then have "cb_wf (advance_front cb nw)" using False w st sz
      by (auto simp: advance_front_def Let_def intro!: cb_wfI)
    moreover have "cb_list (advance_front cb nw) = drop k (cb_list cb)"
      using False ring_mod [of "buffer cb" "unat (iStart cb) + k" "unat (cb_size cb) - k"] w(2) k
      by (simp add: advance_front_def Let_def cb_list_def st sz drop_ring)
    ultimately show ?thesis using False by (simp add: advance_front_def Let_def cb_cap_def)
  qed
qed

lemma pop_front_block_returns:
  assumes wf: "cb_wf cb" and d: "unat dest_size \<le> length dest"
  defines "k \<equiv> min (unat dest_size) (first_block_len cb)"
  shows "\<exists>cb'. circular_buffer_pop_front_block_uint8 cb dest dest_size =
      (Inr (of_nat k), (take k (cb_list cb) @ drop k dest, cb'))
    \<and> cb_wf cb' \<and> cb_cap cb' = cb_cap cb \<and> cb_list cb' = drop k (cb_list cb)"
proof -
  define nb where "nb = (if iStart cb + cb_size cb > capacity cb then capacity cb - iStart cb else cb_size cb)"
  define nw where "nw = (if dest_size < nb then dest_size else nb)"
  have "unat nb = first_block_len cb" using first_block_len_eq [OF wf] by (simp only: nb_def)
  then have nk: "unat nw = k" by (auto simp: nw_def k_def word_less_nat_alt)
  then have wk: "nw = of_nat k" by auto
  have kl: "k \<le> first_block_len cb" "k \<le> length dest" "k \<le> unat (cb_size cb)"
    using d by (auto simp: k_def first_block_len_def)
  have "circular_buffer_pop_front_block_uint8 cb dest dest_size =
      (Inr nw, (take k (cb_list cb) @ drop k dest, advance_front cb nw))"
    unfolding circular_buffer_pop_front_block_uint8_def Let_def nb_def [symmetric] nw_def [symmetric]
      nk pop_block_loop [OF wf kl(1,2)] bind_res_simps prod.case
    by (simp add: advance_front_def)
  then show ?thesis using advance_front_refines [OF wf nk kl(3)] wk by blast
qed

text \<open>The bytes of the blocks that \<open>get_blocks\<close> hands out.\<close>

definition blocks_bytes :: "circular_buffer_uint8 \<Rightarrow> cb_blocks \<Rightarrow> byte list exc" where
  "blocks_bytes cb bl = bind_exc (mem_range (buffer cb) (block0 bl) (block_size0 bl)) (\<lambda>xs.
     case block1 bl of
       None \<Rightarrow> Inr xs
     | Some b1 \<Rightarrow> bind_exc (mem_range (buffer cb) b1 (block_size1 bl)) (\<lambda>ys. Inr (xs @ ys)))"

lemma unat_add_small:
  "unat x + unat y < 18446744073709551616 \<Longrightarrow> unat (x + y :: size_t) = unat x + unat y"
  by (simp add: unat_word_ariths)

lemma get_blocks_sums:
  assumes wf: "cb_wf cb" and fits: "unat start + unat n \<le> length (cb_list cb)"
  shows "unat (start + n :: size_t) = unat start + unat n"
    and "unat (iStart cb + start) = unat (iStart cb) + unat start"
    and "unat (iStart cb + start + n) = unat (iStart cb) + unat start + unat n"
proof -
  note w = cb_wfD [OF wf]
  have "unat (iStart cb) + unat start + unat n < 18446744073709551616"
    using fits w(3,4) power_of_two_bound(2) [OF w(1)] by simp
  then show "unat (start + n) = unat start + unat n"
    "unat (iStart cb + start) = unat (iStart cb) + unat start"
    "unat (iStart cb + start + n) = unat (iStart cb) + unat start + unat n"
    by (simp_all add: unat_add_small)
qed

lemma get_blocks_in_range:
  assumes wf: "cb_wf cb" and fits: "unat start + unat n \<le> length (cb_list cb)"
    and flat: "unat (iStart cb) + unat start \<le> unat (capacity cb)"
  shows "\<exists>bl. circular_buffer_get_blocks_uint8 cb start n = Inr bl
    \<and> blocks_bytes cb bl = Inr (take (unat n) (drop (unat start) (cb_list cb)))"
proof -
  note w = cb_wfD [OF wf] and u = get_blocks_sums [OF wf fits]
  let ?s = "unat (iStart cb) + unat start"
  have elems: "take (unat n) (drop (unat start) (cb_list cb)) = ring (buffer cb) ?s (unat n)"
    using fits by (simp add: cb_list_def drop_ring take_ring)
  have guard: "\<not> start + n > circular_buffer_get_size_uint8 cb"
    using fits u(1) by (simp add: circular_buffer_get_size_uint8_def word_less_nat_alt)
  show ?thesis
  proof (cases "unat (capacity cb) < ?s + unat n")
    case True
    have n0: "unat (capacity cb - iStart cb - start) = unat (capacity cb) - ?s"
    proof -
      have "unat (capacity cb - iStart cb) = unat (capacity cb) - unat (iStart cb)"
        using unat_cap_minus_start [OF wf] .
      then show ?thesis using flat by (subst unat_sub) (simp_all add: word_le_nat_alt)
    qed
    have n1: "unat (n - (capacity cb - iStart cb - start)) = ?s + unat n - unat (capacity cb)"
      using True flat n0 by (subst unat_sub) (simp_all add: word_le_nat_alt)
    have "?s + unat n - unat (capacity cb) \<le> unat (capacity cb)"
      using fits w(3,4) by simp
    then have "ring (buffer cb) ?s (unat n) =
        drop ?s (buffer cb) @ take (?s + unat n - unat (capacity cb)) (buffer cb)"
      using True flat w(2) ring_wrap [of ?s "buffer cb" "unat n"] by simp
    then show ?thesis using guard True u n0 n1 w(2) flat \<open>?s + unat n - unat (capacity cb) \<le> unat (capacity cb)\<close>
      by (simp add: circular_buffer_get_blocks_uint8_def blocks_bytes_def mem_range_def elems
          word_less_nat_alt Let_def)
  next
    case False
    then have "ring (buffer cb) ?s (unat n) = take (unat n) (drop ?s (buffer cb))"
      using w(2) by (intro ring_flat) simp
    then show ?thesis using guard False u w(2)
      by (simp add: circular_buffer_get_blocks_uint8_def blocks_bytes_def mem_range_def elems
          word_less_nat_alt Let_def)
  qed
qed

lemma get_blocks_out_of_range:
  assumes wf: "cb_wf cb" and fits: "unat start + unat n \<le> length (cb_list cb)"
    and past: "unat (capacity cb) < unat (iStart cb) + unat start"
  shows "\<exists>bl. circular_buffer_get_blocks_uint8 cb start n = Inr bl \<and> blocks_bytes cb bl = Inl UB"
proof -
  note w = cb_wfD [OF wf] and u = get_blocks_sums [OF wf fits]
  have guard: "\<not> start + n > circular_buffer_get_size_uint8 cb"
    using fits u(1) by (simp add: circular_buffer_get_size_uint8_def word_less_nat_alt)
  have "iStart cb + start + n > capacity cb" using past u by (simp add: word_less_nat_alt)
  moreover have "length (buffer cb) < unat (iStart cb + start) + k" for k
    using past u w(2) by simp
  ultimately show ?thesis using guard
    by (simp add: circular_buffer_get_blocks_uint8_def blocks_bytes_def mem_range_def Let_def not_le)
qed

lemma get_blocks_throws:
  assumes "length (cb_list cb) < unat start + unat n" and "unat start + unat n < 18446744073709551616"
  shows "circular_buffer_get_blocks_uint8 cb start n = Inl (Throw ASC_ERROR_CB_OOB)"
  using assms
  by (simp add: circular_buffer_get_blocks_uint8_def circular_buffer_get_size_uint8_def
      word_less_nat_alt unat_add_small)

section \<open>Concrete buffers\<close>

text \<open>A buffer of 64 bytes that holds \<open>xs\<close> from the position \<open>s\<close> of its array on.\<close>

definition cb_at :: "nat \<Rightarrow> byte list \<Rightarrow> circular_buffer_uint8" where
  "cb_at s xs = \<lparr>capacity = 64, cb_size = of_nat (length xs), iStart = of_nat s,
     iStop = of_nat ((s + length xs) mod 64), buffer = rotate (64 - s) (xs @ replicate (64 - length xs) 0)\<rparr>"

lemma cb_at_0:
  assumes "length xs \<le> 64"
  shows "cb_wf (cb_at 0 xs)" "cb_list (cb_at 0 xs) = xs" "cb_cap (cb_at 0 xs) = 64"
proof -
  have p: "isPowerOfTwo 64" by code_simp
  have u: "unat (of_nat (length xs) :: size_t) = length xs" "unat (of_nat (length xs mod 64) :: size_t) = length xs mod 64"
    using assms by (simp_all add: unat_of_nat_64 mod_less_eq_dividend [THEN le_less_trans])
  have r: "rotate 64 (xs @ replicate (64 - length xs) 0) = xs @ replicate (64 - length xs) (0 :: byte)"
    by (rule rotate_id) (use assms in simp)
  show "cb_wf (cb_at 0 xs)" "cb_cap (cb_at 0 xs) = 64"
    using assms p u by (simp_all add: cb_at_def cb_wf_def cb_cap_def)
  show "cb_list (cb_at 0 xs) = xs"
    unfolding cb_list_def using assms u ring_flat [of 0 "length xs" "xs @ replicate (64 - length xs) 0"]
    by (simp add: cb_at_def r)
qed

end
