(* ===== verification/Frame_Sync.thy ===== *)
theory Frame_Sync
  imports Circular_Buffer_Spec
begin

text \<open>
  \<^verbatim>\<open>circular_buffer_remove_front_unfinished_frames_uint8\<close>: dropping from the
  front of the buffer what cannot be the start of a frame, and the list function it implements.
\<close>

section \<open>The operation\<close>

text \<open>
  The comparison of a \<^verbatim>\<open>uint8_t\<close> with the \<^verbatim>\<open>char\<close>
  \<^verbatim>\<open>startChar\<close> is one of \<^verbatim>\<open>int\<close>s: the byte is read
  unsigned, the char signed. The scan goes from the element \<open>iElement\<close> down to the front;
  \<open>None\<close> is the case that no start character was found.
\<close>

function scan_back :: "circular_buffer_uint8 \<Rightarrow> byte \<Rightarrow> size_t \<Rightarrow> size_t option exc" where
  "scan_back cb startChar iElement =
     bind_exc (circular_buffer_get_element_uint8 cb iElement) (\<lambda>x.
       if uint x = sint startChar then Inr (Some iElement)
       else if iElement = 0 then Inr None
       else scan_back cb startChar (iElement - 1))"
  by pat_completeness auto
termination
  by (relation "measure (\<lambda>(_, _, i). unat i)") (auto simp: unat_dec_64 unat_gt_0)

function circular_buffer_remove_front_unfinished_frames_uint8 ::
  "circular_buffer_uint8 \<Rightarrow> byte \<Rightarrow> byte \<Rightarrow> (size_t, circular_buffer_uint8) res" where
  "circular_buffer_remove_front_unfinished_frames_uint8 cb startChar endChar =
     bind_res (circular_buffer_find_first_uint8 cb endChar, cb) (\<lambda>iEnd cb.
       if iEnd \<ge> cb_size cb then
         bind_res (circular_buffer_find_last_uint8 cb startChar, cb) (\<lambda>iLastStart cb.
           if iLastStart \<ge> cb_size cb then
             let bufSize = cb_size cb in (Inr bufSize, circular_buffer_clear_uint8 cb)
           else bind_res (pop_front_times (unat iLastStart) cb) (\<lambda>_ cb. (Inr iLastStart, cb)))
       else if iEnd = 0 then
         bind_res (circular_buffer_pop_front_uint8 cb) (\<lambda>_ cb.
           circular_buffer_remove_front_unfinished_frames_uint8 cb startChar endChar)
       else
         bind_res (scan_back cb startChar (iEnd - 1), cb) (\<lambda>found cb.
           case found of
             None \<Rightarrow>
               bind_res (pop_front_times (unat iEnd + 1) cb) (\<lambda>_ cb.
                 bind_res (circular_buffer_remove_front_unfinished_frames_uint8 cb startChar endChar)
                   (\<lambda>n cb. (Inr (iEnd + 1 + n), cb)))
           | Some iElement \<Rightarrow>
               bind_res (pop_front_times (unat iElement) cb) (\<lambda>_ cb. (Inr iElement, cb))))"
  by pat_completeness auto
termination
  by (relation "measure (\<lambda>(cb, _, _). unat (cb_size cb))")
    (auto dest: pop_front_size pop_front_times_size)

declare scan_back.simps [simp del]
declare circular_buffer_remove_front_unfinished_frames_uint8.simps [simp del]

section \<open>The list function\<close>

function frame_sync :: "byte \<Rightarrow> byte \<Rightarrow> byte list \<Rightarrow> byte list" where
  "frame_sync st en xs =
     (if en \<notin> set xs then if st \<in> set xs then drop (last_index xs st) xs else []
      else let p = takeWhile (\<lambda>x. x \<noteq> en) xs in
        if st \<in> set p then drop (last_index p st) xs
        else frame_sync st en (drop (Suc (length p)) xs))"
  by pat_completeness auto
termination
proof (relation "measure (\<lambda>(_, _, xs). length xs)", goal_cases)
  case (2 st en xs)
  then have "0 < length xs" by auto
  then show ?case by simp
qed simp

declare frame_sync.simps [simp del]

text \<open>How often the rest of the buffer begins with the end character while frames are dropped.\<close>

function leading_ends :: "byte \<Rightarrow> byte \<Rightarrow> byte list \<Rightarrow> nat" where
  "leading_ends st en xs =
     (if en \<notin> set xs then 0
      else let p = takeWhile (\<lambda>x. x \<noteq> en) xs in
        if st \<in> set p then 0
        else (if p = [] then 1 else 0) + leading_ends st en (drop (Suc (length p)) xs))"
  by pat_completeness auto
termination
proof (relation "measure (\<lambda>(_, _, xs). length xs)", goal_cases)
  case (2 st en xs)
  then have "0 < length xs" by auto
  then show ?case by simp
qed simp

declare leading_ends.simps [simp del]

lemma last_index_split:
  assumes "v \<notin> set zs"
  shows "last_index (ys @ v # zs) v = length ys"
proof -
  have "takeWhile (\<lambda>x. x \<noteq> v) (rev zs @ v # rev ys) = rev zs"
    using assms by (subst takeWhile_append2) auto
  then show ?thesis by (simp add: last_index_def first_index_def)
qed

lemma drop_last_index:
  assumes "v \<in> set xs"
  obtains p where "drop (last_index xs v) xs = v # p" and "v \<notin> set p" and "set p \<subseteq> set xs"
proof -
  obtain ys zs where xs: "xs = ys @ v # zs" and nz: "v \<notin> set zs"
    using split_list_last [OF assms] by blast
  then show thesis using that last_index_split [OF nz, of ys] by auto
qed

text \<open>
  What is left begins with the start character and has none of the two characters up to the
  first end character, if it has one.
\<close>

lemma frame_sync_shape:
  assumes "st \<noteq> en"
  shows "frame_sync st en xs = [] \<or>
    (\<exists>p rest. frame_sync st en xs = st # p @ rest \<and> st \<notin> set p \<and> en \<notin> set p
       \<and> (rest = [] \<or> (\<exists>rest'. rest = en # rest')))"
proof (induction st en xs rule: frame_sync.induct)
  case (1 st en xs)
  let ?p = "takeWhile (\<lambda>x. x \<noteq> en) xs"
  consider (none) "en \<notin> set xs" "st \<notin> set xs" | (opened) "en \<notin> set xs" "st \<in> set xs"
    | (frame) "en \<in> set xs" "st \<in> set ?p" | (bad) "en \<in> set xs" "st \<notin> set ?p" by blast
  then show ?case
  proof cases
    case none
    then show ?thesis by (simp add: frame_sync.simps [of st en xs])
  next
    case opened
    obtain p where p: "drop (last_index xs st) xs = st # p" "st \<notin> set p" "set p \<subseteq> set xs"
      using drop_last_index [OF opened(2)] .
    have "en \<notin> set p" using opened(1) p(3) by blast
    then show ?thesis using opened p by (auto simp: frame_sync.simps [of st en xs])
  next
    case frame
    obtain p where p: "drop (last_index ?p st) ?p = st # p" "st \<notin> set p" "set p \<subseteq> set ?p"
      using drop_last_index [OF frame(2)] .
    have en: "en \<notin> set p" using p(3) by (auto dest: set_takeWhileD)
    obtain r where r: "dropWhile (\<lambda>x. x \<noteq> en) xs = en # r"
      using frame(1) hd_dropWhile [of "\<lambda>x. x \<noteq> en" xs]
      by (cases "dropWhile (\<lambda>x. x \<noteq> en) xs") auto
    have "drop (last_index ?p st) xs = drop (last_index ?p st) (?p @ en # r)"
      by (simp flip: r)
    also have "\<dots> = drop (last_index ?p st) ?p @ en # r"
      using last_index_le [of ?p st] by simp
    finally have "drop (last_index ?p st) xs = drop (last_index ?p st) ?p @ en # r" .
    then show ?thesis using frame p en by (auto simp: frame_sync.simps [of st en xs] Let_def)
  next
    case bad
    then show ?thesis using 1 by (simp add: frame_sync.simps [of st en xs] Let_def)
  qed
qed

lemma length_frame_sync: "length (frame_sync st en xs) + leading_ends st en xs \<le> length xs"
proof (induction st en xs rule: frame_sync.induct)
  case (1 st en xs)
  let ?p = "takeWhile (\<lambda>x. x \<noteq> en) xs"
  show ?case
  proof (cases "en \<in> set xs \<and> st \<notin> set ?p")
    case True
    then have "length ?p < length xs" using first_index_less_iff [of xs en] by (simp add: first_index_def)
    then show ?thesis using True 1
      by (auto simp: frame_sync.simps [of st en xs] leading_ends.simps [of st en xs] Let_def
          simp flip: length_greater_0_conv)
  next
    case False
    then show ?thesis by (auto simp: frame_sync.simps [of st en xs] leading_ends.simps [of st en xs] Let_def)
  qed
qed

section \<open>The operation implements the list function\<close>

lemma char_eq: "sint st \<ge> 0 \<Longrightarrow> uint x = sint st \<longleftrightarrow> x = (st :: byte)"
proof -
  assume "sint st \<ge> 0"
  then have "uint st = sint st"
    using sint_less [of st] by (simp add: uint_sint take_bit_int_eq_self)
  then show ?thesis by (metis word_uint_eq_iff)
qed

lemma scan_back_refines:
  assumes wf: "cb_wf cb" and st: "0 \<le> sint st" and i: "unat i < length (cb_list cb)"
  shows "scan_back cb st i = Inr (if st \<in> set (take (Suc (unat i)) (cb_list cb))
    then Some (of_nat (last_index (take (Suc (unat i)) (cb_list cb)) st)) else None)"
  using i
proof (induction "unat i" arbitrary: i)
  case 0
  then have i: "i = 0" by (metis unat_eq_zero)
  obtain x xs where l: "cb_list cb = x # xs" using 0 by (cases "cb_list cb") auto
  show ?case using wf
    by (simp add: i scan_back.simps [of cb st 0] get_element_refines char_eq [OF st] l)
      (simp add: last_index_def first_index_def)
next
  case (Suc k)
  then have nz: "i \<noteq> 0" by auto
  then have k: "unat (i - 1) = k" and i: "unat i = Suc k" using Suc.hyps(2) by (simp_all add: unat_dec_64)
  have "i = of_nat (unat i)" by simp
  then have w: "i = of_nat (Suc k)" by (simp only: i)
  have t: "take (Suc (Suc k)) (cb_list cb) = take (Suc k) (cb_list cb) @ [cb_list cb ! Suc k]"
    using Suc.prems i by (intro take_Suc_conv_app_nth) simp
  have IH: "scan_back cb st (i - 1) = Inr (if st \<in> set (take (Suc k) (cb_list cb))
    then Some (of_nat (last_index (take (Suc k) (cb_list cb)) st)) else None)"
    using Suc.hyps(1) [of "i - 1"] Suc.prems k i by simp
  show ?case
  proof (cases "cb_list cb ! Suc k = st")
    case True
    have "last_index (take (Suc k) (cb_list cb) @ [st]) st = Suc k"
      using last_index_split [of st "[]" "take (Suc k) (cb_list cb)"] Suc.prems i by simp
    then show ?thesis using True Suc.prems wf
      by (simp add: scan_back.simps [of cb st i] get_element_refines char_eq [OF st] i t) (simp add: w)
  next
    case False
    then show ?thesis using nz IH Suc.prems wf
      by (simp add: scan_back.simps [of cb st i] get_element_refines char_eq [OF st] i t last_index_append)
  qed
qed

lemma unat_index:
  assumes "n \<le> length (cb_list cb)"
  shows "unat (of_nat n :: size_t) = n"
proof (rule unat_of_nat_64)
  have "length (cb_list cb) < 18446744073709551616" by simp
  then show "n < 18446744073709551616" using assms by (rule le_less_trans [rotated])
qed

lemma index_ge_size:
  assumes "n \<le> length (cb_list cb)"
  shows "of_nat n \<ge> cb_size cb \<longleftrightarrow> n = length (cb_list cb)"
  using assms unat_index [OF assms] by (auto simp: word_le_nat_alt)

lemma remove_unfinished_frames_returns:
  assumes "cb_wf cb" and st: "0 \<le> sint st"
  shows "cb_returns (circular_buffer_remove_front_unfinished_frames_uint8 cb st en)
    (of_nat (length (cb_list cb) - length (frame_sync st en (cb_list cb)) - leading_ends st en (cb_list cb)))
    (cb_cap cb) (frame_sync st en (cb_list cb))"
  using assms(1)
proof (induction "length (cb_list cb)" arbitrary: cb rule: less_induct)
  case less
  note wf = less.prems
  let ?xs = "cb_list cb" and ?op = "\<lambda>cb. circular_buffer_remove_front_unfinished_frames_uint8 cb st en"
  let ?p = "takeWhile (\<lambda>x. x \<noteq> en) ?xs"
  let ?e = "first_index ?xs en"
  note unfold = circular_buffer_remove_front_unfinished_frames_uint8.simps [of cb st en]
  have e: "circular_buffer_find_first_uint8 cb en = Inr (of_nat ?e)" using wf by (rule find_first_refines)
  have l: "circular_buffer_find_last_uint8 cb st = Inr (of_nat (last_index ?xs st))"
    using wf by (rule find_last_refines)
  note ge = index_ge_size [OF first_index_le [of ?xs en]] and gl = index_ge_size [OF last_index_le [of ?xs st]]
  note ue = unat_index [OF first_index_le [of ?xs en]] and ul = unat_index [OF last_index_le [of ?xs st]]
  have lp: "length ?p = ?e" by (simp add: first_index_def)
  show ?case
  proof (cases "en \<in> set ?xs")
    case False
    then have "?e = length ?xs" using first_index_less_iff [of ?xs en] first_index_le [of ?xs en] by simp
    then have big: "of_nat ?e \<ge> cb_size cb" using ge by blast
    show ?thesis
    proof (cases "st \<in> set ?xs")
      case True
      then have "last_index ?xs st < length ?xs" using last_index_less_iff [of ?xs st] by blast
      then have nb: "\<not> of_nat (last_index ?xs st) \<ge> cb_size cb" using gl by simp
      have "cb_returns (bind_res (pop_front_times (last_index ?xs st) cb)
          (\<lambda>_ q. (Inr (of_nat (last_index ?xs st)), q))) (of_nat (last_index ?xs st)) (cb_cap cb)
          (drop (last_index ?xs st) ?xs)"
        by (rule cb_returns_bind [OF pop_front_times_returns [OF wf last_index_le]]) simp
      then show ?thesis using False True big nb last_index_le [of ?xs st]
        by (simp add: unfold e l ul frame_sync.simps [of st en ?xs] leading_ends.simps [of st en ?xs])
    next
      case nst: False
      then have "last_index ?xs st = length ?xs" by (simp add: last_index_def)
      then have "of_nat (last_index ?xs st) \<ge> cb_size cb" using gl by blast
      then show ?thesis using False nst big clear_wf [OF wf]
        by (simp add: unfold e l frame_sync.simps [of st en ?xs] leading_ends.simps [of st en ?xs])
    qed
  next
    case True
    then have el: "?e < length ?xs" using first_index_less_iff [of ?xs en] by blast
    then have nb: "\<not> of_nat ?e \<ge> cb_size cb" using ge by simp
    have z: "(of_nat ?e :: size_t) = 0 \<longleftrightarrow> ?e = 0" using ue by (metis unat_0 unat_eq_zero)
    have rec: "cb_returns (?op q)
      (of_nat (length (cb_list q) - length (frame_sync st en (cb_list q)) - leading_ends st en (cb_list q)))
      (cb_cap cb) (frame_sync st en (drop (Suc ?e) ?xs))"
      if "cb_wf q" "cb_cap q = cb_cap cb" "cb_list q = drop (Suc ?e) ?xs" for q
      using less.hyps [of q] that el by simp
    have tk: "take ?e ?xs = ?p" unfolding first_index_def by (rule takeWhile_eq_take [symmetric])
    have sb: "scan_back cb st (of_nat ?e - 1) =
        Inr (if st \<in> set ?p then Some (of_nat (last_index ?p st)) else None)" if nz: "?e \<noteq> 0"
    proof -
      have pred: "unat (of_nat ?e - 1 :: size_t) = ?e - 1" using unat_dec_64 [of "of_nat ?e"] nz z ue by metis
      have "unat (of_nat ?e - 1 :: size_t) < length ?xs" "Suc (?e - 1) = ?e" using el nz pred by linarith+
      then show ?thesis using scan_back_refines [OF wf st, of "of_nat ?e - 1"] by (simp only: pred tk)
    qed
    show ?thesis
    proof (cases "st \<in> set ?p")
      case frame: True
      let ?i = "last_index ?p st"
      have i: "?i < ?e" using frame last_index_less_iff [of ?p st] lp by simp
      then have nz: "?e \<noteq> 0" by simp
      have "scan_back cb st (of_nat ?e - 1) = Inr (Some (of_nat ?i))"
        using sb [OF nz] frame by simp
      moreover have "unat (of_nat ?i :: size_t) = ?i" by (rule unat_index [of _ cb]) (use i el in simp)
      moreover have "cb_returns (bind_res (pop_front_times ?i cb) (\<lambda>_ q. (Inr (of_nat ?i), q)))
          (of_nat ?i) (cb_cap cb) (drop ?i ?xs)"
        by (rule cb_returns_bind [OF pop_front_times_returns [OF wf, of ?i]]) (use i el in simp_all)
      ultimately show ?thesis using True frame nb nz z i el
        by (simp add: unfold e frame_sync.simps [of st en ?xs] leading_ends.simps [of st en ?xs] Let_def)
    next
      case bad: False
      have fs: "frame_sync st en ?xs = frame_sync st en (drop (Suc ?e) ?xs)"
        and le: "leading_ends st en ?xs = (if ?e = 0 then 1 else 0) + leading_ends st en (drop (Suc ?e) ?xs)"
        using True bad
        by (simp_all add: frame_sync.simps [of st en ?xs] leading_ends.simps [of st en ?xs] Let_def lp
          flip: length_0_conv)
      have bound: "length (frame_sync st en (drop (Suc ?e) ?xs)) + leading_ends st en (drop (Suc ?e) ?xs)
        \<le> length ?xs - Suc ?e"
        using length_frame_sync [of st en "drop (Suc ?e) ?xs"] by simp
      show ?thesis
      proof (cases "?e = 0")
        case zero: True
        obtain x ys where c: "?xs = x # ys" using el by (cases ?xs) auto
        have "cb_returns (bind_res (circular_buffer_pop_front_uint8 cb) (\<lambda>_ q. ?op q))
          (of_nat (length ys - length (frame_sync st en ys) - leading_ends st en ys)) (cb_cap cb)
          (frame_sync st en ys)"
          by (rule cb_returns_bind [OF pop_front_returns [OF wf c]]) (use rec zero c in auto)
        then show ?thesis using nb zero fs le c by (simp add: unfold e)
      next
        case nz: False
        have sc: "scan_back cb st (of_nat ?e - 1) = Inr None"
          using sb [OF nz] bad by simp
        let ?n = "length ?xs - Suc ?e - length (frame_sync st en (drop (Suc ?e) ?xs))
           - leading_ends st en (drop (Suc ?e) ?xs)"
        have "cb_returns (bind_res (pop_front_times (Suc ?e) cb) (\<lambda>_ q.
            bind_res (?op q) (\<lambda>n q. (Inr (of_nat ?e + 1 + n), q))))
            (of_nat ?e + 1 + of_nat ?n) (cb_cap cb) (frame_sync st en (drop (Suc ?e) ?xs))"
        proof (rule cb_returns_bind [OF pop_front_times_returns [OF wf Suc_leI [OF el]]])
          fix q assume "cb_wf q" "cb_cap q = cb_cap cb" "cb_list q = drop (Suc ?e) ?xs"
          then show "cb_returns (bind_res (?op q) (\<lambda>n q. (Inr (of_nat ?e + 1 + n), q)))
            (of_nat ?e + 1 + of_nat ?n) (cb_cap cb) (frame_sync st en (drop (Suc ?e) ?xs))"
            using rec [of q] by (intro cb_returns_bind [OF rec [of q]]) simp_all
        qed
        moreover have "length ?xs - length (frame_sync st en ?xs) - leading_ends st en ?xs = ?e + 1 + ?n"
          using bound el nz unfolding fs le by simp
        then have "of_nat ?e + 1 + of_nat ?n = (of_nat (length ?xs - length (frame_sync st en ?xs)
            - leading_ends st en ?xs) :: size_t)"
          by (simp only: of_nat_add of_nat_1)
        ultimately show ?thesis using nb nz z sc fs by (simp add: unfold e ue)
      qed
    qed
  qed
qed

end
