(* ===== verification/Hex.thy ===== *)
theory Hex
  imports Asc_Prelude
begin

text \<open>
  The conversions between integers and hexadecimal digits of
  \<^verbatim>\<open>ascii_serial_com.c\<close>, the digits they write, and the round trip. A
  \<^verbatim>\<open>char *\<close> is an offset into the array of characters it points into.
\<close>

unbundle bit_operations_syntax

section \<open>The operations\<close>

definition convert_uint8_to_hex :: "byte \<Rightarrow> nat \<Rightarrow> bool \<Rightarrow> byte list \<Rightarrow> (unit, byte list) res" where
  "convert_uint8_to_hex num outstr caps =
     for_each (\<lambda>i.
       let nibble = drop_bit (4 * i) num AND 0xF in
       if nibble < 10 then store (outstr + (1 - i)) (0x30 + nibble)
       else if caps then store (outstr + (1 - i)) (0x41 + nibble - 10)
       else store (outstr + (1 - i)) (0x61 + nibble - 10)) [0..<2]"

definition convert_uint16_to_hex :: "16 word \<Rightarrow> nat \<Rightarrow> bool \<Rightarrow> byte list \<Rightarrow> (unit, byte list) res" where
  "convert_uint16_to_hex num outstr caps =
     for_each (\<lambda>i. convert_uint8_to_hex (ucast (drop_bit (8 * i) num AND 0xFF)) (outstr + (1 - i) * 2) caps) [0..<2]"

definition convert_uint32_to_hex :: "32 word \<Rightarrow> nat \<Rightarrow> bool \<Rightarrow> byte list \<Rightarrow> (unit, byte list) res" where
  "convert_uint32_to_hex num outstr caps =
     for_each (\<lambda>i. convert_uint8_to_hex (ucast (drop_bit (8 * i) num AND 0xFF)) (outstr + (3 - i) * 2) caps) [0..<4]"

text \<open>
  \<^verbatim>\<open>char\<close> is signed: the comparisons read the character with its sign. The result
  is the state of the loop.
\<close>

definition convert_hex_to_uint8 :: "byte list \<Rightarrow> nat \<Rightarrow> byte exc" where
  "convert_hex_to_uint8 mem instr = final_state (
     for_each (\<lambda>i result.
       bind_res (load mem (instr + (1 - i)), result) (\<lambda>thischar result.
         if sint thischar \<ge> 0x30 \<and> sint thischar \<le> 0x39 then
           (Inr (), result OR push_bit (i * 4) (thischar - 0x30))
         else if sint thischar \<ge> 0x41 \<and> sint thischar \<le> 0x46 then
           (Inr (), result OR push_bit (i * 4) (thischar - 0x41 + 10))
         else if sint thischar \<ge> 0x61 \<and> sint thischar \<le> 0x66 then
           (Inr (), result OR push_bit (i * 4) (thischar - 0x61 + 10))
         else (Inl (Throw ASC_ERROR_NOT_HEX_CHAR), result))) [0..<2] 0)"

definition convert_hex_to_uint16 :: "byte list \<Rightarrow> nat \<Rightarrow> 16 word exc" where
  "convert_hex_to_uint16 mem instr = final_state (
     for_each (\<lambda>i result.
       bind_res (convert_hex_to_uint8 mem (instr + (1 - i) * 2), result) (\<lambda>x result.
         (Inr (), result OR push_bit (8 * i) (ucast x)))) [0..<2] 0)"

definition convert_hex_to_uint32 :: "byte list \<Rightarrow> nat \<Rightarrow> 32 word exc" where
  "convert_hex_to_uint32 mem instr = final_state (
     for_each (\<lambda>i result.
       bind_res (convert_hex_to_uint8 mem (instr + (3 - i) * 2), result) (\<lambda>x result.
         (Inr (), result OR push_bit (8 * i) (ucast x)))) [0..<4] 0)"

section \<open>Digits\<close>

definition hex_digit :: "bool \<Rightarrow> byte \<Rightarrow> byte" where
  "hex_digit caps nibble =
     (if nibble < 10 then 0x30 + nibble else if caps then 0x37 + nibble else 0x57 + nibble)"

definition hex_value :: "byte \<Rightarrow> byte option" where
  "hex_value c =
     (if 0x30 \<le> c \<and> c \<le> 0x39 then Some (c - 0x30)
      else if 0x41 \<le> c \<and> c \<le> 0x46 then Some (c - 0x37)
      else if 0x61 \<le> c \<and> c \<le> 0x66 then Some (c - 0x57) else None)"

text \<open>The digits of a number of any width, the most significant one first.\<close>

fun hex_digits :: "bool \<Rightarrow> nat \<Rightarrow> 'a::len word \<Rightarrow> byte list" where
  "hex_digits caps 0 w = []"
| "hex_digits caps (Suc n) w = hex_digit caps (ucast (drop_bit (4 * n) w AND 0xF)) # hex_digits caps n w"

lemma length_hex_digits [simp]: "length (hex_digits caps n w) = n"
  by (induction n) simp_all

lemma nibble_less: "unat (x AND 0xF :: byte) < 16"
proof -
  have "x AND 0xF = take_bit 4 x" by (simp add: take_bit_eq_mask mask_eq_exp_minus_1)
  then show ?thesis using take_bit_nat_less_exp [of 4 "unat x"] by (simp only: unsigned_take_bit_eq) simp
qed

lemma hex_value_digit:
  assumes "unat x < 16"
  shows "hex_value (hex_digit caps x) = Some x"
proof -
  have "list_all (\<lambda>i. hex_value (hex_digit True (of_nat i)) = Some (of_nat i)) [0..<16]" by code_simp
  moreover have "list_all (\<lambda>i. hex_value (hex_digit False (of_nat i)) = Some (of_nat i)) [0..<16]"
    by code_simp
  ultimately show ?thesis by (cases caps) (auto intro: word_below_all [OF _ assms])
qed

lemma convert_uint8_to_hex_digits:
  assumes "p + 2 \<le> length mem"
  shows "convert_uint8_to_hex num p caps mem = (Inr (), mem_put p (hex_digits caps 2 num) mem)"
proof -
  have d: "(let n = drop_bit k num AND 0xF in if n < 10 then store q (0x30 + n)
      else if caps then store q (0x41 + n - 10) else store q (0x61 + n - 10)) =
    store q (hex_digit caps (drop_bit k num AND 0xF))" for k q
    by (simp add: hex_digit_def Let_def)
  show ?thesis using assms
    by (simp add: convert_uint8_to_hex_def d upt_rec numeral_2_eq_2 mem_put_single
        mem_put_append [of p "[_]" "[_]", simplified])
qed

declare add_2_eq_Suc [simp del] add_2_eq_Suc' [simp del]

lemma unat_byte: "unat (c :: byte) < 256"
  using unsigned_less [of c] by simp

lemma mask_15: "(15 :: 'a::len word) = mask 4" "(255 :: 'a::len word) = mask 8"
  by (simp_all add: mask_eq_exp_minus_1)

lemma digit_of_byte:
  assumes "k \<le> 4"
  shows "(ucast (drop_bit k (ucast (drop_bit j (w :: 'a::len word) AND 0xFF) :: byte) AND 0xF) :: byte) =
    ucast (drop_bit (j + k) w AND 0xF)"
proof (rule bit_eqI)
  fix n
  show "bit (ucast (drop_bit k (ucast (drop_bit j w AND 0xFF) :: byte) AND 0xF) :: byte) n \<longleftrightarrow>
    bit (ucast (drop_bit (j + k) w AND 0xF) :: byte) n"
    using assms bit_imp_le_length [of w "n + (j + k)"] by (auto simp: mask_15 bit_simps ac_simps)
qed

text \<open>The two digits of a byte of a wider word are digits of the word.\<close>

lemma hex_digits_byte:
  "hex_digits caps 2 (ucast (drop_bit j (w :: 'a::len word) AND 0xFF) :: byte) =
    [hex_digit caps (ucast (drop_bit (j + 4) w AND 0xF)), hex_digit caps (ucast (drop_bit j w AND 0xF))]"
  using digit_of_byte [of 4 j w] digit_of_byte [of 0 j w] by (simp add: numeral_2_eq_2)

abbreviation byte_digits :: "bool \<Rightarrow> 'a::len word \<Rightarrow> nat \<Rightarrow> byte list" where
  "byte_digits caps w j \<equiv> hex_digits caps 2 (ucast (drop_bit j w AND 0xFF) :: byte)"

lemma hex_digits_4: "hex_digits caps 4 (w :: 16 word) = byte_digits caps w 8 @ byte_digits caps w 0"
  unfolding hex_digits_byte by (simp add: numeral_eq_Suc)

lemma hex_digits_8: "hex_digits caps 8 (w :: 32 word) =
  byte_digits caps w 24 @ byte_digits caps w 16 @ byte_digits caps w 8 @ byte_digits caps w 0"
  unfolding hex_digits_byte by (simp add: numeral_eq_Suc)

lemma mem_put_digits:
  assumes "p + 2 + length bs \<le> length mem"
  shows "mem_put p (hex_digits caps 2 w) (mem_put (p + 2) bs mem) = mem_put p (hex_digits caps 2 w @ bs) mem"
  using mem_put_append [of p "hex_digits caps 2 w" bs mem] assms by simp

lemma upt_2: "[0..<2] = [0, 1]" and upt_4: "[0..<4] = [0, 1, 2, 3]"
  by (simp_all add: upt_rec)

lemma convert_uint16_to_hex_digits:
  assumes "p + 4 \<le> length mem"
  shows "convert_uint16_to_hex num p caps mem = (Inr (), mem_put p (hex_digits caps 4 num) mem)"
  using assms
  by (simp add: convert_uint16_to_hex_def upt_2 convert_uint8_to_hex_digits
      mem_put_digits hex_digits_4)

lemma convert_uint32_to_hex_digits:
  assumes "p + 8 \<le> length mem"
  shows "convert_uint32_to_hex num p caps mem = (Inr (), mem_put p (hex_digits caps 8 num) mem)"
proof -
  have o: "p + 4 + 2 = p + 6" "p + 2 + 2 = p + 4" by simp_all
  show ?thesis
    using assms
    by (simp add: convert_uint32_to_hex_def upt_4 convert_uint8_to_hex_digits hex_digits_8
        mem_put_digits [of "p + 4", unfolded o] mem_put_digits [of "p + 2", unfolded o] mem_put_digits [of p]
)
qed

lemma digit_branches:
  "(if sint c \<ge> 0x30 \<and> sint c \<le> 0x39 then (Inr (), r OR push_bit k (c - 0x30))
    else if sint c \<ge> 0x41 \<and> sint c \<le> 0x46 then (Inr (), r OR push_bit k (c - 0x41 + 10))
    else if sint c \<ge> 0x61 \<and> sint c \<le> 0x66 then (Inr (), r OR push_bit k (c - 0x61 + 10))
    else (Inl (Throw ASC_ERROR_NOT_HEX_CHAR), r)) =
   (case hex_value c of None \<Rightarrow> (Inl (Throw ASC_ERROR_NOT_HEX_CHAR), r)
    | Some v \<Rightarrow> (Inr (), r OR push_bit k v))" for c :: byte
proof -
  have "list_all (\<lambda>i. let c = of_nat i :: byte in
    (0x30 \<le> sint c \<and> sint c \<le> 0x39 \<longleftrightarrow> 0x30 \<le> c \<and> c \<le> 0x39) \<and>
    (0x41 \<le> sint c \<and> sint c \<le> 0x46 \<longleftrightarrow> 0x41 \<le> c \<and> c \<le> 0x46) \<and>
    (0x61 \<le> sint c \<and> sint c \<le> 0x66 \<longleftrightarrow> 0x61 \<le> c \<and> c \<le> 0x66)) [0..<256]" by code_simp
  from word_below_all [OF this, of c] unsigned_less [of c]
  have "(0x30 \<le> sint c \<and> sint c \<le> 0x39 \<longleftrightarrow> 0x30 \<le> c \<and> c \<le> 0x39)"
    "(0x41 \<le> sint c \<and> sint c \<le> 0x46 \<longleftrightarrow> 0x41 \<le> c \<and> c \<le> 0x46)"
    "(0x61 \<le> sint c \<and> sint c \<le> 0x66 \<longleftrightarrow> 0x61 \<le> c \<and> c \<le> 0x66)" by (auto simp: Let_def)
  then show ?thesis by (simp add: hex_value_def)
qed


text \<open>Reading digits, the most significant one first.\<close>

definition hex_step :: "'a::len word option \<Rightarrow> byte \<Rightarrow> 'a word option" where
  "hex_step acc c =
     (case acc of None \<Rightarrow> None | Some a \<Rightarrow>
       (case hex_value c of None \<Rightarrow> None | Some v \<Rightarrow> Some (push_bit 4 a OR ucast v)))"

definition hex_word :: "byte list \<Rightarrow> 'a::len word option" where
  "hex_word cs = foldl hex_step (Some 0) cs"

definition hex_result :: "'a option \<Rightarrow> 'a exc" where
  "hex_result r = (case r of None \<Rightarrow> Inl (Throw ASC_ERROR_NOT_HEX_CHAR) | Some w \<Rightarrow> Inr w)"

lemma hex_result_simps [simp]:
  "hex_result None = Inl (Throw ASC_ERROR_NOT_HEX_CHAR)"
  "hex_result (Some w) = Inr w"
  by (simp_all add: hex_result_def)

lemma hex_step_None [simp]: "hex_step None c = None" "foldl hex_step None cs = None"
  by (simp_all add: hex_step_def, induction cs) (simp_all add: hex_step_def)

lemma foldl_hex_digits:
  "foldl hex_step (Some a) (hex_digits caps n (w :: 'a::len word)) =
    Some (push_bit (4 * n) a OR take_bit (4 * n) w)"
proof (induction n arbitrary: a)
  case 0
  then show ?case by simp
next
  case (Suc n)
  let ?d = "ucast (drop_bit (4 * n) w AND 0xF) :: byte"
  have d: "unat ?d < 16"
  proof -
    have "?d = ?d AND 0xF" by (rule bit_eqI) (auto simp: mask_15 bit_simps)
    then show ?thesis using nibble_less [of ?d] by simp
  qed
  have "push_bit (4 * n) (push_bit 4 a OR ucast ?d) OR take_bit (4 * n) w =
    push_bit (4 * Suc n) a OR take_bit (4 * Suc n) w"
    by (rule bit_eqI) (auto simp: mask_15 bit_simps add.commute)
  moreover have "hex_step (Some a) (hex_digit caps ?d) = Some (push_bit 4 a OR ucast ?d)"
    by (simp add: hex_step_def hex_value_digit [OF d])
  ultimately show ?case by (simp only: hex_digits.simps foldl.simps Suc.IH)
qed

lemma hex_word_digits: "LENGTH('a) \<le> 4 * n \<Longrightarrow> hex_word (hex_digits caps n (w :: 'a::len word)) = Some w"
  by (simp add: hex_word_def foldl_hex_digits take_bit_word_beyond_length_eq)

lemma take_drop_2: "p + 2 \<le> length mem \<Longrightarrow> take 2 (drop p mem) = [mem ! p, mem ! (p + 1)]"
  by (auto simp: numeral_2_eq_2 add_2_eq_Suc take_Suc_conv_app_nth)

lemma convert_hex_to_uint8_digits:
  assumes "p + 2 \<le> length mem"
  shows "convert_hex_to_uint8 mem p = hex_result (hex_word (take 2 (drop p mem)))"
  using assms
  by (simp add: convert_hex_to_uint8_def upt_2 digit_branches hex_word_def hex_step_def take_drop_2 or.commute
      split: option.split)

lemma hex_value_bits: "hex_value c = Some v \<Longrightarrow> bit v n \<Longrightarrow> n < 4"
proof -
  have "list_all (\<lambda>i. case hex_value (of_nat i) of None \<Rightarrow> True | Some v \<Rightarrow> take_bit 4 v = v) [0..<256]"
    by code_simp
  from word_below_all [OF this, of c] unat_byte [of c]
  show "hex_value c = Some v \<Longrightarrow> bit v n \<Longrightarrow> n < 4"
    by (auto split: option.splits) (metis bit_take_bit_iff)
qed

text \<open>A byte read first and then widened.\<close>

lemma foldl_hex_byte:
  assumes "8 \<le> LENGTH('a)"
  shows "foldl hex_step (Some (a :: 'a::len word)) [c, d] =
    (case hex_word [c, d] of None \<Rightarrow> None | Some b \<Rightarrow> Some (push_bit 8 a OR ucast (b :: byte)))"
proof (cases "hex_value c"; cases "hex_value d")
  fix u v assume h: "hex_value c = Some u" "hex_value d = Some v"
  have "push_bit 4 (push_bit 4 a OR ucast u) OR ucast v = push_bit 8 a OR (ucast (push_bit 4 u OR v :: byte) :: 'a word)"
    using assms hex_value_bits [OF h(1)] hex_value_bits [OF h(2)]
    by (intro bit_eqI) (auto simp: bit_simps, force)
  then show ?thesis by (simp add: hex_word_def hex_step_def h)
qed (simp_all add: hex_word_def hex_step_def)


lemma take_append_drop: "p + m + n \<le> length mem \<Longrightarrow>
    take (m + n) (drop p mem) = take m (drop p mem) @ take n (drop (p + m) mem)"
  by (simp add: take_add add.commute)

lemma hex_word_byte: "p + 2 \<le> length mem \<Longrightarrow>
    foldl hex_step (Some (a :: 'a::len word)) (take 2 (drop p mem)) =
    (case convert_hex_to_uint8 mem p of Inl _ \<Rightarrow> None | Inr b \<Rightarrow> Some (push_bit 8 a OR ucast b))"
  if "8 \<le> LENGTH('a)"
  using that foldl_hex_byte [OF that, of a "mem ! p" "mem ! (p + 1)"]
  by (simp add: convert_hex_to_uint8_digits take_drop_2 split: option.splits)

lemma convert_hex_to_uint8_cases:
  assumes "p + 2 \<le> length mem"
  obtains "convert_hex_to_uint8 mem p = Inl (Throw ASC_ERROR_NOT_HEX_CHAR)"
  | b where "convert_hex_to_uint8 mem p = Inr b"
  using convert_hex_to_uint8_digits [OF assms] by (cases "hex_word (take 2 (drop p mem)) :: byte option") auto

lemma convert_hex_to_uint16_digits:
  assumes "p + 4 \<le> length mem"
  shows "convert_hex_to_uint16 mem p = hex_result (hex_word (take 4 (drop p mem)))"
proof -
  have t: "take 4 (drop p mem) = take 2 (drop p mem) @ take 2 (drop (p + 2) mem)"
    using take_append_drop [of p 2 2 mem] assms by simp
  have b: "p + 2 \<le> length mem" "p + 2 + 2 \<le> length mem" using assms by simp_all
  show ?thesis
    by (cases rule: convert_hex_to_uint8_cases [OF b(1)]; cases rule: convert_hex_to_uint8_cases [OF b(2)])
      (use assms in \<open>simp_all add: convert_hex_to_uint16_def upt_2 t hex_word_def hex_word_byte or.commute\<close>)
qed

lemma convert_hex_to_uint32_digits:
  assumes "p + 8 \<le> length mem"
  shows "convert_hex_to_uint32 mem p = hex_result (hex_word (take 8 (drop p mem)))"
proof -
  have o: "p + 2 + 2 = p + 4" "p + 4 + 2 = p + 6" "2 + 6 = (8 :: nat)" "2 + 4 = (6 :: nat)" "2 + 2 = (4 :: nat)" by simp_all
  have t: "take 8 (drop p mem) = take 2 (drop p mem) @ take 2 (drop (p + 2) mem) @
      take 2 (drop (p + 4) mem) @ take 2 (drop (p + 6) mem)"
    using take_append_drop [of p 2 6 mem] take_append_drop [of "p + 2" 2 4 mem]
      take_append_drop [of "p + 4" 2 2 mem] assms by (simp only: o)
  have b: "p + 2 \<le> length mem" "p + 2 + 2 \<le> length mem" "p + 4 + 2 \<le> length mem" "p + 6 + 2 \<le> length mem"
    using assms by simp_all
  show ?thesis
    by (cases rule: convert_hex_to_uint8_cases [OF b(1)]; cases rule: convert_hex_to_uint8_cases [OF b(2)];
        cases rule: convert_hex_to_uint8_cases [OF b(3)]; cases rule: convert_hex_to_uint8_cases [OF b(4)])
      (use assms in \<open>simp_all add: convert_hex_to_uint32_def upt_4 t hex_word_def hex_word_byte
        or.assoc or.commute or.left_commute\<close>)
qed


section \<open>The interface\<close>

text \<open>
  What the code relies on of a pair of conversions: the digits are written where they are asked for
  and nowhere else, they are read back, and reading never leaves the digits it was given.
\<close>

locale hex_codec =
  fixes put :: "'v \<Rightarrow> nat \<Rightarrow> bool \<Rightarrow> byte list \<Rightarrow> (unit, byte list) res"
    and get :: "byte list \<Rightarrow> nat \<Rightarrow> 'v exc"
    and digits :: "bool \<Rightarrow> 'v \<Rightarrow> byte list"
    and width :: nat
  assumes put_digits: "p + width \<le> length mem \<Longrightarrow> put v p caps mem = (Inr (), mem_put p (digits caps v) mem)"
    and length_digits [simp]: "length (digits caps v) = width"
    and get_digits: "p + width \<le> length mem \<Longrightarrow> take width (drop p mem) = digits caps v \<Longrightarrow> get mem p = Inr v"
    and get_cases: "p + width \<le> length mem \<Longrightarrow>
      get mem p = Inl (Throw ASC_ERROR_NOT_HEX_CHAR) \<or> (\<exists>v. get mem p = Inr v)"
    and get_local: "p + width \<le> length mem \<Longrightarrow> q + width \<le> length mem' \<Longrightarrow>
      take width (drop p mem) = take width (drop q mem') \<Longrightarrow> get mem p = get mem' q"
begin

lemma get_put:
  assumes "p + width \<le> length mem"
  shows "get (snd (put v p caps mem)) p = Inr v"
  using assms take_drop_mem_put [of p "digits caps v" mem]
  by (auto simp: put_digits intro!: get_digits [of _ _ caps])

lemma get_put_put:
  assumes "p + width \<le> length mem" "q + width \<le> length mem" "p + width \<le> q \<or> q + width \<le> p"
  shows "get (snd (put w q caps' (snd (put v p caps mem)))) p = Inr v"
proof (rule get_digits)
  show "p + width \<le> length (snd (put w q caps' (snd (put v p caps mem))))"
    using assms by (simp add: put_digits)
  show "take width (drop p (snd (put w q caps' (snd (put v p caps mem))))) = digits caps v"
    using assms by (intro nth_equalityI) (auto simp: put_digits nth_mem_put)
qed

end

lemma hex_result_cases:
  "hex_result r = Inl (Throw ASC_ERROR_NOT_HEX_CHAR) \<or> (\<exists>v. hex_result r = Inr v)"
  by (cases r) auto

interpretation hex8: hex_codec convert_uint8_to_hex convert_hex_to_uint8 "\<lambda>caps. hex_digits caps 2" 2
  by unfold_locales (simp_all add: convert_uint8_to_hex_digits convert_hex_to_uint8_digits hex_word_digits
    hex_result_cases)

interpretation hex16: hex_codec convert_uint16_to_hex convert_hex_to_uint16 "\<lambda>caps. hex_digits caps 4" 4
  by unfold_locales (simp_all add: convert_uint16_to_hex_digits convert_hex_to_uint16_digits hex_word_digits
    hex_result_cases)

interpretation hex32: hex_codec convert_uint32_to_hex convert_hex_to_uint32 "\<lambda>caps. hex_digits caps 8" 8
  by unfold_locales (simp_all add: convert_uint32_to_hex_digits convert_hex_to_uint32_digits hex_word_digits
    hex_result_cases)

lemma hex_foldl_None: "foldl hex_step a cs = None \<longleftrightarrow> a = None \<or> (\<exists>c \<in> set cs. hex_value c = None)"
  by (induction cs arbitrary: a) (auto simp: hex_step_def split: option.splits)

lemma hex_word_None_iff: "hex_word cs = None \<longleftrightarrow> (\<exists>c \<in> set cs. hex_value c = None)"
  by (simp add: hex_word_def hex_foldl_None)

lemma hex_result_eq: "hex_result r = Inl (Throw ASC_ERROR_NOT_HEX_CHAR) \<longleftrightarrow> r = None"
  by (cases r) auto

end
