(* ===== verification/Crc.thy ===== *)
theory Crc
  imports Asc_Prelude
begin

text \<open>
  The four implementations of CRC-16-DNP that \<^verbatim>\<open>ascii_serial_com.c\<close> chooses from
  (\<^verbatim>\<open>crc_16_dnp_bbb\<close>, \<^verbatim>\<open>_bbf\<close>, \<^verbatim>\<open>_tbl4bit\<close>
  and \<^verbatim>\<open>_crcmod\<close>), the shift register they all implement, the interface that
  the checksum code uses, and what the checksum detects.
\<close>

unbundle bit_operations_syntax

section \<open>The implementations\<close>

text \<open>
  \<^verbatim>\<open>uint_fast16_t\<close> has 64 bits on the native target. The bytes that
  \<^verbatim>\<open>data\<close> points to and \<^verbatim>\<open>data_len\<close> counts are a list.
\<close>

type_synonym crc_t = "64 word"

subsection \<open>Bit by bit\<close>

definition crc_16_dnp_bbb_reflect :: "crc_t \<Rightarrow> nat \<Rightarrow> crc_t" where
  "crc_16_dnp_bbb_reflect data data_len =
     snd (foldl (\<lambda>(data, ret) i. let data = drop_bit 1 data in (data, push_bit 1 ret OR (data AND 0x01)))
       (data, data AND 0x01) [1..<data_len])"

definition crc_16_dnp_bbb_init :: crc_t where
  "crc_16_dnp_bbb_init = 0x0000"

definition bbb_update_bit :: "byte \<Rightarrow> crc_t \<Rightarrow> nat \<Rightarrow> crc_t" where
  "bbb_update_bit c crc i =
     (let bit = crc AND 0x8000 \<noteq> 0;
          crc = push_bit 1 crc OR (ucast (drop_bit (7 - i) c) AND 0x01)
      in if bit then crc XOR 0x3d65 else crc)"

definition crc_16_dnp_bbb_update :: "crc_t \<Rightarrow> byte list \<Rightarrow> crc_t" where
  "crc_16_dnp_bbb_update crc data =
     foldl (\<lambda>crc d.
       let c = ucast (crc_16_dnp_bbb_reflect (ucast d) 8)
       in foldl (bbb_update_bit c) crc [0..<8] AND 0xffff) crc data AND 0xffff"

definition bbb_finalize_bit :: "crc_t \<Rightarrow> nat \<Rightarrow> crc_t" where
  "bbb_finalize_bit crc i =
     (let bit = crc AND 0x8000 \<noteq> 0; crc = push_bit 1 crc in if bit then crc XOR 0x3d65 else crc)"

definition crc_16_dnp_bbb_finalize :: "crc_t \<Rightarrow> crc_t" where
  "crc_16_dnp_bbb_finalize crc =
     (let crc = foldl bbb_finalize_bit crc [0..<16];
          crc = crc_16_dnp_bbb_reflect crc 16
      in (crc XOR 0xffff) AND 0xffff)"

subsection \<open>Bit by bit, fast\<close>

definition crc_16_dnp_bbf_reflect :: "crc_t \<Rightarrow> nat \<Rightarrow> crc_t" where
  "crc_16_dnp_bbf_reflect data data_len =
     snd (foldl (\<lambda>(data, ret) i. let data = drop_bit 1 data in (data, push_bit 1 ret OR (data AND 0x01)))
       (data, data AND 0x01) [1..<data_len])"

definition crc_16_dnp_bbf_init :: crc_t where
  "crc_16_dnp_bbf_init = 0x0000"

text \<open>The loop variable \<^verbatim>\<open>i\<close> runs through the masks 0x01 to 0x80.\<close>

definition bbf_update_bit :: "byte \<Rightarrow> crc_t \<Rightarrow> 32 word \<Rightarrow> crc_t" where
  "bbf_update_bit c crc i =
     (let bit = crc AND 0x8000 \<noteq> 0;
          bit = (if ucast c AND i \<noteq> 0 then \<not> bit else bit);
          crc = push_bit 1 crc
      in if bit then crc XOR 0x3d65 else crc)"

definition crc_16_dnp_bbf_update :: "crc_t \<Rightarrow> byte list \<Rightarrow> crc_t" where
  "crc_16_dnp_bbf_update crc data =
     foldl (\<lambda>crc c. foldl (bbf_update_bit c) crc (map (\<lambda>k. push_bit k 0x01) [0..<8]) AND 0xffff) crc data
     AND 0xffff"

definition crc_16_dnp_bbf_finalize :: "crc_t \<Rightarrow> crc_t" where
  "crc_16_dnp_bbf_finalize crc = crc_16_dnp_bbf_reflect crc 16 XOR 0xffff"

subsection \<open>Table of 16 entries\<close>

definition crc_table :: "crc_t list" where
  "crc_table =
    [0x0000, 0xb26b, 0x29af, 0x9bc4, 0x535e, 0xe135, 0x7af1, 0xc89a,
     0xa6bc, 0x14d7, 0x8f13, 0x3d78, 0xf5e2, 0x4789, 0xdc4d, 0x6e26]"

definition crc_16_dnp_tbl4bit_init :: crc_t where
  "crc_16_dnp_tbl4bit_init = 0x0000"

definition tbl4bit_update_byte :: "crc_t \<Rightarrow> byte \<Rightarrow> crc_t" where
  "tbl4bit_update_byte crc d =
     (let tbl_idx = ucast (crc XOR ucast d) :: 32 word;
          crc = crc_table ! unat (tbl_idx AND 0x0f) XOR drop_bit 4 crc;
          tbl_idx = ucast (crc XOR ucast (drop_bit 4 d)) :: 32 word
      in crc_table ! unat (tbl_idx AND 0x0f) XOR drop_bit 4 crc)"

definition crc_16_dnp_tbl4bit_update :: "crc_t \<Rightarrow> byte list \<Rightarrow> crc_t" where
  "crc_16_dnp_tbl4bit_update crc data = foldl tbl4bit_update_byte crc data AND 0xffff"

definition crc_16_dnp_tbl4bit_finalize :: "crc_t \<Rightarrow> crc_t" where
  "crc_16_dnp_tbl4bit_finalize crc = crc XOR 0xffff"

subsection \<open>Table of 256 entries\<close>

definition crcmod_table :: "16 word list" where
  "crcmod_table =
    [0x0000, 0x365E, 0x6CBC, 0x5AE2, 0xD978, 0xEF26, 0xB5C4, 0x839A,
     0xFF89, 0xC9D7, 0x9335, 0xA56B, 0x26F1, 0x10AF, 0x4A4D, 0x7C13,
     0xB26B, 0x8435, 0xDED7, 0xE889, 0x6B13, 0x5D4D, 0x07AF, 0x31F1,
     0x4DE2, 0x7BBC, 0x215E, 0x1700, 0x949A, 0xA2C4, 0xF826, 0xCE78,
     0x29AF, 0x1FF1, 0x4513, 0x734D, 0xF0D7, 0xC689, 0x9C6B, 0xAA35,
     0xD626, 0xE078, 0xBA9A, 0x8CC4, 0x0F5E, 0x3900, 0x63E2, 0x55BC,
     0x9BC4, 0xAD9A, 0xF778, 0xC126, 0x42BC, 0x74E2, 0x2E00, 0x185E,
     0x644D, 0x5213, 0x08F1, 0x3EAF, 0xBD35, 0x8B6B, 0xD189, 0xE7D7,
     0x535E, 0x6500, 0x3FE2, 0x09BC, 0x8A26, 0xBC78, 0xE69A, 0xD0C4,
     0xACD7, 0x9A89, 0xC06B, 0xF635, 0x75AF, 0x43F1, 0x1913, 0x2F4D,
     0xE135, 0xD76B, 0x8D89, 0xBBD7, 0x384D, 0x0E13, 0x54F1, 0x62AF,
     0x1EBC, 0x28E2, 0x7200, 0x445E, 0xC7C4, 0xF19A, 0xAB78, 0x9D26,
     0x7AF1, 0x4CAF, 0x164D, 0x2013, 0xA389, 0x95D7, 0xCF35, 0xF96B,
     0x8578, 0xB326, 0xE9C4, 0xDF9A, 0x5C00, 0x6A5E, 0x30BC, 0x06E2,
     0xC89A, 0xFEC4, 0xA426, 0x9278, 0x11E2, 0x27BC, 0x7D5E, 0x4B00,
     0x3713, 0x014D, 0x5BAF, 0x6DF1, 0xEE6B, 0xD835, 0x82D7, 0xB489,
     0xA6BC, 0x90E2, 0xCA00, 0xFC5E, 0x7FC4, 0x499A, 0x1378, 0x2526,
     0x5935, 0x6F6B, 0x3589, 0x03D7, 0x804D, 0xB613, 0xECF1, 0xDAAF,
     0x14D7, 0x2289, 0x786B, 0x4E35, 0xCDAF, 0xFBF1, 0xA113, 0x974D,
     0xEB5E, 0xDD00, 0x87E2, 0xB1BC, 0x3226, 0x0478, 0x5E9A, 0x68C4,
     0x8F13, 0xB94D, 0xE3AF, 0xD5F1, 0x566B, 0x6035, 0x3AD7, 0x0C89,
     0x709A, 0x46C4, 0x1C26, 0x2A78, 0xA9E2, 0x9FBC, 0xC55E, 0xF300,
     0x3D78, 0x0B26, 0x51C4, 0x679A, 0xE400, 0xD25E, 0x88BC, 0xBEE2,
     0xC2F1, 0xF4AF, 0xAE4D, 0x9813, 0x1B89, 0x2DD7, 0x7735, 0x416B,
     0xF5E2, 0xC3BC, 0x995E, 0xAF00, 0x2C9A, 0x1AC4, 0x4026, 0x7678,
     0x0A6B, 0x3C35, 0x66D7, 0x5089, 0xD313, 0xE54D, 0xBFAF, 0x89F1,
     0x4789, 0x71D7, 0x2B35, 0x1D6B, 0x9EF1, 0xA8AF, 0xF24D, 0xC413,
     0xB800, 0x8E5E, 0xD4BC, 0xE2E2, 0x6178, 0x5726, 0x0DC4, 0x3B9A,
     0xDC4D, 0xEA13, 0xB0F1, 0x86AF, 0x0535, 0x336B, 0x6989, 0x5FD7,
     0x23C4, 0x159A, 0x4F78, 0x7926, 0xFABC, 0xCCE2, 0x9600, 0xA05E,
     0x6E26, 0x5878, 0x029A, 0x34C4, 0xB75E, 0x8100, 0xDBE2, 0xEDBC,
     0x91AF, 0xA7F1, 0xFD13, 0xCB4D, 0x48D7, 0x7E89, 0x246B, 0x1235]"

definition computeCRC_16_DNP :: "byte list \<Rightarrow> 16 word \<Rightarrow> 16 word" where
  "computeCRC_16_DNP data crc =
     (let crc = crc XOR 0xFFFF;
          crc = foldl (\<lambda>crc d. crcmod_table ! unat (d XOR ucast crc) XOR drop_bit 8 crc) crc data
      in crc XOR 0xFFFF)"

section \<open>The shift register\<close>

text \<open>
  The polynomial is 0x13D65, its bits reversed 0xA6BC. A step of the register shifts out its lowest bit
  and subtracts the polynomial when that bit is set; a message bit is added to the lowest bit first.
\<close>

definition lfsr_step :: "16 word \<Rightarrow> 16 word" where
  "lfsr_step r = drop_bit 1 r XOR (if bit r 0 then 0xA6BC else 0)"

definition lfsr_bit :: "16 word \<Rightarrow> bool \<Rightarrow> 16 word" where
  "lfsr_bit r b = lfsr_step (r XOR of_bool b)"

definition lfsr_byte :: "16 word \<Rightarrow> byte \<Rightarrow> 16 word" where
  "lfsr_byte r c = foldl lfsr_bit r (map (bit c) [0..<8])"

definition crc_16_dnp :: "byte list \<Rightarrow> 16 word" where
  "crc_16_dnp bs = foldl lfsr_byte 0 bs XOR 0xFFFF"

lemma lfsr_step_xor: "lfsr_step (a XOR b) = lfsr_step a XOR lfsr_step b"
  by (rule bit_eqI) (auto simp: lfsr_step_def bit_simps)

lemma lfsr_step_0 [simp]: "lfsr_step 0 = 0"
  by (simp add: lfsr_step_def)

lemma lfsr_steps_xor: "(lfsr_step ^^ n) (a XOR b) = (lfsr_step ^^ n) a XOR (lfsr_step ^^ n) b"
  by (induction n) (simp_all add: lfsr_step_xor)

lemma lfsr_step_even: "\<not> bit r 0 \<Longrightarrow> lfsr_step r = drop_bit 1 r"
  by (simp add: lfsr_step_def)

lemma lfsr_steps_shift:
  "(\<And>k. k < n \<Longrightarrow> \<not> bit r k) \<Longrightarrow> (lfsr_step ^^ n) r = drop_bit n r"
proof (induction n arbitrary: r)
  case (Suc n)
  have "(lfsr_step ^^ n) (drop_bit 1 r) = drop_bit n (drop_bit 1 r)"
    by (rule Suc.IH) (use Suc.prems in \<open>simp add: bit_simps\<close>)
  then show ?case using Suc.prems by (simp add: funpow_Suc_right lfsr_step_even del: funpow.simps)
qed simp

text \<open>Feeding the low \<open>n\<close> bits of a word is one addition and \<open>n\<close> steps.\<close>

lemma lfsr_bits:
  "n \<le> 16 \<Longrightarrow> foldl lfsr_bit r (map (bit c) [0..<n]) = (lfsr_step ^^ n) (r XOR take_bit n c)"
proof (induction n)
  case (Suc n)
  have "(lfsr_step ^^ n) (push_bit n (of_bool (bit c n))) = of_bool (bit c n)"
    using Suc.prems by (subst lfsr_steps_shift) (auto simp: bit_simps intro!: bit_eqI)
  moreover have "r XOR take_bit (Suc n) c = (r XOR take_bit n c) XOR push_bit n (of_bool (bit c n))"
    using Suc.prems by (intro bit_eqI) (auto simp: bit_simps less_Suc_eq)
  ultimately show ?case using Suc by (simp add: lfsr_bit_def lfsr_steps_xor)
qed simp

text \<open>\<open>n\<close> steps look up the low \<open>n\<close> bits and shift the others.\<close>

lemma lfsr_steps_lookup:
  "(lfsr_step ^^ n) r = (lfsr_step ^^ n) (take_bit n r) XOR drop_bit n r"
proof -
  have b: "bit r k \<Longrightarrow> k < 16" for k
    using bit_imp_le_length [of r k] by simp
  have "r = take_bit n r XOR (r AND NOT (mask n))"
    by (rule bit_eqI) (auto simp: bit_simps)
  moreover have "(lfsr_step ^^ n) (r AND NOT (mask n)) = drop_bit n r"
    by (subst lfsr_steps_shift) (auto simp: bit_simps intro!: bit_eqI dest: b)
  ultimately show ?thesis by (metis lfsr_steps_xor)
qed

lemma lfsr_byte_steps: "lfsr_byte r c = (lfsr_step ^^ 8) (r XOR ucast c)"
proof -
  have "map (bit c) [0..<8] = map (bit (ucast c :: 16 word)) [0..<8]"
    by (auto simp: bit_simps)
  note bits = this
  have "take_bit 8 (ucast c :: 16 word) = ucast c"
    by (rule bit_eqI) (auto simp: bit_simps dest: bit_imp_le_length)
  then show ?thesis using lfsr_bits [of 8 r "ucast c"] by (simp only: lfsr_byte_def bits)
qed

section \<open>The interface\<close>

text \<open>
  What the checksum code uses of an implementation: \<open>register\<close> reads the shift register off
  the sixteen bits that the caller keeps between two blocks.
\<close>

locale crc_algorithm =
  fixes init :: crc_t and update :: "crc_t \<Rightarrow> byte list \<Rightarrow> crc_t" and finalize :: "crc_t \<Rightarrow> crc_t"
    and register :: "16 word \<Rightarrow> 16 word"
  assumes init_register: "register (ucast init) = 0"
    and update_register: "register (ucast (update (ucast c) bs)) = foldl lfsr_byte (register c) bs"
    and finalize_register: "ucast (finalize (ucast c)) = register c XOR 0xFFFF"
begin

lemma crc_blocks:
  "ucast (finalize (ucast (foldl (\<lambda>crc b. ucast (update (ucast crc) b) :: 16 word) (ucast init) blocks))) =
    crc_16_dnp (concat blocks)"
proof -
  have "register (foldl (\<lambda>crc b. ucast (update (ucast crc) b)) c blocks) =
      foldl lfsr_byte (register c) (concat blocks)" for c
    by (induction blocks arbitrary: c) (simp_all add: update_register)
  then show ?thesis by (simp add: finalize_register init_register crc_16_dnp_def)
qed

end

section \<open>The tables\<close>

lemma crc_table_entry:
  assumes "unat i < 16"
  shows "crc_table ! unat i = ucast ((lfsr_step ^^ 4) (ucast (i :: 32 word)))"
proof -
  have "list_all (\<lambda>k. crc_table ! unat (of_nat k :: 32 word) =
      ucast ((lfsr_step ^^ 4) (ucast (of_nat k :: 32 word)))) [0..<16]" by code_simp
  from word_below_all [OF this assms] show ?thesis .
qed

text \<open>
  The table of 256 entries is built by doubling: the entries of a bit and of the numbers below it
  give those of their sums.
\<close>

lemma crcmod_table_doubling:
  "crcmod_table = foldl (\<lambda>t x. t @ map ((XOR) x) t) [0] (map (\<lambda>k. (lfsr_step ^^ (8 - k)) 1) [0..<8])"
  by code_simp

lemma lfsr_steps_power:
  assumes "k \<le> 8"
  shows "(lfsr_step ^^ (8 - k)) 1 = (lfsr_step ^^ 8) (push_bit k 1)"
proof -
  have "(lfsr_step ^^ 8) (push_bit k 1) = (lfsr_step ^^ (8 - k)) ((lfsr_step ^^ k) (push_bit k 1))"
    using funpow_add [of "8 - k" k lfsr_step] assms by simp
  also have "(lfsr_step ^^ k) (push_bit k 1) = 1"
    using assms by (subst lfsr_steps_shift) (auto simp: bit_simps intro!: bit_eqI)
  finally show ?thesis ..
qed

lemma of_nat_power_add:
  assumes "i < 2 ^ k"
  shows "(of_nat (i + 2 ^ k) :: 'a::len word) = push_bit k 1 XOR of_nat i"
proof -
  have nb: "\<not> bit i k" using assms by (simp add: bit_iff_odd)
  have "(push_bit k 1 :: 'a word) AND of_nat i = 0"
    by (rule bit_eqI) (use nb in \<open>auto simp: bit_simps\<close>)
  then have "push_bit k 1 XOR of_nat i = push_bit k 1 + (of_nat i :: 'a word)"
    by (simp only: disjunctive_add_eq_xor)
  then show ?thesis by (simp add: push_bit_eq_mult)
qed

lemma xor_table:
  assumes "\<And>a b. F (a XOR b) = F a XOR F b"
  shows "foldl (\<lambda>t k. t @ map ((XOR) (F (push_bit k 1))) t) [F 0] [0..<n] =
    map (\<lambda>i. F (of_nat i :: 'a::len word) :: 'a word) [0..<2 ^ n]"
proof (induction n)
  case 0
  show ?case by simp
next
  case (Suc n)
  have u: "[0..<2 ^ Suc n] = [0..<2 ^ n] @ map (\<lambda>i. i + 2 ^ n) [0..<2 ^ n]"
    using upt_add_eq_append [of 0 "2 ^ n" "2 ^ n"] map_add_upt [of "2 ^ n" "2 ^ n"]
    by (simp add: mult_2)
  have "map (\<lambda>i. F (of_nat i)) (map (\<lambda>i. i + 2 ^ n) [0..<2 ^ n]) =
    map ((XOR) (F (push_bit n 1))) (map (\<lambda>i. F (of_nat i)) [0..<2 ^ n])"
    by (simp add: of_nat_power_add assms del: of_nat_add)
  then show ?case using Suc.IH unfolding u by simp
qed

lemma crcmod_table_entries: "crcmod_table = map (\<lambda>i. (lfsr_step ^^ 8) (of_nat i)) [0..<256]"
proof -
  have z: "(lfsr_step ^^ 8) 0 = 0" using lfsr_steps_xor [of 8 0 0] by simp
  have m: "map (\<lambda>k. (lfsr_step ^^ (8 - k)) 1) [0..<8] = map (\<lambda>k. (lfsr_step ^^ 8) (push_bit k 1)) [0..<8]"
    by (rule map_cong [OF refl]) (rule lfsr_steps_power, simp)
  have "crcmod_table = foldl (\<lambda>t k. t @ map ((XOR) ((lfsr_step ^^ 8) (push_bit k 1))) t) [(lfsr_step ^^ 8) 0] [0..<8]"
    unfolding crcmod_table_doubling m foldl_map z by (rule refl)
  then show ?thesis unfolding xor_table [OF lfsr_steps_xor [of 8], of 8] by simp
qed

lemma crcmod_table_entry: "crcmod_table ! unat i = (lfsr_step ^^ 8) (ucast (i :: byte))"
proof -
  have "unat i < 256" using unsigned_less [of i] by simp
  then show ?thesis by (simp add: crcmod_table_entries del: funpow.simps)
qed

lemma mask_low: "(15 :: 'a::len word) = mask 4" "(255 :: 'a::len word) = mask 8" "(65535 :: 'a::len word) = mask 16"
  by (simp_all add: mask_eq_exp_minus_1)

lemma bit_bounds:
  "bit (c :: byte) k \<Longrightarrow> k < 8" "bit (w :: 16 word) k \<Longrightarrow> k < 16"
  using bit_imp_le_length [of c k] bit_imp_le_length [of w k] by simp_all

lemma tbl4bit_nibble:
  "crc_table ! unat ((ucast (ucast c XOR ucast n :: crc_t) :: 32 word) AND 0x0f) XOR drop_bit 4 (ucast c) =
    ucast ((lfsr_step ^^ 4) (c XOR take_bit 4 (ucast n)))" for n :: byte and c :: "16 word"
proof -
  let ?i = "(ucast (ucast c XOR ucast n :: crc_t) :: 32 word) AND 0x0f"
  have u: "ucast ?i = take_bit 4 (c XOR ucast n)"
    by (rule bit_eqI) (auto simp: mask_low bit_simps)
  have "?i = take_bit 4 ?i" by (rule bit_eqI) (auto simp: mask_low bit_simps)
  then have "unat ?i = take_bit 4 (unat ?i)" by (simp only: unsigned_take_bit_eq [symmetric])
  then have b: "unat ?i < 16" using take_bit_nat_less_exp [of 4 "unat ?i"] by simp
  have d: "drop_bit 4 (c XOR take_bit 4 (ucast n)) = drop_bit 4 c"
    by (rule bit_eqI) (auto simp: bit_simps)
  have t: "take_bit 4 (c XOR take_bit 4 (ucast n)) = take_bit 4 (c XOR ucast n)"
    by (rule bit_eqI) (auto simp: bit_simps)
  have x: "ucast a XOR drop_bit 4 (ucast c :: crc_t) = ucast (a XOR drop_bit 4 c)" for a :: "16 word"
    by (rule bit_eqI) (auto simp: bit_simps dest: bit_bounds)
  show ?thesis
    unfolding crc_table_entry [OF b] u lfsr_steps_lookup [of 4 "c XOR take_bit 4 (ucast n)"] d t x ..
qed

lemma tbl4bit_update_byte: "tbl4bit_update_byte (ucast c) d = ucast (lfsr_byte c d)"
proof -
  let ?c = "(lfsr_step ^^ 4) (c XOR take_bit 4 (ucast d))"
  have h: "take_bit 4 (ucast (drop_bit 4 d)) = (ucast (drop_bit 4 d) :: 16 word)"
    by (rule bit_eqI) (auto simp: bit_simps dest: bit_bounds)
  have "c XOR ucast d = (c XOR take_bit 4 (ucast d)) XOR push_bit 4 (ucast (drop_bit 4 d))"
    by (rule bit_eqI) (auto simp: bit_simps)
  moreover have "(lfsr_step ^^ 4) (push_bit 4 (ucast (drop_bit 4 d))) = ucast (drop_bit 4 d)"
  proof -
    have "bit d (n + 4) \<Longrightarrow> n < 12" for n using bit_bounds(1) [of d "n + 4"] by simp
    then show ?thesis
      by (subst lfsr_steps_shift) (auto simp: bit_simps add.commute intro!: bit_eqI)
  qed
  ultimately have "(lfsr_step ^^ 4) (c XOR ucast d) = ?c XOR ucast (drop_bit 4 d)"
    by (simp only: lfsr_steps_xor)
  moreover have "lfsr_byte c d = (lfsr_step ^^ 4) ((lfsr_step ^^ 4) (c XOR ucast d))"
    using funpow_add [of 4 4 lfsr_step] by (simp add: lfsr_byte_steps)
  ultimately show ?thesis
    unfolding tbl4bit_update_byte_def Let_def tbl4bit_nibble by (simp only: h)
qed

lemma foldl_map_state:
  assumes "\<And>c d. f (g c) d = g (h c d)"
  shows "foldl f (g c) ds = g (foldl h c ds)"
  by (induction ds arbitrary: c) (simp_all add: assms)

lemma tbl4bit_register:
  "ucast (crc_16_dnp_tbl4bit_update (ucast c) bs) = foldl lfsr_byte c bs"
  unfolding crc_16_dnp_tbl4bit_update_def
    foldl_map_state [of tbl4bit_update_byte ucast lfsr_byte, OF tbl4bit_update_byte]
  by (rule bit_eqI) (auto simp: mask_low bit_simps)

interpretation tbl4bit: crc_algorithm crc_16_dnp_tbl4bit_init crc_16_dnp_tbl4bit_update
    crc_16_dnp_tbl4bit_finalize "\<lambda>c. c"
  by unfold_locales
    (simp_all add: crc_16_dnp_tbl4bit_init_def tbl4bit_register crc_16_dnp_tbl4bit_finalize_def,
     rule bit_eqI, auto simp: mask_low bit_simps)

text \<open>
  The generated function of \<^verbatim>\<open>crcmod\<close> adds the final constant itself, and removes
  it again when it goes on.
\<close>

definition crcmod_update :: "crc_t \<Rightarrow> byte list \<Rightarrow> crc_t" where
  "crcmod_update crc data = ucast (computeCRC_16_DNP data (ucast crc))"

lemma crcmod_byte: "crcmod_table ! unat (d XOR ucast c) XOR drop_bit 8 c = lfsr_byte c d" for c :: "16 word"
proof -
  have t: "take_bit 8 (c XOR ucast d) = ucast (d XOR ucast c)" "drop_bit 8 (c XOR ucast d) = drop_bit 8 c"
    by (rule bit_eqI, auto simp: bit_simps dest: bit_bounds)+
  show ?thesis
    unfolding crcmod_table_entry lfsr_byte_steps lfsr_steps_lookup [of 8 "c XOR ucast d"] t ..
qed

lemma computeCRC_register: "computeCRC_16_DNP bs c XOR 0xFFFF = foldl lfsr_byte (c XOR 0xFFFF) bs"
  by (simp add: computeCRC_16_DNP_def crcmod_byte xor.assoc)

lemma ucast_crc: "ucast (ucast c :: crc_t) = (c :: 16 word)"
  by (rule bit_eqI) (auto simp: bit_simps)

interpretation crcmod: crc_algorithm "0xFFFF" crcmod_update "\<lambda>crc. crc" "\<lambda>c. c XOR 0xFFFF"
  by unfold_locales (simp_all add: crcmod_update_def computeCRC_register xor.assoc ucast_crc)

section \<open>The registers that shift to the left\<close>

text \<open>Reversing the bits.\<close>

definition reflect_step :: "crc_t \<times> crc_t \<Rightarrow> nat \<Rightarrow> crc_t \<times> crc_t" where
  "reflect_step = (\<lambda>(data, ret) i. let data = drop_bit 1 data in (data, push_bit 1 ret OR (data AND 0x01)))"

lemma reflect_loop:
  assumes "n < 64"
  shows "fst (foldl reflect_step (w, w AND 0x01) [1..<Suc n]) = drop_bit n w"
    and "bit (snd (foldl reflect_step (w, w AND 0x01) [1..<Suc n])) k \<longleftrightarrow> k \<le> n \<and> bit w (n - k)"
  using assms
proof (induction n arbitrary: k)
  case 0
  { case 1 show ?case by simp }
  { case 2 show ?case by (auto simp: bit_simps) }
next
  case (Suc n)
  have u: "[1..<Suc (Suc n)] = [1..<Suc n] @ [Suc n]" by simp
  let ?s = "foldl reflect_step (w, w AND 0x01) [1..<Suc n]"
  have s: "reflect_step ?s i = (drop_bit 1 (fst ?s), push_bit 1 (snd ?s) OR (drop_bit 1 (fst ?s) AND 0x01))" for i
    by (simp only: reflect_step_def split_beta Let_def)
  { case 1 then show ?case using Suc.IH(1) unfolding u by (simp add: s plus_1_eq_Suc del: upt_Suc One_nat_def) }
  { case 2
    show ?case
    proof (cases k)
      case 0
      then show ?thesis using 2 Suc.IH(1) unfolding u by (simp add: s bit_simps plus_1_eq_Suc del: upt_Suc One_nat_def)
    next
      case (Suc j)
      then show ?thesis using 2 Suc.IH(1) Suc.IH(2) [of j] unfolding u
        by (auto simp add: s bit_simps simp del: upt_Suc One_nat_def)
    qed }
qed

lemma bit_reflect:
  assumes "0 < n" "n \<le> 64"
  shows "bit (crc_16_dnp_bbf_reflect w n) k \<longleftrightarrow> k < n \<and> bit w (n - 1 - k)"
    and "crc_16_dnp_bbb_reflect = crc_16_dnp_bbf_reflect"
proof -
  have "n = Suc (n - 1)" using assms by simp
  then show "bit (crc_16_dnp_bbf_reflect w n) k \<longleftrightarrow> k < n \<and> bit w (n - 1 - k)"
    using reflect_loop(2) [of "n - 1" w k] assms
    unfolding crc_16_dnp_bbf_reflect_def reflect_step_def [symmetric] by (auto simp del: upt_Suc)
  show "crc_16_dnp_bbb_reflect = crc_16_dnp_bbf_reflect"
    by (intro ext) (simp only: crc_16_dnp_bbb_reflect_def crc_16_dnp_bbf_reflect_def)
qed

definition rev16 :: "16 word \<Rightarrow> 16 word" where
  "rev16 w = ucast (crc_16_dnp_bbf_reflect (ucast w) 16)"

lemma bit_rev16: "bit (rev16 w) k \<longleftrightarrow> k < 16 \<and> bit w (15 - k)"
  by (auto simp: rev16_def bit_reflect bit_simps)

lemma reflect_16: "crc_16_dnp_bbf_reflect crc 16 = ucast (rev16 (ucast crc))"
  by (rule bit_eqI) (auto simp: bit_rev16 bit_reflect bit_simps)

lemma rev16_xor [simp]: "rev16 (a XOR b) = rev16 a XOR rev16 b"
  by (rule bit_eqI) (auto simp: bit_rev16 bit_simps)

lemma rev16_push: "rev16 (push_bit 1 r) = drop_bit 1 (rev16 r)"
  by (rule bit_eqI) (auto simp: bit_rev16 bit_push_bit_iff bit_drop_bit_eq simp del: One_nat_def)

lemma rev16_top: "rev16 (push_bit 15 (of_bool b)) = of_bool b"
  by (rule bit_eqI) (auto simp: bit_rev16 bit_simps)

lemma rev16_0 [simp]: "rev16 0 = 0"
  by (rule bit_eqI) (simp add: bit_rev16)

definition left_step :: "16 word \<Rightarrow> 16 word" where
  "left_step r = push_bit 1 r XOR (if bit r 15 then 0x3d65 else 0)"

lemma rev16_left_step: "rev16 (left_step r) = lfsr_step (rev16 r)"
proof -
  have "rev16 0x3d65 = 0xA6BC" by code_simp
  then show ?thesis by (simp add: left_step_def lfsr_step_def rev16_push bit_rev16 del: One_nat_def)
qed

lemma test_top: "(crc AND 0x8000 \<noteq> 0) = bit crc 15" for crc :: crc_t
  using and_exp_eq_0_iff_not_bit [of crc 15] by simp

lemma bbf_update_bit:
  assumes "k < 8"
  shows "rev16 (ucast (bbf_update_bit c crc (push_bit k 1))) = lfsr_bit (rev16 (ucast crc)) (bit c k)"
proof -
  have "(ucast c AND push_bit k 1 :: 32 word) \<noteq> 0 \<longleftrightarrow> bit c k"
    using assms and_exp_eq_0_iff_not_bit [of "ucast c :: 32 word" k] by (simp add: bit_simps)
  then have "ucast (bbf_update_bit c crc (push_bit k 1)) =
      left_step (ucast crc XOR push_bit 15 (of_bool (bit c k)))"
    unfolding bbf_update_bit_def Let_def test_top left_step_def
    by (intro bit_eqI) (auto simp: bit_simps simp del: One_nat_def)
  then show ?thesis by (simp only: rev16_left_step rev16_xor rev16_top lfsr_bit_def)
qed

lemma foldl_register:
  assumes "\<And>s x. x \<in> set xs \<Longrightarrow> g (f s x) = h (g s) x"
  shows "g (foldl f s xs) = foldl h (g s) xs"
  using assms by (induction xs arbitrary: s) simp_all

lemma ucast_low: "ucast (crc AND 0xffff :: crc_t) = (ucast crc :: 16 word)"
  by (rule bit_eqI) (auto simp: mask_low bit_simps)

lemma bbf_update_byte:
  "rev16 (ucast (foldl (bbf_update_bit c) crc (map (\<lambda>k. push_bit k 0x01) [0..<8]) AND 0xffff)) =
    lfsr_byte (rev16 (ucast crc)) c"
  unfolding ucast_low foldl_map lfsr_byte_def
  by (rule foldl_register [where g = "\<lambda>crc. rev16 (ucast crc)"]) (rule bbf_update_bit, simp)

lemma bbf_register:
  "rev16 (ucast (crc_16_dnp_bbf_update crc bs)) = foldl lfsr_byte (rev16 (ucast crc)) bs"
  unfolding crc_16_dnp_bbf_update_def ucast_low
  by (rule foldl_register [where g = "\<lambda>crc. rev16 (ucast crc)"]) (rule bbf_update_byte)

interpretation bbf: crc_algorithm crc_16_dnp_bbf_init crc_16_dnp_bbf_update crc_16_dnp_bbf_finalize rev16
proof
  show "rev16 (ucast crc_16_dnp_bbf_init) = 0" by (simp add: crc_16_dnp_bbf_init_def)
  show "rev16 (ucast (crc_16_dnp_bbf_update (ucast c) bs)) = foldl lfsr_byte (rev16 c) bs" for c bs
    by (simp only: bbf_register ucast_crc)
  show "ucast (crc_16_dnp_bbf_finalize (ucast c)) = rev16 c XOR 0xFFFF" for c
    unfolding crc_16_dnp_bbf_finalize_def reflect_16 ucast_crc
    by (rule bit_eqI) (auto simp: mask_low bit_simps)
qed

text \<open>
  The bit-by-bit register has yet to shift the last sixteen message bits out: what it holds, after
  sixteen steps without a message bit, is the register of the others.
\<close>

lemma bbb_update_bit:
  assumes "i < 8" "\<And>k. k < 8 \<Longrightarrow> bit c k = bit d (7 - k)"
  shows "rev16 (ucast (bbb_update_bit c crc i)) =
    lfsr_step (rev16 (ucast crc)) XOR push_bit 15 (of_bool (bit d i))"
proof -
  have "ucast (bbb_update_bit c crc i) = left_step (ucast crc) XOR of_bool (bit d i)"
    unfolding bbb_update_bit_def Let_def test_top left_step_def
    using assms by (intro bit_eqI) (auto simp: bit_simps simp del: One_nat_def)
  moreover have "rev16 (of_bool b) = push_bit 15 (of_bool b)" for b
    by (rule bit_eqI) (auto simp: bit_rev16 bit_simps)
  ultimately show ?thesis by (simp only: rev16_left_step rev16_xor)
qed

definition flush :: "crc_t \<Rightarrow> 16 word" where
  "flush crc = (lfsr_step ^^ 16) (rev16 (ucast crc))"

lemma flush_bit: "(lfsr_step ^^ 16) (lfsr_step r XOR push_bit 15 (of_bool b)) = lfsr_bit ((lfsr_step ^^ 16) r) b"
proof -
  have "(lfsr_step ^^ 15) (push_bit 15 (of_bool b)) = of_bool b"
    by (subst lfsr_steps_shift) (auto simp: bit_simps intro!: bit_eqI)
  then have "(lfsr_step ^^ Suc 15) (push_bit 15 (of_bool b)) = lfsr_step (of_bool b)"
    by (simp only: funpow.simps o_apply)
  moreover have "Suc 15 = 16" by simp
  moreover have "(lfsr_step ^^ 16) (lfsr_step r) = lfsr_step ((lfsr_step ^^ 16) r)"
    by (simp only: funpow_swap1)
  ultimately show ?thesis by (simp only: lfsr_steps_xor lfsr_bit_def lfsr_step_xor)
qed

lemma bbb_update_byte:
  "flush (foldl (bbb_update_bit (ucast (crc_16_dnp_bbb_reflect (ucast d) 8))) crc [0..<8] AND 0xffff) =
    lfsr_byte (flush crc) d"
proof -
  let ?c = "ucast (crc_16_dnp_bbb_reflect (ucast d) 8) :: byte"
  have c: "bit ?c k \<longleftrightarrow> bit d (7 - k)" if "k < 8" for k
    using that by (auto simp: bit_reflect(2) [of 8] bit_reflect(1) bit_simps)
  have "flush (bbb_update_bit ?c s i) = lfsr_bit (flush s) (bit d i)" if "i \<in> set [0..<8]" for s i
  proof -
    have i: "i < 8" using that by simp
    have "rev16 (ucast (bbb_update_bit ?c s i)) = lfsr_step (rev16 (ucast s)) XOR push_bit 15 (of_bool (bit d i))"
      by (rule bbb_update_bit [OF i c])
    then show ?thesis by (simp only: flush_def flush_bit)
  qed
  then show ?thesis
    using foldl_register [of "[0..<8]" flush "bbb_update_bit ?c" "\<lambda>s i. lfsr_bit s (bit d i)" crc]
    unfolding lfsr_byte_def foldl_map by (simp add: ucast_low flush_def)
qed

lemma bbb_register: "flush (crc_16_dnp_bbb_update crc bs) = foldl lfsr_byte (flush crc) bs"
proof -
  have "flush (crc AND 0xffff) = flush crc" for crc by (simp only: flush_def ucast_low)
  then show ?thesis
    unfolding crc_16_dnp_bbb_update_def Let_def
    by (simp only:) (rule foldl_register [where g = flush], rule bbb_update_byte)
qed

lemma bbb_finalize_bits: "rev16 (ucast (foldl bbb_finalize_bit crc [0..<n])) = (lfsr_step ^^ n) (rev16 (ucast crc))"
proof (induction n)
  case 0
  then show ?case by simp
next
  case (Suc n)
  have "ucast (bbb_finalize_bit c n) = left_step (ucast c)" for c
    unfolding bbb_finalize_bit_def Let_def test_top left_step_def
    by (intro bit_eqI) (auto simp: bit_simps simp del: One_nat_def)
  then show ?case using Suc by (simp add: rev16_left_step)
qed

interpretation bbb: crc_algorithm crc_16_dnp_bbb_init crc_16_dnp_bbb_update crc_16_dnp_bbb_finalize
  "\<lambda>c. flush (ucast c)"
proof
  show "flush (ucast (ucast crc_16_dnp_bbb_init :: 16 word)) = 0"
    using lfsr_steps_xor [of 16 0 0] by (simp add: flush_def crc_16_dnp_bbb_init_def)
  have f: "flush (ucast (ucast c :: 16 word)) = flush c" for c
    by (simp only: flush_def ucast_crc)
  show "flush (ucast (ucast (crc_16_dnp_bbb_update (ucast c) bs) :: 16 word)) = foldl lfsr_byte (flush (ucast c)) bs"
    for c :: "16 word" and bs
    by (simp only: f bbb_register)
  show "ucast (crc_16_dnp_bbb_finalize (ucast c)) = flush (ucast c) XOR 0xFFFF" for c :: "16 word"
  proof -
    have "ucast ((ucast w XOR 0xffff) AND 0xffff :: crc_t) = (w XOR 0xFFFF :: 16 word)" for w
      by (rule bit_eqI) (auto simp: mask_low bit_simps)
    then show ?thesis
      unfolding crc_16_dnp_bbb_finalize_def Let_def bit_reflect(2) [of 1, simplified] reflect_16
        bbb_finalize_bits flush_def .
  qed
qed

section \<open>What the checksum detects\<close>

text \<open>The steps of the register are injective, since the polynomial has its highest bit set.\<close>

lemma lfsr_step_inject: "lfsr_step a = lfsr_step b \<longleftrightarrow> a = b"
proof
  assume eq: "lfsr_step a = lfsr_step b"
  have top: "bit (lfsr_step r) 15 = bit r 0" for r
    using bit_bounds(2) [of r 16] by (auto simp: lfsr_step_def bit_simps)
  have low: "bit (lfsr_step r) k = (bit r (Suc k) \<noteq> (bit r 0 \<and> bit (0xA6BC :: 16 word) k))" for r k
    by (auto simp: lfsr_step_def bit_simps)
  show "a = b"
  proof (rule bit_eqI)
    fix n
    show "bit a n = bit b n"
      using top [of a] top [of b] low [of a "n - 1"] low [of b "n - 1"] eq by (cases n) auto
  qed
qed simp

lemma lfsr_steps_inject: "(lfsr_step ^^ n) a = (lfsr_step ^^ n) b \<longleftrightarrow> a = b"
  by (induction n) (simp_all add: lfsr_step_inject)

lemma lfsr_bytes_inject: "foldl lfsr_byte a bs = foldl lfsr_byte b bs \<longleftrightarrow> a = b"
proof -
  have "lfsr_byte a c = lfsr_byte b c \<longleftrightarrow> a = b" for a b c
    unfolding lfsr_byte_steps lfsr_steps_inject by (metis xor.right_neutral xor_self_eq xor.assoc)
  then show ?thesis by (induction bs arbitrary: a b) simp_all
qed

text \<open>Two neighbouring bytes together determine the sixteen bits that follow them.\<close>

lemma lfsr_two_bytes:
  "lfsr_byte (lfsr_byte r c) d = (lfsr_step ^^ 16) (r XOR ucast c XOR push_bit 8 (ucast d))"
proof -
  have "(lfsr_step ^^ 8) (push_bit 8 (ucast d)) = ucast d"
  proof -
    have "bit d n \<Longrightarrow> n < 8" for n by (rule bit_bounds)
    then show ?thesis by (subst lfsr_steps_shift) (auto simp: bit_simps intro!: bit_eqI)
  qed
  then show ?thesis
    using funpow_add [of 8 8 lfsr_step] by (simp add: lfsr_byte_steps lfsr_steps_xor xor.assoc)
qed

lemma xor_cancel: "x XOR z = y XOR z \<longleftrightarrow> x = y" for x y z :: "'a::len word"
  by (metis xor.right_neutral xor_self_eq xor.assoc)

lemma crc_detects_burst:
  assumes "crc_16_dnp (xs @ [a, b] @ ys) = crc_16_dnp (xs @ [a', b'] @ ys)"
  shows "a = a' \<and> b = b'"
proof -
  define r where "r = foldl lfsr_byte 0 xs"
  have "lfsr_byte (lfsr_byte r a) b = lfsr_byte (lfsr_byte r a') b'"
    using assms by (simp add: crc_16_dnp_def xor_cancel r_def lfsr_bytes_inject)
  then have eq: "r XOR ucast a XOR push_bit 8 (ucast b) = r XOR ucast a' XOR push_bit 8 (ucast b')"
    by (simp only: lfsr_two_bytes lfsr_steps_inject)
  have low: "bit a n = bit a' n" if "n < 8" for n
    using arg_cong [OF eq, of "\<lambda>w. bit w n"] that by (auto simp: bit_simps)
  have high: "bit b n = bit b' n" if "n < 8" for n
    using arg_cong [OF eq, of "\<lambda>w. bit w (n + 8)"] that bit_bounds(1) [of a "n + 8"] bit_bounds(1) [of a' "n + 8"]
    by (auto simp: bit_simps)
  show ?thesis using low high by (auto intro!: bit_eqI)
qed

end
