(* ===== verification/Ascii_Serial_Com.thy ===== *)
theory Ascii_Serial_Com
  imports Frame_Sync Hex Crc
begin

text \<open>
  \<^verbatim>\<open>ascii_serial_com.c\<close>: the state of an interface, packing a message into the
  output buffer with its checksum, and unpacking the first message of the input buffer.
\<close>

section \<open>State\<close>

abbreviation MAXMESSAGELEN :: size_t where "MAXMESSAGELEN \<equiv> 64"
abbreviation MAXDATALEN :: size_t where "MAXDATALEN \<equiv> 54"
abbreviation MAXSPAYLOADEN :: size_t where "MAXSPAYLOADEN \<equiv> MAXDATALEN - 3"
abbreviation NCHARCHECKSUM :: size_t where "NCHARCHECKSUM \<equiv> 4"
abbreviation error_message_max_copy_data_len :: size_t where "error_message_max_copy_data_len \<equiv> 9"

text \<open>Characters are their codes: \<open>chr_start\<close> is \<^verbatim>\<open>'>'\<close>,
  \<open>chr_period\<close> \<^verbatim>\<open>'.'\<close> and \<open>chr_end\<close> the newline.\<close>

abbreviation chr_start :: byte where "chr_start \<equiv> 0x3E"
abbreviation chr_period :: byte where "chr_period \<equiv> 0x2E"
abbreviation chr_end :: byte where "chr_end \<equiv> 0x0A"
abbreviation chr_comma :: byte where "chr_comma \<equiv> 0x2C"
abbreviation chr_0 :: byte where "chr_0 \<equiv> 0x30"
abbreviation chr_e :: byte where "chr_e \<equiv> 0x65"
abbreviation chr_f :: byte where "chr_f \<equiv> 0x66"
abbreviation chr_n :: byte where "chr_n \<equiv> 0x6E"
abbreviation chr_r :: byte where "chr_r \<equiv> 0x72"
abbreviation chr_s :: byte where "chr_s \<equiv> 0x73"
abbreviation chr_w :: byte where "chr_w \<equiv> 0x77"
abbreviation chr_z :: byte where "chr_z \<equiv> 0x7A"

text \<open>
  The two halves of \<^verbatim>\<open>raw_buffer\<close> are the arrays of the two circular buffers.
\<close>

record ascii_serial_com =
  in_buf :: circular_buffer_uint8
  out_buf :: circular_buffer_uint8
  send_stream_frame_counter :: byte
  receive_stream_frame_counter :: byte
  receive_stream_frame_counter_initialized :: bool
  ignoreCRCMismatch :: bool

definition with_in_buf ::
  "(circular_buffer_uint8 \<Rightarrow> ('a, circular_buffer_uint8) res) \<Rightarrow> ascii_serial_com \<Rightarrow> ('a, ascii_serial_com) res" where
  "with_in_buf = zoom in_buf (\<lambda>cb asc. asc\<lparr>in_buf := cb\<rparr>)"

definition with_out_buf ::
  "(circular_buffer_uint8 \<Rightarrow> ('a, circular_buffer_uint8) res) \<Rightarrow> ascii_serial_com \<Rightarrow> ('a, ascii_serial_com) res" where
  "with_out_buf = zoom out_buf (\<lambda>cb asc. asc\<lparr>out_buf := cb\<rparr>)"

text \<open>The second argument is the content of \<^verbatim>\<open>raw_buffer\<close>.\<close>

definition ascii_serial_com_init :: "ascii_serial_com \<Rightarrow> byte list \<Rightarrow> (unit, ascii_serial_com) res" where
  "ascii_serial_com_init asc raw_buffer =
     bind_res (with_in_buf (\<lambda>cb. circular_buffer_init_uint8 cb MAXMESSAGELEN
         (take (unat MAXMESSAGELEN) raw_buffer)) asc) (\<lambda>_ asc.
     bind_res (with_out_buf (\<lambda>cb. circular_buffer_init_uint8 cb MAXMESSAGELEN
         (drop (unat MAXMESSAGELEN) raw_buffer)) asc) (\<lambda>_ asc.
       (Inr (), asc\<lparr>send_stream_frame_counter := 0, receive_stream_frame_counter := 0,
          receive_stream_frame_counter_initialized := False, ignoreCRCMismatch := False\<rparr>)))"

definition ascii_serial_com_get_input_buffer :: "ascii_serial_com \<Rightarrow> circular_buffer_uint8" where
  "ascii_serial_com_get_input_buffer asc = in_buf asc"

definition ascii_serial_com_get_output_buffer :: "ascii_serial_com \<Rightarrow> circular_buffer_uint8" where
  "ascii_serial_com_get_output_buffer asc = out_buf asc"

definition ascii_serial_com_set_ignore_CRC_mismatch :: "ascii_serial_com \<Rightarrow> ascii_serial_com" where
  "ascii_serial_com_set_ignore_CRC_mismatch asc = asc\<lparr>ignoreCRCMismatch := True\<rparr>"

definition ascii_serial_com_unset_ignore_CRC_mismatch :: "ascii_serial_com \<Rightarrow> ascii_serial_com" where
  "ascii_serial_com_unset_ignore_CRC_mismatch asc = asc\<lparr>ignoreCRCMismatch := False\<rparr>"

section \<open>The checksum\<close>

text \<open>
  The choice that the preprocessor makes. The register of the caller has sixteen bits:
  each value that \<^verbatim>\<open>crc_update\<close> returns is cut to them.
\<close>

datatype crc_choice = crc_bbb | crc_bbf | crc_tbl4bit | crc_crcmod

definition crc_option :: crc_choice where
  "crc_option = crc_tbl4bit"

definition crc_loop :: "crc_t \<Rightarrow> (crc_t \<Rightarrow> byte list \<Rightarrow> crc_t) \<Rightarrow> (crc_t \<Rightarrow> crc_t) \<Rightarrow> byte list list \<Rightarrow> 16 word" where
  "crc_loop crc_init crc_update crc_finalize blocks =
     (let crc = ucast crc_init;
          crc = foldl (\<lambda>crc b. ucast (crc_update (ucast crc) b)) crc blocks
      in ucast (crc_finalize (ucast (crc :: 16 word))))"

fun crc_of_blocks :: "crc_choice \<Rightarrow> byte list list \<Rightarrow> 16 word" where
  "crc_of_blocks crc_bbb blocks =
     crc_loop crc_16_dnp_bbb_init crc_16_dnp_bbb_update crc_16_dnp_bbb_finalize blocks"
| "crc_of_blocks crc_bbf blocks =
     crc_loop crc_16_dnp_bbf_init crc_16_dnp_bbf_update crc_16_dnp_bbf_finalize blocks"
| "crc_of_blocks crc_tbl4bit blocks =
     crc_loop crc_16_dnp_tbl4bit_init crc_16_dnp_tbl4bit_update crc_16_dnp_tbl4bit_finalize blocks"
| "crc_of_blocks crc_crcmod blocks = foldl (\<lambda>crc b. computeCRC_16_DNP b crc) 0xFFFF blocks"

text \<open>The bytes the pointers and lengths of \<^verbatim>\<open>get_blocks\<close> stand for.\<close>

definition read_blocks :: "circular_buffer_uint8 \<Rightarrow> cb_blocks \<Rightarrow> byte list list exc" where
  "read_blocks cb bl =
     bind_exc (mem_range (buffer cb) (block0 bl) (block_size0 bl)) (\<lambda>xs.
       case block1 bl of
         None \<Rightarrow> Inr [xs]
       | Some b1 \<Rightarrow> bind_exc (mem_range (buffer cb) b1 (block_size1 bl)) (\<lambda>ys. Inr [xs, ys]))"

definition ascii_serial_com_compute_checksum :: "ascii_serial_com \<Rightarrow> byte list \<Rightarrow> bool \<Rightarrow> byte list exc" where
  "ascii_serial_com_compute_checksum asc checksumOut outputBuffer =
     (let circ_buf = (if outputBuffer then out_buf asc else in_buf asc);
          size = circular_buffer_get_size_uint8 circ_buf in
      bind_exc (circular_buffer_find_last_uint8 circ_buf chr_start) (\<lambda>iStart.
      bind_exc (circular_buffer_find_last_uint8 circ_buf chr_period) (\<lambda>iStop.
      bind_exc (if outputBuffer then Inr iStart else circular_buffer_find_first_uint8 circ_buf chr_start) (\<lambda>iStart.
      bind_exc (if outputBuffer then Inr iStop else circular_buffer_find_first_uint8 circ_buf chr_period) (\<lambda>iStop.
        if iStart \<ge> size then Inl (Throw ASC_ERROR_INVALID_FRAME)
        else if iStop \<ge> size then Inl (Throw ASC_ERROR_INVALID_FRAME_PERIOD)
        else if iStop \<ge> MAXMESSAGELEN - NCHARCHECKSUM - 1 then Inl (Throw ASC_ERROR_CHECKSUM_PROBLEM)
        else if iStop \<le> iStart \<or> iStop - iStart < 4 then Inl (Throw ASC_ERROR_INVALID_FRAME_PERIOD)
        else bind_exc (circular_buffer_get_blocks_uint8 circ_buf iStart (iStop - iStart + 1)) (\<lambda>bl.
             bind_exc (read_blocks circ_buf bl) (\<lambda>blocks.
               final_state (convert_uint16_to_hex (crc_of_blocks crc_option blocks) 0 True checksumOut))))))))"

section \<open>Sending\<close>

definition put_byte :: "byte \<Rightarrow> ascii_serial_com \<Rightarrow> (unit, ascii_serial_com) res" where
  "put_byte c = with_out_buf (\<lambda>cb. circular_buffer_push_back_uint8 cb c)"

text \<open>\<open>put_checksum\<close> is the part of \<^verbatim>\<open>put_message\<close> after the period.\<close>

definition put_checksum :: "ascii_serial_com \<Rightarrow> (unit, ascii_serial_com) res" where
  "put_checksum asc =
     bind_res (ascii_serial_com_compute_checksum asc (replicate (unat NCHARCHECKSUM) 0) True, asc) (\<lambda>checksum asc.
     bind_res (for_each (\<lambda>i asc. bind_res (load checksum i, asc) put_byte) [0..<unat NCHARCHECKSUM] asc) (\<lambda>_ asc.
       put_byte chr_end asc))"

definition ascii_serial_com_put_message_in_output_buffer ::
  "ascii_serial_com \<Rightarrow> byte \<Rightarrow> byte \<Rightarrow> byte \<Rightarrow> byte list \<Rightarrow> size_t \<Rightarrow> (unit, ascii_serial_com) res" where
  "ascii_serial_com_put_message_in_output_buffer asc ascVersion appVersion command data dataLen =
     (if dataLen > MAXDATALEN then (Inl (Throw ASC_ERROR_DATA_TOO_LONG), asc)
      else
        bind_res (put_byte chr_start asc) (\<lambda>_ asc.
        bind_res (put_byte ascVersion asc) (\<lambda>_ asc.
        bind_res (put_byte appVersion asc) (\<lambda>_ asc.
        bind_res (put_byte command asc) (\<lambda>_ asc.
        bind_res (for_each (\<lambda>i asc. bind_res (load data i, asc) put_byte) [0..<unat dataLen] asc) (\<lambda>_ asc.
        bind_res (put_byte chr_period asc) (\<lambda>_ asc.
          put_checksum asc)))))))"

text \<open>The local array \<^verbatim>\<open>outData\<close>; its uninitialised content is never read.\<close>

definition ascii_serial_com_put_s_message_in_output_buffer ::
  "ascii_serial_com \<Rightarrow> byte \<Rightarrow> byte \<Rightarrow> byte list \<Rightarrow> size_t \<Rightarrow> (unit, ascii_serial_com) res" where
  "ascii_serial_com_put_s_message_in_output_buffer asc ascVersion appVersion data dataLen =
     (if dataLen > MAXSPAYLOADEN then (Inl (Throw ASC_ERROR_DATA_TOO_LONG), asc)
      else
        let outData = replicate (unat MAXDATALEN) 0 in
        bind_res (final_state (convert_uint8_to_hex (send_stream_frame_counter asc) 0 True outData), asc) (\<lambda>outData asc.
        let asc = asc\<lparr>send_stream_frame_counter := send_stream_frame_counter asc + 1\<rparr> in
        bind_res (final_state (store 2 chr_comma outData), asc) (\<lambda>outData asc.
        bind_res (final_state (for_each (\<lambda>i outData. bind_res (load data i, outData) (store (i + 3)))
            [0..<min (unat dataLen) (unat (MAXDATALEN - 3))] outData), asc) (\<lambda>outData asc.
          ascii_serial_com_put_message_in_output_buffer asc ascVersion appVersion chr_s outData (dataLen + 3)))))"

definition ascii_serial_com_put_error_in_output_buffer ::
  "ascii_serial_com \<Rightarrow> byte \<Rightarrow> byte \<Rightarrow> byte \<Rightarrow> byte list \<Rightarrow> size_t \<Rightarrow> asc_exception \<Rightarrow> (unit, ascii_serial_com) res" where
  "ascii_serial_com_put_error_in_output_buffer asc ascVersion appVersion command data dataLen errorCode =
     (let outData = replicate (unat (error_message_max_copy_data_len + 5)) 0 in
      bind_res (final_state (convert_uint8_to_hex (of_nat (asc_exception_code errorCode)) 0 True outData), asc) (\<lambda>outData asc.
      bind_res (final_state (store 2 chr_comma outData), asc) (\<lambda>outData asc.
      bind_res (final_state (store 3 command outData), asc) (\<lambda>outData asc.
      bind_res (final_state (store 4 chr_comma outData), asc) (\<lambda>outData asc.
      let n = min (unat dataLen) (unat error_message_max_copy_data_len) in
      bind_res (final_state (for_each (\<lambda>i outData. bind_res (load data i, outData) (store (i + 5))) [0..<n] outData), asc) (\<lambda>outData asc.
      let outDataLen = 5 + of_nat n in
        ascii_serial_com_put_message_in_output_buffer asc ascVersion appVersion chr_e outData outDataLen))))))"

section \<open>Receiving\<close>

text \<open>The variables that the pointer arguments of \<^verbatim>\<open>get_message\<close> point to.\<close>

record asc_message =
  msg_ascVersion :: byte
  msg_appVersion :: byte
  msg_command :: byte
  msg_data :: "byte list"
  msg_dataLen :: size_t

type_synonym rx_state = "ascii_serial_com \<times> asc_message"

definition in_pop :: "rx_state \<Rightarrow> (byte, rx_state) res" where
  "in_pop = zoom fst (\<lambda>asc s. (asc, snd s)) (with_in_buf circular_buffer_pop_front_uint8)"

definition write_data :: "size_t \<Rightarrow> byte \<Rightarrow> rx_state \<Rightarrow> (unit, rx_state) res" where
  "write_data i b = zoom (\<lambda>s. msg_data (snd s)) (\<lambda>d s. (fst s, (snd s)\<lparr>msg_data := d\<rparr>)) (store (unat i) b)"

definition set_msg :: "(asc_message \<Rightarrow> asc_message) \<Rightarrow> rx_state \<Rightarrow> rx_state" where
  "set_msg f s = (fst s, f (snd s))"

text \<open>The loop over the data bytes, which a period ends.\<close>

function get_message_data :: "size_t \<Rightarrow> size_t \<Rightarrow> rx_state \<Rightarrow> (unit, rx_state) res" where
  "get_message_data limit iData s =
     (if iData < limit then
        bind_res (in_pop s) (\<lambda>dataByte s.
          if dataByte = chr_period then (Inr (), s)
          else bind_res (write_data iData dataByte s) (\<lambda>_ s.
            get_message_data limit (iData + 1) (set_msg (\<lambda>m. m\<lparr>msg_dataLen := msg_dataLen m + 1\<rparr>) s)))
      else (Inr (), s))"
  by pat_completeness auto
termination
  by (relation "measure (\<lambda>(limit, iData, _). unat limit - unat iData)")
    (auto simp: word_less_nat_alt unat_Suc_64)

declare get_message_data.simps [simp del]

text \<open>The loop that reads the checksum, and the one that compares it.\<close>

definition read_checksum :: "rx_state \<Rightarrow> (byte list, rx_state) res" where
  "read_checksum s =
     (case for_each (\<lambda>iChk (chk, s).
         bind_res (case in_pop s of (r, s) \<Rightarrow> (r, (chk, s))) (\<lambda>b (chk, s).
           case store iChk b chk of (r, chk) \<Rightarrow> (r, (chk, s))))
         [0..<unat NCHARCHECKSUM] (replicate (unat NCHARCHECKSUM) 0, s) of
        (Inl e, (_, s)) \<Rightarrow> (Inl e, s)
      | (Inr _, (chk, s)) \<Rightarrow> (Inr chk, s))"

definition checksum_mismatch :: "byte list \<Rightarrow> byte list \<Rightarrow> bool" where
  "checksum_mismatch receiveChecksum computeChecksum \<longleftrightarrow>
     (\<exists>iChk \<in> set [0..<unat NCHARCHECKSUM]. receiveChecksum ! iChk \<noteq> computeChecksum ! iChk)"

definition no_message :: "asc_message \<Rightarrow> asc_message" where
  "no_message m = m\<lparr>msg_command := 0, msg_dataLen := 0\<rparr>"

text \<open>
  \<open>unpack_message\<close> is the part of \<^verbatim>\<open>get_message\<close> from the pop of the
  start character on, \<open>unpack_checksum\<close> the part after the pop of the period.
\<close>

definition unpack_checksum :: "byte list \<Rightarrow> rx_state \<Rightarrow> (unit, rx_state) res" where
  "unpack_checksum computeChecksum s =
     bind_res (if circular_buffer_get_size_uint8 (in_buf (fst s)) < NCHARCHECKSUM + 1 then Inr True
               else bind_exc (circular_buffer_get_element_uint8 (in_buf (fst s)) NCHARCHECKSUM)
                 (\<lambda>c. Inr (c \<noteq> chr_end)), s) (\<lambda>bad s.
     if bad then (Inl (Throw ASC_ERROR_INVALID_FRAME), s)
     else
     bind_res (read_checksum s) (\<lambda>receiveChecksum s.
     if \<not> ignoreCRCMismatch (fst s) \<and> checksum_mismatch receiveChecksum computeChecksum then
       bind_res (in_pop s) (\<lambda>_ s. (Inr (), set_msg no_message s))
     else
       bind_res (in_pop s) (\<lambda>_ s. (Inr (), s))))"

definition unpack_message :: "size_t \<Rightarrow> byte list \<Rightarrow> rx_state \<Rightarrow> (unit, rx_state) res" where
  "unpack_message iPeriod computeChecksum s =
     bind_res (in_pop s) (\<lambda>_ s.
     bind_res (in_pop s) (\<lambda>c s. let s = set_msg (\<lambda>m. m\<lparr>msg_ascVersion := c\<rparr>) s in
     bind_res (in_pop s) (\<lambda>c s. let s = set_msg (\<lambda>m. m\<lparr>msg_appVersion := c\<rparr>) s in
     bind_res (in_pop s) (\<lambda>c s. let s = set_msg (\<lambda>m. m\<lparr>msg_command := c\<rparr>) s;
                                   s = set_msg (\<lambda>m. m\<lparr>msg_dataLen := 0\<rparr>) s in
     bind_res (get_message_data (iPeriod - 4) 0 s) (\<lambda>_ s.
     bind_res (in_pop s) (\<lambda>_ s.
       unpack_checksum computeChecksum s))))))"

text \<open>\<open>get_frame\<close> is the part after the unfinished frames were removed.\<close>

definition get_frame :: "byte list \<Rightarrow> rx_state \<Rightarrow> (unit, rx_state) res" where
  "get_frame computeChecksum s =
     (let buf_size = circular_buffer_get_size_uint8 (in_buf (fst s)) in
      bind_res (circular_buffer_find_first_uint8 (in_buf (fst s)) chr_end, s) (\<lambda>iEnd s.
      if iEnd \<ge> buf_size then (Inr (), set_msg no_message s)
      else
      bind_res (circular_buffer_find_first_uint8 (in_buf (fst s)) chr_period, s) (\<lambda>iPeriod s.
      if iPeriod > iEnd then
        bind_res (for_each (\<lambda>_ s. discard (in_pop s)) [0..<unat iEnd + 1] s) (\<lambda>_ s.
          (Inl (Throw ASC_ERROR_INVALID_FRAME_PERIOD), s))
      else
      bind_res (if \<not> ignoreCRCMismatch (fst s)
                then ascii_serial_com_compute_checksum (fst s) computeChecksum False
                else Inr computeChecksum, s) (\<lambda>computeChecksum s.
        unpack_message iPeriod computeChecksum s))))"

definition ascii_serial_com_get_message_from_input_buffer :: "rx_state \<Rightarrow> (unit, rx_state) res" where
  "ascii_serial_com_get_message_from_input_buffer s =
     (let computeChecksum = replicate (unat NCHARCHECKSUM) 0;
          buf_size = circular_buffer_get_size_uint8 (in_buf (fst s)) in
      if buf_size = 0 then (Inr (), set_msg no_message s)
      else
        bind_res (zoom fst (\<lambda>asc s. (asc, snd s)) (with_in_buf (\<lambda>cb.
          circular_buffer_remove_front_unfinished_frames_uint8 cb chr_start chr_end)) s) (\<lambda>_ s.
        get_frame computeChecksum s))"

section \<open>The interface on lists\<close>

text \<open>A frame: what \<open>put_message\<close> sends for a message.\<close>

definition frame_body :: "byte \<Rightarrow> byte \<Rightarrow> byte \<Rightarrow> byte list \<Rightarrow> byte list" where
  "frame_body ascVersion appVersion command data =
     [chr_start, ascVersion, appVersion, command] @ data @ [chr_period]"

definition checksum_chars :: "byte list \<Rightarrow> byte list" where
  "checksum_chars bs = hex_digits True 4 (crc_16_dnp bs)"

definition frame :: "byte \<Rightarrow> byte \<Rightarrow> byte \<Rightarrow> byte list \<Rightarrow> byte list" where
  "frame ascVersion appVersion command data =
     (let body = frame_body ascVersion appVersion command data in body @ checksum_chars body @ [chr_end])"

text \<open>What becomes of the content of the input buffer, when checksums are checked.\<close>

datatype rx_outcome =
    No_Message
  | Bad_Checksum
  | Message byte byte byte "byte list"
  | Rx_Error asc_exception

definition receive_frame :: "byte list \<Rightarrow> rx_outcome \<times> byte list" where
  "receive_frame xs =
     (let ys = frame_sync chr_start chr_end xs;
          iEnd = first_index ys chr_end;
          iPeriod = first_index ys chr_period;
          rest = drop (Suc iPeriod) ys;
          body = take (Suc iPeriod) ys;
          data = take (iPeriod - 4) (drop 4 ys) in
      if chr_end \<notin> set ys then (No_Message, ys)
      else if iPeriod > iEnd then (Rx_Error ASC_ERROR_INVALID_FRAME_PERIOD, drop (Suc iEnd) ys)
      else if iPeriod \<ge> 59 then (Rx_Error ASC_ERROR_CHECKSUM_PROBLEM, ys)
      else if iPeriod < 4 then (Rx_Error ASC_ERROR_INVALID_FRAME_PERIOD, ys)
      else if length rest < 5 \<or> rest ! 4 \<noteq> chr_end then
        (Rx_Error ASC_ERROR_INVALID_FRAME, rest)
      else if take 4 rest = checksum_chars body then (Message (ys ! 1) (ys ! 2) (ys ! 3) data, drop 5 rest)
      else (Bad_Checksum, drop 5 rest))"

end
