(* ===== verification/Ascii_Serial_Com_Spec.thy ===== *)
theory Ascii_Serial_Com_Spec
  imports Ascii_Serial_Com
begin

text \<open>
  What the operations on an interface do to the contents of its two buffers: the checksum of a
  frame, the frame that a message is sent as, and the messages that the input buffer is read as.
\<close>

section \<open>The checksum\<close>

lemma crc_of_blocks_eq: "crc_of_blocks opt blocks = crc_16_dnp (concat blocks)"
proof (cases opt)
  case crc_crcmod
  have "ucast (ucast (foldl (\<lambda>crc b. ucast (crcmod_update (ucast crc) b)) (c :: 16 word) bs) :: crc_t) =
      foldl (\<lambda>crc b. computeCRC_16_DNP b crc) c bs" for c and bs :: "byte list list"
    by (induction bs arbitrary: c) (simp_all add: crcmod_update_def ucast_crc)
  then show ?thesis using crcmod.crc_blocks [of blocks] crc_crcmod by simp
qed (simp_all add: crc_loop_def Let_def bbb.crc_blocks bbf.crc_blocks tbl4bit.crc_blocks)

lemma read_blocks_bytes:
  "blocks_bytes cb bl = Inr xs \<Longrightarrow> \<exists>bs. read_blocks cb bl = Inr bs \<and> concat bs = xs"
  by (auto simp: blocks_bytes_def read_blocks_def bind_exc_def split: sum.splits option.splits)

lemma read_blocks_UB: "blocks_bytes cb bl = Inl e \<Longrightarrow> read_blocks cb bl = Inl e"
  by (auto simp: blocks_bytes_def read_blocks_def bind_exc_def split: sum.splits option.splits)

lemma length_checksum_chars [simp]: "length (checksum_chars bs) = 4"
  by (simp add: checksum_chars_def)

lemma checksum_array:
  "length chk = 4 \<Longrightarrow> final_state (convert_uint16_to_hex (crc_of_blocks opt bs) 0 True chk) =
    Inr (checksum_chars (concat bs))"
  by (simp add: convert_uint16_to_hex_digits crc_of_blocks_eq checksum_chars_def mem_put_def)

text \<open>The outcome by the positions of the start character and of the period that were chosen.\<close>

definition checksum_outcome :: "byte list \<Rightarrow> nat \<Rightarrow> nat \<Rightarrow> byte list exc" where
  "checksum_outcome xs i p =
     (if i \<ge> length xs then Inl (Throw ASC_ERROR_INVALID_FRAME)
      else if p \<ge> length xs then Inl (Throw ASC_ERROR_INVALID_FRAME_PERIOD)
      else if p \<ge> 59 then Inl (Throw ASC_ERROR_CHECKSUM_PROBLEM)
      else if p < i + 4 then Inl (Throw ASC_ERROR_INVALID_FRAME_PERIOD)
      else Inr (checksum_chars (take (Suc p - i) (drop i xs))))"

lemma compute_checksum_outcome:
  fixes cb xs i p
  assumes cb: "cb = (if out then out_buf asc else in_buf asc)" and wf: "cb_wf cb" and xs: "xs = cb_list cb"
    and i: "i = (if out then last_index xs chr_start else first_index xs chr_start)"
    and p: "p = (if out then last_index xs chr_period else first_index xs chr_period)"
    and flat: "unat (iStart cb) + i \<le> cb_cap cb" and chk: "length chk = 4"
  shows "ascii_serial_com_compute_checksum asc chk out = checksum_outcome xs i p"
proof -
  have le: "i \<le> length xs" "p \<le> length xs" by (simp_all add: i p last_index_le first_index_le)
  have u: "unat (of_nat i :: size_t) = i" "unat (of_nat p :: size_t) = p"
    using le unat_index [of i cb] unat_index [of p cb] xs by simp_all
  note finds = find_last_refines [OF wf, of chr_start] find_last_refines [OF wf, of chr_period]
    find_first_refines [OF wf, of chr_start] find_first_refines [OF wf, of chr_period]
  have ge: "(of_nat i \<ge> cb_size cb) = (i \<ge> length xs)" "(of_nat p \<ge> cb_size cb) = (p \<ge> length xs)"
    by (simp_all add: word_le_nat_alt u xs)
  have big: "(of_nat p \<ge> MAXMESSAGELEN - NCHARCHECKSUM - 1) = (p \<ge> 59)"
    by (simp add: word_le_nat_alt u)
  have short: "(of_nat p \<le> (of_nat i :: size_t) \<or> of_nat p - of_nat i < (4 :: size_t)) = (p < i + 4)"
  proof (cases "p \<le> i")
    case False
    then have "unat (of_nat p - of_nat i :: size_t) = p - i"
      using unat_sub [of "of_nat i" "of_nat p :: size_t"] by (simp add: word_le_nat_alt u)
    then show ?thesis using False by (auto simp: word_le_nat_alt word_less_nat_alt u)
  qed (simp add: word_le_nat_alt u)
  have step: "ascii_serial_com_compute_checksum asc chk out =
    (if i \<ge> length xs then Inl (Throw ASC_ERROR_INVALID_FRAME)
     else if p \<ge> length xs then Inl (Throw ASC_ERROR_INVALID_FRAME_PERIOD)
     else if p \<ge> 59 then Inl (Throw ASC_ERROR_CHECKSUM_PROBLEM)
     else if p < i + 4 then Inl (Throw ASC_ERROR_INVALID_FRAME_PERIOD)
     else bind_exc (circular_buffer_get_blocks_uint8 cb (of_nat i) (of_nat p - of_nat i + 1)) (\<lambda>bl.
          bind_exc (read_blocks cb bl) (\<lambda>blocks.
            final_state (convert_uint16_to_hex (crc_of_blocks crc_option blocks) 0 True chk))))"
    unfolding ge [symmetric] big [symmetric] short [symmetric] ascii_serial_com_compute_checksum_def
      cb [symmetric] Let_def circular_buffer_get_size_uint8_def finds
    by (cases out) (simp_all only: bind_exc_simps if_True if_False i p xs)
  show ?thesis
  proof (cases "i < length xs \<and> p < length xs \<and> p < 59 \<and> i + 4 \<le> p")
    case True
    have "(of_nat p - of_nat i + 1 :: size_t) = of_nat (Suc p - i)" using True by (simp add: of_nat_diff)
    moreover have n: "unat (of_nat (Suc p - i) :: size_t) = Suc p - i"
      by (rule unat_of_nat_64) (use True in linarith)
    ultimately have n': "unat (of_nat p - of_nat i + 1 :: size_t) = Suc p - i" by simp
    obtain bl where "circular_buffer_get_blocks_uint8 cb (of_nat i) (of_nat p - of_nat i + 1) = Inr bl"
        "blocks_bytes cb bl = Inr (take (Suc p - i) (drop i xs))"
      using get_blocks_in_range [OF wf, of "of_nat i" "of_nat p - of_nat i + 1"] True flat
      by (auto simp: n' u xs cb_cap_def)
    moreover obtain bs where "read_blocks cb bl = Inr bs" "concat bs = take (Suc p - i) (drop i xs)"
      using read_blocks_bytes calculation(2) by blast
    ultimately show ?thesis using True by (simp add: step checksum_outcome_def checksum_array [OF chk])
  next
    case False
    then show ?thesis by (auto simp: step checksum_outcome_def)
  qed
qed

section \<open>Receiving\<close>

text \<open>
  The interface \<open>asc\<close> with another content \<open>xs\<close> of its input buffer, and a
  call that leaves it there with the value \<open>v\<close> and the output variables \<open>m\<close>.
\<close>

definition in_content :: "ascii_serial_com \<Rightarrow> nat \<Rightarrow> byte list \<Rightarrow> ascii_serial_com \<Rightarrow> bool" where
  "in_content asc n xs a \<longleftrightarrow> cb_wf (in_buf a) \<and> cb_cap (in_buf a) = n \<and> cb_list (in_buf a) = xs
     \<and> a = asc\<lparr>in_buf := in_buf a\<rparr>"

definition rx_yields :: "('a, rx_state) res \<Rightarrow> 'a exc \<Rightarrow> ascii_serial_com \<Rightarrow> nat \<Rightarrow> byte list \<Rightarrow> asc_message \<Rightarrow> bool" where
  "rx_yields r v asc n xs m \<longleftrightarrow> fst r = v \<and> snd (snd r) = m \<and> in_content asc n xs (fst (snd r))"

lemma in_content_self: "cb_wf (in_buf a) \<Longrightarrow> in_content a (cb_cap (in_buf a)) (cb_list (in_buf a)) a"
  by (simp add: in_content_def)

lemma in_contentD:
  assumes "in_content asc n xs a"
  shows "cb_wf (in_buf a)" "cb_cap (in_buf a) = n" "cb_list (in_buf a) = xs" "out_buf a = out_buf asc"
    "ignoreCRCMismatch a = ignoreCRCMismatch asc" "unat (cb_size (in_buf a)) = length xs"
proof -
  show *: "cb_wf (in_buf a)" "cb_cap (in_buf a) = n" "cb_list (in_buf a) = xs"
    using assms by (simp_all add: in_content_def)
  obtain b where "a = asc\<lparr>in_buf := b\<rparr>" using assms unfolding in_content_def by blast
  then show "out_buf a = out_buf asc" "ignoreCRCMismatch a = ignoreCRCMismatch asc" by simp_all
  show "unat (cb_size (in_buf a)) = length xs" using *(3) by auto
qed

lemma rx_yields_bind:
  assumes "rx_yields r (Inr v) asc n xs m"
    and "\<And>a. in_content asc n xs a \<Longrightarrow> rx_yields (f v (a, m)) w asc k ys m'"
  shows "rx_yields (bind_res r f) w asc k ys m'"
proof -
  obtain a where "r = (Inr v, a, m)" and "in_content asc n xs a"
    using assms(1) by (cases r) (auto simp: rx_yields_def)
  then show ?thesis using assms(2) by simp
qed

lemma rx_yields_Pair [simp]:
  "rx_yields (v, a, m) w asc n xs m' \<longleftrightarrow> v = w \<and> m = m' \<and> in_content asc n xs a"
  by (auto simp: rx_yields_def)

lemma rx_yields_pure:
  "in_content asc n xs a \<Longrightarrow> rx_yields (f v (a, m)) w asc k ys m' \<Longrightarrow>
    rx_yields (bind_res (Inr v, a, m) f) w asc k ys m'"
  by simp

lemma with_in_buf_content:
  assumes "in_content asc n xs a" and "cb_returns (f (in_buf a)) v n ys"
  shows "rx_yields (zoom fst (\<lambda>asc s. (asc, snd s)) (with_in_buf f) (a, m)) (Inr v) asc n ys m"
proof -
  have a: "a = asc\<lparr>in_buf := in_buf a\<rparr>" using assms(1) by (simp add: in_content_def)
  have "a\<lparr>in_buf := cb\<rparr> = asc\<lparr>in_buf := cb\<rparr>" for cb by (subst a) simp
  then show ?thesis
    using assms(2) by (simp add: rx_yields_def with_in_buf_def cb_returns_def in_content_def)
qed

lemma in_pop_yields:
  assumes "in_content asc n (x # xs) a"
  shows "rx_yields (in_pop (a, m)) (Inr x) asc n xs m"
  unfolding in_pop_def
  by (rule with_in_buf_content [OF assms])
    (use in_contentD [OF assms] pop_front_returns [of "in_buf a" x xs] in auto)

lemma get_message_data_yields:
  assumes "in_content asc n (ds @ rest) a" "chr_period \<notin> set ds"
    and "unat limit = unat i + length ds" "unat i + length ds \<le> length (msg_data m)"
  shows "rx_yields (get_message_data limit i (a, m)) (Inr ()) asc n rest
    (m\<lparr>msg_data := mem_put (unat i) ds (msg_data m), msg_dataLen := msg_dataLen m + of_nat (length ds)\<rparr>)"
  using assms
proof (induction ds arbitrary: a m i)
  case Nil
  then show ?case by (simp add: get_message_data.simps word_less_nat_alt)
next
  case (Cons d ds)
  let ?m = "m\<lparr>msg_data := (msg_data m)[unat i := d], msg_dataLen := msg_dataLen m + 1\<rparr>"
  have il: "unat i < unat limit" using Cons.prems(3) by simp
  then have i: "unat (i + 1) = Suc (unat i)" by (rule unat_Suc_64)
  have w: "unat i < length (msg_data m)" using Cons.prems(4) by simp
  have p: "mem_put (Suc (unat i)) ds ((msg_data m)[unat i := d]) = mem_put (unat i) (d # ds) (msg_data m)"
    using Cons.prems(4) w
    by (intro nth_equalityI) (auto simp: nth_mem_put nth_list_update nth_Cons' split: if_splits)
  have IH: "rx_yields (get_message_data limit (i + 1) (b, ?m)) (Inr ()) asc n rest
      (m\<lparr>msg_data := mem_put (unat i) (d # ds) (msg_data m),
         msg_dataLen := msg_dataLen m + of_nat (length (d # ds))\<rparr>)" if "in_content asc n (ds @ rest) b" for b
    using Cons.IH [of b "i + 1" ?m] that Cons.prems i by (simp add: p add.assoc)
  have pop: "rx_yields (in_pop (a, m)) (Inr d) asc n (ds @ rest) m"
    by (rule in_pop_yields) (use Cons.prems(1) in simp)
  show ?case
    unfolding get_message_data.simps [of limit i "(a, m)"]
    using il Cons.prems(2) w IH
    by (simp add: word_less_nat_alt write_data_def zoom_def set_msg_def rx_yields_bind [OF pop] del: of_nat_Suc)
qed

lemma read_checksum_yields:
  assumes "in_content asc n (cs @ rest) a" "length cs = 4"
  shows "rx_yields (read_checksum (a, m)) (Inr cs) asc n rest m"
proof -
  obtain c0 c1 c2 c3 where cs: "cs = [c0, c1, c2, c3]"
    using assms(2) by (auto simp: numeral_eq_Suc length_Suc_conv)
  obtain a0 where p0: "in_pop (a, m) = (Inr c0, a0, m)" and a0: "in_content asc n ([c1, c2, c3] @ rest) a0"
    using in_pop_yields [of asc n c0 _ a m] assms(1) cs by (cases "in_pop (a, m)") (auto simp: rx_yields_def)
  obtain a1 where p1: "in_pop (a0, m) = (Inr c1, a1, m)" and a1: "in_content asc n ([c2, c3] @ rest) a1"
    using in_pop_yields [of asc n c1 _ a0 m] a0 by (cases "in_pop (a0, m)") (auto simp: rx_yields_def)
  obtain a2 where p2: "in_pop (a1, m) = (Inr c2, a2, m)" and a2: "in_content asc n ([c3] @ rest) a2"
    using in_pop_yields [of asc n c2 _ a1 m] a1 by (cases "in_pop (a1, m)") (auto simp: rx_yields_def)
  obtain a3 where p3: "in_pop (a2, m) = (Inr c3, a3, m)" and a3: "in_content asc n rest a3"
    using in_pop_yields [of asc n c3 _ a2 m] a2 by (cases "in_pop (a2, m)") (auto simp: rx_yields_def)
  have "replicate 4 (0 :: byte) = [0, 0, 0, 0]" by (simp add: numeral_eq_Suc)
  then show ?thesis using a3
    by (simp add: read_checksum_def upt_4 p0 p1 p2 p3 cs)
qed

lemma pop_loop_yields:
  assumes "in_content asc n xs a" "k \<le> length xs"
  shows "rx_yields (for_each (\<lambda>_ s. discard (in_pop s)) [0..<k] (a, m)) (Inr ()) asc n (drop k xs) m"
  using assms
proof (induction k arbitrary: xs a)
  case 0
  then show ?case by simp
next
  case (Suc k)
  obtain x ys where xs: "xs = x # ys" using Suc.prems by (cases xs) auto
  have "map Suc [0..<k] = [1..<Suc k]" by (simp add: map_Suc_upt)
  have c: "for_each (\<lambda>_ s. discard (in_pop s)) ys = for_each (\<lambda>_ s. discard (in_pop s)) zs"
    if "length ys = length zs" for ys zs :: "nat list"
    using that by (induction ys zs rule: list_induct2) (auto intro!: ext)
  have u: "[0..<Suc k] = 0 # [1..<Suc k]" by (simp add: upt_rec)
  obtain b where p: "in_pop (a, m) = (Inr x, b, m)" and b: "in_content asc n ys b"
    using in_pop_yields [of asc n x ys a m] Suc.prems(1) xs by (cases "in_pop (a, m)") (auto simp: rx_yields_def)
  have "rx_yields (for_each (\<lambda>_ s. discard (in_pop s)) [0..<k] (b, m)) (Inr ()) asc n (drop k ys) m"
    using Suc.IH [OF b] Suc.prems(2) xs by simp
  then show ?case
    using c [of "[1..<Suc k]" "[0..<k]"] by (simp add: u p discard_def xs del: upt_Suc)
qed

text \<open>The output variables, and the result, of each outcome.\<close>

fun rx_result :: "rx_outcome \<Rightarrow> unit exc" where
  "rx_result (Rx_Error e) = Inl (Throw e)"
| "rx_result _ = Inr ()"

definition stored_message :: "byte \<Rightarrow> byte \<Rightarrow> byte \<Rightarrow> byte list \<Rightarrow> asc_message \<Rightarrow> asc_message" where
  "stored_message v ap c d m = m\<lparr>msg_ascVersion := v, msg_appVersion := ap, msg_command := c,
     msg_data := mem_put 0 d (msg_data m), msg_dataLen := of_nat (length d)\<rparr>"

fun rx_output :: "rx_outcome \<Rightarrow> asc_message \<Rightarrow> asc_message \<Rightarrow> bool" where
  "rx_output No_Message m m' \<longleftrightarrow> m' = no_message m"
| "rx_output Bad_Checksum m m' \<longleftrightarrow> (\<exists>v ap c d. m' = no_message (stored_message v ap c d m)
     \<and> length d \<le> length (msg_data m))"
| "rx_output (Message v ap c d) m m' \<longleftrightarrow> m' = stored_message v ap c d m \<and> length d \<le> length (msg_data m)"
| "rx_output (Rx_Error e) m m' \<longleftrightarrow> m' = m \<or> (\<exists>v ap c d. m' = stored_message v ap c d m
     \<and> length d \<le> length (msg_data m))"

definition unpack_outcome :: "bool \<Rightarrow> byte list \<Rightarrow> byte \<Rightarrow> byte \<Rightarrow> byte \<Rightarrow> byte list \<Rightarrow> byte list \<Rightarrow> rx_outcome \<times> byte list" where
  "unpack_outcome ignore chk v ap c ds rest =
     (if length rest < 5 \<or> rest ! 4 \<noteq> chr_end then (Rx_Error ASC_ERROR_INVALID_FRAME, rest)
      else if \<not> ignore \<and> take 4 rest \<noteq> chk then (Bad_Checksum, drop 5 rest)
      else (Message v ap c ds, drop 5 rest))"

lemma unpack_message_header:
  assumes "in_content asc n ([st, v, ap, c] @ ds @ [chr_period] @ rest) a" "chr_period \<notin> set ds"
    and "unat iPeriod = 4 + length ds" "length ds \<le> length (msg_data m)"
    and "\<And>b. in_content asc n rest b \<Longrightarrow>
      rx_yields (unpack_checksum chk (b, stored_message v ap c ds m)) w asc n ys m'"
  shows "rx_yields (unpack_message iPeriod chk (a, m)) w asc n ys m'"
proof -
  have lim: "unat (iPeriod - 4) = unat (0 :: size_t) + length ds"
    using assms(3) unat_sub [of 4 iPeriod] by (simp add: word_le_nat_alt)
  show ?thesis
    unfolding unpack_message_def Let_def set_msg_def fst_conv snd_conv
    apply (rule rx_yields_bind [OF in_pop_yields])
     apply (use assms(1) in simp)
    apply (rule rx_yields_bind [OF in_pop_yields], assumption)
    apply (simp only: fst_conv snd_conv)
    apply (rule rx_yields_bind [OF in_pop_yields], assumption)
    apply (simp only: fst_conv snd_conv)
    apply (rule rx_yields_bind [OF in_pop_yields], assumption)
    apply (simp only: fst_conv snd_conv)
    apply (rule rx_yields_bind [OF get_message_data_yields [OF _ assms(2) lim]], assumption)
     apply (use assms(4) in simp)
    apply (rule rx_yields_bind [OF in_pop_yields], simp)
    using assms(5) by (simp add: stored_message_def set_msg_def)
qed

lemma checksum_mismatch_iff:
  "length xs = 4 \<Longrightarrow> length ys = 4 \<Longrightarrow> checksum_mismatch xs ys \<longleftrightarrow> xs \<noteq> ys"
  by (auto simp: checksum_mismatch_def list_eq_iff_nth_eq)

lemma unpack_checksum_yields:
  assumes b: "in_content asc n rest b" and chk: "length chk = 4"
  shows "case unpack_outcome (ignoreCRCMismatch asc) chk v ap c ds rest of (out, zs) \<Rightarrow>
    rx_yields (unpack_checksum chk (b, m)) (rx_result out) asc n zs
      (if out = Bad_Checksum then no_message m else m)"
proof -
  note B = in_contentD [OF b]
  have size: "(circular_buffer_get_size_uint8 (in_buf b) < NCHARCHECKSUM + 1) = (length rest < 5)"
    by (simp add: circular_buffer_get_size_uint8_def word_less_nat_alt B(6))
  have elem: "circular_buffer_get_element_uint8 (in_buf b) NCHARCHECKSUM = Inr (rest ! 4)" if "\<not> length rest < 5"
    using get_element_refines [OF B(1), of NCHARCHECKSUM] that B(3,6) by simp
  show ?thesis
  proof (cases "length rest < 5 \<or> rest ! 4 \<noteq> chr_end")
    case True
    then show ?thesis using size elem b by (auto simp: unpack_checksum_def unpack_outcome_def)
  next
    case False
    then have r: "rest = take 4 rest @ chr_end # drop 5 rest"
      using id_take_nth_drop [of 4 rest] by simp
    have l: "length (take 4 rest) = 4" using False by simp
    have chks: "rx_yields (read_checksum (b, m)) (Inr (take 4 rest)) asc n (chr_end # drop 5 rest) m"
      using read_checksum_yields [of asc n "take 4 rest" "chr_end # drop 5 rest" b m] b l r by simp
    have pop: "rx_yields (in_pop (d, m)) (Inr chr_end) asc n (drop 5 rest) m"
      if "in_content asc n (chr_end # drop 5 rest) d" for d
      using that by (rule in_pop_yields)
    have step: "unpack_checksum chk (b, m) = bind_res (read_checksum (b, m)) (\<lambda>receiveChecksum s.
     if \<not> ignoreCRCMismatch (fst s) \<and> checksum_mismatch receiveChecksum chk then
       bind_res (in_pop s) (\<lambda>_ s. (Inr (), set_msg no_message s))
     else
       bind_res (in_pop s) (\<lambda>_ s. (Inr (), s)))"
      using False size elem by (simp add: unpack_checksum_def)
    have "rx_yields (unpack_checksum chk (b, m)) (Inr ()) asc n (drop 5 rest)
      (if \<not> ignoreCRCMismatch asc \<and> take 4 rest \<noteq> chk then no_message m else m)"
      unfolding step
    proof (rule rx_yields_bind [OF chks], unfold fst_conv)
      fix d assume d: "in_content asc n (chr_end # drop 5 rest) d"
      show "rx_yields (if \<not> ignoreCRCMismatch d \<and> checksum_mismatch (take 4 rest) chk
         then bind_res (in_pop (d, m)) (\<lambda>_ s. (Inr (), set_msg no_message s))
         else bind_res (in_pop (d, m)) (\<lambda>_ s. (Inr (), s))) (Inr ()) asc n (drop 5 rest)
        (if \<not> ignoreCRCMismatch asc \<and> take 4 rest \<noteq> chk then no_message m else m)"
        using in_contentD(5) [OF d] checksum_mismatch_iff [OF l chk]
        by (auto simp: set_msg_def intro!: rx_yields_bind [OF pop [OF d]])
    qed
    then show ?thesis using False by (auto simp: unpack_outcome_def)
  qed
qed

lemma unpack_message_yields:
  assumes a: "in_content asc n ([st, v, ap, c] @ ds @ [chr_period] @ rest) a" and ds: "chr_period \<notin> set ds"
    and p: "unat iPeriod = 4 + length ds" and room: "length ds \<le> length (msg_data m)" and chk: "length chk = 4"
  shows "case unpack_outcome (ignoreCRCMismatch asc) chk v ap c ds rest of (out, zs) \<Rightarrow>
    rx_yields (unpack_message iPeriod chk (a, m)) (rx_result out) asc n zs
      (if out = Bad_Checksum then no_message (stored_message v ap c ds m) else stored_message v ap c ds m)"
proof -
  obtain out zs where o: "unpack_outcome (ignoreCRCMismatch asc) chk v ap c ds rest = (out, zs)" by force
  then have "rx_yields (unpack_checksum chk (b, stored_message v ap c ds m)) (rx_result out) asc n zs
      (if out = Bad_Checksum then no_message (stored_message v ap c ds m) else stored_message v ap c ds m)"
    if "in_content asc n rest b" for b
    using unpack_checksum_yields [OF that chk, of "stored_message v ap c ds m" v ap c ds] by simp
  from unpack_message_header [OF a ds p room this] show ?thesis by (simp only: o prod.case)
qed

text \<open>The parts of what \<open>frame_sync\<close> leaves when it holds an end character.\<close>

lemma frame_sync_frame:
  assumes "chr_end \<in> set (frame_sync chr_start chr_end xs)"
  obtains p rest where "frame_sync chr_start chr_end xs = chr_start # p @ chr_end # rest"
    and "chr_start \<notin> set p" and "chr_end \<notin> set p"
  using frame_sync_shape [of chr_start chr_end xs] assms by auto

text \<open>A period before the end character splits the header, the data and the rest.\<close>

lemma frame_parts:
  assumes ys: "ys = chr_start # p @ chr_end # r" and i: "i = first_index ys chr_period"
    and lo: "4 \<le> i" and hi: "i < Suc (length p)"
  shows "ys = [chr_start, ys ! 1, ys ! 2, ys ! 3] @ take (i - 4) (drop 4 ys) @ [chr_period] @ drop (Suc i) ys"
    and "chr_period \<notin> set (take (i - 4) (drop 4 ys))" and "length (take (i - 4) (drop 4 ys)) = i - 4"
proof -
  have il: "i < length ys" using hi ys by simp
  have at: "ys ! i = chr_period"
    unfolding i by (rule nth_first_index) (use il i first_index_less_iff [of ys chr_period] in simp)
  have t: "take i ys = take 4 ys @ take (i - 4) (drop 4 ys)"
    using take_add [of 4 "i - 4" ys] lo by simp
  have "ys ! 0 = chr_start" by (simp add: ys)
  moreover obtain y0 y1 y2 y3 zs where "ys = y0 # y1 # y2 # y3 # zs"
    using il lo by (auto simp: numeral_eq_Suc Suc_le_length_iff dest!: less_imp_le order_trans [of _ i])
  ultimately have h: "take 4 ys = [chr_start, ys ! 1, ys ! 2, ys ! 3]" by simp
  show "ys = [chr_start, ys ! 1, ys ! 2, ys ! 3] @ take (i - 4) (drop 4 ys) @ [chr_period] @ drop (Suc i) ys"
    using id_take_nth_drop [OF il] at t h by simp
  have "chr_period \<notin> set (take i ys)"
    using i by (auto simp: first_index_def takeWhile_eq_take [symmetric] dest: set_takeWhileD)
  then show "chr_period \<notin> set (take (i - 4) (drop 4 ys))" using t by simp
  show "length (take (i - 4) (drop 4 ys)) = i - 4" using il lo by simp
qed

lemma compute_checksum_input:
  assumes wf: "cb_wf (in_buf asc)" and ys: "cb_list (in_buf asc) = chr_start # ys" and chk: "length chk = 4"
  shows "ascii_serial_com_compute_checksum asc chk False =
    checksum_outcome (chr_start # ys) 0 (first_index (chr_start # ys) chr_period)"
  by (rule compute_checksum_outcome [where cb = "in_buf asc"])
    (use wf ys chk cb_wfD(4) [OF wf] in \<open>simp_all add: first_index_def cb_cap_def\<close>)

lemma frame_sync_Nil [simp]: "frame_sync st en [] = []"
  by (simp add: frame_sync.simps)

text \<open>What \<open>receive_frame\<close> does with the frame at the front.\<close>

definition front_frame :: "byte list \<Rightarrow> rx_outcome \<times> byte list" where
  "front_frame ys =
     (let iEnd = first_index ys chr_end;
          iPeriod = first_index ys chr_period in
      if chr_end \<notin> set ys then (No_Message, ys)
      else if iPeriod > iEnd then (Rx_Error ASC_ERROR_INVALID_FRAME_PERIOD, drop (Suc iEnd) ys)
      else if iPeriod \<ge> 59 then (Rx_Error ASC_ERROR_CHECKSUM_PROBLEM, ys)
      else if iPeriod < 4 then (Rx_Error ASC_ERROR_INVALID_FRAME_PERIOD, ys)
      else unpack_outcome False (checksum_chars (take (Suc iPeriod) ys)) (ys ! 1) (ys ! 2) (ys ! 3)
        (take (iPeriod - 4) (drop 4 ys)) (drop (Suc iPeriod) ys))"

lemma receive_frame_eq: "receive_frame xs = front_frame (frame_sync chr_start chr_end xs)"
  by (simp add: receive_frame_def front_frame_def unpack_outcome_def Let_def)

lemma unpack_outcome_output:
  assumes "unpack_outcome ignore chk v ap c ds rest = (out, zs)" and "length ds \<le> length (msg_data m)"
  shows "rx_output out m (if out = Bad_Checksum then no_message (stored_message v ap c ds m)
    else stored_message v ap c ds m)"
  using assms
  by (cases out) (fastforce simp: unpack_outcome_def split: if_splits)+

lemma get_frame_yields:
  assumes b: "in_content asc n ys b" and check: "\<not> ignoreCRCMismatch asc"
    and room: "length (msg_data m) = 54" and chk: "length chk = 4"
    and shape: "chr_end \<in> set ys \<Longrightarrow> \<exists>p r. ys = chr_start # p @ chr_end # r \<and> chr_end \<notin> set p"
    and out: "front_frame ys = (out, zs)"
  shows "\<exists>m'. rx_yields (get_frame chk (b, m)) (rx_result out) asc n zs m' \<and> rx_output out m m'"
proof -
  note B = in_contentD [OF b]
  let ?e = "first_index ys chr_end" and ?p = "first_index ys chr_period"
  have find: "circular_buffer_find_first_uint8 (in_buf b) v = Inr (of_nat (first_index ys v))" for v
    using find_first_refines [OF B(1), of v] B(3) by simp
  have u: "unat (of_nat (first_index ys v) :: size_t) = first_index ys v" for v
    using unat_index [of "first_index ys v" "in_buf b"] first_index_le [of ys v] B(3) by simp
  have ge: "(of_nat ?e \<ge> circular_buffer_get_size_uint8 (in_buf b)) = (chr_end \<notin> set ys)"
    using first_index_less_iff [of ys chr_end]
    by (auto simp: circular_buffer_get_size_uint8_def word_le_nat_alt u B(6))
  have gt: "(of_nat ?p > (of_nat ?e :: size_t)) = (?p > ?e)" by (simp add: word_less_nat_alt u)
  note unfold = get_frame_def Let_def fst_conv find bind_res_simps ge gt
  consider (none) "chr_end \<notin> set ys" | (noperiod) "chr_end \<in> set ys" "?p > ?e"
    | (frame) "chr_end \<in> set ys" "\<not> ?p > ?e" by blast
  then show ?thesis
  proof cases
    case none
    then have "out = No_Message" "zs = ys" using out by (simp_all add: front_frame_def)
    then show ?thesis using none b unfolding unfold by (simp add: set_msg_def)
  next
    case noperiod
    then have o: "out = Rx_Error ASC_ERROR_INVALID_FRAME_PERIOD" "zs = drop (Suc ?e) ys"
      using out by (simp_all add: front_frame_def Let_def)
    have "Suc ?e \<le> length ys" using noperiod(1) first_index_less_iff [of ys chr_end] by simp
    from pop_loop_yields [OF b this, of m]
    have "rx_yields (for_each (\<lambda>_ s. discard (in_pop s)) [0..<?e + 1] (b, m)) (Inr ()) asc n zs m"
      by (simp add: o)
    then have "rx_yields (bind_res (for_each (\<lambda>_ s. discard (in_pop s)) [0..<?e + 1] (b, m))
        (\<lambda>_ s. (Inl (Throw ASC_ERROR_INVALID_FRAME_PERIOD), s))) (rx_result out) asc n zs m"
      by (rule rx_yields_bind) (simp add: o)
    then show ?thesis using noperiod o unfolding unfold u by auto
  next
    case frame
    then obtain p r where ys: "ys = chr_start # p @ chr_end # r" and pe: "chr_end \<notin> set p"
      using shape by blast
    have e: "?e = Suc (length p)" using pe by (simp add: ys first_index_def takeWhile_append)
    have ne: "?p \<noteq> ?e"
    proof
      assume "?p = ?e"
      then have "chr_period \<in> set ys" "ys ! ?p = ys ! ?e"
        using frame(1) first_index_less_iff [of ys chr_period] first_index_less_iff [of ys chr_end] by simp_all
      then show False using nth_first_index [of chr_period ys] nth_first_index [of chr_end ys] frame(1) by simp
    qed
    have pl: "?p < Suc (length p)" using frame(2) ne e by simp
    then have pi: "?p < length ys" by (simp add: ys)
    have cs: "ascii_serial_com_compute_checksum b chk False = checksum_outcome ys 0 ?p"
      using compute_checksum_input [OF B(1) _ chk] B(3) ys by simp
    have step: "get_frame chk (b, m) =
      bind_res (checksum_outcome ys 0 ?p, (b, m)) (\<lambda>chk s. unpack_message (of_nat ?p) chk s)"
      using frame check B(5) unfolding unfold cs by simp
    show ?thesis
    proof (cases "?p < 59 \<and> 4 \<le> ?p")
      case False
      then have o: "zs = ys" "out = Rx_Error (if ?p \<ge> 59 then ASC_ERROR_CHECKSUM_PROBLEM else ASC_ERROR_INVALID_FRAME_PERIOD)"
        using out frame ne by (auto simp: front_frame_def Let_def split: if_splits)
      show ?thesis using False pi b o by (auto simp: step checksum_outcome_def)
    next
      case True
      let ?v = "ys ! 1" and ?a = "ys ! 2" and ?c = "ys ! 3"
      let ?ds = "take (?p - 4) (drop 4 ys)" and ?rest = "drop (Suc ?p) ys"
      let ?chk = "checksum_chars (take (Suc ?p) ys)"
      have P: "ys = [chr_start, ?v, ?a, ?c] @ ?ds @ [chr_period] @ ?rest" "chr_period \<notin> set ?ds" "length ?ds = ?p - 4"
        using frame_parts [OF ys refl _ pl] True by blast+
      have o: "unpack_outcome (ignoreCRCMismatch asc) ?chk ?v ?a ?c ?ds ?rest = (out, zs)"
        using out frame ne True check by (simp add: front_frame_def Let_def)
      have r: "length ?ds \<le> length (msg_data m)" unfolding P(3) room using True by linarith
      have "in_content asc n ([chr_start, ?v, ?a, ?c] @ ?ds @ [chr_period] @ ?rest) b" using b P(1) by simp
      note cont = this
      have up: "unat (of_nat ?p :: size_t) = 4 + length ?ds" using True unfolding P(3) u by simp
      have y: "rx_yields (unpack_message (of_nat ?p) ?chk (b, m)) (rx_result out) asc n zs
        (if out = Bad_Checksum then no_message (stored_message ?v ?a ?c ?ds m) else stored_message ?v ?a ?c ?ds m)"
        using unpack_message_yields [OF cont P(2) up r length_checksum_chars, of "take (Suc ?p) ys"]
        by (simp only: o prod.case)
      have "rx_output out m (if out = Bad_Checksum then no_message (stored_message ?v ?a ?c ?ds m)
          else stored_message ?v ?a ?c ?ds m)"
        using o r by (rule unpack_outcome_output)
      then show ?thesis using y True pi by (auto simp: step checksum_outcome_def)
    qed
  qed
qed

theorem get_message_refines:
  fixes s :: rx_state
  assumes wf: "cb_wf (in_buf (fst s))" and check: "\<not> ignoreCRCMismatch (fst s)"
    and room: "length (msg_data (snd s)) = unat MAXDATALEN"
    and out: "receive_frame (cb_list (in_buf (fst s))) = (out, zs)"
  shows "\<exists>m'. rx_yields (ascii_serial_com_get_message_from_input_buffer s) (rx_result out)
      (fst s) (cb_cap (in_buf (fst s))) zs m' \<and> rx_output out (snd s) m'"
proof -
  obtain asc m where s: "s = (asc, m)" by force
  let ?xs = "cb_list (in_buf asc)" and ?n = "cb_cap (in_buf asc)"
  let ?ys = "frame_sync chr_start chr_end ?xs"
  note wf = wf [unfolded s fst_conv] and out = out [unfolded s fst_conv receive_frame_eq]
  show ?thesis
  proof (cases "cb_size (in_buf asc) = 0")
    case True
    then have x: "?xs = []" by simp
    then have "out = No_Message" "zs = []" using out by (simp_all only: x) (simp_all add: front_frame_def)
    then show ?thesis using True in_content_self [OF wf] x
      by (simp add: s ascii_serial_com_get_message_from_input_buffer_def circular_buffer_get_size_uint8_def set_msg_def)
  next
    case False
    let ?sync = "\<lambda>cb. circular_buffer_remove_front_unfinished_frames_uint8 cb chr_start chr_end"
    have "0 \<le> sint chr_start" by simp
    from with_in_buf_content [where f = ?sync, OF in_content_self [OF wf]
        remove_unfinished_frames_returns [OF wf this, of chr_end]]
    obtain v where y: "rx_yields (zoom fst (\<lambda>asc s. (asc, snd s)) (with_in_buf ?sync) (asc, m)) (Inr v) asc ?n ?ys m"
      by blast
    then obtain b where z: "zoom fst (\<lambda>asc s. (asc, snd s)) (with_in_buf ?sync) (asc, m) = (Inr v, b, m)"
        and b: "in_content asc ?n ?ys b"
      by (cases "zoom fst (\<lambda>asc s. (asc, snd s)) (with_in_buf ?sync) (asc, m)") (auto simp: rx_yields_def)
    have "\<exists>p r. ?ys = chr_start # p @ chr_end # r \<and> chr_end \<notin> set p" if "chr_end \<in> set ?ys"
      using frame_sync_frame [OF that] by metis
    moreover have "ascii_serial_com_get_message_from_input_buffer s = get_frame (replicate (unat NCHARCHECKSUM) 0) (b, m)"
      using False by (simp add: s ascii_serial_com_get_message_from_input_buffer_def circular_buffer_get_size_uint8_def z)
    ultimately show ?thesis
      using get_frame_yields [OF b _ _ _ _ out, of m "replicate (unat NCHARCHECKSUM) 0"] check room by (simp add: s)
  qed
qed

section \<open>Sending\<close>

text \<open>
  The interface \<open>asc\<close> with \<open>xs\<close> in its output buffer, which begins in the
  array where it did.
\<close>

definition out_content :: "ascii_serial_com \<Rightarrow> byte list \<Rightarrow> ascii_serial_com \<Rightarrow> bool" where
  "out_content asc xs a \<longleftrightarrow> cb_wf (out_buf a) \<and> cb_cap (out_buf a) = 64 \<and> cb_list (out_buf a) = xs
     \<and> iStart (out_buf a) = iStart (out_buf asc) \<and> a = asc\<lparr>out_buf := out_buf a\<rparr>"

definition tx_yields :: "('a, ascii_serial_com) res \<Rightarrow> 'a exc \<Rightarrow> ascii_serial_com \<Rightarrow> byte list \<Rightarrow> bool" where
  "tx_yields r v asc xs \<longleftrightarrow> fst r = v \<and> out_content asc xs (snd r)"

lemma out_content_self:
  "cb_wf (out_buf a) \<Longrightarrow> cb_cap (out_buf a) = 64 \<Longrightarrow> out_content a (cb_list (out_buf a)) a"
  by (simp add: out_content_def)

lemma out_contentD:
  assumes "out_content asc xs a"
  shows "cb_wf (out_buf a)" "cb_cap (out_buf a) = 64" "cb_list (out_buf a) = xs"
    "iStart (out_buf a) = iStart (out_buf asc)" "in_buf a = in_buf asc"
    "send_stream_frame_counter a = send_stream_frame_counter asc" "ignoreCRCMismatch a = ignoreCRCMismatch asc"
proof -
  show "cb_wf (out_buf a)" "cb_cap (out_buf a) = 64" "cb_list (out_buf a) = xs"
    "iStart (out_buf a) = iStart (out_buf asc)"
    using assms by (simp_all add: out_content_def)
  obtain b where "a = asc\<lparr>out_buf := b\<rparr>" using assms unfolding out_content_def by blast
  then show "in_buf a = in_buf asc" "send_stream_frame_counter a = send_stream_frame_counter asc"
    "ignoreCRCMismatch a = ignoreCRCMismatch asc" by simp_all
qed

lemma tx_yields_bind:
  assumes "tx_yields r (Inr v) asc xs" and "\<And>a. out_content asc xs a \<Longrightarrow> tx_yields (f v a) w asc ys"
  shows "tx_yields (bind_res r f) w asc ys"
  using assms by (simp add: tx_yields_def)

lemma tx_yields_Pair [simp]: "tx_yields (v, a) w asc xs \<longleftrightarrow> v = w \<and> out_content asc xs a"
  by (simp add: tx_yields_def)

lemma push_back_start:
  assumes "cb_wf cb" "length (cb_list cb) < cb_cap cb"
  shows "iStart (snd (circular_buffer_push_back_uint8 cb x)) = iStart cb"
proof -
  have "cb_size cb \<noteq> capacity cb" using assms(2) by (auto simp: cb_cap_def)
  then show ?thesis
    by (auto simp: circular_buffer_push_back_uint8_def write_buffer_def bind_res_def inc_iStop_uint8_def
        Let_def split: sum.splits)
qed

lemma put_byte_yields:
  assumes a: "out_content asc xs a" and room: "length xs < 64"
  shows "tx_yields (put_byte x a) (Inr ()) asc (xs @ [x])"
proof -
  note A = out_contentD [OF a]
  have u: "a = asc\<lparr>out_buf := out_buf a\<rparr>" using a by (simp add: out_content_def)
  have "a\<lparr>out_buf := cb\<rparr> = asc\<lparr>out_buf := cb\<rparr>" for cb by (subst u) simp
  then show ?thesis
    using push_back_returns [OF A(1), of x] push_back_start [OF A(1), of x] A room
    by (simp add: tx_yields_def put_byte_def with_out_buf_def cb_returns_def out_content_def)
qed

lemma put_bytes_yields:
  assumes "out_content asc xs a" and "k \<le> length data" and "length xs + k \<le> 64"
  shows "tx_yields (for_each (\<lambda>i asc. bind_res (load data i, asc) put_byte) [0..<k] a) (Inr ()) asc (xs @ take k data)"
  using assms
proof (induction k)
  case 0
  then show ?case by simp
next
  case (Suc k)
  have "tx_yields (bind_res (for_each (\<lambda>i asc. bind_res (load data i, asc) put_byte) [0..<k] a)
      (\<lambda>_ a. for_each (\<lambda>i asc. bind_res (load data i, asc) put_byte) [k] a)) (Inr ()) asc (xs @ take (Suc k) data)"
  proof (rule tx_yields_bind [OF Suc.IH])
    fix b assume b: "out_content asc (xs @ take k data) b"
    have "tx_yields (put_byte (data ! k) b) (Inr ()) asc ((xs @ take k data) @ [data ! k])"
      by (rule put_byte_yields [OF b]) (use Suc.prems in simp)
    then have "tx_yields (bind_res (put_byte (data ! k) b) (\<lambda>_ s. (Inr (), s))) (Inr ()) asc (xs @ take (Suc k) data)"
      using Suc.prems by (intro tx_yields_bind) (auto simp: take_Suc_conv_app_nth)
    then show "tx_yields (for_each (\<lambda>i asc. bind_res (load data i, asc) put_byte) [k] b) (Inr ()) asc
        (xs @ take (Suc k) data)"
      using Suc.prems by simp
  qed (use Suc.prems in simp_all)
  then show ?case by (simp add: for_each_append)
qed

lemma length_frame_body [simp]: "length (frame_body v ap c d) = length d + 5"
  by (simp add: frame_body_def)

lemma length_frame [simp]: "length (frame v ap c d) = length d + 10"
  by (simp add: frame_def Let_def)

lemma last_index_body: "last_index (xs @ frame_body v ap c d) chr_period = length xs + length d + 4"
  using last_index_split [of chr_period "[]" "xs @ [chr_start, v, ap, c] @ d"] by (simp add: frame_body_def)

lemma put_checksum_yields:
  assumes b: "out_content asc (xs @ frame_body v ap c d) b"
    and start: "i = last_index (xs @ frame_body v ap c d) chr_start"
    and flat: "unat (iStart (out_buf asc)) + i \<le> 64"
  shows "case checksum_outcome (xs @ frame_body v ap c d) i (length xs + length d + 4) of
      Inl e \<Rightarrow> tx_yields (put_checksum b) (Inl e) asc (xs @ frame_body v ap c d)
    | Inr chk \<Rightarrow> tx_yields (put_checksum b) (Inr ()) asc (xs @ frame_body v ap c d @ chk @ [chr_end])"
proof -
  note B = out_contentD [OF b]
  let ?ys = "xs @ frame_body v ap c d"
  have "ascii_serial_com_compute_checksum b (replicate (unat NCHARCHECKSUM) 0) True =
      checksum_outcome ?ys i (length xs + length d + 4)"
    by (rule compute_checksum_outcome [where cb = "out_buf b"]) (use B start flat last_index_body in simp_all)
  moreover have "tx_yields (bind_res (for_each (\<lambda>i asc. bind_res (load chk i, asc) put_byte) [0..<4] b)
      (\<lambda>_ asc. put_byte chr_end asc)) (Inr ()) asc (?ys @ chk @ [chr_end])"
    if c: "checksum_outcome ?ys i (length xs + length d + 4) = Inr chk" for chk
  proof -
    have l: "length chk = 4" "length ?ys + 5 \<le> 64"
      using c by (auto simp: checksum_outcome_def split: if_splits)
    have "tx_yields (for_each (\<lambda>i asc. bind_res (load chk i, asc) put_byte) [0..<4] b) (Inr ()) asc (?ys @ take 4 chk)"
      by (rule put_bytes_yields [OF b]) (use l in simp_all)
    then show ?thesis
      using l put_byte_yields [of asc "?ys @ chk" _ chr_end] by (intro tx_yields_bind) simp_all
  qed
  ultimately show ?thesis using b by (auto simp: put_checksum_def split: sum.split)
qed

text \<open>Up to the checksum only the room in the buffer matters.\<close>

lemma put_message_body:
  assumes a: "out_content asc0 xs asc" and n: "unat dataLen \<le> 54" "unat dataLen \<le> length data"
    and room: "length xs + unat dataLen + 5 \<le> 64"
    and k: "\<And>b. out_content asc0 (xs @ frame_body v ap c (take (unat dataLen) data)) b \<Longrightarrow>
      tx_yields (put_checksum b) w asc0 ys"
  shows "tx_yields (ascii_serial_com_put_message_in_output_buffer asc v ap c data dataLen) w asc0 ys"
proof -
  have g: "\<not> dataLen > MAXDATALEN" using n(1) by (simp add: word_less_nat_alt)
  have split: "xs @ frame_body v ap c d = ((((xs @ [chr_start]) @ [v]) @ [ap]) @ [c]) @ d @ [chr_period]" for d
    by (simp add: frame_body_def)
  show ?thesis
    unfolding ascii_serial_com_put_message_in_output_buffer_def if_not_P [OF g]
    apply (rule tx_yields_bind [OF put_byte_yields [OF a]])
    subgoal using room by simp
    apply (rule tx_yields_bind [OF put_byte_yields], assumption)
    subgoal using room by simp
    apply (rule tx_yields_bind [OF put_byte_yields], assumption)
    subgoal using room by simp
    apply (rule tx_yields_bind [OF put_byte_yields], assumption)
    subgoal using room by simp
    apply (rule tx_yields_bind [OF put_bytes_yields [OF _ n(2)]], assumption)
    subgoal using room by simp
    apply (rule tx_yields_bind [OF put_byte_yields], assumption)
    subgoal using room n(2) by simp
    using k by (simp add: split)
qed

text \<open>
  Whatever bytes the message has: the checksum is that of the body from its last start character on, when
  at least three bytes come between this character and the period at the end.
\<close>

lemma put_message_room:
  assumes a: "out_content asc0 xs asc" and n: "unat dataLen \<le> length data"
    and d: "d = take (unat dataLen) data" and i: "i = last_index (frame_body v ap c d) chr_start"
    and room: "length xs + length d + 10 \<le> 64" and flat: "unat (iStart (out_buf asc0)) + length xs + i \<le> 64"
  shows "tx_yields (ascii_serial_com_put_message_in_output_buffer asc v ap c data dataLen)
    (if length d < i then Inl (Throw ASC_ERROR_INVALID_FRAME_PERIOD) else Inr ()) asc0
    (xs @ frame_body v ap c d @ (if length d < i then [] else checksum_chars (drop i (frame_body v ap c d)) @ [chr_end]))"
proof (rule put_message_body [OF a])
  have l: "length d = unat dataLen" using n d by simp
  then show "unat dataLen \<le> 54" "unat dataLen \<le> length data" "length xs + unat dataLen + 5 \<le> 64"
    using room n by simp_all
  fix b assume b: "out_content asc0 (xs @ frame_body v ap c (take (unat dataLen) data)) b"
  have s: "chr_start \<in> set (frame_body v ap c d)" by (simp add: frame_body_def)
  have j: "length xs + i = last_index (xs @ frame_body v ap c d) chr_start" using s by (simp only: i last_index_append if_True)
  have "i < length (frame_body v ap c d)" unfolding i using last_index_less_iff [of "frame_body v ap c d" chr_start] s by simp
  then have b1: "\<not> length (xs @ frame_body v ap c d) \<le> length xs + i" by simp
  have b2: "\<not> length (xs @ frame_body v ap c d) \<le> length xs + length d + 4" "\<not> 59 \<le> length xs + length d + 4"
    "length xs + length d + 4 < length xs + i + 4 \<longleftrightarrow> length d < i"
    using room by simp_all
  have t: "take (Suc (length xs + length d + 4) - (length xs + i)) (drop (length xs + i) (xs @ frame_body v ap c d)) = drop i (frame_body v ap c d)"
    by simp
  have o: "checksum_outcome (xs @ frame_body v ap c d) (length xs + i) (length xs + length d + 4) =
      (if length d < i then Inl (Throw ASC_ERROR_INVALID_FRAME_PERIOD) else Inr (checksum_chars (drop i (frame_body v ap c d))))"
    unfolding checksum_outcome_def if_not_P [OF b1] if_not_P [OF b2(1)] if_not_P [OF b2(2)] b2(3) t ..
  have "unat (iStart (out_buf asc0)) + (length xs + i) \<le> 64" using flat by simp
  note y = put_checksum_yields [OF b [folded d] j this, unfolded o]
  show "tx_yields (put_checksum b) (if length d < i then Inl (Throw ASC_ERROR_INVALID_FRAME_PERIOD) else Inr ()) asc0
      (xs @ frame_body v ap c d @ (if length d < i then [] else checksum_chars (drop i (frame_body v ap c d)) @ [chr_end]))"
  proof (cases "length d < i")
    case True
    show ?thesis using y unfolding if_P [OF True] by (simp only: sum.case append_Nil2)
  next
    case False
    show ?thesis using y unfolding if_not_P [OF False] by (simp only: sum.case)
  qed
qed

text \<open>A message that fits is appended as its frame, when it has no start character inside.\<close>

lemma last_index_start:
  "chr_start \<notin> set ([v, ap, c] @ d) \<Longrightarrow> last_index (xs @ frame_body v ap c d) chr_start = length xs"
  using last_index_split [of chr_start "[v, ap, c] @ d @ [chr_period]" xs] by (simp add: frame_body_def)

lemma put_message_fits:
  assumes a: "out_content asc0 xs asc" and n: "unat dataLen \<le> length data"
    and d: "d = take (unat dataLen) data" and nostart: "chr_start \<notin> set ([v, ap, c] @ d)"
    and room: "length xs + length (frame v ap c d) \<le> 64"
    and flat: "unat (iStart (out_buf asc0)) + length xs \<le> 64"
  shows "tx_yields (ascii_serial_com_put_message_in_output_buffer asc v ap c data dataLen) (Inr ()) asc0
    (xs @ frame v ap c d)"
proof -
  have i: "0 = last_index (frame_body v ap c d) chr_start" using last_index_start [OF nostart, of "[]"] by simp
  show ?thesis using put_message_room [OF a n d i] room flat by (simp add: frame_def Let_def)
qed

text \<open>Without room the last 64 bytes stay, and no byte of the checksum is pushed.\<close>

definition out_keeps :: "ascii_serial_com \<Rightarrow> byte list \<Rightarrow> ascii_serial_com \<Rightarrow> bool" where
  "out_keeps asc xs a \<longleftrightarrow> cb_wf (out_buf a) \<and> cb_cap (out_buf a) = 64 \<and> cb_list (out_buf a) = drop (length xs - 64) xs
     \<and> a = asc\<lparr>out_buf := out_buf a\<rparr>"

lemma diff_Suc_eq: "\<not> length xs < 64 \<Longrightarrow> Suc (length xs - 64) = length xs - 63"
  by simp

lemma put_byte_keeps:
  assumes "out_keeps asc xs a"
  shows "\<exists>b. put_byte x a = (Inr (), b) \<and> out_keeps asc (xs @ [x]) b"
proof -
  have k: "cb_wf (out_buf a)" "cb_cap (out_buf a) = 64" "cb_list (out_buf a) = drop (length xs - 64) xs"
    and u: "a = asc\<lparr>out_buf := out_buf a\<rparr>" using assms by (simp_all add: out_keeps_def)
  have "a\<lparr>out_buf := cb\<rparr> = asc\<lparr>out_buf := cb\<rparr>" for cb by (subst u) simp
  moreover have "(if length (drop (length xs - 64) xs) = 64 then tl (drop (length xs - 64) xs) else drop (length xs - 64) xs) @ [x]
      = drop (length (xs @ [x]) - 64) (xs @ [x])"
    by (cases "length xs < 64") (simp_all add: tl_drop drop_Suc [symmetric] diff_Suc_eq)
  ultimately show ?thesis
    using push_back_returns [OF k(1), of x] k(2,3)
    by (cases "circular_buffer_push_back_uint8 (out_buf a) x")
      (auto simp: put_byte_def with_out_buf_def zoom_def cb_returns_def out_keeps_def)
qed

lemma put_bytes_keeps:
  assumes "out_keeps asc xs a" and "k \<le> length data"
  shows "\<exists>b. for_each (\<lambda>i asc. bind_res (load data i, asc) put_byte) [0..<k] a = (Inr (), b) \<and> out_keeps asc (xs @ take k data) b"
  using assms
proof (induction k)
  case (Suc k)
  then obtain b where b: "for_each (\<lambda>i asc. bind_res (load data i, asc) put_byte) [0..<k] a = (Inr (), b)"
    "out_keeps asc (xs @ take k data) b" by auto
  from put_byte_keeps [OF b(2), of "data ! k"] show ?case
    using Suc.prems(2) b(1) by (auto simp: for_each_append take_Suc_conv_app_nth)
qed simp

lemma compute_checksum_late:
  assumes "circular_buffer_find_last_uint8 (out_buf b) chr_start = Inr i" "circular_buffer_find_last_uint8 (out_buf b) chr_period = Inr p"
    and "unat i < unat (cb_size (out_buf b))" "unat p < unat (cb_size (out_buf b))" "59 \<le> unat p"
  shows "ascii_serial_com_compute_checksum b chk True = Inl (Throw ASC_ERROR_CHECKSUM_PROBLEM)"
  using assms by (simp add: ascii_serial_com_compute_checksum_def circular_buffer_get_size_uint8_def Let_def word_le_nat_alt)

lemma put_checksum_no_room:
  assumes b: "out_keeps asc (xs @ frame_body v ap c d) b" and room: "64 < length xs + length d + 10" and d: "length d \<le> 54"
  shows "put_checksum b = (Inl (Throw ASC_ERROR_CHECKSUM_PROBLEM), b)"
proof -
  let ?cb = "out_buf b" and ?k = "length xs + length d + 5 - 64"
  have wf: "cb_wf ?cb" and cb: "cb_list ?cb = drop ?k xs @ frame_body v ap c d"
    using b d by (simp_all add: out_keeps_def)
  let ?ys = "drop ?k xs @ frame_body v ap c d"
  have p: "last_index ?ys chr_period = length ?ys - 1" using last_index_body [of "drop ?k xs"] by simp
  have l: "60 \<le> length ?ys" "length ?ys \<le> 64" using room d by auto
  have up: "unat (of_nat (length ?ys - 1) :: size_t) = length ?ys - 1" by (rule unat_of_nat_64) (use l in simp)
  have us: "unat (cb_size ?cb) = length ?ys" using length_cb_list [of ?cb] unfolding cb by (rule sym)
  have i: "last_index ?ys chr_start < length ?ys" unfolding last_index_less_iff by (simp add: frame_body_def)
  then have ui: "unat (of_nat (last_index ?ys chr_start) :: size_t) = last_index ?ys chr_start"
    by (intro unat_of_nat_64) (use l in linarith)
  have "ascii_serial_com_compute_checksum b (replicate 4 0) True = Inl (Throw ASC_ERROR_CHECKSUM_PROBLEM)"
  proof (rule compute_checksum_late)
    show "circular_buffer_find_last_uint8 ?cb chr_start = Inr (of_nat (last_index ?ys chr_start))"
      "circular_buffer_find_last_uint8 ?cb chr_period = Inr (of_nat (length ?ys - 1))"
      using find_last_refines [OF wf, of chr_start] find_last_refines [OF wf, of chr_period] unfolding cb p .
  qed (unfold ui up us, (use i l in linarith)+)
  then show ?thesis by (simp add: put_checksum_def)
qed

lemma put_message_overflows:
  assumes wf: "cb_wf (out_buf asc)" "cb_cap (out_buf asc) = 64" and xs: "xs = cb_list (out_buf asc)"
    and n: "unat dataLen \<le> length data" "unat dataLen \<le> 54" and d: "d = take (unat dataLen) data"
    and room: "64 < length xs + length d + 10"
  shows "\<exists>b. ascii_serial_com_put_message_in_output_buffer asc v ap c data dataLen = (Inl (Throw ASC_ERROR_CHECKSUM_PROBLEM), b)
    \<and> out_keeps asc (xs @ frame_body v ap c d) b"
proof -
  have l: "length d = unat dataLen" using n d by simp
  have "length xs \<le> 64" using cb_wf_size [OF wf(1)] wf(2) xs by simp
  then have k: "out_keeps asc xs asc" using wf xs by (simp add: out_keeps_def)
  obtain a1 where 1: "put_byte chr_start asc = (Inr (), a1)" "out_keeps asc (xs @ [chr_start]) a1"
    using put_byte_keeps [OF k] by blast
  obtain a2 where 2: "put_byte v a1 = (Inr (), a2)" "out_keeps asc (xs @ [chr_start, v]) a2"
    using put_byte_keeps [OF 1(2)] by auto
  obtain a3 where 3: "put_byte ap a2 = (Inr (), a3)" "out_keeps asc (xs @ [chr_start, v, ap]) a3"
    using put_byte_keeps [OF 2(2)] by auto
  obtain a4 where 4: "put_byte c a3 = (Inr (), a4)" "out_keeps asc (xs @ [chr_start, v, ap, c]) a4"
    using put_byte_keeps [OF 3(2)] by auto
  obtain a5 where 5: "for_each (\<lambda>i asc. bind_res (load data i, asc) put_byte) [0..<unat dataLen] a4 = (Inr (), a5)"
    "out_keeps asc (xs @ [chr_start, v, ap, c] @ d) a5" using put_bytes_keeps [OF 4(2) n(1)] by (auto simp: d)
  obtain b where 6: "put_byte chr_period a5 = (Inr (), b)" "out_keeps asc (xs @ frame_body v ap c d) b"
    using put_byte_keeps [OF 5(2)] by (auto simp: frame_body_def)
  have "put_checksum b = (Inl (Throw ASC_ERROR_CHECKSUM_PROBLEM), b)"
    by (rule put_checksum_no_room [OF 6(2)]) (use room n l in simp_all)
  then show ?thesis using 1(1) 2(1) 3(1) 4(1) 5(1) 6 n
    by (simp add: ascii_serial_com_put_message_in_output_buffer_def word_less_nat_alt)
qed

lemma put_message_too_long:
  "unat dataLen > 54 \<Longrightarrow> ascii_serial_com_put_message_in_output_buffer asc v ap c data dataLen =
    (Inl (Throw ASC_ERROR_DATA_TOO_LONG), asc)"
  by (simp add: ascii_serial_com_put_message_in_output_buffer_def word_less_nat_alt)

text \<open>
  When the pending bytes run past the end of the array, the pointer that \<open>get_blocks\<close> hands
  out for a message behind them lies outside of it.
\<close>

lemma compute_checksum_past:
  fixes xs i p
  assumes wf: "cb_wf (out_buf asc)" and xs: "xs = cb_list (out_buf asc)"
    and i: "i = last_index xs chr_start" and p: "p = last_index xs chr_period"
    and order: "i + 4 \<le> p" "p < length xs" "p < 59"
    and past: "cb_cap (out_buf asc) < unat (iStart (out_buf asc)) + i"
  shows "ascii_serial_com_compute_checksum asc chk True = Inl UB"
proof -
  have u: "unat (of_nat i :: size_t) = i" "unat (of_nat p :: size_t) = p"
    using order xs unat_index [of i "out_buf asc"] unat_index [of p "out_buf asc"] by simp_all
  have le: "of_nat i \<le> (of_nat p :: size_t)" using order by (simp add: word_le_nat_alt u)
  have d: "unat (of_nat p - of_nat i :: size_t) = p - i" using unat_sub [OF le] by (simp add: u)
  have n: "unat (of_nat p - of_nat i + 1 :: size_t) = Suc (p - i)"
    using order by (simp add: unat_word_ariths d u)
  obtain bl where "circular_buffer_get_blocks_uint8 (out_buf asc) (of_nat i) (of_nat p - of_nat i + 1) = Inr bl"
      "blocks_bytes (out_buf asc) bl = Inl UB"
    using get_blocks_out_of_range [OF wf, of "of_nat i" "of_nat p - of_nat i + 1"] order past
    by (auto simp: n u xs cb_cap_def)
  moreover have "\<not> of_nat i \<ge> cb_size (out_buf asc)" "\<not> of_nat p \<ge> cb_size (out_buf asc)"
    using order by (auto simp: word_le_nat_alt u xs)
  moreover have "\<not> of_nat p \<ge> MAXMESSAGELEN - NCHARCHECKSUM - 1" "\<not> of_nat p \<le> (of_nat i :: size_t)"
      "\<not> of_nat p - of_nat i < (4 :: size_t)"
    using order d by (auto simp: word_le_nat_alt word_less_nat_alt u)
  ultimately show ?thesis
    using find_last_refines [OF wf, of chr_start] find_last_refines [OF wf, of chr_period]
    by (simp add: ascii_serial_com_compute_checksum_def Let_def circular_buffer_get_size_uint8_def
        read_blocks_UB i p xs)
qed

lemma put_message_past:
  assumes a: "out_content asc0 xs asc" and n: "unat dataLen \<le> length data"
    and d: "d = take (unat dataLen) data" and nostart: "chr_start \<notin> set ([v, ap, c] @ d)"
    and room: "length xs + length (frame v ap c d) \<le> 64"
    and past: "64 < unat (iStart (out_buf asc0)) + length xs"
  shows "tx_yields (ascii_serial_com_put_message_in_output_buffer asc v ap c data dataLen) (Inl UB) asc0
    (xs @ frame_body v ap c d)"
proof (rule put_message_body [OF a])
  have l: "length d = unat dataLen" using n d by simp
  then show "unat dataLen \<le> 54" "unat dataLen \<le> length data" "length xs + unat dataLen + 5 \<le> 64"
    using room n by simp_all
  fix b assume b: "out_content asc0 (xs @ frame_body v ap c (take (unat dataLen) data)) b"
  note B = out_contentD [OF b [folded d]]
  have "ascii_serial_com_compute_checksum b (replicate 4 0) True = Inl UB"
    by (rule compute_checksum_past [where xs = "xs @ frame_body v ap c d" and i = "length xs"
          and p = "length xs + length d + 4"])
      (use B room past last_index_body last_index_start [OF nostart] in simp_all)
  then show "tx_yields (put_checksum b) (Inl UB) asc0 (xs @ frame_body v ap c d)"
    using b by (simp add: put_checksum_def d)
qed

subsection \<open>Stream and error messages\<close>

lemma copy_loop:
  assumes "n \<le> length data" "k + n \<le> length out"
  shows "for_each (\<lambda>i outData. bind_res (load data i, outData) (store (i + k))) [0..<n] out =
    (Inr (), mem_put k (take n data) out)"
  using assms
proof (induction n)
  case 0
  then show ?case by simp
next
  case (Suc n)
  have "(mem_put k (take n data) out)[n + k := data ! n] = mem_put k (take (Suc n) data) out"
    using Suc.prems by (intro nth_equalityI) (auto simp: nth_mem_put nth_list_update min_def)
  then show ?case using Suc by (simp add: for_each_append)
qed

text \<open>The data of an error message: its code, the command and the first nine bytes it was about.\<close>

definition error_data :: "byte \<Rightarrow> byte list \<Rightarrow> asc_exception \<Rightarrow> byte list" where
  "error_data command d e =
     hex_digits True 2 (of_nat (asc_exception_code e) :: byte) @ [chr_comma, command, chr_comma] @ take 9 d"

lemma list_update_mem_put: "p < length mem \<Longrightarrow> mem[p := v] = mem_put p [v] mem"
  by (rule mem_put_single)

lemma put_error_eq:
  assumes n: "unat dataLen \<le> length data" and d: "d = take (unat dataLen) data"
  shows "\<exists>outData. ascii_serial_com_put_error_in_output_buffer asc v ap c data dataLen e =
      ascii_serial_com_put_message_in_output_buffer asc v ap chr_e outData (of_nat (length (error_data c d e)))
    \<and> take (length (error_data c d e)) outData = error_data c d e \<and> length (error_data c d e) \<le> length outData"
proof -
  let ?n = "min (unat dataLen) 9" and ?h = "hex_digits True 2 (of_nat (asc_exception_code e) :: byte)"
  have t: "take 9 d = take ?n data" "length (take ?n data) = ?n" using n d by (simp_all add: min.commute)
  have l: "length (error_data c d e) = 5 + ?n" using t by (simp add: error_data_def)
  let ?out = "mem_put 5 (take ?n data)
    (((mem_put 0 ?h (replicate 14 0))[2 := chr_comma, 3 := c])[4 := chr_comma])"
  have "ascii_serial_com_put_error_in_output_buffer asc v ap c data dataLen e =
      ascii_serial_com_put_message_in_output_buffer asc v ap chr_e ?out (5 + of_nat ?n)"
    using n copy_loop [of ?n data 5]
    by (simp add: ascii_serial_com_put_error_in_output_buffer_def convert_uint8_to_hex_digits Let_def)
  moreover have "take (5 + ?n) ?out = error_data c d e"
  proof (rule nth_equalityI)
    show "length (take (5 + ?n) ?out) = length (error_data c d e)" by (simp add: l)
    fix i assume "i < length (take (5 + ?n) ?out)"
    then have i: "i < 5 + ?n" by simp
    show "take (5 + ?n) ?out ! i = error_data c d e ! i"
    proof (cases "i < 5")
      case True
      then have "i \<in> {0, 1, 2, 3, 4}" by auto
      then show ?thesis by (auto simp: error_data_def nth_mem_put nth_append numeral_eq_Suc)
    next
      case False
      then show ?thesis using i t
        by (simp add: error_data_def nth_mem_put nth_append nth_Cons' numeral_eq_Suc)
    qed
  qed
  ultimately show ?thesis by (intro exI [of _ ?out]) (simp add: l)
qed

lemma error_data_length: "length (error_data c d e) = 5 + min (length d) 9"
  by (simp add: error_data_def)

lemma digit_below: "unat (ucast (x AND 0xF :: 'a::len word) :: byte) < 16"
proof -
  have "(ucast (x AND 0xF) :: byte) = ucast (x AND 0xF) AND 0xF"
    by (rule bit_eqI) (auto simp: mask_15 bit_simps)
  then show ?thesis using nibble_less [of "ucast (x AND 0xF)"] by simp
qed

text \<open>Hexadecimal digits are none of the characters that make the frame.\<close>

lemma hex_digits_plain:
  assumes "b \<in> set (hex_digits caps n w)"
  shows "b \<noteq> chr_start" "b \<noteq> chr_period" "b \<noteq> chr_end"
proof -
  obtain x where b: "b = hex_digit caps x" and x: "unat x < 16"
    using assms
  proof (induction n)
    case (Suc n)
    then show ?case using digit_below by auto
  qed simp
  from hex_value_digit [OF x, of caps] b have "hex_value b = Some x" by simp
  then show "b \<noteq> chr_start" "b \<noteq> chr_period" "b \<noteq> chr_end" by (auto simp: hex_value_def split: if_splits)
qed

lemma put_error_fits:
  assumes a: "out_content asc0 xs asc" and n: "unat dataLen \<le> length data"
    and d: "d = take (unat dataLen) data" and nostart: "chr_start \<notin> set ([v, ap, c] @ d)"
    and room: "length xs + length (frame v ap chr_e (error_data c d e)) \<le> 64"
    and flat: "unat (iStart (out_buf asc0)) + length xs \<le> 64"
  shows "tx_yields (ascii_serial_com_put_error_in_output_buffer asc v ap c data dataLen e) (Inr ()) asc0
    (xs @ frame v ap chr_e (error_data c d e))"
proof -
  obtain outData where eq: "ascii_serial_com_put_error_in_output_buffer asc v ap c data dataLen e =
      ascii_serial_com_put_message_in_output_buffer asc v ap chr_e outData (of_nat (length (error_data c d e)))"
    and t: "take (length (error_data c d e)) outData = error_data c d e"
    and l: "length (error_data c d e) \<le> length outData"
    using put_error_eq [OF n d] by blast
  have u: "unat (of_nat (length (error_data c d e)) :: size_t) = length (error_data c d e)"
    by (rule unat_of_nat_64) (simp add: error_data_length)
  have "chr_start \<notin> set ([v, ap, chr_e] @ error_data c d e)"
    using nostart hex_digits_plain(1) [of chr_start True 2 "of_nat (asc_exception_code e) :: byte"]
    by (auto simp: error_data_def dest: in_set_takeD)
  then show ?thesis unfolding eq
    by (intro put_message_fits [OF a _ _ _ room flat]) (use u t l in simp_all)
qed

text \<open>The data of a stream message: the frame counter and the payload.\<close>

definition stream_data :: "byte \<Rightarrow> byte list \<Rightarrow> byte list" where
  "stream_data counter d = hex_digits True 2 counter @ chr_comma # d"

lemma put_s_eq:
  assumes n: "unat dataLen \<le> length data" "unat dataLen \<le> 51" and d: "d = take (unat dataLen) data"
  shows "\<exists>outData. ascii_serial_com_put_s_message_in_output_buffer asc v ap data dataLen =
      ascii_serial_com_put_message_in_output_buffer
        (asc\<lparr>send_stream_frame_counter := send_stream_frame_counter asc + 1\<rparr>) v ap chr_s outData (dataLen + 3)
    \<and> take (unat dataLen + 3) outData = stream_data (send_stream_frame_counter asc) d
    \<and> unat dataLen + 3 \<le> length outData"
proof -
  let ?n = "unat dataLen" and ?h = "hex_digits True 2 (send_stream_frame_counter asc)"
  let ?out = "mem_put 3 (take ?n data) ((mem_put 0 ?h (replicate 54 0))[2 := chr_comma])"
  have m: "min ?n 51 = ?n" using n by simp
  have g: "\<not> dataLen > MAXSPAYLOADEN" using n by (simp add: word_less_nat_alt)
  have "ascii_serial_com_put_s_message_in_output_buffer asc v ap data dataLen =
      ascii_serial_com_put_message_in_output_buffer
        (asc\<lparr>send_stream_frame_counter := send_stream_frame_counter asc + 1\<rparr>) v ap chr_s ?out (dataLen + 3)"
    using n g copy_loop [of ?n data 3]
    by (simp add: ascii_serial_com_put_s_message_in_output_buffer_def convert_uint8_to_hex_digits Let_def m)
  moreover have "take (?n + 3) ?out = stream_data (send_stream_frame_counter asc) d"
  proof (rule nth_equalityI)
    show "length (take (?n + 3) ?out) = length (stream_data (send_stream_frame_counter asc) d)"
      using n d by (simp add: stream_data_def)
    fix i assume "i < length (take (?n + 3) ?out)"
    then have i: "i < ?n + 3" by simp
    show "take (?n + 3) ?out ! i = stream_data (send_stream_frame_counter asc) d ! i"
    proof (cases "i < 3")
      case True
      then have "i \<in> {0, 1, 2}" by auto
      then show ?thesis using n by (auto simp: stream_data_def nth_mem_put nth_append numeral_eq_Suc)
    next
      case False
      then show ?thesis using i n d
        by (simp add: stream_data_def nth_mem_put nth_append nth_Cons' numeral_eq_Suc)
    qed
  qed
  ultimately show ?thesis using n by (intro exI [of _ ?out]) simp
qed

lemma put_s_fits:
  assumes a: "out_content asc xs asc" and n: "unat dataLen \<le> length data"
    and d: "d = take (unat dataLen) data" and nostart: "chr_start \<notin> set ([v, ap] @ d)"
    and room: "length xs + length d + 13 \<le> 64"
    and flat: "unat (iStart (out_buf asc)) + length xs \<le> 64"
  shows "tx_yields (ascii_serial_com_put_s_message_in_output_buffer asc v ap data dataLen) (Inr ())
    (asc\<lparr>send_stream_frame_counter := send_stream_frame_counter asc + 1\<rparr>)
    (xs @ frame v ap chr_s (stream_data (send_stream_frame_counter asc) d))"
proof -
  let ?asc = "asc\<lparr>send_stream_frame_counter := send_stream_frame_counter asc + 1\<rparr>"
  let ?d = "stream_data (send_stream_frame_counter asc) d"
  have l: "length d = unat dataLen" using n d by simp
  then have n51: "unat dataLen \<le> 51" using room by simp
  obtain outData where eq: "ascii_serial_com_put_s_message_in_output_buffer asc v ap data dataLen =
      ascii_serial_com_put_message_in_output_buffer ?asc v ap chr_s outData (dataLen + 3)"
    and t: "take (unat dataLen + 3) outData = ?d" and lo: "unat dataLen + 3 \<le> length outData"
    using put_s_eq [OF n n51 d] by blast
  have u: "unat (dataLen + 3) = unat dataLen + 3"
    using unat_add_small [of dataLen 3] n51 by simp
  have a': "out_content ?asc xs ?asc" using a by (simp add: out_content_def)
  have "chr_start \<notin> set ([v, ap, chr_s] @ ?d)"
    using nostart hex_digits_plain(1) [of chr_start True 2 "send_stream_frame_counter asc"]
    by (auto simp: stream_data_def)
  then show ?thesis unfolding eq
    by (intro put_message_fits [OF a']) (use u t lo l room flat in \<open>simp_all add: stream_data_def\<close>)
qed

lemma put_s_too_long:
  "unat dataLen > 51 \<Longrightarrow> ascii_serial_com_put_s_message_in_output_buffer asc v ap data dataLen =
    (Inl (Throw ASC_ERROR_DATA_TOO_LONG), asc)"
  by (simp add: ascii_serial_com_put_s_message_in_output_buffer_def word_less_nat_alt)

section \<open>Initialisation\<close>

definition asc_wf :: "ascii_serial_com \<Rightarrow> bool" where
  "asc_wf asc \<longleftrightarrow> cb_wf (in_buf asc) \<and> cb_cap (in_buf asc) = 64 \<and> cb_wf (out_buf asc) \<and> cb_cap (out_buf asc) = 64"

lemma init_interface:
  assumes raw: "length raw_buffer = 128"
  shows "\<exists>asc'. ascii_serial_com_init asc raw_buffer = (Inr (), asc') \<and> asc_wf asc'
    \<and> cb_list (in_buf asc') = [] \<and> cb_list (out_buf asc') = [] \<and> \<not> ignoreCRCMismatch asc'
    \<and> send_stream_frame_counter asc' = 0 \<and> iStart (out_buf asc') = 0"
proof -
  have p: "isPowerOfTwo MAXMESSAGELEN" by code_simp
  have l: "length (take 64 raw_buffer) = 64" "length (drop 64 raw_buffer) = 64" using raw by simp_all
  have i: "circular_buffer_init_uint8 cb MAXMESSAGELEN mem = (Inr (), cb\<lparr>capacity := 64, cb_size := 0, iStart := 0,
      iStop := 0, buffer := replicate 64 0x40\<rparr>)" if "length mem = 64" for cb mem
    using init_ok [OF p, of mem cb] that by simp
  have w: "cb_wf (cb\<lparr>capacity := 64, cb_size := 0, iStart := 0, iStop := 0, buffer := replicate 64 0x40\<rparr>)" for cb
    using p by (auto intro!: cb_wfI)
  show ?thesis using l w
    by (simp add: ascii_serial_com_init_def with_in_buf_def with_out_buf_def zoom_def i asc_wf_def cb_cap_def
        cb_list_def)
qed

section \<open>Frames on the line\<close>

text \<open>A message that can be framed: the header and the data avoid the three framing characters.\<close>

definition plain :: "byte list \<Rightarrow> bool" where
  "plain bs \<longleftrightarrow> chr_start \<notin> set bs \<and> chr_period \<notin> set bs \<and> chr_end \<notin> set bs"

lemma plain_append [simp]: "plain (xs @ ys) \<longleftrightarrow> plain xs \<and> plain ys"
  by (auto simp: plain_def)

lemma plain_Cons [simp]:
  "plain (x # xs) \<longleftrightarrow> x \<noteq> chr_start \<and> x \<noteq> chr_period \<and> x \<noteq> chr_end \<and> plain xs"
  by (auto simp: plain_def)

lemma plain_Nil [simp]: "plain []"
  by (simp add: plain_def)

lemma plain_hex_digits [simp]: "plain (hex_digits caps n w)"
  unfolding plain_def using hex_digits_plain(1) [of chr_start caps n w] hex_digits_plain(2) [of chr_period caps n w]
    hex_digits_plain(3) [of chr_end caps n w] by blast

lemma plain_checksum [simp]: "plain (checksum_chars bs)"
  by (simp add: checksum_chars_def)

text \<open>The start of a frame is found behind what an earlier frame that was cut off has left.\<close>

lemma frame_sync_front:
  assumes "chr_end \<notin> set noise" "chr_start \<notin> set p" "chr_end \<notin> set p"
  shows "frame_sync chr_start chr_end (noise @ chr_start # p @ chr_end # zs) = chr_start # p @ chr_end # zs"
proof -
  let ?xs = "noise @ chr_start # p @ chr_end # zs"
  have t: "takeWhile (\<lambda>x. x \<noteq> chr_end) ?xs = noise @ chr_start # p"
  proof -
    have "takeWhile (\<lambda>x. x \<noteq> chr_end) ((noise @ chr_start # p) @ chr_end # zs) = noise @ chr_start # p"
      using assms by (subst takeWhile_append2) auto
    then show ?thesis by simp
  qed
  have "last_index (noise @ chr_start # p) chr_start = length noise"
    using assms(2) by (rule last_index_split)
  then show ?thesis by (simp add: frame_sync.simps [of chr_start chr_end ?xs] t Let_def)
qed

lemma front_frame_parts:
  assumes pl: "plain ([v, ap, c] @ d)" and len: "length d \<le> 54" and chk: "length chk = 4" "plain chk"
  shows "front_frame (frame_body v ap c d @ chk @ chr_end # zs) =
    (if chk = checksum_chars (frame_body v ap c d) then Message v ap c d else Bad_Checksum, zs)"
proof -
  let ?ys = "frame_body v ap c d @ chk @ chr_end # zs"
  have i: "first_index ?ys chr_period = length d + 4"
  proof -
    have "first_index (([chr_start, v, ap, c] @ d) @ chr_period # chk @ chr_end # zs) chr_period =
        length ([chr_start, v, ap, c] @ d)"
      using pl by (subst first_index_append) (auto simp: first_index_def plain_def)
    then show ?thesis by (simp add: frame_body_def)
  qed
  have e: "first_index ?ys chr_end = length d + 9"
  proof -
    have "first_index ((frame_body v ap c d @ chk) @ chr_end # zs) chr_end = length (frame_body v ap c d @ chk)"
      using pl chk by (subst first_index_append) (auto simp: first_index_def plain_def frame_body_def)
    then show ?thesis using chk by simp
  qed
  have "drop (Suc (length d + 4)) ?ys = chk @ chr_end # zs" "take (Suc (length d + 4)) ?ys = frame_body v ap c d"
    "take (length d) (drop 4 ?ys) = d" "?ys ! 1 = v" "?ys ! 2 = ap" "?ys ! 3 = c"
    by (simp_all add: frame_body_def numeral_eq_Suc)
  then show ?thesis using len chk
    by (auto simp: front_frame_def Let_def i e unpack_outcome_def nth_append)
qed

theorem receive_sent_frame:
  assumes "plain ([v, ap, c] @ d)" and "length d \<le> 54" and "chr_end \<notin> set noise"
  shows "receive_frame (noise @ frame v ap c d @ zs) = (Message v ap c d, zs)"
proof -
  let ?b = "[v, ap, c] @ d @ [chr_period] @ checksum_chars (frame_body v ap c d)"
  have "noise @ frame v ap c d @ zs = noise @ chr_start # ?b @ chr_end # zs"
    by (simp add: frame_def Let_def frame_body_def)
  moreover have "chr_start \<notin> set ?b" "chr_end \<notin> set ?b"
    using assms(1) plain_checksum [of "frame_body v ap c d"] by (auto simp: plain_def)
  ultimately have "frame_sync chr_start chr_end (noise @ frame v ap c d @ zs) = chr_start # ?b @ chr_end # zs"
    using frame_sync_front [OF assms(3)] by (simp only:)
  moreover have "chr_start # ?b @ chr_end # zs =
      frame_body v ap c d @ checksum_chars (frame_body v ap c d) @ chr_end # zs"
    by (simp add: frame_body_def)
  ultimately show ?thesis
    using front_frame_parts [OF assms(1,2) length_checksum_chars plain_checksum, of "frame_body v ap c d" zs]
    by (simp only: receive_frame_eq) simp
qed

text \<open>A line of which the body or the checksum changed in two neighbouring bytes is not accepted.\<close>

lemma hex_digits_inject: "hex_digits caps 4 (x :: 16 word) = hex_digits caps 4 y \<Longrightarrow> x = y"
proof -
  assume eq: "hex_digits caps 4 x = hex_digits caps 4 y"
  have "hex_word (hex_digits caps 4 x) = Some x" "hex_word (hex_digits caps 4 y) = Some y"
    by (rule hex_word_digits, simp)+
  then show "x = y" unfolding eq by (simp only: option.inject)
qed

lemma damaged_checksum:
  assumes sent: "frame_body v ap c d @ checksum_chars (frame_body v ap c d) = xs @ [a, b] @ ys"
    and got: "frame_body v' ap' c' d' @ chk' = xs @ [a', b'] @ ys" and changed: "a \<noteq> a' \<or> b \<noteq> b'"
    and len: "length chk' = 4"
  shows "chk' \<noteq> checksum_chars (frame_body v' ap' c' d')"
proof
  let ?b = "frame_body v ap c d" and ?b' = "frame_body v' ap' c' d'" and ?n = "length d + 5"
  assume chk: "chk' = checksum_chars ?b'"
  have l: "length ?b = ?n" "length ?b' = ?n" using arg_cong [OF sent, of length] arg_cong [OF got, of length] len by simp_all
  have t: "?b = take ?n (xs @ [a, b] @ ys)" "?b' = take ?n (xs @ [a', b'] @ ys)"
    and r: "checksum_chars ?b = drop ?n (xs @ [a, b] @ ys)" "chk' = drop ?n (xs @ [a', b'] @ ys)"
    unfolding sent [symmetric] got [symmetric] using l by simp_all
  have "?b \<noteq> ?b'" using sent got changed chk by auto
  consider "length xs + 2 \<le> ?n" | "?n \<le> length xs" | "?n = Suc (length xs)" by linarith
  then show False
  proof cases
    case 1
    then obtain k where k: "?n = length xs + 2 + k" using le_Suc_ex by blast
    then have "?b = xs @ [a, b] @ take k ys" "?b' = xs @ [a', b'] @ take k ys"
      unfolding t by (simp_all only: k) simp_all
    moreover have "checksum_chars ?b = chk'" using r by (simp only: k) simp
    ultimately have "crc_16_dnp (xs @ [a, b] @ take k ys) = crc_16_dnp (xs @ [a', b'] @ take k ys)"
      using chk hex_digits_inject unfolding checksum_chars_def by metis
    then show False using crc_detects_burst changed by blast
  next
    case 2
    then show False using \<open>?b \<noteq> ?b'\<close> unfolding t by simp
  next
    case 3
    then have "?b = xs @ [a]" "?b' = xs @ [a']" unfolding t by (simp_all only: 3) simp_all
    moreover have "last ?b = last ?b'" by (simp add: frame_body_def)
    ultimately show False using \<open>?b \<noteq> ?b'\<close> by simp
  qed
qed

theorem receive_damaged_line:
  assumes sent: "frame_body v ap c d @ checksum_chars (frame_body v ap c d) = xs @ [a, b] @ ys"
    and got: "frame_body v' ap' c' d' @ chk' = xs @ [a', b'] @ ys" and changed: "a \<noteq> a' \<or> b \<noteq> b'"
    and pl: "plain ([v', ap', c'] @ d')" "plain chk'" and len: "length d' \<le> 54" "length chk' = 4" and noise: "chr_end \<notin> set noise"
  shows "receive_frame (noise @ frame_body v' ap' c' d' @ chk' @ chr_end # zs) = (Bad_Checksum, zs)"
proof -
  let ?p = "[v', ap', c'] @ d' @ [chr_period] @ chk'"
  have m: "frame_body v' ap' c' d' @ chk' @ chr_end # zs = chr_start # ?p @ chr_end # zs" by (simp add: frame_body_def)
  have "frame_sync chr_start chr_end (noise @ frame_body v' ap' c' d' @ chk' @ chr_end # zs) =
      frame_body v' ap' c' d' @ chk' @ chr_end # zs"
    unfolding m by (rule frame_sync_front [OF noise]) (use pl in \<open>auto simp: plain_def\<close>)
  then show ?thesis
    using front_frame_parts [OF pl(1) len pl(2), of zs] damaged_checksum [OF sent got changed len(2)]
    by (simp only: receive_frame_eq if_False)
qed

text \<open>A period in the data: the frame is refused, and what comes behind the period stays.\<close>

theorem receive_period_in_data:
  assumes pl: "plain ([v, ap, c] @ p)" and q: "chr_start \<notin> set q" "chr_end \<notin> set q" and len: "length p \<le> 54"
    and noise: "chr_end \<notin> set noise"
  shows "receive_frame (noise @ frame v ap c (p @ chr_period # q) @ zs) = (Rx_Error ASC_ERROR_INVALID_FRAME,
    q @ [chr_period] @ checksum_chars (frame_body v ap c (p @ chr_period # q)) @ chr_end # zs)"
proof -
  let ?chk = "checksum_chars (frame_body v ap c (p @ chr_period # q))"
  let ?r = "q @ [chr_period] @ ?chk @ chr_end # zs" and ?m = "[v, ap, c] @ p @ chr_period # q @ [chr_period] @ ?chk"
  let ?ys = "([chr_start, v, ap, c] @ p) @ chr_period # ?r"
  have chk: "chr_start \<notin> set ?chk" "chr_end \<notin> set ?chk" using plain_checksum by (simp_all add: plain_def)
  have m: "frame v ap c (p @ chr_period # q) @ zs = chr_start # ?m @ chr_end # zs" "?ys = chr_start # ?m @ chr_end # zs"
    by (simp_all add: frame_def Let_def frame_body_def)
  have s: "frame_sync chr_start chr_end (noise @ frame v ap c (p @ chr_period # q) @ zs) = ?ys"
    unfolding m by (rule frame_sync_front [OF noise]) (use pl q chk in \<open>auto simp: plain_def\<close>)
  have i: "first_index ?ys chr_period = length p + 4"
    using pl by (subst first_index_append) (auto simp: first_index_def plain_def)
  have "?ys = (chr_start # ?m) @ chr_end # zs" by simp
  then have e: "first_index ?ys chr_end = length p + length q + 10"
    using pl q chk by (simp only:) (subst first_index_append, auto simp: first_index_def plain_def)
  have "?r ! 4 \<in> set (q @ [chr_period] @ ?chk)"
    using nth_mem [of 4 "q @ [chr_period] @ ?chk"] nth_append [of "q @ [chr_period] @ ?chk" "chr_end # zs" 4] by simp
  then have "?r ! 4 \<noteq> chr_end" using q chk by auto
  moreover have "drop (Suc (length p + 4)) ?ys = ?r" by (simp add: numeral_eq_Suc)
  ultimately show ?thesis unfolding receive_frame_eq s front_frame_def Let_def i e unpack_outcome_def using len by simp
qed

text \<open>A start character in the data: its receiver takes what follows it for the message.\<close>

lemma put_message_with_start:
  assumes a: "out_content asc0 xs asc" and n: "unat dataLen \<le> length data"
    and d: "take (unat dataLen) data = pre @ chr_start # [v', ap', c'] @ d'" and pl: "plain ([v', ap', c'] @ d')"
    and room: "length xs + unat dataLen + 10 \<le> 64" and flat: "unat (iStart (out_buf asc0)) + length xs + length pre + 4 \<le> 64"
  shows "tx_yields (ascii_serial_com_put_message_in_output_buffer asc v ap c data dataLen) (Inr ()) asc0
    (xs @ [chr_start, v, ap, c] @ pre @ frame v' ap' c' d')"
proof -
  let ?d = "take (unat dataLen) data"
  have b: "frame_body v ap c ?d = ([chr_start, v, ap, c] @ pre) @ frame_body v' ap' c' d'"
    unfolding d by (simp add: frame_body_def)
  have "chr_start \<notin> set ([v', ap', c'] @ d')" using pl unfolding plain_def by blast
  then have i: "length pre + 4 = last_index (frame_body v ap c ?d) chr_start"
    unfolding b by (subst last_index_start) simp_all
  have l: "length ?d = length pre + 4 + length d'" unfolding d by simp
  have r: "length xs + length ?d + 10 \<le> 64" using room n by simp
  have "unat (iStart (out_buf asc0)) + length xs + (length pre + 4) \<le> 64" using flat by simp
  note y = put_message_room [OF a n refl i r this]
  have "drop (length pre + 4) (([chr_start, v, ap, c] @ pre) @ frame_body v' ap' c' d') = frame_body v' ap' c' d'"
    by (simp add: numeral_eq_Suc)
  then show ?thesis using y l unfolding b by (simp add: frame_def Let_def)
qed

text \<open>A line whose first period comes too early, or too late, stays at the front of the buffer.\<close>

theorem receive_misplaced_period:
  assumes p: "plain p" "length p < 3 \<or> 58 \<le> length p" and q: "chr_start \<notin> set q" "chr_end \<notin> set q"
  shows "receive_frame (chr_start # p @ chr_period # q @ chr_end # zs) =
    (Rx_Error (if length p < 3 then ASC_ERROR_INVALID_FRAME_PERIOD else ASC_ERROR_CHECKSUM_PROBLEM),
     chr_start # p @ chr_period # q @ chr_end # zs)"
proof -
  let ?ys = "chr_start # p @ chr_period # q @ chr_end # zs"
  have s: "frame_sync chr_start chr_end ?ys = ?ys"
    using frame_sync_front [of "[]" "p @ chr_period # q" zs] p q by (simp add: plain_def)
  have "first_index ((chr_start # p) @ chr_period # q @ chr_end # zs) chr_period = Suc (length p)"
    using p(1) by (subst first_index_append) (auto simp: first_index_def plain_def)
  moreover have "first_index ((chr_start # p @ chr_period # q) @ chr_end # zs) chr_end = Suc (Suc (length p + length q))"
    using p(1) q by (subst first_index_append) (auto simp: first_index_def plain_def)
  ultimately have i: "first_index ?ys chr_period = Suc (length p)" "first_index ?ys chr_end = Suc (Suc (length p + length q))"
    by simp_all
  show ?thesis unfolding receive_frame_eq s front_frame_def Let_def i using p(2) by auto
qed

corollary receive_short_frame:
  assumes "plain p" and "length p < 3"
  shows "receive_frame (chr_start # p @ chr_period # chr_end # zs) =
    (Rx_Error ASC_ERROR_INVALID_FRAME_PERIOD, chr_start # p @ chr_period # chr_end # zs)"
  using receive_misplaced_period [of p "[]" zs] assms by simp

section \<open>Concrete interfaces\<close>

definition asc_with :: "byte list \<Rightarrow> byte list \<Rightarrow> ascii_serial_com" where
  "asc_with ins outs = \<lparr>in_buf = cb_at 0 ins, out_buf = cb_at 0 outs, send_stream_frame_counter = 0,
     receive_stream_frame_counter = 0, receive_stream_frame_counter_initialized = False, ignoreCRCMismatch = False\<rparr>"

definition empty_message :: asc_message where
  "empty_message = \<lparr>msg_ascVersion = 0, msg_appVersion = 0, msg_command = 0, msg_data = replicate 54 0, msg_dataLen = 0\<rparr>"

lemma asc_with:
  assumes "length ins \<le> 64" "length outs \<le> 64"
  shows "asc_wf (asc_with ins outs)" "cb_list (in_buf (asc_with ins outs)) = ins"
    "cb_list (out_buf (asc_with ins outs)) = outs" "\<not> ignoreCRCMismatch (asc_with ins outs)"
    "unat (iStart (out_buf (asc_with ins outs))) = 0" "send_stream_frame_counter (asc_with ins outs) = 0"
    "cb_wf (in_buf (asc_with ins outs))" "cb_wf (out_buf (asc_with ins outs))"
    "cb_cap (out_buf (asc_with ins outs)) = 64" "cb_cap (in_buf (asc_with ins outs)) = 64"
  using assms cb_at_0 [of ins] cb_at_0 [of outs] by (simp_all add: asc_with_def asc_wf_def cb_at_def)

lemma asc_with_content:
  assumes "length ins \<le> 64" "length outs \<le> 64"
  shows "out_content (asc_with ins outs) outs (asc_with ins outs)"
    "in_content (asc_with ins outs) 64 ins (asc_with ins outs)"
  using asc_with [OF assms] out_content_self [of "asc_with ins outs"] in_content_self [of "asc_with ins outs"]
  by simp_all

lemma empty_message [simp]: "length (msg_data empty_message) = 54"
  by (simp add: empty_message_def)

lemma get_message_keeps_wf:
  assumes "asc_wf asc" and "\<not> ignoreCRCMismatch asc" and "length (msg_data m) = 54"
  shows "case ascii_serial_com_get_message_from_input_buffer (asc, m) of (r, asc', m') \<Rightarrow>
    (r = Inr () \<or> r = Inl (Throw ASC_ERROR_INVALID_FRAME) \<or> r = Inl (Throw ASC_ERROR_INVALID_FRAME_PERIOD)
      \<or> r = Inl (Throw ASC_ERROR_CHECKSUM_PROBLEM))
    \<and> asc_wf asc' \<and> out_buf asc' = out_buf asc \<and> length (msg_data m') = 54 \<and> (r = Inr () \<longrightarrow> unat (msg_dataLen m') \<le> 54)"
proof -
  obtain out zs where o: "receive_frame (cb_list (in_buf asc)) = (out, zs)" by force
  obtain r asc' m' where r: "ascii_serial_com_get_message_from_input_buffer (asc, m) = (r, asc', m')"
    using prod_cases3 by blast
  have y: "r = rx_result out" "in_content asc 64 zs asc'" "rx_output out m m'"
    using get_message_refines [of "(asc, m)" out zs] assms o r by (auto simp: asc_wf_def rx_yields_def)
  have e: "out \<in> {No_Message, Bad_Checksum, Rx_Error ASC_ERROR_INVALID_FRAME, Rx_Error ASC_ERROR_INVALID_FRAME_PERIOD,
      Rx_Error ASC_ERROR_CHECKSUM_PROBLEM} \<or> (\<exists>v ap c d. out = Message v ap c d)"
    using o by (auto simp: receive_frame_def Let_def split: if_splits)
  have sm: "length (msg_data (stored_message v ap c d m)) = 54" if "length d \<le> 54" for v ap c d
    using that assms(3) by (simp add: stored_message_def)
  have u: "unat (of_nat (length d) :: size_t) = length d" if "length d \<le> 54" for d :: "byte list"
    by (rule unat_of_nat_64) (use that in simp)
  note Y = in_contentD [OF y(2)]
  have "asc_wf asc'" "out_buf asc' = out_buf asc" using Y assms(1) by (simp_all add: asc_wf_def)
  moreover have "length (msg_data m') = 54 \<and> (r = Inr () \<longrightarrow> unat (msg_dataLen m') \<le> 54)"
    using y(1,3) assms(3) by (cases out) (auto simp: no_message_def sm, auto simp: stored_message_def u)
  ultimately show ?thesis using e y(1) by (auto simp: r)
qed

text \<open>An error that leaves its line at the front comes back in every later call.\<close>

lemma front_error_stays:
  assumes "asc_wf asc" and "\<not> ignoreCRCMismatch asc" and "length (msg_data m) = 54" and "cb_list (in_buf asc) = ys"
    and front: "receive_frame ys = (Rx_Error e, ys)"
  shows "case ascii_serial_com_get_message_from_input_buffer (asc, m) of (r, asc', m') \<Rightarrow> r = Inl (Throw e) \<and> asc_wf asc'
    \<and> \<not> ignoreCRCMismatch asc' \<and> length (msg_data m') = 54 \<and> cb_list (in_buf asc') = ys \<and> out_buf asc' = out_buf asc"
proof -
  from get_message_refines [of "(asc, m)" "Rx_Error e" ys] assms
  obtain m' where "rx_yields (ascii_serial_com_get_message_from_input_buffer (asc, m)) (Inl (Throw e)) asc 64 ys m'"
    by (auto simp: asc_wf_def)
  with get_message_keeps_wf [OF assms(1-3)] assms(2) show ?thesis
    by (cases "ascii_serial_com_get_message_from_input_buffer (asc, m)")
      (auto simp: rx_yields_def dest: in_contentD)
qed

lemma front_error_blocks:
  assumes "asc_wf asc" and "\<not> ignoreCRCMismatch asc" and "length (msg_data m) = 54" and "cb_list (in_buf asc) = ys"
    and front: "receive_frame ys = (Rx_Error e, ys)"
  shows "case ((\<lambda>s. snd (ascii_serial_com_get_message_from_input_buffer s)) ^^ k) (asc, m) of (asc', m') \<Rightarrow>
    fst (ascii_serial_com_get_message_from_input_buffer (asc', m')) = Inl (Throw e) \<and> asc_wf asc'
    \<and> \<not> ignoreCRCMismatch asc' \<and> length (msg_data m') = 54 \<and> cb_list (in_buf asc') = ys \<and> out_buf asc' = out_buf asc"
proof (induction k)
  case 0
  then show ?case using front_error_stays [OF assms] assms by (auto split: prod.splits)
next
  case (Suc k)
  let ?get = "ascii_serial_com_get_message_from_input_buffer"
  obtain a n where s: "((\<lambda>s. snd (?get s)) ^^ k) (asc, m) = (a, n)" by force
  obtain r b o' where g: "?get (a, n) = (r, b, o')" using prod_cases3 by blast
  have 1: "asc_wf a" "\<not> ignoreCRCMismatch a" "length (msg_data n) = 54" "cb_list (in_buf a) = ys" "out_buf a = out_buf asc"
    using Suc.IH by (simp_all add: s)
  have 2: "asc_wf b" "\<not> ignoreCRCMismatch b" "length (msg_data o') = 54" "cb_list (in_buf b) = ys" "out_buf b = out_buf asc"
    using front_error_stays [OF 1(1-4) front] 1(5) by (simp_all add: g)
  show ?case using front_error_stays [OF 2(1-4) front] 2 by (auto simp: s g split: prod.splits)
qed

end
