(* ===== verification/Device.thy ===== *)
theory Device
  imports Ascii_Serial_Com_Spec
begin

text \<open>
  \<^verbatim>\<open>ascii_serial_com_device.c\<close>: a device receives messages and hands them to the
  handlers of its configuration. The interface that the device and its handlers rely on is a locale: a
  handler answers a request on an idle output buffer with one reply.
\<close>

section \<open>State and operations\<close>

text \<open>
  A handler works on the serial interface, on the data buffer of the device and on the rest of the
  program's memory, the type \<open>'w\<close>: a function pointer of the configuration together with its
  state pointer is a function into that memory, \<open>None\<close> the null pointer.
\<close>

type_synonym 'w handler_state = "ascii_serial_com \<times> byte list \<times> 'w"
type_synonym 'w handler = "byte \<Rightarrow> byte \<Rightarrow> byte \<Rightarrow> size_t \<Rightarrow> 'w handler_state \<Rightarrow> (unit, 'w handler_state) res"

text \<open>The parts of the state of a handler.\<close>

definition hs_asc :: "(ascii_serial_com \<Rightarrow> ('a, ascii_serial_com) res) \<Rightarrow> 'w handler_state \<Rightarrow> ('a, 'w handler_state) res" where
  "hs_asc f = zoom fst (\<lambda>a s. (a, snd s)) f"

definition hs_data :: "(byte list \<Rightarrow> ('a, byte list) res) \<Rightarrow> 'w handler_state \<Rightarrow> ('a, 'w handler_state) res" where
  "hs_data f = zoom (\<lambda>s. fst (snd s)) (\<lambda>d s. (fst s, d, snd (snd s))) f"

definition hs_mem :: "('w \<Rightarrow> ('a, 'w) res) \<Rightarrow> 'w handler_state \<Rightarrow> ('a, 'w handler_state) res" where
  "hs_mem f = zoom (\<lambda>s. snd (snd s)) (\<lambda>w s. (fst s, fst (snd s), w)) f"

lemma hs_simps [simp]:
  "hs_asc f (a, s) = (case f a of (r, a') \<Rightarrow> (r, a', s))"
  "hs_data g (a, d, w) = (case g d of (r, d') \<Rightarrow> (r, a, d', w))"
  "hs_mem h (a, d, w) = (case h w of (r, w') \<Rightarrow> (r, a, d, w'))"
  by (simp_all add: hs_asc_def hs_data_def hs_mem_def zoom_def)

record 'w ascii_serial_com_device_config =
  func_rw :: "'w handler option"
  func_s :: "'w handler option"
  func_nf :: "'w handler option"

text \<open>The five variables for the received message are the record of \<^verbatim>\<open>get_message\<close>.\<close>

record 'w ascii_serial_com_device =
  dev_asc :: ascii_serial_com
  dev_msg :: asc_message
  dev_config :: "'w ascii_serial_com_device_config"

type_synonym 'w dev_state = "'w ascii_serial_com_device \<times> 'w"

definition on_asc :: "(ascii_serial_com \<Rightarrow> ('a, ascii_serial_com) res) \<Rightarrow> 'w dev_state \<Rightarrow> ('a, 'w dev_state) res" where
  "on_asc f = zoom (\<lambda>s. dev_asc (fst s)) (\<lambda>asc s. ((fst s)\<lparr>dev_asc := asc\<rparr>, snd s)) f"

definition ascii_serial_com_device_init ::
  "'w dev_state \<Rightarrow> 'w ascii_serial_com_device_config \<Rightarrow> byte list \<Rightarrow> (unit, 'w dev_state) res" where
  "ascii_serial_com_device_init s config raw_buffer =
     bind_res (on_asc (\<lambda>asc. ascii_serial_com_init asc raw_buffer) s) (\<lambda>_ s.
       (Inr (), ((fst s)\<lparr>dev_config := config\<rparr>, snd s)))"

definition device_get_message :: "'w dev_state \<Rightarrow> (unit, 'w dev_state) res" where
  "device_get_message =
     zoom (\<lambda>s. (dev_asc (fst s), dev_msg (fst s)))
       (\<lambda>(asc, m) s. ((fst s)\<lparr>dev_asc := asc, dev_msg := m\<rparr>, snd s))
       ascii_serial_com_get_message_from_input_buffer"

definition call_handler :: "'w handler \<Rightarrow> 'w dev_state \<Rightarrow> (unit, 'w dev_state) res" where
  "call_handler func s =
     (let m = dev_msg (fst s) in
      case func (msg_ascVersion m) (msg_appVersion m) (msg_command m) (msg_dataLen m)
          (dev_asc (fst s), msg_data m, snd s) of
        (r, (asc, data, w)) \<Rightarrow> (r, ((fst s)\<lparr>dev_asc := asc, dev_msg := m\<lparr>msg_data := data\<rparr>\<rparr>, w)))"

definition reply_not_implemented :: "'w dev_state \<Rightarrow> (unit, 'w dev_state) res" where
  "reply_not_implemented s =
     (let m = dev_msg (fst s) in
      on_asc (\<lambda>asc. ascii_serial_com_put_error_in_output_buffer asc (msg_ascVersion m) (msg_appVersion m)
        (msg_command m) (msg_data m) (msg_dataLen m) ASC_ERROR_COMMAND_NOT_IMPLEMENTED) s)"

definition dispatch :: "'w handler option \<Rightarrow> 'w dev_state \<Rightarrow> (unit, 'w dev_state) res" where
  "dispatch func s =
     (case func of Some f \<Rightarrow> call_handler f s | None \<Rightarrow> reply_not_implemented s)"

definition ascii_serial_com_device_receive :: "'w dev_state \<Rightarrow> (unit, 'w dev_state) res" where
  "ascii_serial_com_device_receive s =
     bind_res (device_get_message s) (\<lambda>_ s.
       let command = msg_command (dev_msg (fst s)); config = dev_config (fst s) in
       if command = 0 then (Inr (), s)
       else if command = chr_r \<or> command = chr_w then dispatch (func_rw config) s
       else if command = chr_s then dispatch (func_s config) s
       else if command = chr_n \<or> command = chr_f then dispatch (func_nf config) s
       else if command = chr_z then (Inr (), s)
       else reply_not_implemented s)"

definition ascii_serial_com_device_get_input_buffer :: "'w ascii_serial_com_device \<Rightarrow> circular_buffer_uint8" where
  "ascii_serial_com_device_get_input_buffer d = ascii_serial_com_get_input_buffer (dev_asc d)"

definition ascii_serial_com_device_get_output_buffer :: "'w ascii_serial_com_device \<Rightarrow> circular_buffer_uint8" where
  "ascii_serial_com_device_get_output_buffer d = ascii_serial_com_get_output_buffer (dev_asc d)"

definition ascii_serial_com_device_put_message_in_output_buffer ::
  "byte \<Rightarrow> byte \<Rightarrow> byte \<Rightarrow> byte list \<Rightarrow> size_t \<Rightarrow> 'w dev_state \<Rightarrow> (unit, 'w dev_state) res" where
  "ascii_serial_com_device_put_message_in_output_buffer ascVersion appVersion command data dataLen =
     on_asc (\<lambda>asc. ascii_serial_com_put_message_in_output_buffer asc ascVersion appVersion command data dataLen)"

definition ascii_serial_com_device_put_s_message_in_output_buffer ::
  "byte \<Rightarrow> byte \<Rightarrow> byte list \<Rightarrow> size_t \<Rightarrow> 'w dev_state \<Rightarrow> (unit, 'w dev_state) res" where
  "ascii_serial_com_device_put_s_message_in_output_buffer ascVersion appVersion data dataLen =
     on_asc (\<lambda>asc. ascii_serial_com_put_s_message_in_output_buffer asc ascVersion appVersion data dataLen)"

section \<open>The interface of a handler\<close>

text \<open>What a handler answers: a message, nothing, or an error that it throws without touching the output.\<close>

datatype reply = Reply byte "byte list" | No_Reply | Raise asc_exception

fun reply_result :: "reply \<Rightarrow> unit exc" where
  "reply_result (Raise e) = Inl (Throw e)"
| "reply_result _ = Inr ()"

fun reply_bytes :: "byte \<Rightarrow> byte \<Rightarrow> reply \<Rightarrow> byte list" where
  "reply_bytes v ap (Reply c d) = frame v ap c d"
| "reply_bytes v ap _ = []"

text \<open>
  The contract: on an interface with an idle output buffer, for a request that came in a frame, the
  handler leaves the frame of its reply in the output buffer, nothing else of the interface changed, and
  keeps the invariant \<open>inv\<close> of its memory. \<open>respond\<close> computes the reply from the
  command, the length and the whole data buffer.
\<close>

locale device_handler =
  fixes handle :: "'w handler"
    and inv :: "'w \<Rightarrow> bool"
    and respond :: "byte \<Rightarrow> size_t \<Rightarrow> byte list \<Rightarrow> 'w \<Rightarrow> reply \<times> 'w"
  assumes handles: "asc_wf a \<Longrightarrow> cb_list (out_buf a) = [] \<Longrightarrow> inv w \<Longrightarrow> length d = 54 \<Longrightarrow> unat n \<le> 54 \<Longrightarrow>
      chr_start \<notin> set ([v, ap, c] @ take (unat n) d) \<Longrightarrow>
      \<exists>a' d'. handle v ap c n (a, d, w) = (reply_result (fst (respond c n d w)), (a', d', snd (respond c n d w)))
        \<and> out_content a (reply_bytes v ap (fst (respond c n d w))) a' \<and> length d' = 54"
    and responds_inv: "inv w \<Longrightarrow> length d = 54 \<Longrightarrow> unat n \<le> 54 \<Longrightarrow> inv (snd (respond c n d w))"
begin

lemma call_handler_replies:
  assumes "asc_wf (dev_asc dev)" and "cb_list (out_buf (dev_asc dev)) = []" and "inv w"
    and "length (msg_data (dev_msg dev)) = 54" and "unat (msg_dataLen (dev_msg dev)) \<le> 54"
    and "chr_start \<notin> set ([msg_ascVersion (dev_msg dev), msg_appVersion (dev_msg dev), msg_command (dev_msg dev)]
      @ take (unat (msg_dataLen (dev_msg dev))) (msg_data (dev_msg dev)))"
    and "respond (msg_command (dev_msg dev)) (msg_dataLen (dev_msg dev)) (msg_data (dev_msg dev)) w = (rp, w')"
  shows "\<exists>dev'. call_handler handle (dev, w) = (reply_result rp, (dev', w'))
    \<and> out_content (dev_asc dev) (reply_bytes (msg_ascVersion (dev_msg dev)) (msg_appVersion (dev_msg dev)) rp) (dev_asc dev')
    \<and> length (msg_data (dev_msg dev')) = 54 \<and> dev_config dev' = dev_config dev \<and> inv w'"
proof -
  have "inv w'" using responds_inv [OF assms(3,4,5)] assms(7) by (metis snd_conv)
  then show ?thesis using handles [OF assms(1-6)] assms(7) by (auto simp: call_handler_def Let_def)
qed

end

text \<open>The message that is sent when the first \<open>n\<close> bytes of the data buffer are \<open>d\<close>.\<close>

lemma send_reply:
  assumes "asc_wf a" "cb_list (out_buf a) = []" "unat n \<le> length data" "take (unat n) data = d"
    and "chr_start \<notin> set ([v, ap, c] @ d)" "length d \<le> 54"
  shows "\<exists>a'. ascii_serial_com_put_message_in_output_buffer a v ap c data n = (Inr (), a')
    \<and> out_content a (frame v ap c d) a'"
proof -
  have "tx_yields (ascii_serial_com_put_message_in_output_buffer a v ap c data n) (Inr ()) a
      (cb_list (out_buf a) @ frame v ap c d)"
    by (rule put_message_fits [OF out_content_self])
      (use assms cb_wfD(4) [of "out_buf a"] in \<open>auto simp: asc_wf_def cb_cap_def\<close>)
  then show ?thesis using assms(2)
    by (cases "ascii_serial_com_put_message_in_output_buffer a v ap c data n") auto
qed

lemma in_set_take_mono: "m \<le> n \<Longrightarrow> x \<in> set (take m d) \<Longrightarrow> x \<in> set (take n d)"
  by (meson set_take_subset_set_take subsetD)

text \<open>The data of a reply: the register's number, or that, a comma and the value.\<close>

lemma reply_data:
  assumes "length d = 54" "length bs \<le> 49"
  shows "take (5 + length bs) (mem_put 5 bs (d[4 := x])) = take 4 d @ x # bs"
proof -
  have "take 5 (d[4 := x]) = take 4 (d[4 := x]) @ [d[4 := x] ! 4]"
    using take_Suc_conv_app_nth [of 4 "d[4 := x]"] assms by simp
  then show ?thesis using assms by (simp add: mem_put_def)
qed

lemma reply_sent:
  assumes "asc_wf a" "cb_list (out_buf a) = []" "length d = 54" "unat (n :: size_t) \<le> 54" "4 \<le> n"
    and "chr_start \<notin> set ([v, ap, c] @ take (unat n) d)" "chr_start \<notin> set x" "length d' = 54" "length x \<le> 50"
    and "unat k = 4 + length x" "take (unat k) d' = take 4 d @ x"
  shows "\<exists>a'. ascii_serial_com_put_message_in_output_buffer a v ap c d' (k :: size_t) = (Inr (), a')
    \<and> out_content a (frame v ap c (take 4 d @ x)) a'"
proof (rule send_reply)
  have "4 \<le> unat n" using assms(5) by (simp add: word_le_nat_alt)
  from in_set_take_mono [OF this, of chr_start d] show "chr_start \<notin> set ([v, ap, c] @ (take 4 d @ x))" using assms(6,7) by auto
qed (use assms in auto)

lemma error_sent:
  assumes "asc_wf a" "cb_list (out_buf a) = []" "length data = 54" "unat n \<le> 54"
    and "chr_start \<notin> set ([v, ap, c] @ take (unat n) data)"
  shows "\<exists>a'. ascii_serial_com_put_error_in_output_buffer a v ap c data n e = (Inr (), a')
    \<and> out_content a (frame v ap chr_e (error_data c (take (unat n) data) e)) a'"
proof -
  have "tx_yields (ascii_serial_com_put_error_in_output_buffer a v ap c data n e) (Inr ()) a
      (cb_list (out_buf a) @ frame v ap chr_e (error_data c (take (unat n) data) e))"
    by (rule put_error_fits [OF out_content_self])
      (use assms cb_wfD(4) [of "out_buf a"] in \<open>auto simp: asc_wf_def cb_cap_def error_data_length\<close>)
  then show ?thesis using assms(2)
    by (cases "ascii_serial_com_put_error_in_output_buffer a v ap c data n e") auto
qed

text \<open>A handler's result answers with the reply that was computed.\<close>

definition answered :: "ascii_serial_com \<Rightarrow> byte \<Rightarrow> byte \<Rightarrow> reply \<times> 'w \<Rightarrow> (unit, 'w handler_state) res \<Rightarrow> bool" where
  "answered a v ap out r \<longleftrightarrow> (\<exists>a' d'. r = (reply_result (fst out), (a', d', snd out))
     \<and> out_content a (reply_bytes v ap (fst out)) a' \<and> length d' = 54)"

text \<open>What the data of a request leaves in the data buffer.\<close>

lemma take_mem_put_0: "k \<le> length ds \<Longrightarrow> take k (mem_put 0 ds mem) = take k ds"
  by (simp add: mem_put_def)

lemma drop_mem_put_0: "k + m \<le> length ds \<Longrightarrow> take m (drop k (mem_put 0 ds mem)) = take m (drop k ds)"
  by (simp add: mem_put_def)

lemma hex_word_16: "hex_word (hex_digits caps 4 reg) = Some (reg :: 16 word)"
  and hex_word_8: "hex_word (hex_digits caps 2 val) = Some (val :: byte)"
  and hex_word_32: "hex_word (hex_digits caps 8 val32) = Some (val32 :: 32 word)"
  by (simp_all add: hex_word_digits)

section \<open>Receiving\<close>

definition device_wf :: "'w ascii_serial_com_device \<Rightarrow> bool" where
  "device_wf dev \<longleftrightarrow> asc_wf (dev_asc dev) \<and> length (msg_data (dev_msg dev)) = 54 \<and> \<not> ignoreCRCMismatch (dev_asc dev)"

text \<open>Which handler a command goes to.\<close>

definition routed :: "'w ascii_serial_com_device_config \<Rightarrow> byte \<Rightarrow> 'w handler option" where
  "routed config c =
     (if c = chr_r \<or> c = chr_w then func_rw config
      else if c = chr_s then func_s config
      else if c = chr_n \<or> c = chr_f then func_nf config else None)"

lemma receive_get_message:
  assumes wf: "device_wf dev" and pl: "plain ([v, ap, c] @ d)" and len: "length d \<le> 54" and noise: "chr_end \<notin> set noise"
    and buf: "cb_list (in_buf (dev_asc dev)) = noise @ frame v ap c d @ rest"
  obtains dev1 where "device_get_message (dev, w) = (Inr (), (dev1, w))"
    and "dev_msg dev1 = stored_message v ap c d (dev_msg dev)" and "dev_config dev1 = dev_config dev"
    and "in_content (dev_asc dev) 64 rest (dev_asc dev1)" and "device_wf dev1"
proof -
  have r: "receive_frame (cb_list (in_buf (fst (dev_asc dev, dev_msg dev)))) = (Message v ap c d, rest)"
    using receive_sent_frame [OF pl len noise, of rest] buf by simp
  from get_message_refines [OF _ _ _ r] wf
  obtain a m where g: "ascii_serial_com_get_message_from_input_buffer (dev_asc dev, dev_msg dev) = (Inr (), a, m)"
    and a: "in_content (dev_asc dev) 64 rest a" and m: "m = stored_message v ap c d (dev_msg dev)"
    by (cases "ascii_serial_com_get_message_from_input_buffer (dev_asc dev, dev_msg dev)")
      (auto simp: device_wf_def asc_wf_def rx_yields_def)
  have "device_wf (dev\<lparr>dev_asc := a, dev_msg := m\<rparr>)"
    using wf in_contentD [OF a] len by (auto simp: device_wf_def asc_wf_def m stored_message_def)
  then show thesis
    using that [of "dev\<lparr>dev_asc := a, dev_msg := m\<rparr>"] g a m by (simp add: device_get_message_def zoom_def)
qed

lemma stored_message_sel:
  assumes "length d \<le> 54" "length (msg_data m) = 54"
  shows "msg_ascVersion (stored_message v ap c d m) = v" "msg_appVersion (stored_message v ap c d m) = ap"
    "msg_command (stored_message v ap c d m) = c" "unat (msg_dataLen (stored_message v ap c d m)) = length d"
    "take (length d) (msg_data (stored_message v ap c d m)) = d" "length (msg_data (stored_message v ap c d m)) = 54"
proof -
  show "unat (msg_dataLen (stored_message v ap c d m)) = length d"
    unfolding stored_message_def by simp (rule unat_of_nat_64, use assms in simp)
qed (use assms in \<open>simp_all add: stored_message_def mem_put_def\<close>)

context device_handler
begin

text \<open>The whole cycle: a request in the input buffer, behind noise, becomes the reply in the output buffer.\<close>

lemma receive_replies:
  assumes wf: "device_wf dev" and idle: "cb_list (out_buf (dev_asc dev)) = []" and inv: "inv w"
    and pl: "plain ([v, ap, c] @ d)" and len: "length d \<le> 54" and noise: "chr_end \<notin> set noise"
    and buf: "cb_list (in_buf (dev_asc dev)) = noise @ frame v ap c d @ rest"
    and route: "routed (dev_config dev) c = Some handle"
    and resp: "respond c (of_nat (length d)) (mem_put 0 d (msg_data (dev_msg dev))) w = (rp, w')"
  shows "\<exists>dev'. ascii_serial_com_device_receive (dev, w) = (reply_result rp, (dev', w'))
    \<and> cb_list (out_buf (dev_asc dev')) = reply_bytes v ap rp \<and> cb_list (in_buf (dev_asc dev')) = rest
    \<and> device_wf dev' \<and> inv w' \<and> dev_config dev' = dev_config dev"
proof -
  obtain dev1 where g: "device_get_message (dev, w) = (Inr (), (dev1, w))"
    and m: "dev_msg dev1 = stored_message v ap c d (dev_msg dev)" and cfg: "dev_config dev1 = dev_config dev"
    and a: "in_content (dev_asc dev) 64 rest (dev_asc dev1)" and wf1: "device_wf dev1"
    using receive_get_message [OF wf pl len noise buf] .
  have sel: "msg_ascVersion (dev_msg dev1) = v" "msg_appVersion (dev_msg dev1) = ap" "msg_command (dev_msg dev1) = c"
      "unat (msg_dataLen (dev_msg dev1)) = length d" "take (length d) (msg_data (dev_msg dev1)) = d"
      "length (msg_data (dev_msg dev1)) = 54"
    using stored_message_sel [OF len, of "dev_msg dev" v ap c] wf by (auto simp: m device_wf_def)
  have r: "respond (msg_command (dev_msg dev1)) (msg_dataLen (dev_msg dev1)) (msg_data (dev_msg dev1)) w = (rp, w')"
    using resp by (simp add: m stored_message_def)
  note A = in_contentD [OF a]
  obtain dev' where h: "call_handler handle (dev1, w) = (reply_result rp, (dev', w'))"
      "out_content (dev_asc dev1) (reply_bytes v ap rp) (dev_asc dev')" "length (msg_data (dev_msg dev')) = 54" "inv w'" "dev_config dev' = dev_config dev1"
    using call_handler_replies [of dev1 w, OF _ _ inv _ _ _ r] wf1 idle A(4) pl len sel
    by (auto simp: device_wf_def plain_def)
  have "c \<noteq> 0 \<and> ascii_serial_com_device_receive (dev, w) = call_handler handle (dev1, w)"
    using route sel(3) cfg by (auto simp: ascii_serial_com_device_receive_def g Let_def routed_def dispatch_def split: if_splits)
  moreover have "device_wf dev'"
    using wf1 h(3) out_contentD [OF h(2)] by (auto simp: device_wf_def asc_wf_def)
  ultimately show ?thesis using h A(3) out_contentD [OF h(2)] cfg by auto
qed

end

lemma receive_unhandled:
  assumes wf: "device_wf dev" and idle: "cb_list (out_buf (dev_asc dev)) = []"
    and pl: "plain ([v, ap, c] @ d)" and len: "length d \<le> 54" and noise: "chr_end \<notin> set noise"
    and buf: "cb_list (in_buf (dev_asc dev)) = noise @ frame v ap c d @ rest"
    and route: "routed (dev_config dev) c = None" and c: "c \<noteq> 0"
  shows "\<exists>dev'. ascii_serial_com_device_receive (dev, w) = (Inr (), (dev', w))
    \<and> cb_list (out_buf (dev_asc dev')) =
      (if c = chr_z then [] else frame v ap chr_e (error_data c d ASC_ERROR_COMMAND_NOT_IMPLEMENTED))
    \<and> cb_list (in_buf (dev_asc dev')) = rest \<and> device_wf dev' \<and> dev_config dev' = dev_config dev"
proof -
  obtain dev1 where g: "device_get_message (dev, w) = (Inr (), (dev1, w))"
    and m: "dev_msg dev1 = stored_message v ap c d (dev_msg dev)" and cfg: "dev_config dev1 = dev_config dev"
    and a: "in_content (dev_asc dev) 64 rest (dev_asc dev1)" and wf1: "device_wf dev1"
    using receive_get_message [OF wf pl len noise buf] .
  have sel: "msg_ascVersion (dev_msg dev1) = v" "msg_appVersion (dev_msg dev1) = ap" "msg_command (dev_msg dev1) = c"
      "unat (msg_dataLen (dev_msg dev1)) = length d" "take (length d) (msg_data (dev_msg dev1)) = d"
      "length (msg_data (dev_msg dev1)) = 54"
    using stored_message_sel [OF len, of "dev_msg dev" v ap c] wf by (auto simp: m device_wf_def)
  note A = in_contentD [OF a]
  show ?thesis
  proof (cases "c = chr_z")
    case True
    then show ?thesis using wf1 A idle sel(3) c cfg by (auto simp: ascii_serial_com_device_receive_def g Let_def)
  next
    case False
    let ?e = "ascii_serial_com_put_error_in_output_buffer (dev_asc dev1) v ap c (msg_data (dev_msg dev1))
        (msg_dataLen (dev_msg dev1)) ASC_ERROR_COMMAND_NOT_IMPLEMENTED"
    have "tx_yields ?e (Inr ()) (dev_asc dev1) (cb_list (out_buf (dev_asc dev1)) @ frame v ap chr_e (error_data c d ASC_ERROR_COMMAND_NOT_IMPLEMENTED))"
      by (rule put_error_fits [OF out_content_self])
        (use wf1 A idle sel pl len cb_wfD(4) [of "out_buf (dev_asc dev)"] wf in
          \<open>auto simp: device_wf_def asc_wf_def plain_def error_data_length cb_cap_def\<close>)
    then obtain b where e: "?e = (Inr (), b)" and b: "out_content (dev_asc dev1) (frame v ap chr_e (error_data c d ASC_ERROR_COMMAND_NOT_IMPLEMENTED)) b"
      using idle A(4) by (cases ?e) auto
    have "ascii_serial_com_device_receive (dev, w) = reply_not_implemented (dev1, w)"
      using route sel(3) cfg c False
      by (auto simp: ascii_serial_com_device_receive_def g Let_def routed_def dispatch_def split: if_splits)
    then have "ascii_serial_com_device_receive (dev, w) = (Inr (), (dev1\<lparr>dev_asc := b\<rparr>, w))"
      using e sel by (simp add: reply_not_implemented_def on_asc_def zoom_def Let_def)
    moreover have "device_wf (dev1\<lparr>dev_asc := b\<rparr>)"
      using wf1 out_contentD [OF b] by (auto simp: device_wf_def asc_wf_def)
    ultimately show ?thesis using out_contentD [OF b] A(3) False cfg by auto
  qed
qed

text \<open>Receiving when the input holds no complete line.\<close>

text \<open>A line that is no message is taken off the input, and nothing else happens.\<close>

lemma receive_dropped:
  assumes wf: "device_wf dev" and r: "receive_frame (cb_list (in_buf (dev_asc dev))) = (result, ys)"
    and none: "result = No_Message \<or> result = Bad_Checksum"
  shows "\<exists>dev'. ascii_serial_com_device_receive (dev, w) = (Inr (), (dev', w)) \<and> device_wf dev'
    \<and> dev_config dev' = dev_config dev \<and> in_content (dev_asc dev) 64 ys (dev_asc dev')"
proof -
  have r': "receive_frame (cb_list (in_buf (fst (dev_asc dev, dev_msg dev)))) = (result, ys)" using r by simp
  have none': "rx_result result = Inr ()" using none by auto
  from get_message_refines [OF _ _ _ r'] wf none'
  obtain a m where g: "ascii_serial_com_get_message_from_input_buffer (dev_asc dev, dev_msg dev) = (Inr (), a, m)"
    and a: "in_content (dev_asc dev) 64 ys a" and o: "rx_output result (dev_msg dev) m"
    by (cases "ascii_serial_com_get_message_from_input_buffer (dev_asc dev, dev_msg dev)")
      (auto simp: device_wf_def asc_wf_def rx_yields_def)
  have m: "msg_command m = 0" "length (msg_data m) = 54"
    using o none wf by (auto simp: no_message_def stored_message_def device_wf_def)
  have "device_wf (dev\<lparr>dev_asc := a, dev_msg := m\<rparr>)"
    using wf in_contentD [OF a] m by (auto simp: device_wf_def asc_wf_def)
  then show ?thesis using a
    by (intro exI [of _ "dev\<lparr>dev_asc := a, dev_msg := m\<rparr>"])
      (simp add: ascii_serial_com_device_receive_def device_get_message_def zoom_def g m)
qed

lemmas receive_nothing = receive_dropped [where result = No_Message, simplified]

lemma frame_sync_open:
  "chr_start \<notin> set p \<Longrightarrow> chr_end \<notin> set p \<Longrightarrow> frame_sync chr_start chr_end (chr_start # p) = chr_start # p"
  using last_index_split [of chr_start p "[]"] by (subst frame_sync.simps) simp

lemma receive_frame_open:
  "chr_start \<notin> set p \<Longrightarrow> chr_end \<notin> set p \<Longrightarrow> receive_frame (chr_start # p) = (No_Message, chr_start # p)"
  by (simp add: receive_frame_eq frame_sync_open front_frame_def Let_def)

lemma receive_frame_Nil: "receive_frame [] = (No_Message, [])"
  by (simp add: receive_frame_eq front_frame_def Let_def)

section \<open>Concrete devices\<close>

text \<open>A fresh device whose input buffer holds \<open>ins\<close>, and a device after its output was taken.\<close>

definition dev_with :: "'w ascii_serial_com_device_config \<Rightarrow> byte list \<Rightarrow> 'w ascii_serial_com_device" where
  "dev_with config ins = \<lparr>dev_asc = asc_with ins [], dev_msg = empty_message, dev_config = config\<rparr>"

definition drained :: "'w ascii_serial_com_device \<Rightarrow> 'w ascii_serial_com_device" where
  "drained dev = dev\<lparr>dev_asc := (dev_asc dev)\<lparr>out_buf := circular_buffer_clear_uint8 (out_buf (dev_asc dev))\<rparr>\<rparr>"

lemma dev_with:
  assumes "length ins \<le> 64"
  shows "device_wf (dev_with config ins)" "cb_list (in_buf (dev_asc (dev_with config ins))) = ins"
    "cb_list (out_buf (dev_asc (dev_with config ins))) = []" "dev_config (dev_with config ins) = config"
    "length (msg_data (dev_msg (dev_with config ins))) = 54" "in_buf (dev_asc (dev_with config ins)) = cb_at 0 ins"
    "out_buf (dev_asc (dev_with config ins)) = cb_at 0 []"
  using asc_with [of ins "[]"] assms by (simp_all add: dev_with_def device_wf_def) (simp_all add: asc_with_def)

lemma drained:
  "device_wf dev \<Longrightarrow> device_wf (drained dev)" "cb_list (out_buf (dev_asc (drained dev))) = []"
  "in_buf (dev_asc (drained dev)) = in_buf (dev_asc dev)" "dev_config (drained dev) = dev_config dev"
  "dev_msg (drained dev) = dev_msg dev"
  using clear_list [of "out_buf (dev_asc dev)"]
  by (simp_all add: drained_def device_wf_def asc_wf_def clear_wf del: clear_list cb_list_Nil_iff)

end
