(* ===== verification/Register_Block.thy ===== *)
theory Register_Block
  imports Device
begin

text \<open>
  \<^verbatim>\<open>ascii_serial_com_register_block.c\<close>: a handler for reads and writes of an array of
  8-bit registers. It throws its errors.
\<close>

unbundle bit_operations_syntax

section \<open>The handler\<close>

abbreviation RB_REGWIDTHBYTES :: size_t where "RB_REGWIDTHBYTES \<equiv> 1"

record ascii_serial_com_register_block =
  rb_block :: "byte list"
  rb_n_regs :: "16 word"

definition ascii_serial_com_register_block_init ::
  "ascii_serial_com_register_block \<Rightarrow> byte list \<Rightarrow> 16 word \<Rightarrow> ascii_serial_com_register_block" where
  "ascii_serial_com_register_block_init register_block_state block n_regs =
     register_block_state\<lparr>rb_block := block, rb_n_regs := n_regs\<rparr>"

text \<open>The memory of the handler is the register block, \<open>None\<close> when the state pointer is null.\<close>

definition write_reg :: "nat \<Rightarrow> byte \<Rightarrow> ascii_serial_com_register_block option \<Rightarrow>
    (unit, ascii_serial_com_register_block option) res" where
  "write_reg i v st =
     (case st of None \<Rightarrow> (Inl UB, st)
      | Some rb \<Rightarrow> zoom (\<lambda>_. rb_block rb) (\<lambda>b _. Some (rb\<lparr>rb_block := b\<rparr>)) (store i v) st)"

definition ascii_serial_com_register_block_handle_message :: "ascii_serial_com_register_block option handler" where
  "ascii_serial_com_register_block_handle_message ascVersion appVersion command dataLen s =
     (case snd (snd s) of None \<Rightarrow> (Inl (Throw ASC_ERROR_REG_BLOCK_NULL), s)
      | Some register_block_state \<Rightarrow>
        if command \<noteq> chr_r \<and> command \<noteq> chr_w then (Inl (Throw ASC_ERROR_UNEXPECTED_COMMAND), s)
        else if dataLen < 4 then (Inl (Throw ASC_ERROR_DATA_TOO_SHORT), s)
        else bind_res (convert_hex_to_uint16 (fst (snd s)) 0, s) (\<lambda>reg_num s.
          if reg_num \<ge> rb_n_regs register_block_state then (Inl (Throw ASC_ERROR_REGNUM_OOB), s)
          else
          bind_res
            (if command = chr_r then
               bind_res (load (rb_block register_block_state) (unat reg_num), s) (\<lambda>reg_val s.
               bind_res (hs_data (store 4 chr_comma) s) (\<lambda>_ s.
               bind_res (hs_data (convert_uint8_to_hex reg_val 5 True) s) (\<lambda>_ s.
                 (Inr (5 + RB_REGWIDTHBYTES * 2), s))))
             else
               if dataLen < 5 + RB_REGWIDTHBYTES then (Inl (Throw ASC_ERROR_REGVAL_LEN), s)
               else
                 bind_res (convert_hex_to_uint8 (fst (snd s)) 5, s) (\<lambda>new_reg_val s.
                 bind_res (hs_mem (write_reg (unat reg_num) new_reg_val) s) (\<lambda>_ s.
                   (Inr 4, s)))) (\<lambda>dataLen s.
            hs_asc (\<lambda>asc. ascii_serial_com_put_message_in_output_buffer asc ascVersion appVersion
              command (fst (snd s)) dataLen) s)))"

section \<open>The reply\<close>

definition rb_respond :: "byte \<Rightarrow> size_t \<Rightarrow> byte list \<Rightarrow> ascii_serial_com_register_block option \<Rightarrow>
    reply \<times> ascii_serial_com_register_block option" where
  "rb_respond c n d st =
     (case st of None \<Rightarrow> (Raise ASC_ERROR_REG_BLOCK_NULL, st)
      | Some rb \<Rightarrow>
        if c \<noteq> chr_r \<and> c \<noteq> chr_w then (Raise ASC_ERROR_UNEXPECTED_COMMAND, st)
        else if n < 4 then (Raise ASC_ERROR_DATA_TOO_SHORT, st)
        else (case hex_word (take 4 d) of None \<Rightarrow> (Raise ASC_ERROR_NOT_HEX_CHAR, st)
          | Some reg \<Rightarrow>
            if reg \<ge> rb_n_regs rb then (Raise ASC_ERROR_REGNUM_OOB, st)
            else if c = chr_r then
              (Reply chr_r (take 4 d @ chr_comma # hex_digits True 2 (rb_block rb ! unat reg)), st)
            else if n < 6 then (Raise ASC_ERROR_REGVAL_LEN, st)
            else (case hex_word (take 2 (drop 5 d)) of None \<Rightarrow> (Raise ASC_ERROR_NOT_HEX_CHAR, st)
              | Some val \<Rightarrow> (Reply chr_w (take 4 d), Some (rb\<lparr>rb_block := (rb_block rb)[unat reg := val]\<rparr>)))))"

definition rb_inv :: "ascii_serial_com_register_block option \<Rightarrow> bool" where
  "rb_inv st \<longleftrightarrow> (case st of None \<Rightarrow> True | Some rb \<Rightarrow> unat (rb_n_regs rb) \<le> length (rb_block rb))"

lemma rb_respond_inv: "rb_inv st \<Longrightarrow> rb_inv (snd (rb_respond c n d st))"
  by (auto simp: rb_respond_def rb_inv_def split: option.splits)

lemma rb_handles:
  assumes a: "asc_wf a" "cb_list (out_buf a) = []" "rb_inv w" "length d = 54" "unat n \<le> 54"
    and st: "chr_start \<notin> set ([v, ap, c] @ take (unat n) d)"
  shows "\<exists>a' d'. ascii_serial_com_register_block_handle_message v ap c n (a, d, w) =
      (reply_result (fst (rb_respond c n d w)), (a', d', snd (rb_respond c n d w)))
    \<and> out_content a (reply_bytes v ap (fst (rb_respond c n d w))) a' \<and> length d' = 54"
proof (cases "(\<exists>e. fst (rb_respond c n d w) = Raise e)")
  case True
  have o: "out_content a [] a" using out_content_self [of a] a by (simp add: asc_wf_def)
  have "ascii_serial_com_register_block_handle_message v ap c n (a, d, w) =
      (reply_result (fst (rb_respond c n d w)), (a, d, w)) \<and> snd (rb_respond c n d w) = w
    \<and> reply_bytes v ap (fst (rb_respond c n d w)) = []"
    using True a by (auto simp: ascii_serial_com_register_block_handle_message_def rb_respond_def
      convert_hex_to_uint16_digits convert_hex_to_uint8_digits word_less_nat_alt split: option.splits if_splits)
  then show ?thesis using o a by auto
next
  case False
  then obtain rb reg where w: "w = Some rb" and n: "\<not> n < 4" and reg: "hex_word (take 4 d) = Some reg"
      "reg < rb_n_regs rb"
    by (auto simp: rb_respond_def not_le split: option.splits if_splits)
  then have i: "unat reg < length (rb_block rb)" using a by (auto simp: rb_inv_def word_less_nat_alt)
  show ?thesis
  proof (cases "c = chr_r")
    case True
    let ?h = "hex_digits True 2 (rb_block rb ! unat reg)"
    have "\<exists>a'. ascii_serial_com_put_message_in_output_buffer a v ap c (mem_put 5 ?h (d[4 := chr_comma])) (5 + RB_REGWIDTHBYTES * 2) = (Inr (), a')
      \<and> out_content a (frame v ap c (take 4 d @ chr_comma # ?h)) a'"
      by (rule reply_sent) (use a st n hex_digits_plain(1) reply_data [OF a(4), of ?h chr_comma] in \<open>auto simp: not_less\<close>)
    then show ?thesis using True w n reg i a
      by (auto simp: ascii_serial_com_register_block_handle_message_def rb_respond_def
        convert_hex_to_uint16_digits convert_uint8_to_hex_digits)
  next
    case c: False
    then obtain val :: byte where val: "hex_word (take 2 (drop 5 d)) = Some val" and n6: "\<not> n < 6" and cw: "c = chr_w"
      using False w n reg by (cases "hex_word (take 2 (drop 5 d)) :: byte option")
        (auto simp: rb_respond_def split: if_splits)
    have "\<exists>a'. ascii_serial_com_put_message_in_output_buffer a v ap c d 4 = (Inr (), a')
      \<and> out_content a (frame v ap c (take 4 d @ [])) a'"
      by (rule reply_sent) (use a st n in \<open>auto simp: not_less\<close>)
    then show ?thesis using c cw w n n6 val reg i a
      by (auto simp: ascii_serial_com_register_block_handle_message_def rb_respond_def write_reg_def zoom_def
        convert_hex_to_uint16_digits convert_hex_to_uint8_digits)
  qed
qed

interpretation rb: device_handler ascii_serial_com_register_block_handle_message rb_inv rb_respond
  by unfold_locales (use rb_handles rb_respond_inv in blast)+

section \<open>The registers of the block\<close>

lemma rb_respond_write:
  assumes "reg < rb_n_regs rb"
  shows "rb_respond chr_w (of_nat (length (hex_digits caps 4 reg @ x # hex_digits caps' 2 val)))
      (mem_put 0 (hex_digits caps 4 reg @ x # hex_digits caps' 2 val) mem) (Some rb) =
    (Reply chr_w (hex_digits caps 4 reg), Some (rb\<lparr>rb_block := (rb_block rb)[unat reg := val]\<rparr>))"
  using assms by (simp add: rb_respond_def take_mem_put_0 drop_mem_put_0 hex_word_16 hex_word_8 not_le)

lemma rb_respond_read:
  assumes "reg < rb_n_regs rb"
  shows "rb_respond chr_r (of_nat (length (hex_digits caps 4 reg))) (mem_put 0 (hex_digits caps 4 reg) mem) (Some rb) =
    (Reply chr_r (hex_digits caps 4 reg @ chr_comma # hex_digits True 2 (rb_block rb ! unat reg)), Some rb)"
  using assms by (simp add: rb_respond_def take_mem_put_0 hex_word_16 not_le)

text \<open>One digit is enough for the length check: the second one is what the data buffer holds.\<close>

lemma rb_respond_short_write:
  assumes "reg < rb_n_regs rb" "length mem = 54" "hex_word [a, mem ! 6] = Some val"
  shows "rb_respond chr_w (of_nat (length (hex_digits caps 4 reg @ [x, a])))
      (mem_put 0 (hex_digits caps 4 reg @ [x, a]) mem) (Some rb) =
    (Reply chr_w (hex_digits caps 4 reg), Some (rb\<lparr>rb_block := (rb_block rb)[unat reg := val]\<rparr>))"
proof -
  have "take 2 (drop 5 (mem_put 0 (hex_digits caps 4 reg @ [x, a]) mem)) = [a, mem ! 6]"
    using assms(2) by (simp add: take_drop_2 nth_mem_put nth_append)
  then show ?thesis using assms by (simp add: rb_respond_def take_mem_put_0 hex_word_16 not_le)
qed

text \<open>A block with the given registers.\<close>

definition block_of :: "byte list \<Rightarrow> ascii_serial_com_register_block" where
  "block_of regs = \<lparr>rb_block = regs, rb_n_regs = of_nat (length regs)\<rparr>"

end
