(* ===== verification/Circular_Buffer_Io.thy ===== *)
theory Circular_Buffer_Io
  imports Circular_Buffer_Spec
begin

text \<open>
  The file input and output of the circular buffer in \<^verbatim>\<open>circular_buffer.c\<close>, and
  \<^verbatim>\<open>circular_buffer_io_fd_poll.c\<close>, which moves bytes between two buffers and two
  file descriptors that it polls.
\<close>

unbundle bit_operations_syntax

section \<open>Reading from and writing to a file descriptor\<close>

text \<open>
  The operating system is a parameter: the state \<open>'f\<close> of its files and its calls.
  \<open>posix_read fd n\<close> hands over the bytes that it stores in the caller's memory,
  \<open>posix_write fd bs\<close> the number of bytes that it took from the front of
  \<open>bs\<close>; \<open>None\<close> is a negative return value. \<open>posix_poll\<close> returns
  its result and the returned events of each descriptor.
\<close>

record pollfd =
  pfd_fd :: int
  events :: "16 word"
  revents :: "16 word"

record 'f posix =
  posix_read :: "int \<Rightarrow> size_t \<Rightarrow> 'f \<Rightarrow> byte list option \<times> 'f"
  posix_write :: "int \<Rightarrow> byte list \<Rightarrow> 'f \<Rightarrow> size_t option \<times> 'f"
  posix_poll :: "pollfd \<times> pollfd \<Rightarrow> int \<Rightarrow> 'f \<Rightarrow> int \<times> (16 word \<times> 16 word) \<times> 'f"

text \<open>What the manual pages promise: never more bytes than asked for.\<close>

definition posix_ok :: "'f posix \<Rightarrow> bool" where
  "posix_ok os \<longleftrightarrow>
     (\<forall>fd n f. case posix_read os fd n f of (Some bs, _) \<Rightarrow> length bs \<le> unat n | (None, _) \<Rightarrow> True) \<and>
     (\<forall>fd bs f. case posix_write os fd bs f of (Some k, _) \<Rightarrow> unat k \<le> length bs | (None, _) \<Rightarrow> True)"

text \<open>The bytes that the system stores from an offset on, a fault outside the array.\<close>

definition store_bytes :: "size_t \<Rightarrow> byte list \<Rightarrow> circular_buffer_uint8 \<Rightarrow> (unit, circular_buffer_uint8) res" where
  "store_bytes off bs cb =
     (if unat off + length bs \<le> length (buffer cb) then (Inr (), cb\<lparr>buffer := mem_put (unat off) bs (buffer cb)\<rparr>)
      else (Inl UB, cb))"

definition circular_buffer_push_back_from_fd_uint8 ::
  "'f posix \<Rightarrow> int \<Rightarrow> circular_buffer_uint8 \<times> 'f \<Rightarrow> (size_t, circular_buffer_uint8 \<times> 'f) res" where
  "circular_buffer_push_back_from_fd_uint8 os fd s =
     (let cb = fst s;
          block_size_available = (if iStop cb \<ge> iStart cb then capacity cb - iStop cb else iStart cb - iStop cb) in
      case posix_read os fd block_size_available (snd s) of
        (None, f) \<Rightarrow> (Inl (Throw ASC_ERROR_FILE_READ), (cb, f))
      | (Some bs, f) \<Rightarrow>
          bind_res (zoom fst (\<lambda>cb s. (cb, snd s)) (store_bytes (iStop cb) bs) (cb, f)) (\<lambda>_ (cb, f).
            let nRead = of_nat (length bs);
                cb = cb\<lparr>iStop := (iStop cb + nRead) AND (capacity cb - 1)\<rparr>;
                cb = cb\<lparr>cb_size := cb_size cb + nRead\<rparr> in
            (Inr nRead,
              (if cb_size cb \<ge> capacity cb then
                 cb\<lparr>iStart := (iStart cb + cb_size cb - capacity cb) AND (capacity cb - 1), cb_size := capacity cb\<rparr>
               else cb, f))))"

definition circular_buffer_pop_front_to_fd_uint8 ::
  "'f posix \<Rightarrow> int \<Rightarrow> circular_buffer_uint8 \<times> 'f \<Rightarrow> (size_t, circular_buffer_uint8 \<times> 'f) res" where
  "circular_buffer_pop_front_to_fd_uint8 os fd s =
     (let cb = fst s;
          outBlock = iStart cb;
          nBlock = (if iStart cb + cb_size cb > capacity cb then capacity cb - iStart cb else cb_size cb) in
      case mem_range (buffer cb) outBlock nBlock of
        Inl e \<Rightarrow> (Inl e, s)
      | Inr bs \<Rightarrow>
        (case posix_write os fd bs (snd s) of
          (None, f) \<Rightarrow> (Inl (Throw ASC_ERROR_FILE_WRITE), (cb, f))
        | (Some nWritten, f) \<Rightarrow>
            let cb = cb\<lparr>cb_size := cb_size cb - nWritten\<rparr> in
            (Inr nWritten,
              (if cb_size cb = 0 then cb\<lparr>iStart := 0, iStop := 0\<rparr>
               else cb\<lparr>iStart := (iStart cb + nWritten) AND (capacity cb - 1)\<rparr>, f))))"

text \<open>The room that \<^verbatim>\<open>read\<close> is offered.\<close>

definition read_room :: "circular_buffer_uint8 \<Rightarrow> nat" where
  "read_room cb = (if unat (iStart cb) \<le> unat (iStop cb) then cb_cap cb - unat (iStop cb)
     else unat (iStart cb) - unat (iStop cb))"

lemma read_room_eq:
  assumes "cb_wf cb"
  shows "unat (if iStop cb \<ge> iStart cb then capacity cb - iStop cb else iStart cb - iStop cb) = read_room cb"
    and "unat (iStop cb) + read_room cb \<le> cb_cap cb" and "0 < read_room cb"
proof -
  note w = cb_wfD [OF assms]
  have "unat (iStop cb) < unat (capacity cb)" using w(4,5) by simp
  then show "unat (if iStop cb \<ge> iStart cb then capacity cb - iStop cb else iStart cb - iStop cb) = read_room cb"
      "unat (iStop cb) + read_room cb \<le> cb_cap cb" "0 < read_room cb"
    using w(4) by (auto simp: read_room_def cb_cap_def unat_sub word_le_nat_alt)
qed

text \<open>A buffer that is not full is offered no more than its free space.\<close>

lemma read_room_free:
  assumes wf: "cb_wf cb" and free: "length (cb_list cb) < cb_cap cb"
  shows "length (cb_list cb) + read_room cb \<le> cb_cap cb"
proof -
  note w = cb_wfD [OF wf]
  have lt: "unat (cb_size cb) < unat (capacity cb)" using free by (simp add: cb_cap_def)
  show ?thesis
  proof (cases "unat (iStart cb) + unat (cb_size cb) < unat (capacity cb)")
    case True
    then show ?thesis using w(5) by (simp add: read_room_def cb_cap_def)
  next
    case False
    then have "unat (iStop cb) = unat (iStart cb) + unat (cb_size cb) - unat (capacity cb)"
      using w(4,5) lt by (simp add: mod_if)
    then show ?thesis using False lt by (simp add: read_room_def cb_cap_def) linarith
  qed
qed

lemma push_back_from_fd_refines:
  assumes wf: "cb_wf cb" and r: "posix_read os fd (of_nat (read_room cb)) f = (Some bs, f')" and n: "length bs \<le> read_room cb"
    and small: "cb_cap cb < 2 ^ 63"
  shows "\<exists>cb'. circular_buffer_push_back_from_fd_uint8 os fd (cb, f) = (Inr (of_nat (length bs)), (cb', f'))
    \<and> cb_wf cb' \<and> cb_cap cb' = cb_cap cb
    \<and> cb_list cb' = drop (length (cb_list cb) + length bs - cb_cap cb) (cb_list cb @ bs)"
proof -
  note w = cb_wfD [OF wf] and R = read_room_eq [OF wf]
  let ?k = "length bs" and ?n = "unat (cb_size cb)" and ?s = "unat (iStart cb)" and ?L = "unat (capacity cb)"
  have L: "0 < ?L" "?L < 9223372036854775808" using power_of_two_bound [OF w(1)] small by (simp_all add: cb_cap_def)
  have kL: "unat (iStop cb) + ?k \<le> ?L" using n R(2) by (simp add: cb_cap_def)
  then have k64: "?k < 18446744073709551616" using L by simp
  note uk = unat_of_nat_64 [OF k64]
  have room: "(if iStop cb \<ge> iStart cb then capacity cb - iStop cb else iStart cb - iStop cb) = of_nat (read_room cb)"
    unfolding R(1) [symmetric] by (simp del: if_split)
  have size: "unat (cb_size cb + of_nat ?k) = ?n + ?k"
    using w(3) L kL by (simp add: unat_word_ariths uk)
  have ge: "cb_size cb + of_nat ?k \<ge> capacity cb \<longleftrightarrow> ?L \<le> ?n + ?k" by (simp add: word_le_nat_alt size)
  have stop: "unat ((iStop cb + of_nat ?k) AND (capacity cb - 1)) = (?s + (?n + ?k)) mod ?L"
  proof -
    have "unat ((iStop cb + of_nat ?k) AND (capacity cb - 1)) = (unat (iStop cb) + ?k) mod ?L"
      by (subst mask_add) (use w(1,5) L kL uk in auto)
    then show ?thesis unfolding w(5) by (simp add: mod_add_left_eq add.assoc)
  qed
  define cb' where "cb' = cb\<lparr>buffer := mem_put (unat (iStop cb)) bs (buffer cb),
      iStop := (iStop cb + of_nat ?k) AND (capacity cb - 1),
      iStart := (if ?L \<le> ?n + ?k then (iStart cb + (cb_size cb + of_nat ?k) - capacity cb) AND (capacity cb - 1) else iStart cb),
      cb_size := (if ?L \<le> ?n + ?k then capacity cb else cb_size cb + of_nat ?k)\<rparr>"
  have start: "unat (iStart cb') = (?s + (?n + ?k - ?L)) mod ?L"
  proof (cases "?L \<le> ?n + ?k")
    case True
    have d: "unat (cb_size cb + of_nat ?k - capacity cb) = ?n + ?k - ?L"
      using True size by (simp add: unat_sub word_le_nat_alt)
    have "iStart cb + (cb_size cb + of_nat ?k) - capacity cb = iStart cb + (cb_size cb + of_nat ?k - capacity cb)" by simp
    moreover have "unat ((iStart cb + (cb_size cb + of_nat ?k - capacity cb)) AND (capacity cb - 1)) = (?s + (?n + ?k - ?L)) mod ?L"
      by (subst mask_add) (use w(1,3,4) d kL in auto)
    ultimately show ?thesis using True by (simp add: cb'_def add_diff_eq)
  next
    case False
    then show ?thesis using w(4) by (simp add: cb'_def)
  qed
  have sz: "unat (cb_size cb') = min (?n + ?k) ?L" using size by (simp add: cb'_def)
  have "circular_buffer_push_back_from_fd_uint8 os fd (cb, f) = (Inr (of_nat ?k), (cb', f'))"
    using kL w(2) r unfolding circular_buffer_push_back_from_fd_uint8_def Let_def fst_conv snd_conv room
    by (simp add: store_bytes_def zoom_def ge cb'_def add_diff_eq)
  moreover have "cb_wf cb'"
  proof (rule cb_wfI)
    show "unat (iStop cb') = (unat (iStart cb') + unat (cb_size cb')) mod unat (capacity cb')"
      unfolding start sz using stop L by (simp add: cb'_def min_def mod_add_left_eq)
  qed (use w L kL start sz in \<open>simp_all add: cb'_def\<close>)
  moreover have "cb_list cb' = drop (?n + ?k - ?L) (cb_list cb @ bs)"
  proof -
    have "cb_list cb' = ring (buffer cb') (unat (iStart cb')) (unat (cb_size cb'))" by (simp add: cb_list_def)
    also have "\<dots> = ring (mem_put (unat (iStop cb)) bs (buffer cb)) (?s + (?n + ?k - ?L)) (min (?n + ?k) ?L)"
      using ring_mod [of "mem_put (unat (iStop cb)) bs (buffer cb)" "?s + (?n + ?k - ?L)" "min (?n + ?k) ?L"] w(2) kL
      by (simp add: start sz) (simp add: cb'_def)
    also have "\<dots> = drop (?n + ?k - ?L) (ring (buffer cb) ?s ?n @ bs)"
      using ring_put [of ?n "buffer cb" ?s bs] w(2,3,5) kL L by simp
    finally show ?thesis by (simp add: cb_list_def)
  qed
  moreover have "cb_cap cb' = cb_cap cb" by (simp add: cb'_def cb_cap_def)
  ultimately show ?thesis by (auto simp: cb_cap_def)
qed

lemma pop_front_to_fd_refines:
  assumes wf: "cb_wf cb" and r: "posix_write os fd (take (first_block_len cb) (cb_list cb)) f = (Some k, f')"
    and k: "unat k \<le> first_block_len cb"
  shows "\<exists>cb'. circular_buffer_pop_front_to_fd_uint8 os fd (cb, f) = (Inr k, (cb', f'))
    \<and> cb_wf cb' \<and> cb_cap cb' = cb_cap cb \<and> cb_list cb' = drop (unat k) (cb_list cb)"
proof -
  have "circular_buffer_pop_front_to_fd_uint8 os fd (cb, f) = (Inr k, (advance_front cb k, f'))"
    using get_first_block_refines [OF wf] r
    by (simp add: circular_buffer_pop_front_to_fd_uint8_def circular_buffer_get_first_block_uint8_def Let_def
      advance_front_def del: if_split)
  moreover have "unat k \<le> unat (cb_size cb)" using k by (simp add: first_block_len_def)
  ultimately show ?thesis using advance_front_refines [OF wf refl] by blast
qed

section \<open>Polling\<close>

abbreviation POLLIN :: "16 word" where "POLLIN \<equiv> 0x01"
abbreviation POLLOUT :: "16 word" where "POLLOUT \<equiv> 0x04"
abbreviation POLLERR :: "16 word" where "POLLERR \<equiv> 0x08"
abbreviation POLLHUP :: "16 word" where "POLLHUP \<equiv> 0x10"
abbreviation POLLNVAL :: "16 word" where "POLLNVAL \<equiv> 0x20"

text \<open>
  A pointer to a buffer of the program is the pair of functions that read it from and write it to the
  program's memory \<open>'m\<close>; both pointers may go to the same buffer.
\<close>

type_synonym 'm buf_ptr = "('m \<Rightarrow> circular_buffer_uint8) \<times> (circular_buffer_uint8 \<Rightarrow> 'm \<Rightarrow> 'm)"

record 'm circular_buffer_io_fd_poll =
  io_in_buf :: "'m buf_ptr"
  io_out_buf :: "'m buf_ptr"
  io_fd_in :: int
  io_fd_out :: int
  io_fds :: "pollfd \<times> pollfd"

type_synonym ('m, 'f) io_state = "'m circular_buffer_io_fd_poll \<times> 'm \<times> 'f"

definition inflags :: "'m circular_buffer_io_fd_poll \<Rightarrow> 16 word" where
  "inflags cb_io = revents (fst (io_fds cb_io))"

definition outflags :: "'m circular_buffer_io_fd_poll \<Rightarrow> 16 word" where
  "outflags cb_io = revents (snd (io_fds cb_io))"

definition set_outsetflags :: "16 word \<Rightarrow> 'm circular_buffer_io_fd_poll \<Rightarrow> 'm circular_buffer_io_fd_poll" where
  "set_outsetflags v cb_io = cb_io\<lparr>io_fds := (fst (io_fds cb_io), (snd (io_fds cb_io))\<lparr>events := v\<rparr>)\<rparr>"

definition circular_buffer_io_fd_poll_init ::
  "'m circular_buffer_io_fd_poll \<Rightarrow> 'm buf_ptr \<Rightarrow> 'm buf_ptr \<Rightarrow> int \<Rightarrow> int \<Rightarrow> 'm circular_buffer_io_fd_poll" where
  "circular_buffer_io_fd_poll_init cb_io inb outb fd_in fd_out =
     cb_io\<lparr>io_in_buf := inb, io_out_buf := outb, io_fd_in := fd_in, io_fd_out := fd_out,
       io_fds := (\<lparr>pfd_fd = fd_in, events = POLLIN, revents = 0\<rparr>, \<lparr>pfd_fd = fd_out, events = POLLHUP, revents = 0\<rparr>)\<rparr>"

text \<open>The call of \<^verbatim>\<open>poll\<close> stores the returned events; a failing call stores nothing.\<close>

definition call_poll :: "'f posix \<Rightarrow> int \<Rightarrow> ('m, 'f) io_state \<Rightarrow> int \<times> ('m, 'f) io_state" where
  "call_poll os timeout s =
     (case s of (cb_io, m, f) \<Rightarrow>
      case posix_poll os (io_fds cb_io) timeout f of (ready, (r0, r1), f') \<Rightarrow>
        (ready,
          (if ready < 0 then cb_io
           else cb_io\<lparr>io_fds := ((fst (io_fds cb_io))\<lparr>revents := r0\<rparr>, (snd (io_fds cb_io))\<lparr>revents := r1\<rparr>)\<rparr>,
           m, f')))"

definition circular_buffer_io_fd_poll_do_poll :: "'f posix \<Rightarrow> int \<Rightarrow> ('m, 'f) io_state \<Rightarrow> byte \<times> ('m, 'f) io_state" where
  "circular_buffer_io_fd_poll_do_poll os timeout s =
     (case s of (cb_io, m, f) \<Rightarrow>
      let out_empty = circular_buffer_is_empty_uint8 (fst (io_out_buf cb_io) m);
          in_empty = circular_buffer_is_empty_uint8 (fst (io_in_buf cb_io) m);
          cb_io = (if \<not> out_empty then set_outsetflags (POLLOUT OR POLLHUP) cb_io else set_outsetflags POLLHUP cb_io) in
      case call_poll os timeout (cb_io, m, f) of (ready, s) \<Rightarrow>
        (let cb_io = fst s in
         if ready < 0 then (1, s)
         else if (out_empty \<and> in_empty) \<and> inflags cb_io AND POLLERR \<noteq> 0 then (1, s)
         else if (out_empty \<and> in_empty) \<and> inflags cb_io AND POLLHUP \<noteq> 0 then (1, s)
         else if (out_empty \<and> in_empty) \<and> inflags cb_io AND POLLNVAL \<noteq> 0 then (1, s)
         else if outflags cb_io AND POLLERR \<noteq> 0 then (1, s)
         else if outflags cb_io AND POLLHUP \<noteq> 0 then (1, s)
         else if outflags cb_io AND POLLNVAL \<noteq> 0 then (1, s)
         else (0, s)))"

text \<open>An operation on a buffer and the files, through a pointer.\<close>

definition via_ptr :: "'m buf_ptr \<Rightarrow> (circular_buffer_uint8 \<times> 'f \<Rightarrow> ('a, circular_buffer_uint8 \<times> 'f) res) \<Rightarrow>
    ('m, 'f) io_state \<Rightarrow> ('a, ('m, 'f) io_state) res" where
  "via_ptr p = zoom (\<lambda>(cb_io, m, f). (fst p m, f)) (\<lambda>(cb, f) (cb_io, m, _). (cb_io, snd p cb m, f))"

definition circular_buffer_io_fd_poll_do_output :: "'f posix \<Rightarrow> ('m, 'f) io_state \<Rightarrow> (size_t, ('m, 'f) io_state) res" where
  "circular_buffer_io_fd_poll_do_output os s =
     (let cb_io = fst s in
      if outflags cb_io AND POLLOUT = 0 then (Inr 0, s)
      else via_ptr (io_out_buf cb_io) (circular_buffer_pop_front_to_fd_uint8 os (io_fd_out cb_io)) s)"

definition circular_buffer_io_fd_poll_do_input :: "'f posix \<Rightarrow> ('m, 'f) io_state \<Rightarrow> (size_t, ('m, 'f) io_state) res" where
  "circular_buffer_io_fd_poll_do_input os s =
     (let cb_io = fst s in
      if inflags cb_io AND POLLIN = 0 then (Inr 0, s)
      else via_ptr (io_in_buf cb_io) (circular_buffer_push_back_from_fd_uint8 os (io_fd_in cb_io)) s)"

end
