(* ===== verification/CException.thy ===== *)
theory CException
  imports Asc_Prelude
begin

text \<open>
  \<^verbatim>\<open>CException\<close>: \<^verbatim>\<open>Try\<close>, \<^verbatim>\<open>Catch\<close> and
  \<^verbatim>\<open>Throw\<close> on a global frame, with \<^verbatim>\<open>setjmp\<close> and
  \<^verbatim>\<open>longjmp\<close>. The theorem of this theory is what the rest of the development rests
  on: inside a \<^verbatim>\<open>Try\<close> a throw leaves the block, keeps the memory it reached and is
  caught, so that a function that throws is a function that returns a sum.
\<close>

section \<open>Frames\<close>

abbreviation CEXCEPTION_NONE :: "32 word" where "CEXCEPTION_NONE \<equiv> 0x5A5A5A5A"

text \<open>A \<^verbatim>\<open>jmp_buf\<close> is known by its address, \<open>None\<close> the null pointer.\<close>

record cexception_frame =
  pFrame :: "nat option"
  Exception :: "32 word"

text \<open>Code ends normally, or jumps to a \<^verbatim>\<open>jmp_buf\<close>.\<close>

datatype control = Normal | Longjmp nat

type_synonym 's c_code = "cexception_frame \<times> 's \<Rightarrow> control \<times> cexception_frame \<times> 's"

text \<open>Without a frame, \<^verbatim>\<open>Throw\<close> returns to its caller.\<close>

definition c_throw :: "32 word \<Rightarrow> 's c_code" where
  "c_throw ExceptionID s =
     (let fr = (fst s)\<lparr>Exception := ExceptionID\<rparr> in
      case pFrame fr of Some jmp \<Rightarrow> (Longjmp jmp, fr, snd s) | None \<Rightarrow> (Normal, fr, snd s))"

text \<open>
  \<^verbatim>\<open>Try body Catch(e) handler\<close>, with \<open>NewFrame\<close> the address of the frame on
  the stack. \<^verbatim>\<open>setjmp\<close> returns 0 first, and a second time when the body jumps to
  its frame; a jump to another frame passes through.
\<close>

definition c_try_catch :: "nat \<Rightarrow> 's c_code \<Rightarrow> (32 word \<Rightarrow> 's c_code) \<Rightarrow> 's c_code" where
  "c_try_catch NewFrame body handler s =
     (let PrevFrame = pFrame (fst s);
          fr = (fst s)\<lparr>pFrame := Some NewFrame, Exception := CEXCEPTION_NONE\<rparr>;
          after = (\<lambda>e (fr, m). let fr = fr\<lparr>pFrame := PrevFrame\<rparr> in
            if Exception fr \<noteq> CEXCEPTION_NONE then handler e (fr, m) else (Normal, fr, m)) in
      case body (fr, snd s) of
        (Normal, fr, m) \<Rightarrow> after CEXCEPTION_NONE (fr\<lparr>Exception := CEXCEPTION_NONE\<rparr>, m)
      | (Longjmp jmp, fr, m) \<Rightarrow>
          if jmp = NewFrame then after (Exception fr) (fr, m) else (Longjmp jmp, fr, m))"

section \<open>The sum\<close>

definition try_catch :: "('a, 's) res \<Rightarrow> (asc_exception \<Rightarrow> 's \<Rightarrow> ('a, 's) res) \<Rightarrow> ('a, 's) res" where
  "try_catch r h = (case fst r of Inl (Throw e) \<Rightarrow> h e (snd r) | _ \<Rightarrow> r)"

lemma try_catch_simps [simp]:
  "try_catch (Inr v, s) h = (Inr v, s)"
  "try_catch (Inl (Throw e), s) h = h e s"
  "try_catch (Inl UB, s) h = (Inl UB, s)"
  by (simp_all add: try_catch_def)

definition exception_id :: "asc_exception \<Rightarrow> 32 word" where
  "exception_id e = of_nat (asc_exception_code e)"

lemma exception_id_none: "exception_id e \<noteq> CEXCEPTION_NONE"
  by (cases e) (simp_all add: exception_id_def)

text \<open>
  Code implements a computation below a frame: it ends as the computation does, with its state, and
  leaves the frame pointer alone; a throw jumps to the frame with the number of the error.
\<close>

definition ends_as :: "nat option \<Rightarrow> control \<times> cexception_frame \<times> 's \<Rightarrow> (unit, 's) res \<Rightarrow> bool" where
  "ends_as k out r \<longleftrightarrow> (case r of
       (Inr _, s') \<Rightarrow> (\<exists>fr'. out = (Normal, fr', s') \<and> pFrame fr' = k)
     | (Inl (Throw e), s') \<Rightarrow> (\<exists>fr' j. out = (Longjmp j, fr', s') \<and> k = Some j \<and> pFrame fr' = k
         \<and> Exception fr' = exception_id e)
     | (Inl UB, s') \<Rightarrow> True)"

definition implements :: "nat option \<Rightarrow> 's c_code \<Rightarrow> ('s \<Rightarrow> (unit, 's) res) \<Rightarrow> bool" where
  "implements k body f \<longleftrightarrow> (\<forall>fr s. pFrame fr = k \<longrightarrow> ends_as k (body (fr, s)) (f s))"

lemma implementsD: "implements k body f \<Longrightarrow> pFrame fr = k \<Longrightarrow> ends_as k (body (fr, s)) (f s)"
  by (simp add: implements_def)

lemma implements_throw: "implements (Some k) (c_throw (exception_id e)) (\<lambda>s. (Inl (Throw e), s))"
  by (simp add: implements_def ends_as_def c_throw_def)

definition c_seq :: "'s c_code \<Rightarrow> 's c_code \<Rightarrow> 's c_code" where
  "c_seq b c s = (case b s of (Normal, s') \<Rightarrow> c s' | (Longjmp j, s') \<Rightarrow> (Longjmp j, s'))"

lemma implements_seq:
  assumes "implements k b f" and "implements k c g"
  shows "implements k (c_seq b c) (\<lambda>s. bind_res (f s) (\<lambda>_. g))"
  unfolding implements_def
proof (intro allI impI)
  fix fr :: cexception_frame and s
  assume k: "pFrame fr = k"
  obtain r s' where fs: "f s = (r, s')" by (cases "f s")
  note b = implementsD [OF assms(1) k, of s, unfolded fs]
  show "ends_as k (c_seq b c (fr, s)) (bind_res (f s) (\<lambda>_. g))"
  proof (cases r)
    case (Inr u)
    then obtain fr' where b': "b (fr, s) = (Normal, fr', s')" "pFrame fr' = k"
      using b by (auto simp: ends_as_def)
    show ?thesis using implementsD [OF assms(2) b'(2), of s'] by (simp add: c_seq_def b' fs Inr)
  next
    case (Inl e)
    then show ?thesis using b by (cases e) (auto simp: ends_as_def c_seq_def fs)
  qed
qed

text \<open>A block inside any frame implements \<open>try_catch\<close> and gives the frame back.\<close>

lemma try_catch_implements:
  assumes body: "implements (Some NewFrame) body f" and handler: "\<And>e. implements k (handler (exception_id e)) (h e)"
  shows "implements k (c_try_catch NewFrame body handler) (\<lambda>s. try_catch (f s) h)"
  unfolding implements_def
proof (intro allI impI)
  fix fr :: cexception_frame and s
  assume k: "pFrame fr = k"
  let ?fr = "fr\<lparr>pFrame := Some NewFrame, Exception := CEXCEPTION_NONE\<rparr>"
  obtain r s' where fs: "f s = (r, s')" by (cases "f s")
  note b = implementsD [OF body, of ?fr s, unfolded fs, simplified]
  show "ends_as k (c_try_catch NewFrame body handler (fr, s)) (try_catch (f s) h)"
  proof (cases r)
    case (Inr u)
    then show ?thesis using b fs k by (auto simp: ends_as_def c_try_catch_def Let_def)
  next
    case (Inl flt)
    show ?thesis
    proof (cases flt)
      case (Throw e)
      then obtain fr' where j: "body (?fr, s) = (Longjmp NewFrame, fr', s')" "Exception fr' = exception_id e"
        using b Inl by (auto simp: ends_as_def)
      have "c_try_catch NewFrame body handler (fr, s) = handler (exception_id e) (fr'\<lparr>pFrame := k\<rparr>, s')"
        using j k exception_id_none [of e] by (simp add: c_try_catch_def Let_def)
      then show ?thesis
        using implementsD [OF handler [of e], of "fr'\<lparr>pFrame := k\<rparr>" s'] fs Inl Throw by simp
    next
      case UB
      then show ?thesis using fs Inl by (simp add: ends_as_def)
    qed
  qed
qed

end
