(* ===== verification/Native_Devices.thy ===== *)
theory Native_Devices
  imports Register_Block Circular_Buffer_Io CException
begin

text \<open>
  The three programs of \<^verbatim>\<open>native/\<close>: a device with a register block and a loopback
  device on two files, and a profiler that sends messages to itself. The bodies of their loops are
  computations on the state of the program and of its files; a turn ends by going on, or with the exit
  code of \<^verbatim>\<open>main\<close>.
\<close>

section \<open>Arguments and files\<close>

text \<open>
  \<^verbatim>\<open>fopen\<close> and \<^verbatim>\<open>fileno\<close> are a parameter: opening a file by
  name and mode gives its descriptor, \<open>None\<close> for a null pointer.
\<close>

type_synonym 'f fopen = "string \<Rightarrow> string \<Rightarrow> 'f \<Rightarrow> int option \<times> 'f"

definition is_option :: "string \<Rightarrow> string \<Rightarrow> bool" where
  "is_option opt arg \<longleftrightarrow> take 2 arg = opt"

text \<open>The result is an exit code, or the descriptors of the two files.\<close>

definition open_files :: "'f fopen \<Rightarrow> string list \<Rightarrow> 'f \<Rightarrow> (nat + int \<times> int) \<times> 'f" where
  "open_files fopen argv f =
     (if length argv = 3 then
        (case fopen (argv ! 1) ''r'' f of
           (None, f) \<Rightarrow> (Inl 1, f)
         | (Some infileno, f) \<Rightarrow>
             if infileno < 0 then (Inl 1, f)
             else (case fopen (argv ! 2) ''a+'' f of
                (None, f) \<Rightarrow> (Inl 1, f)
              | (Some outfileno, f) \<Rightarrow> if outfileno < 0 then (Inl 1, f) else (Inr (infileno, outfileno), f)))
      else (Inr (0, 1), f))"

definition register_device_args :: "'f fopen \<Rightarrow> string list \<Rightarrow> 'f \<Rightarrow> (nat + int \<times> int) \<times> 'f" where
  "register_device_args fopen argv f =
     (if length argv > 1 \<and> is_option ''-h'' (argv ! 1) then (Inl 0, f)
      else if length argv \<noteq> 3 \<and> length argv \<noteq> 1 then (Inl 1, f)
      else open_files fopen argv f)"

text \<open>The loopback device returns whether it is in raw mode, too.\<close>

definition loopback_device_args :: "'f fopen \<Rightarrow> string list \<Rightarrow> 'f \<Rightarrow> bool \<times> (nat + int \<times> int) \<times> 'f" where
  "loopback_device_args fopen argv f =
     (if length argv > 1 \<and> is_option ''-h'' (argv ! 1) then (False, Inl 0, f)
      else
        let rawLoopback = (length argv > 1 \<and> is_option ''-l'' (argv ! 1)) in
        if length argv = 2 \<and> \<not> rawLoopback then (rawLoopback, Inl 1, f)
        else (rawLoopback, open_files fopen argv f))"

text \<open>The profiler takes a number, read by \<^verbatim>\<open>strtoul\<close>, a parameter.\<close>

definition profiler_args :: "(string \<Rightarrow> nat) \<Rightarrow> string list \<Rightarrow> nat + nat" where
  "profiler_args strtoul argv =
     (if length argv < 2 then Inl 1
      else if is_option ''-h'' (argv ! 1) then Inl 0
      else Inr (strtoul (argv ! 1)))"

text \<open>
  The usage of the loopback device names \<^verbatim>\<open>-l\<close> with two files, but with both the files are
  not opened: there are four arguments then, and the program works on the standard input and output.
\<close>

lemma loopback_raw_ignores_files:
  "loopback_device_args fopen [prog, ''-l'', infile, outfile] f = (True, Inr (0, 1), f)"
  by (simp add: loopback_device_args_def is_option_def open_files_def)

section \<open>The device with a register block\<close>

type_synonym rb_memory = "ascii_serial_com_register_block option dev_state"
type_synonym 'f rb_program = "(rb_memory, 'f) io_state \<times> int"

definition dev_in_ptr :: "'w dev_state buf_ptr" where
  "dev_in_ptr = (\<lambda>s. ascii_serial_com_device_get_input_buffer (fst s),
     \<lambda>cb s. ((fst s)\<lparr>dev_asc := (dev_asc (fst s))\<lparr>in_buf := cb\<rparr>\<rparr>, snd s))"

definition dev_out_ptr :: "'w dev_state buf_ptr" where
  "dev_out_ptr = (\<lambda>s. ascii_serial_com_device_get_output_buffer (fst s),
     \<lambda>cb s. ((fst s)\<lparr>dev_asc := (dev_asc (fst s))\<lparr>out_buf := cb\<rparr>\<rparr>, snd s))"

definition on_mem :: "('m \<Rightarrow> ('a, 'm) res) \<Rightarrow> ('m, 'f) io_state \<Rightarrow> ('a, ('m, 'f) io_state) res" where
  "on_mem = zoom (\<lambda>(cb_io, m, f). m) (\<lambda>m (cb_io, _, f). (cb_io, m, f))"

definition rb_config :: "ascii_serial_com_register_block option ascii_serial_com_device_config" where
  "rb_config = \<lparr>func_rw = Some ascii_serial_com_register_block_handle_message, func_s = None, func_nf = None\<rparr>"

text \<open>\<^verbatim>\<open>nRegs\<close> is 10; the registers are the global array \<open>regs\<close>.\<close>

definition register_device_init :: "byte list \<Rightarrow> byte list \<Rightarrow> int \<times> int \<Rightarrow> (rb_memory, 'f) io_state \<Rightarrow>
    (nat option, (rb_memory, 'f) io_state) res" where
  "register_device_init regs raw_buffer fds s =
     try_catch
       (bind_res (on_mem (\<lambda>m. (Inr (), (fst m, map_option (\<lambda>rb. ascii_serial_com_register_block_init rb regs 10) (snd m)))) s) (\<lambda>_ s.
        bind_res (on_mem (\<lambda>m. ascii_serial_com_device_init m rb_config raw_buffer) s) (\<lambda>_ s.
          (Inr None, (circular_buffer_io_fd_poll_init (fst s) dev_in_ptr dev_out_ptr (fst fds) (snd fds), snd s)))))
       (\<lambda>e s. (Inr (Some 1), s))"

definition register_device_turn :: "'f posix \<Rightarrow> 'f rb_program \<Rightarrow> (nat option, 'f rb_program) res" where
  "register_device_turn os s =
     try_catch
       (case circular_buffer_io_fd_poll_do_poll os (snd s) (fst s) of (poll_ret_code, io) \<Rightarrow>
        if poll_ret_code \<noteq> 0 then (Inr (Some 1), (io, snd s))
        else
          bind_res (zoom fst (\<lambda>io s. (io, snd s)) (circular_buffer_io_fd_poll_do_input os) (io, snd s)) (\<lambda>_ s.
          bind_res (zoom fst (\<lambda>io s. (io, snd s)) (on_mem ascii_serial_com_device_receive) s) (\<lambda>_ s.
          bind_res (zoom fst (\<lambda>io s. (io, snd s)) (circular_buffer_io_fd_poll_do_output os) s) (\<lambda>_ s.
            (Inr None, (fst s,
              if \<not> circular_buffer_is_empty_uint8 (fst dev_in_ptr (fst (snd (fst s)))) then 5 else - 1))))))
       (\<lambda>e s. (Inr (Some 1), s))"

section \<open>The loopback device\<close>

text \<open>
  The global variables: the interface with its message variables, and the buffer of the raw mode. In raw
  mode both pointers go to that buffer.
\<close>

record loopback =
  lb_asc :: ascii_serial_com
  lb_msg :: asc_message
  lb_buffer :: circular_buffer_uint8
  rawLoopback :: bool

definition lb_in_ptr :: "loopback buf_ptr" where
  "lb_in_ptr = (\<lambda>m. ascii_serial_com_get_input_buffer (lb_asc m), \<lambda>cb m. m\<lparr>lb_asc := (lb_asc m)\<lparr>in_buf := cb\<rparr>\<rparr>)"

definition lb_out_ptr :: "loopback buf_ptr" where
  "lb_out_ptr = (\<lambda>m. ascii_serial_com_get_output_buffer (lb_asc m), \<lambda>cb m. m\<lparr>lb_asc := (lb_asc m)\<lparr>out_buf := cb\<rparr>\<rparr>)"

definition lb_raw_ptr :: "loopback buf_ptr" where
  "lb_raw_ptr = (lb_buffer, \<lambda>cb m. m\<lparr>lb_buffer := cb\<rparr>)"

definition loopback_device_init :: "byte list \<Rightarrow> byte list \<Rightarrow> int \<times> int \<Rightarrow> (loopback, 'f) io_state \<Rightarrow>
    (nat option, (loopback, 'f) io_state) res" where
  "loopback_device_init buffer_raw raw_buffer fds s =
     try_catch
       (bind_res (on_mem (zoom lb_buffer (\<lambda>cb m. m\<lparr>lb_buffer := cb\<rparr>) (\<lambda>cb. circular_buffer_init_uint8 cb 64 buffer_raw)) s) (\<lambda>_ s.
        bind_res (on_mem (zoom lb_asc (\<lambda>a m. m\<lparr>lb_asc := a\<rparr>) (\<lambda>a. ascii_serial_com_init a raw_buffer)) s) (\<lambda>_ s.
          (Inr None,
            (if rawLoopback (fst (snd s)) then circular_buffer_io_fd_poll_init (fst s) lb_raw_ptr lb_raw_ptr (fst fds) (snd fds)
             else circular_buffer_io_fd_poll_init (fst s) lb_in_ptr lb_out_ptr (fst fds) (snd fds), snd s)))))
       (\<lambda>e s. (Inr (Some 1), s))"

text \<open>A received message is sent back.\<close>

definition loopback_message :: "loopback \<Rightarrow> (unit, loopback) res" where
  "loopback_message m =
     bind_res (zoom (\<lambda>m. (lb_asc m, lb_msg m)) (\<lambda>(a, g) m. m\<lparr>lb_asc := a, lb_msg := g\<rparr>)
         ascii_serial_com_get_message_from_input_buffer m) (\<lambda>_ m.
       if msg_command (lb_msg m) \<noteq> 0 then
         zoom lb_asc (\<lambda>a m. m\<lparr>lb_asc := a\<rparr>)
           (\<lambda>a. ascii_serial_com_put_message_in_output_buffer a (msg_ascVersion (lb_msg m)) (msg_appVersion (lb_msg m))
             (msg_command (lb_msg m)) (msg_data (lb_msg m)) (msg_dataLen (lb_msg m))) m
       else (Inr (), m))"

definition loopback_device_turn :: "'f posix \<Rightarrow> (loopback, 'f) io_state \<times> int \<Rightarrow> (nat option, (loopback, 'f) io_state \<times> int) res" where
  "loopback_device_turn os s =
     try_catch
       (case circular_buffer_io_fd_poll_do_poll os (snd s) (fst s) of (poll_ret_code, io) \<Rightarrow>
        if poll_ret_code \<noteq> 0 then (Inr (Some 1), (io, snd s))
        else
          bind_res (zoom fst (\<lambda>io s. (io, snd s)) (circular_buffer_io_fd_poll_do_input os) (io, snd s)) (\<lambda>_ s.
          bind_res (zoom fst (\<lambda>io s. (io, snd s)) (on_mem (\<lambda>m.
              if \<not> rawLoopback m \<and> \<not> circular_buffer_is_empty_uint8 (fst lb_in_ptr m) then loopback_message m
              else (Inr (), m))) s) (\<lambda>_ s.
          bind_res (zoom fst (\<lambda>io s. (io, snd s)) (circular_buffer_io_fd_poll_do_output os) s) (\<lambda>_ s.
            (Inr None, (fst s,
              if \<not> rawLoopback (fst (snd (fst s))) \<and> \<not> circular_buffer_is_empty_uint8 (fst lb_in_ptr (fst (snd (fst s))))
              then 5 else - 1))))))
       (\<lambda>e s. (Inr None, s))"

section \<open>The profiler\<close>

text \<open>\<open>profiler_body\<close> is what the loop does inside of its \<^verbatim>\<open>Try\<close>.\<close>

definition profiler_body :: "ascii_serial_com \<times> asc_message \<Rightarrow> (unit, ascii_serial_com \<times> asc_message) res" where
  "profiler_body s =
     bind_res (zoom fst (\<lambda>a s. (a, snd s)) (\<lambda>a.
          ascii_serial_com_put_message_in_output_buffer a chr_0 chr_0 chr_z [] 0) s) (\<lambda>_ s.
      bind_res (zoom fst (\<lambda>a s. (a, snd s))
          (for_each (\<lambda>_ a. bind_res (with_out_buf circular_buffer_pop_front_uint8 a) (\<lambda>b a.
             with_in_buf (\<lambda>cb. circular_buffer_push_back_uint8 cb b) a))
           [0..<unat (circular_buffer_get_size_uint8 (ascii_serial_com_get_output_buffer (fst s)))]) s) (\<lambda>_ s.
        ascii_serial_com_get_message_from_input_buffer s))"

definition profiler_turn :: "ascii_serial_com \<times> asc_message \<Rightarrow> (unit, ascii_serial_com \<times> asc_message) res" where
  "profiler_turn s = try_catch (profiler_body s) (\<lambda>e s. (Inr (), s))"

definition profiler_main :: "nat \<Rightarrow> byte list \<Rightarrow> ascii_serial_com \<times> asc_message \<Rightarrow> (nat, ascii_serial_com \<times> asc_message) res" where
  "profiler_main nIterations raw_buffer s =
     try_catch
       (bind_res (zoom fst (\<lambda>a s. (a, snd s)) (\<lambda>a. ascii_serial_com_init a raw_buffer) s) (\<lambda>_ s.
          bind_res (for_each (\<lambda>_. profiler_turn) [0..<nIterations] s) (\<lambda>_ s. (Inr 0, s))))
       (\<lambda>e s. (Inr 1, s))"

section \<open>Turns with known files\<close>

lemma via_ptr_apply:
  "via_ptr p op (cb_io, m, f) = (case op (fst p m, f) of (r, (cb, f')) \<Rightarrow> (r, (cb_io, snd p cb m, f')))"
  by (simp add: via_ptr_def zoom_def split: prod.split)

lemma on_mem_apply: "on_mem op (cb_io, m, f) = (case op m of (r, m') \<Rightarrow> (r, (cb_io, m', f)))"
  by (simp add: on_mem_def zoom_def split: prod.split)

lemma zoom_fst_apply: "zoom fst (\<lambda>io s. (io, snd s)) op (io, t) = (case op io of (r, io') \<Rightarrow> (r, (io', t)))"
  by (simp add: zoom_def split: prod.split)

lemma empty_iff: "circular_buffer_is_empty_uint8 cb \<longleftrightarrow> cb_list cb = []"
  by (simp add: circular_buffer_is_empty_uint8_def circular_buffer_get_size_uint8_def)

text \<open>What a poll asks for, and the state in which it leaves the descriptors.\<close>

definition asks :: "circular_buffer_uint8 \<Rightarrow> 'm circular_buffer_io_fd_poll \<Rightarrow> 'm circular_buffer_io_fd_poll" where
  "asks outb cb_io = set_outsetflags (if cb_list outb = [] then POLLHUP else POLLOUT OR POLLHUP) cb_io"

definition polled :: "16 word \<Rightarrow> 16 word \<Rightarrow> 'm circular_buffer_io_fd_poll \<Rightarrow> 'm circular_buffer_io_fd_poll" where
  "polled i out cb_io = cb_io\<lparr>io_fds := ((fst (io_fds cb_io))\<lparr>revents := i\<rparr>, (snd (io_fds cb_io))\<lparr>revents := out\<rparr>)\<rparr>"

lemma polled_simps [simp]:
  "inflags (polled i out cb_io) = i" "outflags (polled i out cb_io) = out"
  "io_in_buf (polled i out cb_io) = io_in_buf cb_io" "io_out_buf (polled i out cb_io) = io_out_buf cb_io"
  "io_fd_in (polled i out cb_io) = io_fd_in cb_io" "io_fd_out (polled i out cb_io) = io_fd_out cb_io"
  "io_in_buf (asks b cb_io) = io_in_buf cb_io" "io_out_buf (asks b cb_io) = io_out_buf cb_io"
  "io_fd_in (asks b cb_io) = io_fd_in cb_io" "io_fd_out (asks b cb_io) = io_fd_out cb_io"
  by (simp_all add: polled_def asks_def inflags_def outflags_def set_outsetflags_def)

text \<open>The descriptors are fine: readable or not, writable or not, nothing else.\<close>

lemma do_poll_ok:
  assumes "posix_poll os (io_fds (asks (fst (io_out_buf cb_io) m) cb_io)) timeout f = (rdy, (i, out), f')" and "0 \<le> rdy"
    and "i = 0 \<or> i = POLLIN" and "out = 0 \<or> out = POLLOUT"
  shows "circular_buffer_io_fd_poll_do_poll os timeout (cb_io, m, f) =
    (0, (polled i out (asks (fst (io_out_buf cb_io) m) cb_io), m, f'))"
proof -
  have a: "(if \<not> circular_buffer_is_empty_uint8 (fst (io_out_buf cb_io) m) then set_outsetflags (POLLOUT OR POLLHUP) cb_io
      else set_outsetflags POLLHUP cb_io) = asks (fst (io_out_buf cb_io) m) cb_io"
    by (simp add: asks_def empty_iff)
  have c: "call_poll os timeout (asks (fst (io_out_buf cb_io) m) cb_io, m, f) =
      (rdy, (polled i out (asks (fst (io_out_buf cb_io) m) cb_io), m, f'))"
    using assms(1,2) by (simp add: call_poll_def polled_def)
  have z: "i AND POLLERR = 0" "i AND POLLHUP = 0" "i AND POLLNVAL = 0" "out AND POLLERR = 0" "out AND POLLHUP = 0" "out AND POLLNVAL = 0"
    using assms(3,4) by auto
  show ?thesis unfolding circular_buffer_io_fd_poll_do_poll_def Let_def prod.case a c fst_conv polled_simps
    using assms(2) by (simp add: z)
qed

lemma do_input_reads:
  assumes "cb_wf (fst (io_in_buf cb_io) m)" "cb_cap (fst (io_in_buf cb_io) m) < 2 ^ 63" and "inflags cb_io = POLLIN"
    and "posix_read os (io_fd_in cb_io) (of_nat (read_room (fst (io_in_buf cb_io) m))) f = (Some bs, f')"
    and "length bs \<le> read_room (fst (io_in_buf cb_io) m)"
  shows "\<exists>cb. circular_buffer_io_fd_poll_do_input os (cb_io, m, f) = (Inr (of_nat (length bs)), (cb_io, snd (io_in_buf cb_io) cb m, f'))
    \<and> cb_wf cb \<and> cb_cap cb = cb_cap (fst (io_in_buf cb_io) m)
    \<and> cb_list cb = drop (length (cb_list (fst (io_in_buf cb_io) m)) + length bs - cb_cap (fst (io_in_buf cb_io) m))
        (cb_list (fst (io_in_buf cb_io) m) @ bs)"
  using push_back_from_fd_refines [OF assms(1,4,5,2)] assms(3)
  by (auto simp: circular_buffer_io_fd_poll_do_input_def via_ptr_apply)

lemma do_input_none: "inflags cb_io = 0 \<Longrightarrow> circular_buffer_io_fd_poll_do_input os (cb_io, m, f) = (Inr 0, (cb_io, m, f))"
  by (simp add: circular_buffer_io_fd_poll_do_input_def)

lemma do_output_writes:
  assumes "cb_wf (fst (io_out_buf cb_io) m)" and "outflags cb_io = POLLOUT"
    and "posix_write os (io_fd_out cb_io) (take (first_block_len (fst (io_out_buf cb_io) m)) (cb_list (fst (io_out_buf cb_io) m))) f = (Some k, f')"
    and "unat k \<le> first_block_len (fst (io_out_buf cb_io) m)"
  shows "\<exists>cb. circular_buffer_io_fd_poll_do_output os (cb_io, m, f) = (Inr k, (cb_io, snd (io_out_buf cb_io) cb m, f'))
    \<and> cb_wf cb \<and> cb_cap cb = cb_cap (fst (io_out_buf cb_io) m) \<and> cb_list cb = drop (unat k) (cb_list (fst (io_out_buf cb_io) m))"
  using pop_front_to_fd_refines [OF assms(1,3,4)] assms(2)
  by (auto simp: circular_buffer_io_fd_poll_do_output_def via_ptr_apply)

lemma do_output_none: "outflags cb_io = 0 \<Longrightarrow> circular_buffer_io_fd_poll_do_output os (cb_io, m, f) = (Inr 0, (cb_io, m, f))"
  by (simp add: circular_buffer_io_fd_poll_do_output_def)

section \<open>The register device\<close>

text \<open>A turn that reads a request into the empty input buffer puts the reply in the output buffer.\<close>

lemma register_device_reads:
  assumes io: "io_in_buf cb_io = dev_in_ptr" "io_out_buf cb_io = dev_out_ptr"
    and wf: "device_wf dev" and idle: "cb_list (in_buf (dev_asc dev)) = []" "cb_list (out_buf (dev_asc dev)) = []" and inv: "rb_inv st"
    and cfg: "dev_config dev = rb_config" and c: "c = chr_r \<or> c = chr_w"
    and pl: "plain ([v, ap, c] @ d)" and len: "length d \<le> 54"
    and resp: "rb_respond c (of_nat (length d)) (mem_put 0 d (msg_data (dev_msg dev))) st = (rp, st')"
    and poll: "posix_poll os (io_fds (asks (out_buf (dev_asc dev)) cb_io)) timeout f = (rdy, (POLLIN, 0), f1)" "0 \<le> rdy"
    and rd: "posix_read os (io_fd_in cb_io) (of_nat (read_room (in_buf (dev_asc dev)))) f1 = (Some (frame v ap c d), f2)"
    and room: "length (frame v ap c d) \<le> read_room (in_buf (dev_asc dev))"
  shows "\<exists>dev' timeout'. register_device_turn os ((cb_io, (dev, st), f), timeout) =
      (Inr (case rp of Raise e \<Rightarrow> Some 1 | _ \<Rightarrow> None), ((polled POLLIN 0 (asks (out_buf (dev_asc dev)) cb_io), (dev', st'), f2), timeout'))
    \<and> device_wf dev' \<and> cb_list (in_buf (dev_asc dev')) = [] \<and> cb_list (out_buf (dev_asc dev')) = reply_bytes v ap rp \<and> rb_inv st'"
proof -
  let ?io = "polled POLLIN 0 (asks (out_buf (dev_asc dev)) cb_io)"
  have p: "fst dev_in_ptr (dev, st) = in_buf (dev_asc dev)" "fst dev_out_ptr (dev, st) = out_buf (dev_asc dev)"
    by (simp_all add: dev_in_ptr_def dev_out_ptr_def ascii_serial_com_device_get_input_buffer_def
      ascii_serial_com_device_get_output_buffer_def ascii_serial_com_get_input_buffer_def ascii_serial_com_get_output_buffer_def)
  have "posix_poll os (io_fds (asks (fst (io_out_buf cb_io) (dev, st)) cb_io)) timeout f = (rdy, (POLLIN, 0), f1)"
    using poll(1) io p by simp
  from do_poll_ok [OF this poll(2)]
  have 1: "circular_buffer_io_fd_poll_do_poll os timeout (cb_io, (dev, st), f) = (0, (?io, (dev, st), f1))" using io p by simp
  have "cb_wf (in_buf (dev_asc dev)) \<and> cb_cap (in_buf (dev_asc dev)) = 64" using wf by (simp add: device_wf_def asc_wf_def)
  with do_input_reads [of ?io "(dev, st)" os f1 "frame v ap c d" f2] io p rd room idle(1)
  obtain cb where 2: "circular_buffer_io_fd_poll_do_input os (?io, (dev, st), f1) =
        (Inr (of_nat (length (frame v ap c d))), (?io, snd dev_in_ptr cb (dev, st), f2))"
    and cb: "cb_wf cb" "cb_cap cb = 64" "cb_list cb = frame v ap c d" using len by (auto simp: idle(1))
  let ?dev1 = "dev\<lparr>dev_asc := (dev_asc dev)\<lparr>in_buf := cb\<rparr>\<rparr>"
  have w1: "device_wf ?dev1" using wf cb by (simp add: device_wf_def asc_wf_def)
  have o1: "cb_list (out_buf (dev_asc ?dev1)) = []" and b1: "cb_list (in_buf (dev_asc ?dev1)) = [] @ frame v ap c d @ []"
    and r1: "rb_respond c (of_nat (length d)) (mem_put 0 d (msg_data (dev_msg ?dev1))) st = (rp, st')"
    and c1: "routed (dev_config ?dev1) c = Some ascii_serial_com_register_block_handle_message"
    using idle cb(3) resp c cfg by (auto simp: routed_def rb_config_def)
  from rb.receive_replies [OF w1 o1 inv pl len _ b1 c1 r1]
  obtain dev' where 3: "ascii_serial_com_device_receive (?dev1, st) = (reply_result rp, (dev', st'))"
      "cb_list (out_buf (dev_asc dev')) = reply_bytes v ap rp" "cb_list (in_buf (dev_asc dev')) = []" "device_wf dev'" "rb_inv st'"
    by auto
  have m: "snd dev_in_ptr cb (dev, st) = (?dev1, st)" by (simp add: dev_in_ptr_def)
  have "\<exists>t. register_device_turn os ((cb_io, (dev, st), f), timeout) =
      (Inr (case rp of Raise e \<Rightarrow> Some 1 | _ \<Rightarrow> None), ((?io, (dev', st'), f2), t))"
    using 1 2 3(1) m by (cases rp) (auto simp: register_device_turn_def zoom_fst_apply on_mem_apply do_output_none)
  then show ?thesis using 3 by blast
qed

text \<open>A turn without input sends the first block of the output buffer, as much as the file takes.\<close>

lemma register_device_writes:
  assumes io: "io_in_buf cb_io = dev_in_ptr" "io_out_buf cb_io = dev_out_ptr"
    and wf: "device_wf dev" and idle: "cb_list (in_buf (dev_asc dev)) = []"
    and poll: "posix_poll os (io_fds (asks (out_buf (dev_asc dev)) cb_io)) timeout f = (rdy, (0, POLLOUT), f1)" "0 \<le> rdy"
    and wr: "posix_write os (io_fd_out cb_io) (take (first_block_len (out_buf (dev_asc dev))) (cb_list (out_buf (dev_asc dev)))) f1 = (Some k, f2)"
    and k: "unat k \<le> first_block_len (out_buf (dev_asc dev))"
  shows "\<exists>dev'. register_device_turn os ((cb_io, (dev, st), f), timeout) =
      (Inr None, ((polled 0 POLLOUT (asks (out_buf (dev_asc dev)) cb_io), (dev', st), f2), - 1))
    \<and> device_wf dev' \<and> cb_list (in_buf (dev_asc dev')) = [] \<and> cb_list (out_buf (dev_asc dev')) = drop (unat k) (cb_list (out_buf (dev_asc dev)))
    \<and> dev_config dev' = dev_config dev"
proof -
  let ?io = "polled 0 POLLOUT (asks (out_buf (dev_asc dev)) cb_io)"
  have p: "fst dev_in_ptr (d, st) = in_buf (dev_asc d)" "fst dev_out_ptr (d, st) = out_buf (dev_asc d)" for d
    by (simp_all add: dev_in_ptr_def dev_out_ptr_def ascii_serial_com_device_get_input_buffer_def
      ascii_serial_com_device_get_output_buffer_def ascii_serial_com_get_input_buffer_def ascii_serial_com_get_output_buffer_def)
  have "posix_poll os (io_fds (asks (fst (io_out_buf cb_io) (dev, st)) cb_io)) timeout f = (rdy, (0, POLLOUT), f1)"
    using poll(1) io p by simp
  from do_poll_ok [OF this poll(2)]
  have 1: "circular_buffer_io_fd_poll_do_poll os timeout (cb_io, (dev, st), f) = (0, (?io, (dev, st), f1))" using io p by simp
  have "receive_frame (cb_list (in_buf (dev_asc dev))) = (No_Message, [])" unfolding idle by (rule receive_frame_Nil)
  from receive_nothing [OF wf this, of st]
  obtain dev1 where 2: "ascii_serial_com_device_receive (dev, st) = (Inr (), (dev1, st))" "device_wf dev1"
      "dev_config dev1 = dev_config dev" "in_content (dev_asc dev) 64 [] (dev_asc dev1)" by auto
  note A = in_contentD [OF 2(4)]
  have "cb_wf (out_buf (dev_asc dev1))" using 2(2) by (simp add: device_wf_def asc_wf_def)
  with do_output_writes [of ?io "(dev1, st)" os f1 k f2] io p wr k A(4)
  obtain cb where 3: "circular_buffer_io_fd_poll_do_output os (?io, (dev1, st), f1) = (Inr k, (?io, snd dev_out_ptr cb (dev1, st), f2))"
    and cb: "cb_wf cb" "cb_cap cb = cb_cap (out_buf (dev_asc dev))" "cb_list cb = drop (unat k) (cb_list (out_buf (dev_asc dev)))" by auto
  let ?dev2 = "dev1\<lparr>dev_asc := (dev_asc dev1)\<lparr>out_buf := cb\<rparr>\<rparr>"
  have m: "snd dev_out_ptr cb (dev1, st) = (?dev2, st)" by (simp add: dev_out_ptr_def)
  have "register_device_turn os ((cb_io, (dev, st), f), timeout) = (Inr None, ((?io, (?dev2, st), f2), - 1))"
    using 1 2(1) 3 m A(3) p by (simp add: register_device_turn_def zoom_fst_apply on_mem_apply do_input_none empty_iff)
  moreover have "device_wf ?dev2" using 2(2) wf cb by (simp add: device_wf_def asc_wf_def)
  ultimately show ?thesis using A(3) cb(3) 2(3) by auto
qed

text \<open>
  Iterations of an endless loop, up to an exit code. An output file that is ready while nothing comes in takes at least
  one of the bytes that it is offered, as \<^verbatim>\<open>poll\<close> and \<^verbatim>\<open>write\<close> promise; \<open>written\<close> is what
  it has been given.
\<close>

fun loop_turns :: "('s \<Rightarrow> (nat option, 's) res) \<Rightarrow> nat \<Rightarrow> 's \<Rightarrow> (nat option, 's) res" where
  "loop_turns turn 0 s = (Inr None, s)"
| "loop_turns turn (Suc n) s =
     bind_res (turn s) (\<lambda>exit_code s. case exit_code of None \<Rightarrow> loop_turns turn n s | Some code \<Rightarrow> (Inr (Some code), s))"

definition output_ready :: "'f posix \<Rightarrow> int \<Rightarrow> ('f \<Rightarrow> byte list) \<Rightarrow> ('f \<Rightarrow> bool) \<Rightarrow> bool" where
  "output_ready os fd written quiet \<longleftrightarrow> (\<forall>f. quiet f \<longrightarrow>
     (\<forall>fds timeout. \<exists>f'. posix_poll os fds timeout f = (1, (0, POLLOUT), f') \<and> quiet f' \<and> written f' = written f) \<and>
     (\<forall>bs. bs \<noteq> [] \<longrightarrow> (\<exists>k f'. posix_write os fd bs f = (Some k, f') \<and> 0 < unat k \<and> unat k \<le> length bs
        \<and> quiet f' \<and> written f' = written f @ take (unat k) bs)))"

lemma register_device_drains:
  assumes ready: "output_ready os fd written quiet"
  shows "io_in_buf cb_io = dev_in_ptr \<Longrightarrow> io_out_buf cb_io = dev_out_ptr \<Longrightarrow> io_fd_out cb_io = fd \<Longrightarrow> device_wf dev \<Longrightarrow>
    cb_list (in_buf (dev_asc dev)) = [] \<Longrightarrow> quiet f \<Longrightarrow>
    \<exists>n cb_io' dev' f' timeout'. n \<le> length (cb_list (out_buf (dev_asc dev)))
      \<and> loop_turns (register_device_turn os) n ((cb_io, (dev, st), f), timeout) = (Inr None, ((cb_io', (dev', st), f'), timeout'))
      \<and> cb_list (out_buf (dev_asc dev')) = [] \<and> written f' = written f @ cb_list (out_buf (dev_asc dev))"
proof (induction "length (cb_list (out_buf (dev_asc dev)))" arbitrary: cb_io dev f timeout rule: less_induct)
  case less
  let ?b = "out_buf (dev_asc dev)"
  show ?case
  proof (cases "cb_list ?b = []")
    case True
    then show ?thesis by (intro exI [of _ 0]) (simp del: cb_list_Nil_iff)
  next
    case False
    have w: "cb_wf ?b" using less.prems(4) by (simp add: device_wf_def asc_wf_def)
    have l: "0 < first_block_len ?b" "first_block_len ?b \<le> length (cb_list ?b)"
      using cb_wfD(4) [OF w] False length_greater_0_conv [of "cb_list ?b"] by (auto simp: first_block_len_def)
    obtain f1 where f1: "posix_poll os (io_fds (asks ?b cb_io)) timeout f = (1, (0, POLLOUT), f1)" "quiet f1" "written f1 = written f"
      using ready less.prems(6) unfolding output_ready_def by blast
    let ?bs = "take (first_block_len ?b) (cb_list ?b)"
    have "?bs \<noteq> []" using l False by simp
    then obtain k f2 where k: "posix_write os (io_fd_out cb_io) ?bs f1 = (Some k, f2)" "0 < unat k" "unat k \<le> length ?bs"
      "quiet f2" "written f2 = written f1 @ take (unat k) ?bs"
      using ready f1(2) less.prems(3) unfolding output_ready_def by blast
    have kl: "unat k \<le> first_block_len ?b" using k(3) l(2) by simp
    from register_device_writes [OF less.prems(1,2,4,5) f1(1) _ k(1) kl, of st] obtain dev1 where
      1: "register_device_turn os ((cb_io, (dev, st), f), timeout) = (Inr None, ((polled 0 POLLOUT (asks ?b cb_io), (dev1, st), f2), - 1))"
        "device_wf dev1" "cb_list (in_buf (dev_asc dev1)) = []" "cb_list (out_buf (dev_asc dev1)) = drop (unat k) (cb_list ?b)" by auto
    have lt: "length (cb_list (out_buf (dev_asc dev1))) < length (cb_list ?b)"
      unfolding 1(4) using k(2) False length_greater_0_conv [of "cb_list ?b"] by (simp del: length_cb_list cb_list_Nil_iff)
    have "written f2 @ cb_list (out_buf (dev_asc dev1)) = written f @ cb_list ?b"
      unfolding 1(4) k(5) f1(3) using kl by (simp add: min_absorb1)
    moreover from less.hyps [OF lt, of "polled 0 POLLOUT (asks ?b cb_io)" f2 "- 1"] less.prems(1-3) 1(2,3) k(4)
    obtain n cb_io' dev' f' t' where "n \<le> length (cb_list (out_buf (dev_asc dev1)))"
      "loop_turns (register_device_turn os) n ((polled 0 POLLOUT (asks ?b cb_io), (dev1, st), f2), - 1) = (Inr None, ((cb_io', (dev', st), f'), t'))"
      "cb_list (out_buf (dev_asc dev')) = []" "written f' = written f2 @ cb_list (out_buf (dev_asc dev1))"
      by auto
    ultimately show ?thesis using 1(1) lt by (intro exI [of _ "Suc n"]) auto
  qed
qed

section \<open>The loopback device\<close>

lemma lb_ptrs [simp]:
  "fst lb_in_ptr m = in_buf (lb_asc m)" "fst lb_out_ptr m = out_buf (lb_asc m)" "fst lb_raw_ptr m = lb_buffer m"
  "snd lb_in_ptr cb m = m\<lparr>lb_asc := (lb_asc m)\<lparr>in_buf := cb\<rparr>\<rparr>" "snd lb_raw_ptr cb m = m\<lparr>lb_buffer := cb\<rparr>"
  "snd lb_out_ptr cb m = m\<lparr>lb_asc := (lb_asc m)\<lparr>out_buf := cb\<rparr>\<rparr>"
  by (simp_all add: lb_in_ptr_def lb_out_ptr_def lb_raw_ptr_def ascii_serial_com_get_input_buffer_def
    ascii_serial_com_get_output_buffer_def)

definition lb_wf :: "loopback \<Rightarrow> bool" where
  "lb_wf m \<longleftrightarrow> asc_wf (lb_asc m) \<and> \<not> ignoreCRCMismatch (lb_asc m) \<and> length (msg_data (lb_msg m)) = 54
     \<and> cb_wf (lb_buffer m) \<and> cb_cap (lb_buffer m) = 64"

text \<open>A frame at the front of the input comes back in the output.\<close>

lemma loopback_echoes:
  assumes wf: "lb_wf m" and idle: "cb_list (out_buf (lb_asc m)) = []" and pl: "plain ([v, ap, c] @ d)" and len: "length d \<le> 54"
    and c: "c \<noteq> 0" and inp: "cb_list (in_buf (lb_asc m)) = noise @ frame v ap c d @ rest" "chr_end \<notin> set noise"
  shows "\<exists>m'. loopback_message m = (Inr (), m') \<and> lb_wf m' \<and> cb_list (in_buf (lb_asc m')) = rest
    \<and> cb_list (out_buf (lb_asc m')) = frame v ap c d \<and> rawLoopback m' = rawLoopback m"
proof -
  have r: "receive_frame (cb_list (in_buf (fst (lb_asc m, lb_msg m)))) = (Message v ap c d, rest)"
    using receive_sent_frame [OF pl len inp(2), of rest] inp(1) by simp
  from get_message_refines [OF _ _ _ r] wf
  obtain a g where g: "ascii_serial_com_get_message_from_input_buffer (lb_asc m, lb_msg m) = (Inr (), a, g)"
    and a: "in_content (lb_asc m) 64 rest a" and gm: "g = stored_message v ap c d (lb_msg m)"
    by (cases "ascii_serial_com_get_message_from_input_buffer (lb_asc m, lb_msg m)")
      (auto simp: lb_wf_def asc_wf_def rx_yields_def)
  note A = in_contentD [OF a]
  have sel: "msg_ascVersion g = v" "msg_appVersion g = ap" "msg_command g = c" "unat (msg_dataLen g) = length d"
      "take (length d) (msg_data g) = d" "length (msg_data g) = 54"
    using stored_message_sel [OF len, of "lb_msg m" v ap c] wf by (auto simp: gm lb_wf_def)
  have aw: "asc_wf a" using wf A by (simp add: lb_wf_def asc_wf_def)
  have "\<exists>a'. ascii_serial_com_put_message_in_output_buffer a v ap c (msg_data g) (msg_dataLen g) = (Inr (), a')
      \<and> out_content a (frame v ap c d) a'"
    by (rule send_reply [OF aw]) (use A idle sel len pl in \<open>auto simp: plain_def\<close>)
  then obtain a' where p: "ascii_serial_com_put_message_in_output_buffer a v ap c (msg_data g) (msg_dataLen g) = (Inr (), a')"
      and o: "out_content a (frame v ap c d) a'" by blast
  note O = out_contentD [OF o]
  have "loopback_message m = (Inr (), m\<lparr>lb_asc := a', lb_msg := g\<rparr>)"
    using g p sel c by (simp add: loopback_message_def zoom_def)
  then show ?thesis using wf aw O A sel by (auto simp: lb_wf_def asc_wf_def)
qed

text \<open>A line that makes \<^verbatim>\<open>get_message\<close> throw is still there afterwards, and the turn ends before the output.\<close>

lemma loopback_blocked:
  assumes io: "io_in_buf cb_io = lb_in_ptr" "io_out_buf cb_io = lb_out_ptr" and raw: "\<not> rawLoopback m" and wf: "lb_wf m"
    and inp: "cb_list (in_buf (lb_asc m)) = chr_start # p @ chr_period # chr_end # zs" and p: "plain p" "length p < 3"
    and poll: "posix_poll os (io_fds (asks (out_buf (lb_asc m)) cb_io)) timeout f = (rdy, (0, out), f1)" "0 \<le> rdy" "out = 0 \<or> out = POLLOUT"
  shows "\<exists>m'. loopback_device_turn os ((cb_io, m, f), timeout) = (Inr None, ((polled 0 out (asks (out_buf (lb_asc m)) cb_io), m', f1), timeout))
    \<and> cb_list (in_buf (lb_asc m')) = cb_list (in_buf (lb_asc m)) \<and> out_buf (lb_asc m') = out_buf (lb_asc m)
    \<and> lb_wf m' \<and> rawLoopback m' = rawLoopback m"
proof -
  let ?io = "polled 0 out (asks (out_buf (lb_asc m)) cb_io)"
  have "posix_poll os (io_fds (asks (fst (io_out_buf cb_io) m) cb_io)) timeout f = (rdy, (0, out), f1)"
    using poll(1) io by simp
  from do_poll_ok [OF this poll(2) _ poll(3)]
  have 1: "circular_buffer_io_fd_poll_do_poll os timeout (cb_io, m, f) = (0, (?io, m, f1))" using io by simp
  have r: "receive_frame (cb_list (in_buf (fst (lb_asc m, lb_msg m)))) =
      (Rx_Error ASC_ERROR_INVALID_FRAME_PERIOD, cb_list (in_buf (lb_asc m)))"
    using receive_short_frame [of p zs] p inp by simp
  have wf': "cb_wf (in_buf (lb_asc m))" "cb_cap (in_buf (lb_asc m)) = 64" "\<not> ignoreCRCMismatch (lb_asc m)" "length (msg_data (lb_msg m)) = 54"
    using wf by (auto simp: lb_wf_def asc_wf_def)
  from get_message_refines [OF _ _ _ r] wf'
  obtain a g where g: "ascii_serial_com_get_message_from_input_buffer (lb_asc m, lb_msg m) = (Inl (Throw ASC_ERROR_INVALID_FRAME_PERIOD), a, g)"
    and a: "in_content (lb_asc m) 64 (cb_list (in_buf (lb_asc m))) a"
    by (cases "ascii_serial_com_get_message_from_input_buffer (lb_asc m, lb_msg m)") (auto simp: rx_yields_def)
  have gl: "length (msg_data g) = 54"
    using get_message_keeps_wf [of "lb_asc m" "lb_msg m"] g wf by (simp add: lb_wf_def)
  note A = in_contentD [OF a]
  have "loopback_message m = (Inl (Throw ASC_ERROR_INVALID_FRAME_PERIOD), m\<lparr>lb_asc := a, lb_msg := g\<rparr>)"
    using g by (simp add: loopback_message_def zoom_def)
  then have "loopback_device_turn os ((cb_io, m, f), timeout) = (Inr None, ((?io, m\<lparr>lb_asc := a, lb_msg := g\<rparr>, f1), timeout))"
    using 1 raw inp by (simp add: loopback_device_turn_def zoom_fst_apply on_mem_apply do_input_none empty_iff del: cb_list_Nil_iff)
  moreover have "lb_wf (m\<lparr>lb_asc := a, lb_msg := g\<rparr>)" using wf A gl by (simp add: lb_wf_def asc_wf_def)
  ultimately show ?thesis using A by auto
qed

text \<open>
  In raw mode the input goes to the buffer that the output is taken from. Bytes are lost only when it is full: then as
  many of the oldest as were read.
\<close>

lemma push_all_eq:
  assumes "length xs \<le> n" "length xs < n \<Longrightarrow> length xs + length bs \<le> n" "length bs \<le> n"
  shows "drop (length xs + length bs - n) (xs @ bs) = (if length xs < n then xs else drop (length bs) xs) @ bs"
  using assms by (cases "length xs < n") auto

lemma raw_loopback_input:
  assumes io: "io_in_buf cb_io = lb_raw_ptr" and w: "cb_wf (lb_buffer m)" "cb_cap (lb_buffer m) = 64" and i: "inflags cb_io = 0 \<or> inflags cb_io = POLLIN"
    and rd: "if inflags cb_io = 0 then bs = [] \<and> f' = f else
      posix_read os (io_fd_in cb_io) (of_nat (read_room (lb_buffer m))) f = (Some bs, f') \<and> length bs \<le> read_room (lb_buffer m)"
  shows "\<exists>n cb. circular_buffer_io_fd_poll_do_input os (cb_io, m, f) = (Inr n, (cb_io, m\<lparr>lb_buffer := cb\<rparr>, f')) \<and> cb_wf cb \<and> cb_cap cb = 64
    \<and> cb_list cb = (if length (cb_list (lb_buffer m)) < 64 then cb_list (lb_buffer m) else drop (length bs) (cb_list (lb_buffer m))) @ bs"
proof (cases "inflags cb_io = 0")
  case True
  then show ?thesis using rd w by (intro exI [of _ 0] exI [of _ "lb_buffer m"]) (simp add: do_input_none)
next
  case False
  let ?held = "cb_list (lb_buffer m)"
  from do_input_reads [of cb_io m os f bs f'] io rd w i False
  obtain cb where "circular_buffer_io_fd_poll_do_input os (cb_io, m, f) = (Inr (of_nat (length bs)), (cb_io, m\<lparr>lb_buffer := cb\<rparr>, f'))"
    "cb_wf cb" "cb_cap cb = 64" "cb_list cb = drop (length ?held + length bs - 64) (?held @ bs)" by auto
  moreover have "drop (length ?held + length bs - 64) (?held @ bs) = (if length ?held < 64 then ?held else drop (length bs) ?held) @ bs"
  proof (rule push_all_eq)
    show "length ?held \<le> 64" using cb_wf_size [OF w(1)] w(2) by simp
    show "length ?held + length bs \<le> 64" if "length ?held < 64" using read_room_free [OF w(1)] that rd False w(2) by simp
    show "length bs \<le> 64" using read_room_eq(2) [OF w(1)] rd False w(2) by simp
  qed
  ultimately show ?thesis by auto
qed

lemma raw_loopback_output:
  assumes io: "io_out_buf cb_io = lb_raw_ptr" and w: "cb_wf (lb_buffer m)" "cb_cap (lb_buffer m) = 64" and out: "outflags cb_io = 0 \<or> outflags cb_io = POLLOUT"
    and wr: "\<And>offered. \<exists>k f'. posix_write os (io_fd_out cb_io) offered f = (Some k, f') \<and> unat k \<le> length offered
      \<and> written f' = written f @ take (unat k) offered"
  shows "\<exists>n cb f'. circular_buffer_io_fd_poll_do_output os (cb_io, m, f) = (Inr n, (cb_io, m\<lparr>lb_buffer := cb\<rparr>, f')) \<and> cb_wf cb \<and> cb_cap cb = 64
    \<and> written f' @ cb_list cb = written f @ cb_list (lb_buffer m)"
proof (cases "outflags cb_io = 0")
  case True
  then show ?thesis using w by (intro exI [of _ 0] exI [of _ "lb_buffer m"] exI [of _ f]) (simp add: do_output_none)
next
  case False
  let ?b = "lb_buffer m"
  obtain k f' where k: "posix_write os (io_fd_out cb_io) (take (first_block_len ?b) (cb_list ?b)) f = (Some k, f')"
    "unat k \<le> length (take (first_block_len ?b) (cb_list ?b))" "written f' = written f @ take (unat k) (take (first_block_len ?b) (cb_list ?b))"
    using wr by blast
  have kl: "unat k \<le> first_block_len ?b" using k(2) by simp
  with do_output_writes [of cb_io m os f k f'] io k(1) w out False
  obtain cb where "circular_buffer_io_fd_poll_do_output os (cb_io, m, f) = (Inr k, (cb_io, m\<lparr>lb_buffer := cb\<rparr>, f'))"
    "cb_wf cb" "cb_cap cb = 64" "cb_list cb = drop (unat k) (cb_list ?b)" by auto
  moreover have "written f' @ drop (unat k) (cb_list ?b) = written f @ cb_list ?b"
    unfolding k(3) using kl by (simp add: min_absorb1)
  ultimately show ?thesis by auto
qed

lemma raw_loopback_turn:
  assumes io: "io_in_buf cb_io = lb_raw_ptr" "io_out_buf cb_io = lb_raw_ptr" and raw: "rawLoopback m" and wf: "lb_wf m"
    and poll: "posix_poll os (io_fds (asks (lb_buffer m) cb_io)) timeout f = (rdy, (i, out), f1)" "0 \<le> rdy"
      "i = 0 \<or> i = POLLIN" "out = 0 \<or> out = POLLOUT"
    and rd: "if i = 0 then bs = [] \<and> f2 = f1 else
      posix_read os (io_fd_in cb_io) (of_nat (read_room (lb_buffer m))) f1 = (Some bs, f2) \<and> length bs \<le> read_room (lb_buffer m)"
    and wr: "\<And>offered. \<exists>k f3. posix_write os (io_fd_out cb_io) offered f2 = (Some k, f3) \<and> unat k \<le> length offered
      \<and> written f3 = written f2 @ take (unat k) offered"
  shows "\<exists>m' f3. loopback_device_turn os ((cb_io, m, f), timeout) =
      (Inr None, ((polled i out (asks (lb_buffer m) cb_io), m', f3), - 1)) \<and> lb_wf m' \<and> rawLoopback m'
    \<and> written f3 @ cb_list (lb_buffer m') =
      written f2 @ (if length (cb_list (lb_buffer m)) < 64 then cb_list (lb_buffer m) else drop (length bs) (cb_list (lb_buffer m))) @ bs"
proof -
  let ?io = "polled i out (asks (lb_buffer m) cb_io)"
  have w: "cb_wf (lb_buffer m)" "cb_cap (lb_buffer m) = 64" using wf by (simp_all add: lb_wf_def)
  have "posix_poll os (io_fds (asks (fst (io_out_buf cb_io) m) cb_io)) timeout f = (rdy, (i, out), f1)"
    using poll(1) io by simp
  from do_poll_ok [OF this poll(2-4)]
  have 1: "circular_buffer_io_fd_poll_do_poll os timeout (cb_io, m, f) = (0, (?io, m, f1))" using io by simp
  from raw_loopback_input [of ?io m bs f2 f1 os] io w poll(3) rd obtain n cb where
    2: "circular_buffer_io_fd_poll_do_input os (?io, m, f1) = (Inr n, (?io, m\<lparr>lb_buffer := cb\<rparr>, f2))" "cb_wf cb" "cb_cap cb = 64"
      "cb_list cb = (if length (cb_list (lb_buffer m)) < 64 then cb_list (lb_buffer m) else drop (length bs) (cb_list (lb_buffer m))) @ bs"
    by auto
  from raw_loopback_output [of ?io "m\<lparr>lb_buffer := cb\<rparr>" os f2 written] io 2(2,3) poll(4) wr obtain n' cb' f3 where
    3: "circular_buffer_io_fd_poll_do_output os (?io, m\<lparr>lb_buffer := cb\<rparr>, f2) = (Inr n', (?io, m\<lparr>lb_buffer := cb'\<rparr>, f3))"
      "cb_wf cb'" "cb_cap cb' = 64" "written f3 @ cb_list cb' = written f2 @ cb_list cb" by auto
  have "loopback_device_turn os ((cb_io, m, f), timeout) = (Inr None, ((?io, m\<lparr>lb_buffer := cb'\<rparr>, f3), - 1))"
    using 1 2(1) 3(1) raw by (simp add: loopback_device_turn_def zoom_fst_apply on_mem_apply)
  moreover have "lb_wf (m\<lparr>lb_buffer := cb'\<rparr>)" using wf 3(2,3) by (simp add: lb_wf_def)
  ultimately show ?thesis using raw 3(4) 2(4) by (intro exI [of _ "m\<lparr>lb_buffer := cb'\<rparr>"] exI [of _ f3]) simp
qed

section \<open>The profiler\<close>

text \<open>Moving \<open>k\<close> bytes from the output to the input.\<close>

lemma transfer_loop:
  assumes "asc_wf a" "k \<le> length (cb_list (out_buf a))" "length (cb_list (in_buf a)) + k \<le> 64"
  shows "\<exists>a'. for_each (\<lambda>_ a. bind_res (with_out_buf circular_buffer_pop_front_uint8 a) (\<lambda>b a.
        with_in_buf (\<lambda>cb. circular_buffer_push_back_uint8 cb b) a)) [0..<k] a = (Inr (), a')
    \<and> asc_wf a' \<and> cb_list (out_buf a') = drop k (cb_list (out_buf a))
    \<and> cb_list (in_buf a') = cb_list (in_buf a) @ take k (cb_list (out_buf a)) \<and> ignoreCRCMismatch a' = ignoreCRCMismatch a"
  using assms(2,3)
proof (induction k)
  case 0
  then show ?case using assms(1) by simp
next
  case (Suc k)
  let ?f = "\<lambda>_ a. bind_res (with_out_buf circular_buffer_pop_front_uint8 a) (\<lambda>b a.
        with_in_buf (\<lambda>cb. circular_buffer_push_back_uint8 cb b) a)"
  from Suc obtain a1 where a1: "for_each ?f [0..<k] a = (Inr (), a1)" "asc_wf a1" "cb_list (out_buf a1) = drop k (cb_list (out_buf a))"
      "cb_list (in_buf a1) = cb_list (in_buf a) @ take k (cb_list (out_buf a))" "ignoreCRCMismatch a1 = ignoreCRCMismatch a"
    by auto
  let ?x = "cb_list (out_buf a) ! k"
  have x: "cb_list (out_buf a1) = ?x # drop (Suc k) (cb_list (out_buf a))"
    using a1(3) Suc.prems(1) by (simp add: Cons_nth_drop_Suc)
  have "cb_returns (circular_buffer_pop_front_uint8 (out_buf a1)) ?x (cb_cap (out_buf a1)) (drop (Suc k) (cb_list (out_buf a)))"
    by (rule pop_front_returns) (use a1(2) x in \<open>simp_all add: asc_wf_def\<close>)
  then obtain ob where ob: "circular_buffer_pop_front_uint8 (out_buf a1) = (Inr ?x, ob)" "cb_wf ob" "cb_cap ob = 64"
      "cb_list ob = drop (Suc k) (cb_list (out_buf a))"
    using a1(2) by (cases "circular_buffer_pop_front_uint8 (out_buf a1)") (auto simp: cb_returns_def asc_wf_def)
  have l: "length (cb_list (in_buf a1)) < 64" unfolding a1(4) using Suc.prems by simp
  then obtain ib where ib: "circular_buffer_push_back_uint8 (in_buf a1) ?x = (Inr (), ib)" "cb_wf ib" "cb_cap ib = 64"
      "cb_list ib = cb_list (in_buf a1) @ [?x]"
    using push_back_returns [of "in_buf a1" ?x] a1(2)
    by (cases "circular_buffer_push_back_uint8 (in_buf a1) ?x") (auto simp: cb_returns_def asc_wf_def)
  have t: "take (Suc k) (cb_list (out_buf a)) = take k (cb_list (out_buf a)) @ [?x]"
    using Suc.prems(1) by (simp add: take_Suc_conv_app_nth)
  have "for_each ?f [0..<Suc k] a = (Inr (), a1\<lparr>out_buf := ob, in_buf := ib\<rparr>)"
    using a1(1) ob(1) ib(1) by (simp add: for_each_append with_out_buf_def with_in_buf_def zoom_def)
  then show ?case using a1 ob ib by (auto simp: asc_wf_def t)
qed

definition profiler_idle :: "ascii_serial_com \<times> asc_message \<Rightarrow> bool" where
  "profiler_idle s \<longleftrightarrow> asc_wf (fst s) \<and> \<not> ignoreCRCMismatch (fst s) \<and> length (msg_data (snd s)) = 54
     \<and> cb_list (in_buf (fst s)) = [] \<and> cb_list (out_buf (fst s)) = []"

lemma profiler_body_idle:
  assumes "profiler_idle s"
  shows "\<exists>s'. profiler_body s = (Inr (), s') \<and> profiler_idle s' \<and> msg_command (snd s') = chr_z \<and> msg_dataLen (snd s') = 0"
proof -
  obtain a g where s: "s = (a, g)" by (cases s)
  have a: "asc_wf a" "\<not> ignoreCRCMismatch a" "length (msg_data g) = 54" "cb_list (in_buf a) = []" "cb_list (out_buf a) = []"
    using assms by (simp_all add: profiler_idle_def s)
  let ?F = "frame chr_0 chr_0 chr_z []"
  have F: "length ?F = 10" by simp
  have "\<exists>a'. ascii_serial_com_put_message_in_output_buffer a chr_0 chr_0 chr_z [] 0 = (Inr (), a') \<and> out_content a ?F a'"
    by (rule send_reply) (use a in simp_all)
  then obtain a1 where p: "ascii_serial_com_put_message_in_output_buffer a chr_0 chr_0 chr_z [] 0 = (Inr (), a1)" "out_content a ?F a1"
    by blast
  note O = out_contentD [OF p(2)]
  have aw: "asc_wf a1" using a(1) O by (simp add: asc_wf_def)
  have n: "unat (circular_buffer_get_size_uint8 (out_buf a1)) = length ?F"
    using length_cb_list [of "out_buf a1"] unfolding O(3) by (simp add: circular_buffer_get_size_uint8_def)
  have k: "length ?F \<le> length (cb_list (out_buf a1))" unfolding O(3) by simp
  have "length (cb_list (in_buf a1)) + length ?F \<le> 64" unfolding O(5) a(4) by simp
  from transfer_loop [OF aw k this] obtain a2 where t: "for_each (\<lambda>_ a. bind_res (with_out_buf circular_buffer_pop_front_uint8 a) (\<lambda>b a.
        with_in_buf (\<lambda>cb. circular_buffer_push_back_uint8 cb b) a)) [0..<length ?F] a1 = (Inr (), a2)" "asc_wf a2"
      "cb_list (out_buf a2) = []" "cb_list (in_buf a2) = ?F" "\<not> ignoreCRCMismatch a2"
    using a(2) unfolding O(3,5,7) a(4) by auto
  have r: "receive_frame (cb_list (in_buf (fst (a2, g)))) = (Message chr_0 chr_0 chr_z [], [])"
    using receive_sent_frame [of chr_0 chr_0 chr_z "[]" "[]" "[]"] unfolding fst_conv t(4) by simp
  from get_message_refines [OF _ _ _ r] t(2,5) a(3)
  obtain a3 g3 where g: "ascii_serial_com_get_message_from_input_buffer (a2, g) = (Inr (), a3, g3)"
    and a3: "in_content a2 64 [] a3" and g3: "g3 = stored_message chr_0 chr_0 chr_z [] g"
    by (cases "ascii_serial_com_get_message_from_input_buffer (a2, g)") (auto simp: asc_wf_def rx_yields_def)
  note A = in_contentD [OF a3]
  have "profiler_body s = (Inr (), (a3, g3))"
    using p(1) t(1) g n by (simp add: profiler_body_def s zoom_fst_apply ascii_serial_com_get_output_buffer_def)
  moreover have "profiler_idle (a3, g3)"
    using t(2,3,5) A a(3) by (simp add: profiler_idle_def asc_wf_def g3 stored_message_def)
  ultimately show ?thesis by (auto simp: g3 stored_message_def)
qed

lemma profiler_turns:
  "profiler_idle s \<Longrightarrow> \<exists>s'. for_each (\<lambda>_. profiler_turn) xs s = (Inr (), s') \<and> profiler_idle s' \<and> fst (profiler_body s') = Inr ()
    \<and> (xs \<noteq> [] \<longrightarrow> msg_command (snd s') = chr_z)"
proof (induction xs arbitrary: s)
  case (Cons x xs)
  from profiler_body_idle [OF Cons.prems] obtain s1 where
    1: "profiler_turn s = (Inr (), s1)" "profiler_idle s1" "msg_command (snd s1) = chr_z" by (auto simp: profiler_turn_def)
  then show ?case using Cons.IH [OF 1(2)] by (cases xs) auto
qed (auto dest: profiler_body_idle)

lemma profiler_main_ends:
  assumes "length raw_buffer = 128" "length (msg_data g) = 54"
  shows "\<exists>a1 s'. ascii_serial_com_init a raw_buffer = (Inr (), a1)
    \<and> (\<forall>k. fst (profiler_body (snd (for_each (\<lambda>_. profiler_turn) [0..<k] (a1, g)))) = Inr ())
    \<and> profiler_main n raw_buffer (a, g) = (Inr 0, s') \<and> profiler_idle s' \<and> (0 < n \<longrightarrow> msg_command (snd s') = chr_z)"
proof -
  from init_interface [OF assms(1), of a] obtain a1 where i: "ascii_serial_com_init a raw_buffer = (Inr (), a1)" "asc_wf a1"
      "cb_list (in_buf a1) = []" "cb_list (out_buf a1) = []" "\<not> ignoreCRCMismatch a1" by blast
  have "profiler_idle (a1, g)" using i assms(2) by (simp add: profiler_idle_def)
  note t = profiler_turns [OF this]
  have "fst (profiler_body (snd (for_each (\<lambda>_. profiler_turn) [0..<k] (a1, g)))) = Inr ()" for k
    using t [of "[0..<k]"] by auto
  then show ?thesis using i(1) t [of "[0..<n]"] by (auto simp: profiler_main_def zoom_fst_apply)
qed

end
