(* ===== verification/Register_Pointers.thy ===== *)
theory Register_Pointers
  imports Device
begin

text \<open>
  \<^verbatim>\<open>ascii_serial_com_register_pointers.c\<close>: a handler for reads and masked writes of
  registers anywhere in memory. It answers its errors with an error message; only a digit that is not
  hexadecimal is thrown.
\<close>

unbundle bit_operations_syntax

section \<open>The handler\<close>

text \<open>
  A register pointer is an address, or \<open>None\<close> when it is null. The memory it points into is a
  map from addresses to registers; the handler works on its state, \<open>None\<close> when the state
  pointer is null, and on that memory.
\<close>

record 'v ascii_serial_com_register_pointers =
  rp_pointers :: "nat option list"
  rp_write_masks :: "'v list"
  rp_n_regs :: "16 word"

type_synonym 'v reg_memory = "nat \<Rightarrow> 'v option"
type_synonym 'v reg_world = "'v ascii_serial_com_register_pointers option \<times> 'v reg_memory"

definition ascii_serial_com_register_pointers_init ::
  "'v ascii_serial_com_register_pointers \<Rightarrow> nat option list \<Rightarrow> 'v list \<Rightarrow> 16 word \<Rightarrow> 'v ascii_serial_com_register_pointers" where
  "ascii_serial_com_register_pointers_init register_pointers_state pointers write_masks n_regs =
     register_pointers_state\<lparr>rp_pointers := pointers, rp_write_masks := write_masks, rp_n_regs := n_regs\<rparr>"

text \<open>An access through a pointer that is not null.\<close>

definition reg_load :: "nat \<Rightarrow> 'v reg_world \<Rightarrow> ('v, 'v reg_world) res" where
  "reg_load p w = (case snd w p of Some v \<Rightarrow> (Inr v, w) | None \<Rightarrow> (Inl UB, w))"

definition reg_store :: "nat \<Rightarrow> 'v \<Rightarrow> 'v reg_world \<Rightarrow> (unit, 'v reg_world) res" where
  "reg_store p v w = (case snd w p of Some _ \<Rightarrow> (Inr (), (fst w, (snd w)(p \<mapsto> v))) | None \<Rightarrow> (Inl UB, w))"

text \<open>
  The preprocessor fixes the type of the registers: \<open>put_val_into_bytes\<close>,
  \<open>get_val_from_bytes\<close> and \<open>REGWIDTHBYTES\<close> stand for its macros.
\<close>

definition ascii_serial_com_register_pointers_handle_message ::
  "('a::len word \<Rightarrow> nat \<Rightarrow> bool \<Rightarrow> byte list \<Rightarrow> (unit, byte list) res) \<Rightarrow> (byte list \<Rightarrow> nat \<Rightarrow> 'a word exc) \<Rightarrow>
    size_t \<Rightarrow> 'a word reg_world handler" where
  "ascii_serial_com_register_pointers_handle_message put_val_into_bytes get_val_from_bytes REGWIDTHBYTES
     ascVersion appVersion command dataLen s =
     (let put_error = (\<lambda>e s. hs_asc (\<lambda>asc. ascii_serial_com_put_error_in_output_buffer asc ascVersion appVersion
            command (fst (snd s)) dataLen e) s)
      in case fst (snd (snd s)) of None \<Rightarrow> put_error ASC_ERROR_REG_BLOCK_NULL s
      | Some register_pointers_state \<Rightarrow>
        if command \<noteq> chr_r \<and> command \<noteq> chr_w then put_error ASC_ERROR_UNEXPECTED_COMMAND s
        else if dataLen < 4 then put_error ASC_ERROR_DATA_TOO_SHORT s
        else bind_res (convert_hex_to_uint16 (fst (snd s)) 0, s) (\<lambda>reg_num s.
          if reg_num \<ge> rp_n_regs register_pointers_state then put_error ASC_ERROR_REGNUM_OOB s
          else bind_res (load (rp_pointers register_pointers_state) (unat reg_num), s) (\<lambda>pointer s.
          if command = chr_r then
            bind_res (case pointer of None \<Rightarrow> (Inr 0, s) | Some p \<Rightarrow> hs_mem (reg_load p) s) (\<lambda>reg_val s.
            bind_res (hs_data (store 4 chr_comma) s) (\<lambda>_ s.
            bind_res (hs_data (put_val_into_bytes reg_val 5 True) s) (\<lambda>_ s.
              hs_asc (\<lambda>asc. ascii_serial_com_put_message_in_output_buffer asc ascVersion appVersion
                command (fst (snd s)) (5 + REGWIDTHBYTES * 2)) s)))
          else if dataLen < 5 + REGWIDTHBYTES then put_error ASC_ERROR_REGVAL_LEN s
          else
            bind_res
              (case pointer of None \<Rightarrow> (Inr (), s)
               | Some p \<Rightarrow>
                 bind_res (get_val_from_bytes (fst (snd s)) 5, s) (\<lambda>new_reg_val s.
                 bind_res (load (rp_write_masks register_pointers_state) (unat reg_num), s) (\<lambda>mask s.
                 bind_res (hs_mem (reg_load p) s) (\<lambda>old s.
                   hs_mem (reg_store p ((new_reg_val AND mask) OR (old AND NOT mask))) s)))) (\<lambda>_ s.
              hs_asc (\<lambda>asc. ascii_serial_com_put_message_in_output_buffer asc ascVersion appVersion
                command (fst (snd s)) 4) s))))"

text \<open>The two builds: 8-bit registers on AVR, 32-bit registers elsewhere.\<close>

definition handle_message_avr :: "byte reg_world handler" where
  "handle_message_avr = ascii_serial_com_register_pointers_handle_message convert_uint8_to_hex (\<lambda>b p. convert_hex_to_uint8 b p) 1"

definition handle_message_32 :: "32 word reg_world handler" where
  "handle_message_32 = ascii_serial_com_register_pointers_handle_message convert_uint32_to_hex convert_hex_to_uint32 4"

section \<open>The reply\<close>

text \<open>A null pointer reads as 0; a write through it is answered and changes nothing.\<close>

definition reg_value :: "'v reg_memory \<Rightarrow> nat option \<Rightarrow> 'v::zero" where
  "reg_value mem p = (case p of None \<Rightarrow> 0 | Some a \<Rightarrow> (case mem a of None \<Rightarrow> 0 | Some v \<Rightarrow> v))"

definition masked :: "'a::len word \<Rightarrow> 'a word \<Rightarrow> 'a word \<Rightarrow> 'a word" where
  "masked m new old = (new AND m) OR (old AND NOT m)"

definition rp_respond :: "(byte list \<Rightarrow> nat \<Rightarrow> 'a word exc) \<Rightarrow> (bool \<Rightarrow> 'a word \<Rightarrow> byte list) \<Rightarrow> size_t \<Rightarrow>
    byte \<Rightarrow> size_t \<Rightarrow> byte list \<Rightarrow> 'a::len word reg_world \<Rightarrow> reply \<times> 'a word reg_world" where
  "rp_respond get digits bytes c n d w =
     (let error = (\<lambda>e. (Reply chr_e (error_data c (take (unat n) d) e), w)) in
      case fst w of None \<Rightarrow> error ASC_ERROR_REG_BLOCK_NULL
      | Some rp \<Rightarrow>
        if c \<noteq> chr_r \<and> c \<noteq> chr_w then error ASC_ERROR_UNEXPECTED_COMMAND
        else if n < 4 then error ASC_ERROR_DATA_TOO_SHORT
        else (case hex_word (take 4 d) of None \<Rightarrow> (Raise ASC_ERROR_NOT_HEX_CHAR, w)
          | Some reg \<Rightarrow>
            let i = unat (reg :: 16 word); p = rp_pointers rp ! i in
            if reg \<ge> rp_n_regs rp then error ASC_ERROR_REGNUM_OOB
            else if c = chr_r then (Reply chr_r (take 4 d @ chr_comma # digits True (reg_value (snd w) p)), w)
            else if n < 5 + bytes then error ASC_ERROR_REGVAL_LEN
            else (case p of None \<Rightarrow> (Reply chr_w (take 4 d), w)
              | Some a \<Rightarrow> (case get d 5 of Inl _ \<Rightarrow> (Raise ASC_ERROR_NOT_HEX_CHAR, w)
                | Inr val \<Rightarrow> (Reply chr_w (take 4 d),
                    (fst w, (snd w)(a \<mapsto> masked (rp_write_masks rp ! i) val (reg_value (snd w) p))))))))"

definition rp_inv :: "'v reg_world \<Rightarrow> bool" where
  "rp_inv w \<longleftrightarrow> (case fst w of None \<Rightarrow> True
     | Some rp \<Rightarrow> unat (rp_n_regs rp) \<le> length (rp_pointers rp) \<and> unat (rp_n_regs rp) \<le> length (rp_write_masks rp)
         \<and> list_all (\<lambda>p. case p of None \<Rightarrow> True | Some a \<Rightarrow> snd w a \<noteq> None) (rp_pointers rp))"

lemma rp_respond_inv: "rp_inv w \<Longrightarrow> rp_inv (snd (rp_respond get digits bytes c n d w))"
  by (auto simp: rp_respond_def rp_inv_def Let_def list_all_iff split: option.splits sum.splits)

lemma rp_inv_reg:
  assumes "rp_inv w" "fst w = Some rp" "reg < rp_n_regs rp"
  shows "unat reg < length (rp_pointers rp)" "unat reg < length (rp_write_masks rp)"
    "\<exists>m. rp_pointers rp ! unat reg = None \<or> (\<exists>p. rp_pointers rp ! unat reg = Some p \<and> snd w p = Some m)"
proof -
  show i: "unat reg < length (rp_pointers rp)" "unat reg < length (rp_write_masks rp)"
    using assms by (auto simp: rp_inv_def word_less_nat_alt)
  have "case rp_pointers rp ! unat reg of None \<Rightarrow> True | Some a \<Rightarrow> snd w a \<noteq> None"
  proof (rule bspec [OF _ nth_mem [OF i(1)]])
    show "\<forall>q \<in> set (rp_pointers rp). case q of None \<Rightarrow> True | Some a \<Rightarrow> snd w a \<noteq> None"
      using assms(1,2) by (simp add: rp_inv_def list_all_iff del: not_None_eq)
  qed
  then show "\<exists>m. rp_pointers rp ! unat reg = None \<or> (\<exists>p. rp_pointers rp ! unat reg = Some p \<and> snd w p = Some m)"
    by (cases "rp_pointers rp ! unat reg") auto
qed

text \<open>
  One proof for both widths: the registers are read and written through a pair of conversions whose
  digits are the width of a register.
\<close>

locale register_codec = hex_codec put get digits width
  for put :: "'a::len word \<Rightarrow> nat \<Rightarrow> bool \<Rightarrow> byte list \<Rightarrow> (unit, byte list) res"
    and get :: "byte list \<Rightarrow> nat \<Rightarrow> 'a word exc" and digits :: "bool \<Rightarrow> 'a word \<Rightarrow> byte list" and width :: nat +
  fixes bytes :: size_t
  assumes width_bytes: "width = 2 * unat bytes" and bytes_le: "unat bytes \<le> 4"
    and digits_start: "chr_start \<notin> set (digits caps x)"
begin

abbreviation handler :: "'a word reg_world handler" where
  "handler \<equiv> ascii_serial_com_register_pointers_handle_message put get bytes"

lemma length_reply: "unat (5 + bytes * 2) = 5 + width" "unat (5 + bytes) = 5 + unat bytes"
proof -
  have "5 + bytes * 2 = of_nat (5 + width)" "5 + bytes = of_nat (5 + unat bytes)" by (simp_all add: width_bytes)
  then show "unat (5 + bytes * 2) = 5 + width" "unat (5 + bytes) = 5 + unat bytes"
    using bytes_le width_bytes by (simp_all only: unat_of_nat_64)
qed

lemma answered_error:
  assumes "asc_wf a" "cb_list (out_buf a) = []" "length d = 54" "unat n \<le> 54"
    and "chr_start \<notin> set ([v, ap, c] @ take (unat n) d)"
  shows "answered a v ap (Reply chr_e (error_data c (take (unat n) d) e), w)
    (hs_asc (\<lambda>asc. ascii_serial_com_put_error_in_output_buffer asc v ap c d n e) (a, d, w))"
  using error_sent [OF assms, of e] assms(3) by (auto simp: answered_def)

lemma answered_throw:
  "asc_wf a \<Longrightarrow> cb_list (out_buf a) = [] \<Longrightarrow> length d = 54 \<Longrightarrow> answered a v ap (Raise e, w) (Inl (Throw e), (a, d, w))"
  by (metis (no_types, lifting) answered_def asc_wf_def fst_conv out_content_self reply_bytes.simps(3) reply_result.simps(1) snd_conv)

lemma read_answered:
  assumes a: "asc_wf a" "cb_list (out_buf a) = []" "length d = 54" "unat (n :: size_t) \<le> 54" "4 \<le> n"
    and st: "chr_start \<notin> set ([v, ap, chr_r] @ take (unat n) d)"
  shows "answered a v ap (Reply chr_r (take 4 d @ chr_comma # digits True x), w)
    (hs_asc (\<lambda>asc. ascii_serial_com_put_message_in_output_buffer asc v ap chr_r
       (mem_put 5 (digits True x) (d[4 := chr_comma])) (5 + bytes * 2)) (a, mem_put 5 (digits True x) (d[4 := chr_comma]), w))"
proof -
  have "\<exists>a'. ascii_serial_com_put_message_in_output_buffer a v ap chr_r (mem_put 5 (digits True x) (d[4 := chr_comma])) (5 + bytes * 2) = (Inr (), a')
      \<and> out_content a (frame v ap chr_r (take 4 d @ chr_comma # digits True x)) a'"
    by (rule reply_sent [OF a st])
      (use reply_data [OF a(3), of "digits True x" chr_comma] digits_start width_bytes bytes_le length_reply a(3) in auto)
  then show ?thesis using a(3) width_bytes bytes_le by (auto simp: answered_def)
qed

lemma write_answered:
  assumes a: "asc_wf a" "cb_list (out_buf a) = []" "length d = 54" "unat (n :: size_t) \<le> 54" "4 \<le> n"
    and st: "chr_start \<notin> set ([v, ap, chr_w] @ take (unat n) d)"
  shows "answered a v ap (Reply chr_w (take 4 d), w)
    (hs_asc (\<lambda>asc. ascii_serial_com_put_message_in_output_buffer asc v ap chr_w d 4) (a, d, w))"
proof -
  have "\<exists>a'. ascii_serial_com_put_message_in_output_buffer a v ap chr_w d 4 = (Inr (), a')
      \<and> out_content a (frame v ap chr_w (take 4 d @ [])) a'"
    by (rule reply_sent [OF a st]) (use a(3) in auto)
  then show ?thesis using a(3) by (auto simp: answered_def)
qed

lemma handler_read:
  assumes rp: "fst w = Some rp" and reg: "hex_word (take 4 d) = Some reg" "reg < rp_n_regs rp" and n: "4 \<le> n"
    and valid: "unat reg < length (rp_pointers rp)" "unat reg < length (rp_write_masks rp)"
      "\<exists>m. rp_pointers rp ! unat reg = None \<or> (\<exists>p. rp_pointers rp ! unat reg = Some p \<and> snd w p = Some m)"
    and a: "asc_wf a" "cb_list (out_buf a) = []" "length d = 54" "unat n \<le> 54"
    and st: "chr_start \<notin> set ([v, ap, chr_r] @ take (unat n) d)"
  shows "answered a v ap (rp_respond get digits bytes chr_r n d w) (handler v ap chr_r n (a, d, w))"
proof -
  note n' = n [folded not_less] and reg' = reg(1) reg(2) [folded not_le]
  let ?x = "reg_value (snd w) (rp_pointers rp ! unat reg)"
  have "rp_respond get digits bytes chr_r n d w = (Reply chr_r (take 4 d @ chr_comma # digits True ?x), w)"
    using rp reg' n' by (simp add: rp_respond_def Let_def)
  moreover have "handler v ap chr_r n (a, d, w) = hs_asc (\<lambda>asc. ascii_serial_com_put_message_in_output_buffer asc v ap chr_r
      (mem_put 5 (digits True ?x) (d[4 := chr_comma])) (5 + bytes * 2)) (a, mem_put 5 (digits True ?x) (d[4 := chr_comma]), w)"
    using rp reg' n' valid a(3) width_bytes bytes_le
    by (auto simp: ascii_serial_com_register_pointers_handle_message_def Let_def reg_load_def reg_value_def put_digits
      convert_hex_to_uint16_digits)
  ultimately show ?thesis using read_answered [OF a n st] by (simp del: hs_simps)
qed

lemma handler_write:
  assumes rp: "fst w = Some rp" and reg: "hex_word (take 4 d) = Some reg" "reg < rp_n_regs rp" and n: "4 \<le> n"
    and valid: "unat reg < length (rp_pointers rp)" "unat reg < length (rp_write_masks rp)"
      "\<exists>m. rp_pointers rp ! unat reg = None \<or> (\<exists>p. rp_pointers rp ! unat reg = Some p \<and> snd w p = Some m)"
    and a: "asc_wf a" "cb_list (out_buf a) = []" "length d = 54" "unat n \<le> 54"
    and st: "chr_start \<notin> set ([v, ap, chr_w] @ take (unat n) d)"
  shows "answered a v ap (rp_respond get digits bytes chr_w n d w) (handler v ap chr_w n (a, d, w))"
proof (cases "n < 5 + bytes")
  note n' = n [folded not_less] and reg' = reg(1) reg(2) [folded not_le]
  case True
  then show ?thesis using rp reg' n' valid(1) a(3) answered_error [OF a st]
    by (simp add: ascii_serial_com_register_pointers_handle_message_def rp_respond_def Let_def
      convert_hex_to_uint16_digits del: hs_simps)
next
  case len: False
  note n' = n [folded not_less] and reg' = reg(1) reg(2) [folded not_le]
  show ?thesis
  proof (cases "rp_pointers rp ! unat reg")
    case None
    then show ?thesis using rp reg' n' valid(1) a(3) len write_answered [OF a n st]
      by (simp add: ascii_serial_com_register_pointers_handle_message_def rp_respond_def Let_def
        convert_hex_to_uint16_digits del: hs_simps)
  next
    case (Some p)
    then obtain m where m: "snd w p = Some m" using valid(3) by auto
    have "5 + width \<le> length d" using a(3) width_bytes bytes_le by simp
    from get_cases [OF this] show ?thesis
    proof
      assume "get d 5 = Inl (Throw ASC_ERROR_NOT_HEX_CHAR)"
      then show ?thesis using rp reg' n' valid(1) a(3) len Some answered_throw [OF a(1-3)]
        by (simp add: ascii_serial_com_register_pointers_handle_message_def rp_respond_def Let_def
          convert_hex_to_uint16_digits del: hs_simps)
    next
      assume "\<exists>x. get d 5 = Inr x"
      then obtain x where x: "get d 5 = Inr x" ..
      let ?w = "(fst w, (snd w)(p \<mapsto> masked (rp_write_masks rp ! unat reg) x m))"
      have "rp_respond get digits bytes chr_w n d w = (Reply chr_w (take 4 d), ?w)"
        using rp reg' n' len Some x m by (simp add: rp_respond_def Let_def reg_value_def)
      moreover have "handler v ap chr_w n (a, d, w) =
          hs_asc (\<lambda>asc. ascii_serial_com_put_message_in_output_buffer asc v ap chr_w d 4) (a, d, ?w)"
        using rp reg' n' len Some x m valid(1,2) a(3)
        by (simp add: ascii_serial_com_register_pointers_handle_message_def Let_def reg_load_def reg_store_def masked_def
          convert_hex_to_uint16_digits)
      ultimately show ?thesis using write_answered [OF a n st] by (simp del: hs_simps)
    qed
  qed
qed

lemma handler_answers:
  assumes a: "asc_wf a" "cb_list (out_buf a) = []" "length d = 54" "unat n \<le> 54"
    and st: "chr_start \<notin> set ([v, ap, c] @ take (unat n) d)" and inv: "rp_inv w"
  shows "answered a v ap (rp_respond get digits bytes c n d w) (handler v ap c n (a, d, w))"
proof (cases "fst w")
  case None
  then show ?thesis using answered_error [OF a st]
    by (simp add: ascii_serial_com_register_pointers_handle_message_def rp_respond_def Let_def del: hs_simps)
next
  case (Some rp)
  note [simp] = ascii_serial_com_register_pointers_handle_message_def rp_respond_def Let_def Some
    convert_hex_to_uint16_digits a(3)
  show ?thesis
  proof (cases "(c \<noteq> chr_r \<and> c \<noteq> chr_w) \<or> n < 4")
    case True
    then show ?thesis using answered_error [OF a st] by (auto simp del: hs_simps)
  next
    case False
    then have n4: "4 \<le> n" and rw: "c = chr_r \<or> c = chr_w" by auto
    show ?thesis
    proof (cases "hex_word (take 4 d) :: 16 word option")
      case None
      then show ?thesis using False answered_throw [OF a(1-3)] by (auto simp del: hs_simps)
    next
      case reg: (Some reg)
      note [simp] = reg
      show ?thesis
      proof (cases "rp_n_regs rp \<le> reg")
        case True
        then show ?thesis using False answered_error [OF a st] by (auto simp del: hs_simps)
      next
        case in_range: False
        then have "reg < rp_n_regs rp" by simp
        note valid = rp_inv_reg [OF inv Some this]
        show ?thesis
          using rw handler_read [OF Some reg \<open>reg < rp_n_regs rp\<close> n4 valid a] handler_write [OF Some reg \<open>reg < rp_n_regs rp\<close> n4 valid a] st
          by blast
      qed
    qed
  qed
qed

end

lemma hex_digits_start: "chr_start \<notin> set (hex_digits caps n w)"
  using hex_digits_plain(1) by blast

interpretation rp_avr: register_codec convert_uint8_to_hex convert_hex_to_uint8 "\<lambda>caps. hex_digits caps 2" 2 1
  by unfold_locales (simp_all add: hex_digits_start)

interpretation rp_32: register_codec convert_uint32_to_hex convert_hex_to_uint32 "\<lambda>caps. hex_digits caps 8" 8 4
  by unfold_locales (simp_all add: hex_digits_start)

interpretation rp_avr_handler: device_handler handle_message_avr rp_inv "rp_respond convert_hex_to_uint8 (\<lambda>caps. hex_digits caps 2) 1"
  by unfold_locales (use rp_avr.handler_answers in \<open>auto simp: answered_def handle_message_avr_def rp_respond_inv\<close>)

interpretation rp_32_handler: device_handler handle_message_32 rp_inv "rp_respond convert_hex_to_uint32 (\<lambda>caps. hex_digits caps 8) 4"
  by unfold_locales (use rp_32.handler_answers in \<open>auto simp: answered_def handle_message_32_def rp_respond_inv\<close>)

section \<open>The 32-bit registers\<close>

lemma bit_masked: "bit (masked m new old) n \<longleftrightarrow> (if bit m n then bit new n else bit old n)" if "n < LENGTH('a)"
  for m new old :: "'a::len word"
  using that by (auto simp: masked_def bit_simps)

lemma rp32_respond_write:
  assumes "fst w = Some rp" "reg < rp_n_regs rp" "rp_pointers rp ! unat reg = Some p" "snd w p = Some old" "length mem = 54"
  shows "rp_respond convert_hex_to_uint32 (\<lambda>caps. hex_digits caps 8) 4 chr_w
      (of_nat (length (hex_digits caps 4 reg @ x # hex_digits caps' 8 val)))
      (mem_put 0 (hex_digits caps 4 reg @ x # hex_digits caps' 8 val) mem) w =
    (Reply chr_w (hex_digits caps 4 reg), (fst w, (snd w)(p \<mapsto> masked (rp_write_masks rp ! unat reg) val old)))"
  using assms
  by (simp add: rp_respond_def Let_def take_mem_put_0 drop_mem_put_0 hex_word_16 hex_word_32 not_le reg_value_def
    convert_hex_to_uint32_digits)

lemma rp32_respond_read:
  assumes "fst w = Some rp" "reg < rp_n_regs rp"
  shows "rp_respond convert_hex_to_uint32 (\<lambda>caps. hex_digits caps 8) 4 chr_r
      (of_nat (length (hex_digits caps 4 reg))) (mem_put 0 (hex_digits caps 4 reg) mem) w =
    (Reply chr_r (hex_digits caps 4 reg @ chr_comma # hex_digits True 8 (reg_value (snd w) (rp_pointers rp ! unat reg))), w)"
  using assms by (simp add: rp_respond_def Let_def take_mem_put_0 hex_word_16 not_le)

end
