(* ===== verification/Asc_Helpers.thy ===== *)
theory Asc_Helpers
  imports Register_Pointers
begin

text \<open>
  \<^verbatim>\<open>asc_helpers.h\<close>: the macros that the firmware is made of. They move bytes
  between a UART and circular buffers, and make a polling loop out of a device with register pointers.
\<close>

section \<open>UART\<close>

text \<open>
  What the macros see of a UART: whether a received byte waits and which, whether the data register can
  be written, and the bytes written so far. Reading the byte takes it, writing makes the data register
  busy; it becomes ready again, and bytes arrive, at the will of the hardware.
\<close>

record uart =
  rx_waiting :: bool
  rx_data :: byte
  tx_ready :: bool
  tx_sent :: "byte list"

definition is_uart_rx_data_waiting :: "uart \<Rightarrow> bool" where
  "is_uart_rx_data_waiting u = rx_waiting u"

definition is_uart_ready_to_tx :: "uart \<Rightarrow> bool" where
  "is_uart_ready_to_tx u = tx_ready u"

definition uart_rx :: "uart \<Rightarrow> byte \<times> uart" where
  "uart_rx u = (rx_data u, u\<lparr>rx_waiting := False\<rparr>)"

definition uart_tx :: "byte \<Rightarrow> uart \<Rightarrow> uart" where
  "uart_tx b u = u\<lparr>tx_sent := tx_sent u @ [b], tx_ready := False\<rparr>"

text \<open>A blocking macro polls; the list holds the states of the UART that it finds, \<open>None\<close> when it never stops.\<close>

fun uart_rx_blocking :: "uart list \<Rightarrow> (byte \<times> uart) option" where
  "uart_rx_blocking [] = None"
| "uart_rx_blocking (u # us) = (if is_uart_rx_data_waiting u then Some (uart_rx u) else uart_rx_blocking us)"

fun uart_tx_blocking :: "byte \<Rightarrow> uart list \<Rightarrow> uart option" where
  "uart_tx_blocking b [] = None"
| "uart_tx_blocking b (u # us) = (if is_uart_ready_to_tx u then Some (uart_tx b u) else uart_tx_blocking b us)"

definition uart_rx_to_circ_buf :: "uart \<times> circular_buffer_uint8 \<Rightarrow> (unit, uart \<times> circular_buffer_uint8) res" where
  "uart_rx_to_circ_buf s =
     (if is_uart_rx_data_waiting (fst s) then
        case uart_rx (fst s) of (ASC_HELPERS_BYTE, u) \<Rightarrow>
          zoom snd (\<lambda>cb s. (fst s, cb)) (\<lambda>cb. circular_buffer_push_back_uint8 cb ASC_HELPERS_BYTE) (u, snd s)
      else (Inr (), s))"

definition uart_tx_from_circ_buf :: "uart \<times> circular_buffer_uint8 \<Rightarrow> (unit, uart \<times> circular_buffer_uint8) res" where
  "uart_tx_from_circ_buf s =
     (if is_uart_ready_to_tx (fst s) \<and> \<not> circular_buffer_is_empty_uint8 (snd s) then
        bind_res (zoom snd (\<lambda>cb s. (fst s, cb)) circular_buffer_pop_front_uint8 s) (\<lambda>b s.
          (Inr (), (uart_tx b (fst s), snd s)))
      else (Inr (), s))"

section \<open>A device with register pointers\<close>

abbreviation extraInputBuffer_size :: size_t where "extraInputBuffer_size \<equiv> 64"

text \<open>
  The variables of the firmware; \<open>'w\<close> is the memory that the handlers work on. The device with
  register pointers has the registers and \<open>streaming_is_on\<close> there.
\<close>

record 'w firmware =
  fw_uart :: uart
  extraInputBuffer :: circular_buffer_uint8
  ascd :: "'w ascii_serial_com_device"
  fw_mem :: 'w

type_synonym 'v rp_world = "'v reg_world \<times> bool"

definition handle_nf_messages :: "'v rp_world handler" where
  "handle_nf_messages ascVersion appVersion command dataLen s =
     (Inr (), (fst s, fst (snd s),
       (fst (snd (snd s)),
        if command = chr_n then True else if command = chr_f then False else snd (snd (snd s)))))"

text \<open>A handler on the first part of the memory.\<close>

definition handle_fst :: "'v handler \<Rightarrow> ('v \<times> 'x) handler" where
  "handle_fst h v ap c n s =
     (case h v ap c n (fst s, fst (snd s), fst (snd (snd s))) of
        (r, (a, d, w)) \<Rightarrow> (r, (a, d, (w, snd (snd (snd s))))))"

definition rp_config :: "'v reg_world handler \<Rightarrow> 'v rp_world ascii_serial_com_device_config" where
  "rp_config handle_message = \<lparr>func_rw = Some (handle_fst handle_message), func_s = None, func_nf = Some handle_nf_messages\<rparr>"

definition on_extra :: "(circular_buffer_uint8 \<Rightarrow> ('a, circular_buffer_uint8) res) \<Rightarrow> 'w firmware \<Rightarrow> ('a, 'w firmware) res" where
  "on_extra = zoom extraInputBuffer (\<lambda>cb fw. fw\<lparr>extraInputBuffer := cb\<rparr>)"

definition on_device :: "('w dev_state \<Rightarrow> ('a, 'w dev_state) res) \<Rightarrow> 'w firmware \<Rightarrow> ('a, 'w firmware) res" where
  "on_device = zoom (\<lambda>fw. (ascd fw, fw_mem fw)) (\<lambda>(d, w) fw. fw\<lparr>ascd := d, fw_mem := w\<rparr>)"

definition on_tx :: "(uart \<times> circular_buffer_uint8 \<Rightarrow> ('a, uart \<times> circular_buffer_uint8) res) \<Rightarrow> 'w firmware \<Rightarrow> ('a, 'w firmware) res" where
  "on_tx = zoom (\<lambda>fw. (fw_uart fw, ascii_serial_com_device_get_output_buffer (ascd fw)))
     (\<lambda>(u, cb) fw. fw\<lparr>fw_uart := u, ascd := (ascd fw)\<lparr>dev_asc := (dev_asc (ascd fw))\<lparr>out_buf := cb\<rparr>\<rparr>\<rparr>)"

definition SETUP_ASC_DEVICE_W_REGISTER_POINTERS ::
  "'v reg_world handler \<Rightarrow> byte list \<Rightarrow> byte list \<Rightarrow> nat option list \<Rightarrow> 'v list \<Rightarrow> 16 word \<Rightarrow> 'v rp_world firmware \<Rightarrow>
    (unit, 'v rp_world firmware) res" where
  "SETUP_ASC_DEVICE_W_REGISTER_POINTERS handle_message raw_buffer extra_raw register_map register_write_masks nRegs fw =
     (let rp = map_option (\<lambda>rp. ascii_serial_com_register_pointers_init rp register_map register_write_masks nRegs)
            (fst (fst (fw_mem fw)));
          fw = fw\<lparr>fw_mem := ((rp, snd (fst (fw_mem fw))), snd (fw_mem fw))\<rparr> in
      bind_res (on_device (\<lambda>s. ascii_serial_com_device_init s (rp_config handle_message) raw_buffer) fw) (\<lambda>_.
        on_extra (\<lambda>cb. circular_buffer_init_uint8 cb extraInputBuffer_size extra_raw)))"

definition push_input :: "byte \<Rightarrow> 'w firmware \<Rightarrow> (unit, 'w firmware) res" where
  "push_input b = on_device (on_asc (with_in_buf (\<lambda>cb. circular_buffer_push_back_uint8 cb b)))"

definition HANDLE_ASC_COMM_IN_POLLING_LOOP :: "'w firmware \<Rightarrow> (unit, 'w firmware) res" where
  "HANDLE_ASC_COMM_IN_POLLING_LOOP fw =
     bind_res (on_tx uart_tx_from_circ_buf fw) (\<lambda>_ fw.
     bind_res (if \<not> circular_buffer_is_empty_uint8 (extraInputBuffer fw) then
          bind_res (on_extra circular_buffer_pop_front_uint8 fw) (\<lambda>tmp_byte fw. push_input tmp_byte fw)
        else (Inr (), fw)) (\<lambda>_ fw.
       on_device ascii_serial_com_device_receive fw))"

definition READY_TO_STREAM_ASC_DEVICE_W_REGISTER_POINTERS :: "'v rp_world firmware \<Rightarrow> bool" where
  "READY_TO_STREAM_ASC_DEVICE_W_REGISTER_POINTERS fw \<longleftrightarrow>
     snd (fw_mem fw) \<and> circular_buffer_get_size_uint8 (ascii_serial_com_device_get_output_buffer (ascd fw)) = 0"

definition STREAM_TO_HOST_ASC_DEVICE_W_REGISTER_POINTERS :: "byte list \<Rightarrow> size_t \<Rightarrow> 'w firmware \<Rightarrow> (unit, 'w firmware) res" where
  "STREAM_TO_HOST_ASC_DEVICE_W_REGISTER_POINTERS dat data_size =
     on_device (ascii_serial_com_device_put_s_message_in_output_buffer chr_0 chr_0 dat data_size)"

section \<open>One step of the loop\<close>

definition respond_fst :: "(byte \<Rightarrow> size_t \<Rightarrow> byte list \<Rightarrow> 'w \<Rightarrow> reply \<times> 'w) \<Rightarrow>
    byte \<Rightarrow> size_t \<Rightarrow> byte list \<Rightarrow> 'w \<times> 'x \<Rightarrow> reply \<times> 'w \<times> 'x" where
  "respond_fst respond c n d w = (case respond c n d (fst w) of (rp, w') \<Rightarrow> (rp, (w', snd w)))"

context device_handler
begin

lemma handle_fst_handler: "device_handler (handle_fst handle) (\<lambda>w. inv (fst w)) (respond_fst respond)"
proof
  fix a :: ascii_serial_com and w :: "'w \<times> 'b" and d :: "byte list" and n :: size_t and v ap c :: byte
  assume "asc_wf a" "cb_list (out_buf a) = []" "inv (fst w)" "length d = 54" "unat n \<le> 54"
      "chr_start \<notin> set ([v, ap, c] @ take (unat n) d)"
  from handles [OF this]
  show "\<exists>a' d'. handle_fst handle v ap c n (a, d, w) =
      (reply_result (fst (respond_fst respond c n d w)), (a', d', snd (respond_fst respond c n d w)))
    \<and> out_content a (reply_bytes v ap (fst (respond_fst respond c n d w))) a' \<and> length d' = 54"
    by (auto simp: handle_fst_def respond_fst_def split_beta)
next
  fix w :: "'w \<times> 'b" and d :: "byte list" and n :: size_t and c
  assume "inv (fst w)" "length d = 54" "unat n \<le> 54"
  from responds_inv [OF this] show "inv (fst (snd (respond_fst respond c n d w)))"
    by (simp add: respond_fst_def split_beta)
qed

end

text \<open>The firmware is well formed: its two kinds of buffers are, and the device's memory is.\<close>

definition fw_wf :: "'w firmware \<Rightarrow> bool" where
  "fw_wf fw \<longleftrightarrow> device_wf (ascd fw) \<and> cb_wf (extraInputBuffer fw) \<and> cb_cap (extraInputBuffer fw) = 64"

definition fw_in :: "'w firmware \<Rightarrow> byte list" where
  "fw_in fw = cb_list (in_buf (dev_asc (ascd fw)))"

definition fw_out :: "'w firmware \<Rightarrow> byte list" where
  "fw_out fw = cb_list (out_buf (dev_asc (ascd fw)))"

definition fw_extra :: "'w firmware \<Rightarrow> byte list" where
  "fw_extra fw = cb_list (extraInputBuffer fw)"

lemmas fw_simps = fw_wf_def fw_in_def fw_out_def fw_extra_def device_wf_def asc_wf_def

lemma tx_step:
  assumes wf: "fw_wf fw"
  shows "\<exists>fw'. on_tx uart_tx_from_circ_buf fw = (Inr (), fw') \<and> fw_wf fw' \<and> fw_in fw' = fw_in fw
    \<and> fw_extra fw' = fw_extra fw \<and> fw_mem fw' = fw_mem fw \<and> dev_config (ascd fw') = dev_config (ascd fw)
    \<and> (if tx_ready (fw_uart fw) \<and> fw_out fw \<noteq> []
       then fw_out fw' = tl (fw_out fw) \<and> tx_sent (fw_uart fw') = tx_sent (fw_uart fw) @ [hd (fw_out fw)]
       else fw_out fw' = fw_out fw \<and> tx_sent (fw_uart fw') = tx_sent (fw_uart fw))"
proof (cases "tx_ready (fw_uart fw) \<and> fw_out fw \<noteq> []")
  case False
  then have "uart_tx_from_circ_buf (fw_uart fw, out_buf (dev_asc (ascd fw))) = (Inr (), (fw_uart fw, out_buf (dev_asc (ascd fw))))"
    by (auto simp: uart_tx_from_circ_buf_def is_uart_ready_to_tx_def circular_buffer_is_empty_uint8_def
      circular_buffer_get_size_uint8_def fw_out_def)
  then show ?thesis using wf False
    by (intro exI [of _ fw]) (auto simp: on_tx_def zoom_def ascii_serial_com_device_get_output_buffer_def
      ascii_serial_com_get_output_buffer_def)
next
  case True
  let ?out = "out_buf (dev_asc (ascd fw))"
  obtain x xs where x: "cb_list ?out = x # xs" using True by (cases "cb_list ?out") (auto simp: fw_out_def)
  have "cb_returns (circular_buffer_pop_front_uint8 ?out) x (cb_cap ?out) xs"
    by (rule pop_front_returns) (use wf x in \<open>auto simp: fw_simps\<close>)
  then obtain cb where cb: "circular_buffer_pop_front_uint8 ?out = (Inr x, cb)" "cb_wf cb" "cb_cap cb = cb_cap ?out" "cb_list cb = xs"
    by (cases "circular_buffer_pop_front_uint8 ?out") (auto simp: cb_returns_def)
  have "cb_size ?out \<noteq> 0" using x by (metis cb_list_Nil_iff list.distinct(1))
  then have "uart_tx_from_circ_buf (fw_uart fw, ?out) = (Inr (), (uart_tx x (fw_uart fw), cb))"
    using True cb by (simp add: uart_tx_from_circ_buf_def is_uart_ready_to_tx_def circular_buffer_is_empty_uint8_def
      circular_buffer_get_size_uint8_def zoom_def)
  then show ?thesis using wf cb x True
    by (auto simp: on_tx_def zoom_def ascii_serial_com_device_get_output_buffer_def
      ascii_serial_com_get_output_buffer_def fw_simps uart_tx_def)
qed

text \<open>Taking a received byte over into the input buffer.\<close>

lemma feed_step:
  assumes wf: "fw_wf fw" and x: "fw_extra fw = b # q" and room: "length (fw_in fw) < 64"
  shows "\<exists>fw'. bind_res (on_extra circular_buffer_pop_front_uint8 fw) (\<lambda>tmp_byte fw. push_input tmp_byte fw) = (Inr (), fw')
    \<and> fw_wf fw' \<and> fw_in fw' = fw_in fw @ [b] \<and> fw_extra fw' = q \<and> fw_out fw' = fw_out fw
    \<and> fw_mem fw' = fw_mem fw \<and> fw_uart fw' = fw_uart fw \<and> dev_config (ascd fw') = dev_config (ascd fw)"
proof -
  let ?in = "in_buf (dev_asc (ascd fw))"
  have "cb_returns (circular_buffer_pop_front_uint8 (extraInputBuffer fw)) b (cb_cap (extraInputBuffer fw)) q"
    by (rule pop_front_returns) (use wf x in \<open>auto simp: fw_simps\<close>)
  then obtain cb where cb: "circular_buffer_pop_front_uint8 (extraInputBuffer fw) = (Inr b, cb)" "cb_wf cb"
      "cb_cap cb = cb_cap (extraInputBuffer fw)" "cb_list cb = q"
    by (cases "circular_buffer_pop_front_uint8 (extraInputBuffer fw)") (auto simp: cb_returns_def)
  have "cb_returns (circular_buffer_push_back_uint8 ?in b) () (cb_cap ?in) (cb_list ?in @ [b])"
    using push_back_returns [of ?in b] wf room by (auto simp: fw_simps)
  then obtain ib where ib: "circular_buffer_push_back_uint8 ?in b = (Inr (), ib)" "cb_wf ib"
      "cb_cap ib = cb_cap ?in" "cb_list ib = cb_list ?in @ [b]"
    by (cases "circular_buffer_push_back_uint8 ?in b") (auto simp: cb_returns_def)
  show ?thesis using wf cb ib
    by (auto simp: on_extra_def push_input_def on_device_def on_asc_def with_in_buf_def zoom_def fw_simps)
qed

section \<open>The loop\<close>

text \<open>Turns of the loop; the list says whether the UART is found ready to transmit.\<close>

definition with_tx_ready :: "bool \<Rightarrow> 'w firmware \<Rightarrow> 'w firmware" where
  "with_tx_ready r fw = fw\<lparr>fw_uart := (fw_uart fw)\<lparr>tx_ready := r\<rparr>\<rparr>"

fun poll_loop :: "bool list \<Rightarrow> 'w firmware \<Rightarrow> (unit, 'w firmware) res" where
  "poll_loop [] fw = (Inr (), fw)"
| "poll_loop (r # rs) fw = bind_res (HANDLE_ASC_COMM_IN_POLLING_LOOP (with_tx_ready r fw)) (\<lambda>_. poll_loop rs)"

lemma poll_loop_append:
  "poll_loop (rs @ ts) fw = bind_res (poll_loop rs fw) (\<lambda>_. poll_loop ts)"
  by (induction rs arbitrary: fw) (auto simp: bind_res_def split: sum.splits)

lemma with_tx_ready [simp]:
  "fw_wf (with_tx_ready r fw) = fw_wf fw" "fw_in (with_tx_ready r fw) = fw_in fw" "fw_out (with_tx_ready r fw) = fw_out fw"
  "fw_extra (with_tx_ready r fw) = fw_extra fw" "fw_mem (with_tx_ready r fw) = fw_mem fw" "ascd (with_tx_ready r fw) = ascd fw"
  "tx_ready (fw_uart (with_tx_ready r fw)) = r" "tx_sent (fw_uart (with_tx_ready r fw)) = tx_sent (fw_uart fw)"
  by (simp_all add: with_tx_ready_def fw_simps)

lemma extra_empty: "circular_buffer_is_empty_uint8 (extraInputBuffer fw) \<longleftrightarrow> fw_extra fw = []"
  by (simp add: circular_buffer_is_empty_uint8_def circular_buffer_get_size_uint8_def fw_extra_def)

lemma on_device_receive_dropped:
  assumes wf: "fw_wf fw" and r: "receive_frame (fw_in fw) = (result, ys)" and none: "result = No_Message \<or> result = Bad_Checksum"
  shows "\<exists>fw'. on_device ascii_serial_com_device_receive fw = (Inr (), fw') \<and> fw_wf fw' \<and> fw_in fw' = ys
    \<and> fw_extra fw' = fw_extra fw \<and> fw_out fw' = fw_out fw \<and> fw_mem fw' = fw_mem fw \<and> fw_uart fw' = fw_uart fw
    \<and> dev_config (ascd fw') = dev_config (ascd fw)"
proof -
  have "device_wf (ascd fw)" "receive_frame (cb_list (in_buf (dev_asc (ascd fw)))) = (result, ys)"
    using wf r by (simp_all add: fw_wf_def fw_in_def)
  from receive_dropped [OF this none, of "fw_mem fw"]
  obtain dev' where d: "ascii_serial_com_device_receive (ascd fw, fw_mem fw) = (Inr (), (dev', fw_mem fw))" "device_wf dev'"
      "dev_config dev' = dev_config (ascd fw)" "in_content (dev_asc (ascd fw)) 64 ys (dev_asc dev')" by auto
  note A = in_contentD [OF d(4)]
  show ?thesis using wf d(1-3) A
    by (auto simp: on_device_def zoom_def fw_wf_def fw_in_def fw_out_def fw_extra_def)
qed

lemmas on_device_receive_nothing = on_device_receive_dropped [where result = No_Message, simplified]

text \<open>With nothing to receive, a turn only sends.\<close>

lemma idle_turn:
  assumes wf: "fw_wf fw" and e: "fw_in fw = []" "fw_extra fw = []"
  shows "\<exists>fw'. HANDLE_ASC_COMM_IN_POLLING_LOOP (with_tx_ready r fw) = (Inr (), fw') \<and> fw_wf fw' \<and> fw_in fw' = [] \<and> fw_extra fw' = []
    \<and> fw_mem fw' = fw_mem fw \<and> dev_config (ascd fw') = dev_config (ascd fw)
    \<and> fw_out fw' = (if r then drop 1 (fw_out fw) else fw_out fw)
    \<and> tx_sent (fw_uart fw') = tx_sent (fw_uart fw) @ (if r then take 1 (fw_out fw) else [])"
proof -
  have "fw_wf (with_tx_ready r fw)" using wf by simp
  from tx_step [OF this]
  obtain fw1 where t: "on_tx uart_tx_from_circ_buf (with_tx_ready r fw) = (Inr (), fw1)" and wf1: "fw_wf fw1" and
      "fw_in fw1 = []" "fw_extra fw1 = []" "fw_mem fw1 = fw_mem fw" "dev_config (ascd fw1) = dev_config (ascd fw)"
    and o: "if r \<and> fw_out fw \<noteq> [] then fw_out fw1 = tl (fw_out fw) \<and> tx_sent (fw_uart fw1) = tx_sent (fw_uart fw) @ [hd (fw_out fw)]
       else fw_out fw1 = fw_out fw \<and> tx_sent (fw_uart fw1) = tx_sent (fw_uart fw)"
    using e by auto
  note s = this(3-6)
  have "receive_frame (fw_in fw1) = (No_Message, [])" using s(1) by (simp add: receive_frame_Nil)
  from on_device_receive_nothing [OF wf1 this]
  obtain fw' where f: "on_device ascii_serial_com_device_receive fw1 = (Inr (), fw')" "fw_wf fw'" "fw_in fw' = []"
      "fw_extra fw' = fw_extra fw1" "fw_out fw' = fw_out fw1" "fw_mem fw' = fw_mem fw1" "fw_uart fw' = fw_uart fw1"
      "dev_config (ascd fw') = dev_config (ascd fw1)" by auto
  have "HANDLE_ASC_COMM_IN_POLLING_LOOP (with_tx_ready r fw) = (Inr (), fw')"
    using t f(1) s(2) by (simp add: HANDLE_ASC_COMM_IN_POLLING_LOOP_def extra_empty)
  then show ?thesis using f s o by (cases "fw_out fw") (auto split: if_splits)
qed

lemma drain_loop:
  assumes "fw_wf fw" "fw_in fw = []" "fw_extra fw = []"
  shows "\<exists>fw'. poll_loop rs fw = (Inr (), fw') \<and> fw_wf fw' \<and> fw_in fw' = [] \<and> fw_extra fw' = []
    \<and> fw_mem fw' = fw_mem fw \<and> dev_config (ascd fw') = dev_config (ascd fw)
    \<and> fw_out fw' = drop (count_list rs True) (fw_out fw)
    \<and> tx_sent (fw_uart fw') = tx_sent (fw_uart fw) @ take (count_list rs True) (fw_out fw)"
  using assms
proof (induction rs arbitrary: fw)
  case Nil
  then show ?case by auto
next
  case (Cons r rs)
  from idle_turn [OF Cons.prems, of r]
  obtain fw1 where t: "HANDLE_ASC_COMM_IN_POLLING_LOOP (with_tx_ready r fw) = (Inr (), fw1)" and i: "fw_wf fw1" "fw_in fw1 = []" "fw_extra fw1 = []"
    and s: "fw_mem fw1 = fw_mem fw" "dev_config (ascd fw1) = dev_config (ascd fw)"
      "fw_out fw1 = (if r then drop 1 (fw_out fw) else fw_out fw)"
      "tx_sent (fw_uart fw1) = tx_sent (fw_uart fw) @ (if r then take 1 (fw_out fw) else [])" by auto
  from Cons.IH [OF i] t s show ?case by (cases "fw_out fw") auto
qed

text \<open>A part of a frame is an open line.\<close>

lemma line_prefix:
  assumes pq: "p @ q = chr_start # m @ [chr_end]" and ne: "p \<noteq> []" "q \<noteq> []" and m: "chr_start \<notin> set m" "chr_end \<notin> set m"
  obtains r where "p = chr_start # r" and "chr_start \<notin> set r" and "chr_end \<notin> set r"
proof -
  obtain x r where p: "p = x # r" using ne(1) by (cases p) auto
  obtain q' y where q: "q = q' @ [y]" using ne(2) by (cases q rule: rev_cases) auto
  have "x # (r @ q') @ [y] = chr_start # m @ [chr_end]" using pq unfolding p q by simp
  then have "x = chr_start" "r @ q' = m" by (simp_all only: list.inject append1_eq_conv)
  then show thesis using that [of r] p m by (metis UnCI set_append)
qed

lemma frame_prefix:
  assumes pq: "p @ q = frame v ap c d" and ne: "p \<noteq> []" "q \<noteq> []" and pl: "plain ([v, ap, c] @ d)"
  obtains r where "p = chr_start # r" and "chr_start \<notin> set r" and "chr_end \<notin> set r"
proof -
  let ?m = "[v, ap, c] @ d @ [chr_period] @ checksum_chars (frame_body v ap c d)"
  have "p @ q = chr_start # ?m @ [chr_end]" using pq by (simp add: frame_def frame_body_def)
  moreover have "chr_start \<notin> set ?m" "chr_end \<notin> set ?m"
    using pl plain_checksum [of "frame_body v ap c d"] by (auto simp: plain_def)
  ultimately show thesis using line_prefix [OF _ ne] that by blast
qed

context device_handler
begin

text \<open>The last byte of a request: the turn that takes it over also answers.\<close>

lemma answer_turn:
  assumes wf: "fw_wf fw" and mem: "inv (fw_mem fw)" and inp: "fw_in fw = frame v ap c d" and out: "fw_out fw = []"
    and pl: "plain ([v, ap, c] @ d)" and len: "length d \<le> 54" and route: "routed (dev_config (ascd fw)) c = Some handle"
    and resp: "\<And>m. length m = 54 \<Longrightarrow> respond c (of_nat (length d)) (mem_put 0 d m) (fw_mem fw) = (rp, w')"
  shows "\<exists>fw'. on_device ascii_serial_com_device_receive fw = (reply_result rp, fw') \<and> fw_wf fw' \<and> fw_in fw' = []
    \<and> fw_extra fw' = fw_extra fw \<and> fw_out fw' = reply_bytes v ap rp \<and> fw_mem fw' = w' \<and> inv w' \<and> fw_uart fw' = fw_uart fw"
proof -
  have w: "device_wf (ascd fw)" and o: "cb_list (out_buf (dev_asc (ascd fw))) = []"
    and b: "cb_list (in_buf (dev_asc (ascd fw))) = [] @ frame v ap c d @ []"
    using wf inp out by (simp_all add: fw_wf_def fw_in_def fw_out_def)
  have r: "respond c (of_nat (length d)) (mem_put 0 d (msg_data (dev_msg (ascd fw)))) (fw_mem fw) = (rp, w')"
    by (rule resp) (use w in \<open>simp add: device_wf_def\<close>)
  from receive_replies [OF w o mem pl len _ b route r]
  obtain dev' where "ascii_serial_com_device_receive (ascd fw, fw_mem fw) = (reply_result rp, (dev', w'))"
      "cb_list (out_buf (dev_asc dev')) = reply_bytes v ap rp" "cb_list (in_buf (dev_asc dev')) = []" "device_wf dev'" "inv w'"
    by auto
  then show ?thesis using wf by (auto simp: on_device_def zoom_def fw_simps)
qed

lemma feed_loop:
  assumes "fw_wf fw" and "inv (fw_mem fw)" and "p @ q = frame v ap c d" and "q \<noteq> []" and "fw_in fw = p" and "fw_extra fw = q"
    and "fw_out fw = []" and pl: "plain ([v, ap, c] @ d)" and len: "length d \<le> 54"
    and "routed (dev_config (ascd fw)) c = Some handle"
    and "\<And>m. length m = 54 \<Longrightarrow> respond c (of_nat (length d)) (mem_put 0 d m) (fw_mem fw) = (rp, w')"
    and ok: "reply_result rp = Inr ()" and "length rs = length q"
  shows "\<exists>fw'. poll_loop rs fw = (Inr (), fw') \<and> fw_wf fw' \<and> fw_in fw' = [] \<and> fw_extra fw' = []
    \<and> fw_out fw' = reply_bytes v ap rp \<and> fw_mem fw' = w' \<and> inv w' \<and> tx_sent (fw_uart fw') = tx_sent (fw_uart fw)"
  using assms(1-7,10,11,13)
proof (induction q arbitrary: p fw rs)
  case Nil
  then show ?case by simp
next
  case (Cons b q)
  obtain r rs' where rs: "rs = r # rs'" "length rs' = length q" using Cons.prems(10) by (cases rs) auto
  have "fw_wf (with_tx_ready r fw)" using Cons.prems(1) by simp
  from tx_step [OF this] Cons.prems(5-7)
  obtain fw1 where t: "on_tx uart_tx_from_circ_buf (with_tx_ready r fw) = (Inr (), fw1)" "fw_wf fw1" "fw_in fw1 = p"
      "fw_extra fw1 = b # q" "fw_mem fw1 = fw_mem fw" "dev_config (ascd fw1) = dev_config (ascd fw)" "fw_out fw1 = []"
      "tx_sent (fw_uart fw1) = tx_sent (fw_uart fw)" by auto
  have "length (p @ b # q) \<le> 64" using Cons.prems(3) len by simp
  then have "length (fw_in fw1) < 64" using t(3) by simp
  from feed_step [OF t(2,4) this]
  obtain fw2 where u: "bind_res (on_extra circular_buffer_pop_front_uint8 fw1) (\<lambda>tmp_byte fw. push_input tmp_byte fw) = (Inr (), fw2)"
      "fw_wf fw2" "fw_in fw2 = p @ [b]" "fw_extra fw2 = q" "fw_out fw2 = []" "fw_mem fw2 = fw_mem fw" "fw_uart fw2 = fw_uart fw1"
      "dev_config (ascd fw2) = dev_config (ascd fw)" using t by auto
  have h: "HANDLE_ASC_COMM_IN_POLLING_LOOP (with_tx_ready r fw) = on_device ascii_serial_com_device_receive fw2"
    using t(1,4) u(1) by (simp add: HANDLE_ASC_COMM_IN_POLLING_LOOP_def extra_empty)
  show ?case
  proof (cases "q = []")
    case True
    have "fw_in fw2 = frame v ap c d" using u(3) Cons.prems(3) True by simp
    from answer_turn [OF u(2) _ this u(5) pl len, of rp w'] Cons.prems(2,8,9) u
    obtain fw3 where "on_device ascii_serial_com_device_receive fw2 = (reply_result rp, fw3)" "fw_wf fw3" "fw_in fw3 = []"
        "fw_extra fw3 = fw_extra fw2" "fw_out fw3 = reply_bytes v ap rp" "fw_mem fw3 = w'" "inv w'" "fw_uart fw3 = fw_uart fw2"
      by auto
    then show ?thesis using h ok rs True u t by simp
  next
    case False
    have "(p @ [b]) @ q = frame v ap c d" using Cons.prems(3) by simp
    from frame_prefix [OF this _ False pl] obtain x where "p @ [b] = chr_start # x" "chr_start \<notin> set x" "chr_end \<notin> set x"
      by blast
    then have "receive_frame (fw_in fw2) = (No_Message, p @ [b])" using u(3) receive_frame_open by simp
    from on_device_receive_nothing [OF u(2) this]
    obtain fw3 where f: "on_device ascii_serial_com_device_receive fw2 = (Inr (), fw3)" "fw_wf fw3" "fw_in fw3 = p @ [b]"
        "fw_extra fw3 = q" "fw_out fw3 = []" "fw_mem fw3 = fw_mem fw" "fw_uart fw3 = fw_uart fw1"
        "dev_config (ascd fw3) = dev_config (ascd fw)" using u by auto
    have "\<exists>fw'. poll_loop rs' fw3 = (Inr (), fw') \<and> fw_wf fw' \<and> fw_in fw' = [] \<and> fw_extra fw' = []
      \<and> fw_out fw' = reply_bytes v ap rp \<and> fw_mem fw' = w' \<and> inv w' \<and> tx_sent (fw_uart fw') = tx_sent (fw_uart fw3)"
      by (rule Cons.IH [where p = "p @ [b]"]) (use Cons.prems f False rs in simp_all)
    then show ?thesis using h f rs t(8) by simp
  qed
qed

text \<open>
  The whole service: a request that waits in the extra buffer is answered, and its reply is on the wire
  after as many turns as the request has bytes, and then as many turns with a ready UART as the reply has.
\<close>

lemma serve_loop:
  assumes "fw_wf fw" and "inv (fw_mem fw)" and "fw_in fw = []" and "fw_extra fw = frame v ap c d"
    and "fw_out fw = []" and pl: "plain ([v, ap, c] @ d)" and len: "length d \<le> 54"
    and "routed (dev_config (ascd fw)) c = Some handle"
    and "\<And>m. length m = 54 \<Longrightarrow> respond c (of_nat (length d)) (mem_put 0 d m) (fw_mem fw) = (rp, w')"
    and ok: "reply_result rp = Inr ()" and "length rs = length (frame v ap c d)"
    and sent: "length (reply_bytes v ap rp) \<le> count_list ts True"
  shows "\<exists>fw'. poll_loop (rs @ ts) fw = (Inr (), fw') \<and> fw_wf fw' \<and> fw_in fw' = [] \<and> fw_extra fw' = [] \<and> fw_out fw' = []
    \<and> fw_mem fw' = w' \<and> inv w' \<and> tx_sent (fw_uart fw') = tx_sent (fw_uart fw) @ reply_bytes v ap rp"
proof -
  have "frame v ap c d \<noteq> []" by (simp add: frame_def frame_body_def Let_def)
  from feed_loop [OF assms(1,2) _ this assms(3,4,5) pl len assms(8,9) ok assms(11)]
  obtain fw1 where f: "poll_loop rs fw = (Inr (), fw1)" "fw_wf fw1" "fw_in fw1 = []" "fw_extra fw1 = []"
    "fw_out fw1 = reply_bytes v ap rp" "fw_mem fw1 = w'" "inv w'" "tx_sent (fw_uart fw1) = tx_sent (fw_uart fw)"
    by auto
  from drain_loop [OF f(2-4), of ts] obtain fw2 where "poll_loop ts fw1 = (Inr (), fw2)" "fw_wf fw2" "fw_in fw2 = []"
    "fw_extra fw2 = []" "fw_mem fw2 = fw_mem fw1" "fw_out fw2 = drop (count_list ts True) (fw_out fw1)"
    "tx_sent (fw_uart fw2) = tx_sent (fw_uart fw1) @ take (count_list ts True) (fw_out fw1)" by auto
  then show ?thesis using f sent by (simp add: poll_loop_append)
qed

end

interpretation rp_32_firmware: device_handler "handle_fst handle_message_32" "\<lambda>w. rp_inv (fst w)"
    "respond_fst (rp_respond convert_hex_to_uint32 (\<lambda>caps. hex_digits caps 8) 4)"
  by (rule rp_32_handler.handle_fst_handler)

interpretation rp_avr_firmware: device_handler "handle_fst handle_message_avr" "\<lambda>w. rp_inv (fst w)"
    "respond_fst (rp_respond convert_hex_to_uint8 (\<lambda>caps. hex_digits caps 2) 1)"
  by (rule rp_avr_handler.handle_fst_handler)

lemma routed_rp_config: "routed (rp_config h) c = (if c = chr_r \<or> c = chr_w then Some (handle_fst h)
    else if c = chr_n \<or> c = chr_f then Some handle_nf_messages else None)"
  by (simp add: routed_def rp_config_def)

section \<open>Setup\<close>

lemma setup_firmware:
  assumes "length raw_buffer = 128" "length extra_raw = 64" "length (msg_data (dev_msg (ascd fw))) = 54"
    and "fw_mem fw = ((Some rp, mem), streaming_is_on)"
  shows "\<exists>fw'. SETUP_ASC_DEVICE_W_REGISTER_POINTERS h raw_buffer extra_raw register_map masks nRegs fw = (Inr (), fw')
    \<and> fw_wf fw' \<and> fw_in fw' = [] \<and> fw_out fw' = [] \<and> fw_extra fw' = [] \<and> dev_config (ascd fw') = rp_config h
    \<and> fw_mem fw' = ((Some (ascii_serial_com_register_pointers_init rp register_map masks nRegs), mem), streaming_is_on)
    \<and> fw_uart fw' = fw_uart fw"
proof -
  from init_interface [OF assms(1), of "dev_asc (ascd fw)"] obtain a where
    a: "ascii_serial_com_init (dev_asc (ascd fw)) raw_buffer = (Inr (), a)" "asc_wf a" "cb_list (in_buf a) = []"
      "cb_list (out_buf a) = []" "\<not> ignoreCRCMismatch a" by blast
  have p: "isPowerOfTwo 64" by code_simp
  then have "cb_returns (circular_buffer_init_uint8 (extraInputBuffer fw) 64 extra_raw) () 64 []"
    using init_returns [of 64 extra_raw "extraInputBuffer fw"] assms(2) by simp
  then obtain cb where cb: "circular_buffer_init_uint8 (extraInputBuffer fw) 64 extra_raw = (Inr (), cb)" "cb_wf cb" "cb_cap cb = 64" "cb_list cb = []"
    by (cases "circular_buffer_init_uint8 (extraInputBuffer fw) 64 extra_raw") (auto simp: cb_returns_def)
  show ?thesis using a cb assms(3,4)
    by (simp add: SETUP_ASC_DEVICE_W_REGISTER_POINTERS_def on_device_def on_extra_def zoom_def Let_def
      ascii_serial_com_device_init_def on_asc_def fw_simps)
qed

end
