(* ===== verification/Millisec_Timer.thy ===== *)
theory Millisec_Timer
  imports Asc_Prelude
begin

text \<open>
  \<^verbatim>\<open>millisec_timer.c\<close>: a timer on a 32-bit count of milliseconds that wraps around,
  and the registers and interrupts that make the count on AVR and ARM.
\<close>

unbundle bit_operations_syntax

section \<open>The timer\<close>

type_synonym millisec_timer_unit_t = "32 word"

record millisec_timer =
  enabled :: bool
  set_time :: millisec_timer_unit_t
  expire_time :: millisec_timer_unit_t

definition millisec_timer_set_rel ::
  "millisec_timer \<Rightarrow> millisec_timer_unit_t \<Rightarrow> millisec_timer_unit_t \<Rightarrow> millisec_timer" where
  "millisec_timer_set_rel timer now rel =
     timer\<lparr>enabled := True, set_time := now, expire_time := now + rel\<rparr>"

definition millisec_timer_is_expired :: "millisec_timer \<Rightarrow> millisec_timer_unit_t \<Rightarrow> bool \<times> millisec_timer" where
  "millisec_timer_is_expired timer now =
     (if enabled timer then
        if expire_time timer = set_time timer \<or>
           (expire_time timer > set_time timer \<and> (now \<ge> expire_time timer \<or> now < set_time timer)) \<or>
           (expire_time timer < set_time timer \<and> now \<ge> expire_time timer \<and> now < set_time timer)
        then (True, timer\<lparr>enabled := False\<rparr>) else (False, timer)
      else (False, timer))"

definition millisec_timer_is_expired_repeat :: "millisec_timer \<Rightarrow> millisec_timer_unit_t \<Rightarrow> bool \<times> millisec_timer" where
  "millisec_timer_is_expired_repeat timer now =
     (if enabled timer then
        if expire_time timer = set_time timer then (True, timer)
        else if (expire_time timer > set_time timer \<and> (now \<ge> expire_time timer \<or> now < set_time timer)) \<or>
           (expire_time timer < set_time timer \<and> now \<ge> expire_time timer \<and> now < set_time timer)
        then
          let old_expire_time = expire_time timer;
              timer = timer\<lparr>expire_time := old_expire_time + (old_expire_time - set_time timer)\<rparr>;
              timer = timer\<lparr>set_time := old_expire_time\<rparr>
          in (True, timer)
        else (False, timer)
      else (False, timer))"

section \<open>The comparison is a comparison of elapsed times\<close>

definition interval :: "millisec_timer \<Rightarrow> nat" where
  "interval timer = unat (expire_time timer - set_time timer)"

definition elapsed :: "millisec_timer \<Rightarrow> millisec_timer_unit_t \<Rightarrow> nat" where
  "elapsed timer now = unat (now - set_time timer)"

lemma word_cyclic_le:
  "unat (e - s) \<le> unat (n - s) \<longleftrightarrow>
    e = s \<or> (s < e \<and> (e \<le> n \<or> n < s)) \<or> (e < s \<and> e \<le> n \<and> n < s)" for e s n :: "32 word"
proof -
  have "unat e < 2 ^ 32" "unat s < 2 ^ 32" "unat n < 2 ^ 32"
    using unsigned_less [of e] unsigned_less [of s] unsigned_less [of n] by simp_all
  then show ?thesis
    by (auto simp: unat_sub_if' word_less_nat_alt word_le_nat_alt word_unat_eq_iff)
qed

lemma is_expired_iff:
  "fst (millisec_timer_is_expired timer now) \<longleftrightarrow> enabled timer \<and> interval timer \<le> elapsed timer now"
  unfolding interval_def elapsed_def word_cyclic_le by (auto simp: millisec_timer_is_expired_def)

lemma is_expired_repeat_iff:
  "fst (millisec_timer_is_expired_repeat timer now) \<longleftrightarrow> enabled timer \<and> interval timer \<le> elapsed timer now"
  unfolding interval_def elapsed_def word_cyclic_le by (auto simp: millisec_timer_is_expired_repeat_def Let_def)

lemma is_expired_state:
  "snd (millisec_timer_is_expired timer now) =
    (if fst (millisec_timer_is_expired timer now) then timer\<lparr>enabled := False\<rparr> else timer)"
  by (simp add: millisec_timer_is_expired_def)

lemma is_expired_repeat_state:
  "snd (millisec_timer_is_expired_repeat timer now) =
    (if fst (millisec_timer_is_expired_repeat timer now)
     then timer\<lparr>set_time := expire_time timer, expire_time := expire_time timer + (expire_time timer - set_time timer)\<rparr>
     else timer)"
  by (simp add: millisec_timer_is_expired_repeat_def Let_def)

section \<open>Polling a repeating timer\<close>

text \<open>The answers of polls at the given times.\<close>

fun poll_repeat :: "millisec_timer \<Rightarrow> millisec_timer_unit_t list \<Rightarrow> bool list \<times> millisec_timer" where
  "poll_repeat timer [] = ([], timer)"
| "poll_repeat timer (now # nows) =
     (case millisec_timer_is_expired_repeat timer now of (b, timer) \<Rightarrow>
      case poll_repeat timer nows of (bs, timer) \<Rightarrow> (b # bs, timer))"

text \<open>Times since the timer was set: no poll is later than one period after the one before.\<close>

fun polls_from :: "nat \<Rightarrow> nat \<Rightarrow> nat list \<Rightarrow> bool" where
  "polls_from rel t [] \<longleftrightarrow> True"
| "polls_from rel t (u # us) \<longleftrightarrow> t \<le> u \<and> u \<le> t + rel \<and> polls_from rel u us"

text \<open>After \<open>k\<close> periods, the deadline is the next multiple of the period.\<close>

definition timer_at :: "millisec_timer_unit_t \<Rightarrow> nat \<Rightarrow> nat \<Rightarrow> millisec_timer \<Rightarrow> bool" where
  "timer_at s0 rel k timer \<longleftrightarrow> enabled timer \<and> set_time timer = s0 + of_nat (k * rel)
     \<and> expire_time timer = s0 + of_nat (Suc k * rel)"

lemma unat_of_nat_32: "n < 2 ^ 32 \<Longrightarrow> unat (of_nat n :: 32 word) = n"
  by (simp add: unat_of_nat take_bit_eq_mod)

lemma poll_step:
  assumes tm: "timer_at s0 rel k timer" and rel: "0 < rel" "rel \<le> 2 ^ 31" and u: "k * rel \<le> u" "u < (k + 2) * rel"
  shows "fst (millisec_timer_is_expired_repeat timer (s0 + of_nat u)) \<longleftrightarrow> Suc k * rel \<le> u"
    and "timer_at s0 rel (u div rel) (snd (millisec_timer_is_expired_repeat timer (s0 + of_nat u)))"
proof -
  have i: "interval timer = rel"
    using tm rel by (simp add: interval_def timer_at_def unat_of_nat_32)
  have "elapsed timer (s0 + of_nat u) = unat (of_nat (u - k * rel) :: 32 word)"
    using tm u by (simp add: elapsed_def timer_at_def of_nat_diff)
  also have "\<dots> = u - k * rel" using u rel by (intro unat_of_nat_32) simp
  finally show f: "fst (millisec_timer_is_expired_repeat timer (s0 + of_nat u)) \<longleftrightarrow> Suc k * rel \<le> u"
    using tm u by (auto simp: is_expired_repeat_iff i timer_at_def)
  have "u div rel = (if Suc k * rel \<le> u then Suc k else k)"
    using u rel by (auto intro!: div_nat_eqI simp: ac_simps)
  then show "timer_at s0 rel (u div rel) (snd (millisec_timer_is_expired_repeat timer (s0 + of_nat u)))"
    using tm by (auto simp: is_expired_repeat_state f timer_at_def algebra_simps)
qed

lemma poll_repeat_count:
  assumes "timer_at s0 rel (t div rel) timer" and "0 < rel" "rel \<le> 2 ^ 31" and "polls_from rel t us"
  shows "t div rel + length (filter id (fst (poll_repeat timer (map (\<lambda>u. s0 + of_nat u) us)))) = last (t # us) div rel"
  using assms(1,4)
proof (induction us arbitrary: t timer)
  case Nil
  then show ?case by simp
next
  case (Cons u us)
  let ?r = "millisec_timer_is_expired_repeat timer (s0 + of_nat u)"
  have b: "t div rel * rel \<le> u" "u < (t div rel + 2) * rel"
  proof -
    have "t div rel * rel \<le> t" by (simp add: div_times_less_eq_dividend)
    then show "t div rel * rel \<le> u" using Cons.prems(2) by (meson le_trans polls_from.simps(2))
    have "t < Suc (t div rel) * rel" using dividend_less_div_times [OF assms(2), of t] by simp
    then show "u < (t div rel + 2) * rel" using Cons.prems(2) by (simp add: algebra_simps)
  qed
  note s = poll_step [OF Cons.prems(1) assms(2,3) b]
  have "u div rel = (if fst ?r then Suc (t div rel) else t div rel)"
    using b assms(2) by (auto simp: s(1) intro!: div_nat_eqI simp: ac_simps)
  then show ?case
    using Cons.IH [OF s(2)] Cons.prems(2) by (auto simp: split_beta id_def)
qed

lemma set_rel_timer_at: "timer_at now (unat rel) 0 (millisec_timer_set_rel timer now rel)"
  by (simp add: timer_at_def millisec_timer_set_rel_def)

end
