(* ===== verification/Isr.thy ===== *)
theory Isr
  imports Asc_Helpers
begin

text \<open>
  The polling loop and the interrupt: the interrupt handler pushes a received byte on the extra buffer
  between any two steps of the loop. A step relation interleaves them; an invariant of the reachable
  states shows that the check before the atomic block protects the pop, and that no byte is lost or
  reordered while the extra buffer has room.
\<close>

section \<open>Steps\<close>

text \<open>
  Where the loop of \<^verbatim>\<open>HANDLE_ASC_COMM_IN_POLLING_LOOP\<close> stands. The pop is one step
  because the atomic block keeps the interrupt out; the other calls work on memory that the interrupt
  does not touch. A throw is caught by the \<^verbatim>\<open>Catch\<close> of the program, which goes on
  with the loop; a fault stops the model.
\<close>

datatype pc = At_Tx | At_Check | At_Pop | At_Push byte | At_Receive | Stopped

fun after :: "pc \<Rightarrow> 'a exc \<Rightarrow> pc" where
  "after next_pc (Inr _) = next_pc"
| "after next_pc (Inl (Throw e)) = At_Tx"
| "after next_pc (Inl UB) = Stopped"

text \<open>Besides the firmware: the bytes that the interrupt took from the UART, those handed to the device,
  and whether a byte was pushed on a full buffer.\<close>

record 'w system =
  sys_fw :: "'w firmware"
  sys_pc :: pc
  received :: "byte list"
  handed :: "byte list"
  overrun :: bool

definition on_rx :: "(uart \<times> circular_buffer_uint8 \<Rightarrow> ('a, uart \<times> circular_buffer_uint8) res) \<Rightarrow> 'w firmware \<Rightarrow> ('a, 'w firmware) res" where
  "on_rx = zoom (\<lambda>fw. (fw_uart fw, extraInputBuffer fw)) (\<lambda>(u, cb) fw. fw\<lparr>fw_uart := u, extraInputBuffer := cb\<rparr>)"

text \<open>The interrupt handler \<^verbatim>\<open>ISR(USART_RX_vect)\<close>.\<close>

definition usart_rx_isr :: "'w firmware \<Rightarrow> (unit, 'w firmware) res" where
  "usart_rx_isr = on_rx uart_rx_to_circ_buf"

inductive sys_step :: "'w system \<Rightarrow> 'w system \<Rightarrow> bool" where
  arrive: "\<not> rx_waiting (fw_uart (sys_fw s)) \<Longrightarrow>
     sys_step s (s\<lparr>sys_fw := (sys_fw s)\<lparr>fw_uart := (fw_uart (sys_fw s))\<lparr>rx_waiting := True, rx_data := b\<rparr>\<rparr>\<rparr>)"
| ready: "sys_step s (s\<lparr>sys_fw := (sys_fw s)\<lparr>fw_uart := (fw_uart (sys_fw s))\<lparr>tx_ready := True\<rparr>\<rparr>\<rparr>)"
| isr: "rx_waiting (fw_uart (sys_fw s)) \<Longrightarrow> usart_rx_isr (sys_fw s) = (Inr (), fw') \<Longrightarrow>
     sys_step s (s\<lparr>sys_fw := fw', received := received s @ [rx_data (fw_uart (sys_fw s))],
       overrun := (overrun s \<or> length (fw_extra (sys_fw s)) = 64)\<rparr>)"
| tx: "sys_pc s = At_Tx \<Longrightarrow> on_tx uart_tx_from_circ_buf (sys_fw s) = (r, fw') \<Longrightarrow>
     sys_step s (s\<lparr>sys_fw := fw', sys_pc := after At_Check r\<rparr>)"
| check: "sys_pc s = At_Check \<Longrightarrow>
     sys_step s (s\<lparr>sys_pc := (if \<not> circular_buffer_is_empty_uint8 (extraInputBuffer (sys_fw s)) then At_Pop else At_Receive)\<rparr>)"
| pop: "sys_pc s = At_Pop \<Longrightarrow> on_extra circular_buffer_pop_front_uint8 (sys_fw s) = (Inr b, fw') \<Longrightarrow>
     sys_step s (s\<lparr>sys_fw := fw', sys_pc := At_Push b\<rparr>)"
| pop_fails: "sys_pc s = At_Pop \<Longrightarrow> on_extra circular_buffer_pop_front_uint8 (sys_fw s) = (Inl e, fw') \<Longrightarrow>
     sys_step s (s\<lparr>sys_fw := fw', sys_pc := after At_Tx (Inl e :: unit exc)\<rparr>)"
| push: "sys_pc s = At_Push b \<Longrightarrow> push_input b (sys_fw s) = (r, fw') \<Longrightarrow>
     sys_step s (s\<lparr>sys_fw := fw', sys_pc := after At_Receive r, handed := handed s @ [b]\<rparr>)"
| recv: "sys_pc s = At_Receive \<Longrightarrow> on_device ascii_serial_com_device_receive (sys_fw s) = (r, fw') \<Longrightarrow>
     sys_step s (s\<lparr>sys_fw := fw', sys_pc := after At_Tx r\<rparr>)"

inductive_cases sys_stepE: "sys_step s t"

section \<open>The invariant\<close>

fun in_hand :: "pc \<Rightarrow> byte list" where
  "in_hand (At_Push b) = [b]"
| "in_hand _ = []"

definition sys_inv :: "'w system \<Rightarrow> bool" where
  "sys_inv s \<longleftrightarrow> cb_wf (extraInputBuffer (sys_fw s)) \<and> cb_cap (extraInputBuffer (sys_fw s)) = 64
     \<and> (sys_pc s = At_Pop \<longrightarrow> fw_extra (sys_fw s) \<noteq> [])
     \<and> (\<not> overrun s \<longrightarrow> handed s @ in_hand (sys_pc s) @ fw_extra (sys_fw s) = received s)"

lemma in_hand_after [simp]: "in_hand p = [] \<Longrightarrow> in_hand (after p r) = []"
  by (induction p r rule: after.induct) auto

lemma after_At_Pop [simp]: "after p r = At_Pop \<longleftrightarrow> p = At_Pop \<and> (\<exists>v. r = Inr v)"
  by (induction p r rule: after.induct) auto

text \<open>The parts of the loop that leave the extra buffer alone.\<close>

lemma extra_untouched:
  "on_tx f fw = (r, fw') \<Longrightarrow> extraInputBuffer fw' = extraInputBuffer fw"
  "on_device g fw = (r', fw') \<Longrightarrow> extraInputBuffer fw' = extraInputBuffer fw"
  by (auto simp: on_tx_def on_device_def zoom_def split: prod.splits)

lemma isr_extra:
  assumes wf: "cb_wf (extraInputBuffer fw)" "cb_cap (extraInputBuffer fw) = 64" and w: "rx_waiting (fw_uart fw)"
  shows "\<exists>fw'. usart_rx_isr fw = (Inr (), fw') \<and> cb_wf (extraInputBuffer fw') \<and> cb_cap (extraInputBuffer fw') = 64
    \<and> fw_extra fw' = (if length (fw_extra fw) = 64 then tl (fw_extra fw) else fw_extra fw) @ [rx_data (fw_uart fw)]
    \<and> ascd fw' = ascd fw \<and> fw_mem fw' = fw_mem fw \<and> tx_sent (fw_uart fw') = tx_sent (fw_uart fw)"
proof -
  let ?cb = "extraInputBuffer fw" and ?b = "rx_data (fw_uart fw)"
  from push_back_returns [OF wf(1), of ?b]
  obtain cb where "circular_buffer_push_back_uint8 ?cb ?b = (Inr (), cb)" "cb_wf cb" "cb_cap cb = 64"
      "cb_list cb = (if length (cb_list ?cb) = 64 then tl (cb_list ?cb) else cb_list ?cb) @ [?b]"
    using wf(2) by (cases "circular_buffer_push_back_uint8 ?cb ?b") (auto simp: cb_returns_def)
  then show ?thesis using w
    by (simp add: usart_rx_isr_def on_rx_def zoom_def uart_rx_to_circ_buf_def is_uart_rx_data_waiting_def uart_rx_def fw_extra_def)
qed

lemma pop_extra:
  assumes wf: "cb_wf (extraInputBuffer fw)" "cb_cap (extraInputBuffer fw) = 64" and x: "fw_extra fw = b # q"
  shows "\<exists>fw'. on_extra circular_buffer_pop_front_uint8 fw = (Inr b, fw') \<and> cb_wf (extraInputBuffer fw')
    \<and> cb_cap (extraInputBuffer fw') = 64 \<and> fw_extra fw' = q"
proof -
  have "cb_returns (circular_buffer_pop_front_uint8 (extraInputBuffer fw)) b (cb_cap (extraInputBuffer fw)) q"
    by (rule pop_front_returns) (use wf x in \<open>auto simp: fw_extra_def\<close>)
  then show ?thesis using wf
    by (cases "circular_buffer_pop_front_uint8 (extraInputBuffer fw)")
      (auto simp: cb_returns_def on_extra_def zoom_def fw_extra_def)
qed

lemma sys_step_inv:
  assumes "sys_step s t" and "sys_inv s"
  shows "sys_inv t"
  using assms
proof (induction rule: sys_step.induct)
  case (isr s fw')
  then have wf: "cb_wf (extraInputBuffer (sys_fw s))" "cb_cap (extraInputBuffer (sys_fw s)) = 64" by (simp_all add: sys_inv_def)
  from isr_extra [OF wf isr(1)] isr(2,3) show ?case by (auto simp: sys_inv_def)
next
  case (pop s b fw')
  then have wf: "cb_wf (extraInputBuffer (sys_fw s))" "cb_cap (extraInputBuffer (sys_fw s)) = 64"
    and "fw_extra (sys_fw s) \<noteq> []" by (simp_all add: sys_inv_def)
  then obtain x q where x: "fw_extra (sys_fw s) = x # q" by (cases "fw_extra (sys_fw s)") auto
  from pop_extra [OF wf x] pop x show ?case by (auto simp: sys_inv_def)
next
  case (pop_fails s e fw')
  then have wf: "cb_wf (extraInputBuffer (sys_fw s))" "cb_cap (extraInputBuffer (sys_fw s)) = 64"
    and "fw_extra (sys_fw s) \<noteq> []" by (simp_all add: sys_inv_def)
  then obtain x q where x: "fw_extra (sys_fw s) = x # q" by (cases "fw_extra (sys_fw s)") auto
  from pop_extra [OF wf x] pop_fails show ?case by auto
next
  case (push s b r fw')
  then have "extraInputBuffer fw' = extraInputBuffer (sys_fw s)" by (auto simp: push_input_def dest: extra_untouched)
  then show ?case using push by (auto simp: sys_inv_def fw_extra_def)
qed (auto simp: sys_inv_def fw_extra_def circular_buffer_is_empty_uint8_def circular_buffer_get_size_uint8_def
  dest!: extra_untouched split: if_splits)

lemma reachable_inv: "sys_step\<^sup>*\<^sup>* s t \<Longrightarrow> sys_inv s \<Longrightarrow> sys_inv t"
  by (induction rule: rtranclp_induct) (auto intro: sys_step_inv)

end
