(* ===== verification/Avr.thy ===== *)
theory Avr
  imports Isr
begin

text \<open>
  The parts that the programs under \<^verbatim>\<open>avr/\<close> share: \<^verbatim>\<open>avr_uart.h\<close>,
  \<^verbatim>\<open>avr_timers.h\<close>, the AVR macros of \<^verbatim>\<open>millisec_timer.h\<close>, and interrupts that
  count overflows of a timer.
\<close>

section \<open>I/O registers\<close>

text \<open>
  The registers are bytes of the data memory. Their addresses and the numbers of their bits come from
  \<^verbatim>\<open>avr/io.h\<close>, which is not part of the repository, and are a parameter.
\<close>

datatype avr_reg = UBRR0H | UBRR0L | UCSR0A | UCSR0B | UCSR0C | TCCR0A | TCCR0B | TIMSK0 | OCR0A
  | DDRB | PORTB | PORTC | PORTD | ADMUX | ADCSRA

datatype avr_bit = UCSZ00 | RXEN0 | TXEN0 | RXCIE0 | UDRIE0 | WGM01 | OCIE0A | ADEN | ADSC

record avr_io =
  reg_addr :: "avr_reg \<Rightarrow> nat"
  bit_no :: "avr_bit \<Rightarrow> nat"

type_synonym 'v memory = "nat \<rightharpoonup> 'v"

definition io_get :: "avr_io \<Rightarrow> avr_reg \<Rightarrow> byte memory \<Rightarrow> byte" where
  "io_get io r m = (case m (reg_addr io r) of None \<Rightarrow> 0 | Some v \<Rightarrow> v)"

definition io_set :: "avr_io \<Rightarrow> avr_reg \<Rightarrow> byte \<Rightarrow> byte memory \<Rightarrow> byte memory" where
  "io_set io r v m = m(reg_addr io r \<mapsto> v)"

text \<open>\<^verbatim>\<open>r |= v\<close>, \<^verbatim>\<open>r &= v\<close>, \<^verbatim>\<open>r ^= v\<close>.\<close>

definition io_or :: "avr_io \<Rightarrow> avr_reg \<Rightarrow> byte \<Rightarrow> byte memory \<Rightarrow> byte memory" where
  "io_or io r v m = io_set io r (io_get io r m OR v) m"

definition io_and :: "avr_io \<Rightarrow> avr_reg \<Rightarrow> byte \<Rightarrow> byte memory \<Rightarrow> byte memory" where
  "io_and io r v m = io_set io r (io_get io r m AND v) m"

definition io_xor :: "avr_io \<Rightarrow> avr_reg \<Rightarrow> byte \<Rightarrow> byte memory \<Rightarrow> byte memory" where
  "io_xor io r v m = io_set io r (io_get io r m XOR v) m"

lemma io_get_set [simp]:
  "inj (reg_addr io) \<Longrightarrow> io_get io r (io_set io r' v m) = (if r = r' then v else io_get io r m)"
  by (auto simp: io_get_def io_set_def inj_eq)

lemma io_get_update [simp]:
  assumes "inj (reg_addr io)"
  shows "io_get io r (io_or io r' v m) = (if r = r' then io_get io r m OR v else io_get io r m)"
    and "io_get io r (io_and io r' v m) = (if r = r' then io_get io r m AND v else io_get io r m)"
    and "io_get io r (io_xor io r' v m) = (if r = r' then io_get io r m XOR v else io_get io r m)"
  using assms by (simp_all add: io_or_def io_and_def io_xor_def)

section \<open>The USART\<close>

text \<open>The macros are for one UART; every program uses number 0. An \<^verbatim>\<open>int\<close> has 16 bits.\<close>

definition UART_Init :: "avr_io \<Rightarrow> 32 word \<Rightarrow> 16 word \<Rightarrow> byte memory \<Rightarrow> byte memory" where
  "UART_Init io ubrr rxIntEnable m =
     (let m = io_set io UBRR0H (ucast (drop_bit 8 ubrr) AND 0xFF) m;
          m = io_set io UBRR0L (ucast ubrr AND 0xFF) m;
          m = io_set io UCSR0A 0 m;
          m = io_set io UCSR0C (ucast (push_bit (bit_no io UCSZ00) 3 :: 16 word)) m in
      io_set io UCSR0B (ucast (push_bit (bit_no io RXEN0) 1 OR push_bit (bit_no io TXEN0) 1 OR
        push_bit (bit_no io RXCIE0) rxIntEnable :: 16 word)) m)"

definition USART_enable_udre_interrupt :: "avr_io \<Rightarrow> byte memory \<Rightarrow> byte memory" where
  "USART_enable_udre_interrupt io = io_or io UCSR0B (ucast (push_bit (bit_no io UDRIE0) 1 :: 16 word))"

definition USART_disable_udre_interrupt :: "avr_io \<Rightarrow> byte memory \<Rightarrow> byte memory" where
  "USART_disable_udre_interrupt io = io_and io UCSR0B (ucast (NOT (push_bit (bit_no io UDRIE0) 1) :: 16 word))"

text \<open>
  The interrupt handler of \<^verbatim>\<open>avr_uart.h\<close> takes the byte without a check, and always the one of USART 0:
  the macro does not use its first two parameters.
\<close>

definition def_usart_isr_push_rx_to_circ_buf :: "'w firmware \<Rightarrow> (unit, 'w firmware) res" where
  "def_usart_isr_push_rx_to_circ_buf =
     on_rx (\<lambda>(u, cb). case uart_rx u of (UDR0, u) \<Rightarrow>
       case circular_buffer_push_back_uint8 cb UDR0 of (r, cb) \<Rightarrow> (r, (u, cb)))"

text \<open>When it runs because a byte waits, it is the handler that the other programs write out.\<close>

lemma isr_agrees:
  "rx_waiting (fw_uart fw) \<Longrightarrow> def_usart_isr_push_rx_to_circ_buf fw = usart_rx_isr fw"
  by (simp add: def_usart_isr_push_rx_to_circ_buf_def usart_rx_isr_def on_rx_def zoom_def uart_rx_to_circ_buf_def
    is_uart_rx_data_waiting_def uart_rx_def split: prod.split)

text \<open>Enabling and then disabling an interrupt gives the register back, if it was off.\<close>

lemma udre_off_on:
  assumes "inj (reg_addr io)" and "bit_no io UDRIE0 < 8" and "\<not> bit (io_get io UCSR0B m) (bit_no io UDRIE0)"
  shows "io_get io UCSR0B (USART_disable_udre_interrupt io (USART_enable_udre_interrupt io m)) = io_get io UCSR0B m"
  using assms by (intro bit_word_eqI) (auto simp: USART_disable_udre_interrupt_def USART_enable_udre_interrupt_def bit_simps)

section \<open>Timer 0\<close>

definition TIMER0_Init :: "avr_io \<Rightarrow> 16 word \<Rightarrow> 16 word \<Rightarrow> 16 word \<Rightarrow> byte memory \<Rightarrow> byte memory" where
  "TIMER0_Init io cs ctc timsk0 m =
     (let m = io_set io TCCR0A (ucast (push_bit (bit_no io WGM01) (ctc AND 1))) m;
          m = io_set io TCCR0B (ucast (cs AND 0b111)) m in
      io_set io TIMSK0 (ucast (timsk0 AND 0b111)) m)"

definition millisec_timer_avr_timer0_setup_16MHz :: "avr_io \<Rightarrow> byte memory \<Rightarrow> byte memory" where
  "millisec_timer_avr_timer0_setup_16MHz io m =
     (let m = io_or io TCCR0B 0x3 m;
          m = io_or io TCCR0A 2 m;
          m = io_set io OCR0A 250 m in
      io_or io TIMSK0 (ucast (push_bit (bit_no io OCIE0A) 1 :: 16 word)) m)"

text \<open>
  The count of milliseconds is a variable of four bytes, lowest first; register pointers read
  its bytes one by one.
\<close>

definition read_uint32 :: "nat \<Rightarrow> byte memory \<Rightarrow> 32 word" where
  "read_uint32 a m = (let b = (\<lambda>i. ucast (case m (a + i) of None \<Rightarrow> 0 | Some v \<Rightarrow> v) :: 32 word) in
     b 0 OR push_bit 8 (b 1) OR push_bit 16 (b 2) OR push_bit 24 (b 3))"

definition write_uint32 :: "nat \<Rightarrow> 32 word \<Rightarrow> byte memory \<Rightarrow> byte memory" where
  "write_uint32 a v m = m(a \<mapsto> ucast v, a + 1 \<mapsto> ucast (drop_bit 8 v), a + 2 \<mapsto> ucast (drop_bit 16 v), a + 3 \<mapsto> ucast (drop_bit 24 v))"

lemma read_write_uint32 [simp]: "read_uint32 a (write_uint32 a v m) = v"
proof (intro bit_word_eqI)
  fix n assume "n < LENGTH(32)"
  then consider "n < 8" | "8 \<le> n" "n < 16" | "16 \<le> n" "n < 24" | "24 \<le> n" "n < 32" by force
  then show "bit (read_uint32 a (write_uint32 a v m)) n \<longleftrightarrow> bit v n"
    by cases (auto simp: read_uint32_def write_uint32_def Let_def bit_simps)
qed

text \<open>\<^verbatim>\<open>MILLISEC_TIMER_AVR_TIMER0_ISR\<close>, with the address of the count.\<close>

definition MILLISEC_TIMER_AVR_TIMER0_ISR :: "nat \<Rightarrow> byte memory \<Rightarrow> byte memory" where
  "MILLISEC_TIMER_AVR_TIMER0_ISR MILLISEC_TIMER_NOW m = write_uint32 MILLISEC_TIMER_NOW (read_uint32 MILLISEC_TIMER_NOW m + 1) m"

lemma millisec_ticks:
  "read_uint32 a ((MILLISEC_TIMER_AVR_TIMER0_ISR a ^^ n) m) = read_uint32 a m + of_nat n"
  by (induction n) (simp_all add: MILLISEC_TIMER_AVR_TIMER0_ISR_def)

section \<open>Blinking with an interrupt\<close>

text \<open>
  \<^verbatim>\<open>F_CPU / 1024 / 256 / 2\<close>, and the handler of the overflow in the programs that blink. Its static
  counter is part of the state.
\<close>

definition n_overflows :: "32 word" where
  "n_overflows = 16000000 div 1024 div 256 div 2"

definition timer0_ovf_isr :: "avr_io \<Rightarrow> 16 word \<times> byte memory \<Rightarrow> 16 word \<times> byte memory" where
  "timer0_ovf_isr io s =
     (let timer_overflow_count = fst s + 1 in
      if ucast timer_overflow_count = n_overflows then (0, io_xor io PORTB (push_bit 5 1) (snd s))
      else (timer_overflow_count, snd s))"

definition arduino_uno_blink_interrupt_setup :: "avr_io \<Rightarrow> byte memory \<Rightarrow> byte memory" where
  "arduino_uno_blink_interrupt_setup io m = io_or io DDRB (push_bit 5 1) (TIMER0_Init io 5 0 1 m)"

lemma n_overflows_eq: "n_overflows = 30"
  by (simp add: n_overflows_def)

lemma unat_ucast_32: "unat (ucast (c :: 16 word) :: 32 word) = unat c"
proof -
  have "unat c < 2 ^ 32" using unsigned_less [of c, where 'a = nat] by simp
  then show ?thesis by (simp add: unsigned_ucast_eq take_bit_nat_eq_self)
qed

text \<open>After \<open>k\<close> interrupts: the count is the rest, and the LED has changed once per 30.\<close>

lemma timer0_ovf_isr_count:
  assumes io: "inj (reg_addr io)"
  shows "(timer0_ovf_isr io ^^ k) (0, m) = (of_nat (k mod 30), ((io_xor io PORTB (push_bit 5 1)) ^^ (k div 30)) m)"
proof (induction k)
  case 0
  then show ?case by simp
next
  case (Suc k)
  let ?c = "of_nat (k mod 30) :: 16 word"
  have u: "unat (?c + 1) = Suc (k mod 30)"
  proof -
    have "unat (of_nat (Suc (k mod 30)) :: 16 word) = Suc (k mod 30)"
      using mod_less_divisor [of 30 k] by (simp add: unat_of_nat take_bit_nat_eq_self del: of_nat_Suc)
    then show ?thesis by (simp add: add.commute)
  qed
  have e: "(ucast (?c + 1) :: 32 word) = 30 \<longleftrightarrow> k mod 30 = 29"
    using u by (simp add: word_unat_eq_iff unat_ucast_32)
  show ?case
  proof (cases "k mod 30 = 29")
    case True
    then have "Suc k mod 30 = 0" "Suc k div 30 = Suc (k div 30)" by (simp_all add: mod_Suc div_Suc)
    then show ?thesis using Suc True e by (simp add: timer0_ovf_isr_def n_overflows_eq)
  next
    case False
    then have "Suc k mod 30 = Suc (k mod 30)" "Suc k div 30 = k div 30" by (simp_all add: mod_Suc div_Suc)
    then show ?thesis using Suc False e by (simp add: timer0_ovf_isr_def n_overflows_eq add.commute)
  qed
qed

lemma xor_twice:
  assumes "inj (reg_addr io)"
  shows "io_get io PORTB ((io_xor io PORTB v ^^ n) m) = (if even n then io_get io PORTB m else io_get io PORTB m XOR v)"
  using assms by (induction n) (auto simp: xor.assoc)

end
