(* ===== verification/Streaming.thy ===== *)
theory Streaming
  imports Asc_Helpers
begin

text \<open>
  Programs that stream: whenever the output buffer is empty they put a stream message into it, and
  a turn sends at most one byte. A locale states this of a turn and gives the bytes on the wire
  after any number of frames.
\<close>

section \<open>The interface\<close>

fun run_turns :: "('s \<Rightarrow> (unit, 's) res) \<Rightarrow> nat \<Rightarrow> 's \<Rightarrow> (unit, 's) res" where
  "run_turns turn 0 s = (Inr (), s)"
| "run_turns turn (Suc n) s = bind_res (turn s) (\<lambda>_. run_turns turn n)"

lemma run_turns_add: "run_turns turn (m + n) s = bind_res (run_turns turn m s) (\<lambda>_. run_turns turn n)"
  by (induction m arbitrary: s) (auto simp: bind_res_def split: sum.splits)

lemma run_turns_1 [simp]: "run_turns turn (Suc 0) = turn"
proof
  fix s
  have "run_turns turn (Suc 0) s = bind_res (turn s) (\<lambda>_ s. (Inr (), s))" by (simp add: bind_res_def split: sum.splits)
  then show "run_turns turn (Suc 0) s = turn s" by (cases "turn s") (auto simp: bind_res_def split: sum.splits)
qed

lemma run_turns_last: "run_turns turn (Suc n) s = bind_res (run_turns turn n s) (\<lambda>_. turn)"
  using run_turns_add [of turn n "Suc 0" s] by simp

text \<open>
  \<open>pending\<close> is what the output buffer holds, \<open>sent\<close> what is on the wire; \<open>key\<close> is what the
  next message depends on, \<open>payload\<close> its frame, \<open>advance\<close> the change it makes.
\<close>

locale streamer =
  fixes turn :: "'s \<Rightarrow> (unit, 's) res"
    and inv :: "'s \<Rightarrow> bool"
    and pending :: "'s \<Rightarrow> byte list"
    and sent :: "'s \<Rightarrow> byte list"
    and key :: "'s \<Rightarrow> 'k"
    and payload :: "'k \<Rightarrow> byte list"
    and advance :: "'k \<Rightarrow> 'k"
    and len :: nat
  assumes length_payload: "length (payload k) = len" and len_pos: "0 < len"
    and fresh: "\<lbrakk>inv s; pending s = []\<rbrakk> \<Longrightarrow> \<exists>s'. turn s = (Inr (), s') \<and> inv s' \<and> key s' = advance (key s)
      \<and> sent s' = sent s @ [hd (payload (key s))] \<and> pending s' = tl (payload (key s))"
    and busy: "\<lbrakk>inv s; pending s \<noteq> []\<rbrakk> \<Longrightarrow> \<exists>s'. turn s = (Inr (), s') \<and> inv s' \<and> key s' = key s
      \<and> sent s' = sent s @ [hd (pending s)] \<and> pending s' = tl (pending s)"
begin

lemma drains:
  "\<lbrakk>inv s; pending s = ps\<rbrakk> \<Longrightarrow> \<exists>s'. run_turns turn (length ps) s = (Inr (), s') \<and> inv s' \<and> key s' = key s
    \<and> sent s' = sent s @ ps \<and> pending s' = []"
proof (induction ps arbitrary: s)
  case Nil
  then show ?case by simp
next
  case (Cons b ps)
  from busy [OF Cons.prems(1)] Cons.prems(2) obtain s1 where "turn s = (Inr (), s1)" "inv s1" "key s1 = key s"
    "sent s1 = sent s @ [b]" "pending s1 = ps" by auto
  with Cons.IH [of s1] show ?case by auto
qed

lemma one_frame:
  assumes "inv s" "pending s = []"
  shows "\<exists>s'. run_turns turn len s = (Inr (), s') \<and> inv s' \<and> key s' = advance (key s)
    \<and> sent s' = sent s @ payload (key s) \<and> pending s' = []"
proof -
  from fresh [OF assms] obtain s1 where 1: "turn s = (Inr (), s1)" "inv s1" "key s1 = advance (key s)"
    "sent s1 = sent s @ [hd (payload (key s))]" "pending s1 = tl (payload (key s))" by auto
  obtain b bs where p: "payload (key s) = b # bs" "len = Suc (length bs)"
    using length_payload [of "key s"] len_pos by (cases "payload (key s)") auto
  from drains [OF 1(2,5)] 1 p show ?thesis by auto
qed

lemma frames:
  assumes "inv s" "pending s = []"
  shows "\<exists>s'. run_turns turn (n * len) s = (Inr (), s') \<and> inv s' \<and> key s' = (advance ^^ n) (key s)
    \<and> sent s' = sent s @ concat (map (\<lambda>i. payload ((advance ^^ i) (key s))) [0..<n]) \<and> pending s' = []"
proof (induction n)
  case 0
  then show ?case using assms by simp
next
  case (Suc n)
  then obtain s1 where 1: "run_turns turn (n * len) s = (Inr (), s1)" "inv s1" "key s1 = (advance ^^ n) (key s)"
    "sent s1 = sent s @ concat (map (\<lambda>i. payload ((advance ^^ i) (key s))) [0..<n])" "pending s1 = []" by auto
  from one_frame [OF 1(2,5)] 1 show ?case
    by (auto simp: run_turns_add add.commute [of len])
qed

end

text \<open>
  When the loop sends before the program streams, the turn that sends the last byte of a frame already
  puts the next one into the buffer.
\<close>

locale eager_streamer =
  fixes turn :: "'s \<Rightarrow> (unit, 's) res"
    and inv :: "'s \<Rightarrow> bool"
    and pending :: "'s \<Rightarrow> byte list"
    and sent :: "'s \<Rightarrow> byte list"
    and key :: "'s \<Rightarrow> 'k"
    and payload :: "'k \<Rightarrow> byte list"
    and advance :: "'k \<Rightarrow> 'k"
    and len :: nat
  assumes length_payload: "length (payload k) = len" and len_pos: "0 < len"
    and turn: "inv s \<Longrightarrow> \<exists>s'. turn s = (Inr (), s') \<and> inv s' \<and> sent s' = sent s @ take 1 (pending s)
      \<and> (if length (pending s) \<le> 1 then pending s' = payload (key s) \<and> key s' = advance (key s)
         else pending s' = tl (pending s) \<and> key s' = key s)"
begin

lemma drains:
  "\<lbrakk>inv s; pending s = ps; ps \<noteq> []\<rbrakk> \<Longrightarrow> \<exists>s'. run_turns turn (length ps) s = (Inr (), s') \<and> inv s' \<and> key s' = advance (key s)
    \<and> sent s' = sent s @ ps \<and> pending s' = payload (key s)"
proof (induction ps arbitrary: s)
  case Nil
  then show ?case by simp
next
  case (Cons b ps)
  from turn [OF Cons.prems(1)] Cons.prems(2) obtain s1 where "turn s = (Inr (), s1)" "inv s1" "sent s1 = sent s @ [b]"
    "if ps = [] then pending s1 = payload (key s) \<and> key s1 = advance (key s) else pending s1 = ps \<and> key s1 = key s" by auto
  with Cons.IH [of s1] show ?case by (cases "ps = []") auto
qed

lemma frames:
  assumes "inv s" "pending s = []"
  shows "\<exists>s'. run_turns turn (Suc (n * len)) s = (Inr (), s') \<and> inv s' \<and> key s' = (advance ^^ Suc n) (key s)
    \<and> sent s' = sent s @ concat (map (\<lambda>i. payload ((advance ^^ i) (key s))) [0..<n]) \<and> pending s' = payload ((advance ^^ n) (key s))"
proof (induction n)
  case 0
  from turn [OF assms(1)] assms(2) show ?case by auto
next
  case (Suc n)
  then obtain s1 where 1: "run_turns turn (Suc (n * len)) s = (Inr (), s1)" "inv s1" "key s1 = (advance ^^ Suc n) (key s)"
    "sent s1 = sent s @ concat (map (\<lambda>i. payload ((advance ^^ i) (key s))) [0..<n])" "pending s1 = payload ((advance ^^ n) (key s))" by auto
  have "pending s1 \<noteq> []" "length (pending s1) = len" using length_payload len_pos 1(5) by (auto simp flip: length_0_conv)
  from drains [OF 1(2) refl this(1)] this(2) obtain s2 where "run_turns turn len s1 = (Inr (), s2)" "inv s2" "key s2 = advance (key s1)"
    "sent s2 = sent s1 @ pending s1" "pending s2 = payload (key s1)" by auto
  then show ?case using 1 run_turns_add [of turn "Suc (n * len)" len s] by (simp add: add.commute)
qed

end

section \<open>Stream messages of a firmware\<close>

definition fw_counter :: "'w firmware \<Rightarrow> byte" where
  "fw_counter fw = send_stream_frame_counter (dev_asc (ascd fw))"

lemma put_s_empty:
  assumes wf: "asc_wf a" and out: "cb_list (out_buf a) = []" and n: "unat n \<le> length data" "unat n \<le> 51"
    and d: "d = take (unat n) data" and ns: "chr_start \<notin> set ([v, ap] @ d)"
  shows "\<exists>a'. ascii_serial_com_put_s_message_in_output_buffer a v ap data n = (Inr (), a') \<and> asc_wf a'
    \<and> cb_list (out_buf a') = frame v ap chr_s (stream_data (send_stream_frame_counter a) d) \<and> in_buf a' = in_buf a
    \<and> send_stream_frame_counter a' = send_stream_frame_counter a + 1 \<and> ignoreCRCMismatch a' = ignoreCRCMismatch a"
proof -
  have s: "out_content a [] a" using out_content_self [of a] wf out by (simp add: asc_wf_def)
  have l: "length ([] :: byte list) + length d + 13 \<le> 64" using d n by simp
  have f: "unat (iStart (out_buf a)) + length ([] :: byte list) \<le> 64"
    using wf by (simp add: asc_wf_def cb_wf_def cb_cap_def)
  from put_s_fits [OF s n(1) d ns l f]
  obtain a' where a: "ascii_serial_com_put_s_message_in_output_buffer a v ap data n = (Inr (), a')"
    and o: "out_content (a\<lparr>send_stream_frame_counter := send_stream_frame_counter a + 1\<rparr>)
      (frame v ap chr_s (stream_data (send_stream_frame_counter a) d)) a'"
    by (cases "ascii_serial_com_put_s_message_in_output_buffer a v ap data n") (simp add: tx_yields_def)
  show ?thesis using a out_contentD [OF o] wf by (simp add: asc_wf_def)
qed

lemma stream_to_host:
  assumes wf: "fw_wf fw" and out: "fw_out fw = []" and n: "unat n \<le> length data" "unat n \<le> 51"
    and d: "d = take (unat n) data" and ns: "chr_start \<notin> set d"
  shows "\<exists>fw'. on_device (ascii_serial_com_device_put_s_message_in_output_buffer chr_0 chr_0 data n) fw = (Inr (), fw') \<and> fw_wf fw'
    \<and> fw_out fw' = frame chr_0 chr_0 chr_s (stream_data (fw_counter fw) d) \<and> fw_counter fw' = fw_counter fw + 1
    \<and> fw_in fw' = fw_in fw \<and> fw_extra fw' = fw_extra fw \<and> fw_mem fw' = fw_mem fw \<and> fw_uart fw' = fw_uart fw
    \<and> dev_config (ascd fw') = dev_config (ascd fw)"
proof -
  have "asc_wf (dev_asc (ascd fw))" "cb_list (out_buf (dev_asc (ascd fw))) = []" "chr_start \<notin> set ([chr_0, chr_0] @ d)"
    using wf out ns by (simp_all add: fw_wf_def fw_out_def device_wf_def)
  from put_s_empty [OF this(1,2) n d this(3)] wf show ?thesis
    by (auto simp: on_device_def zoom_def ascii_serial_com_device_put_s_message_in_output_buffer_def on_asc_def
      fw_counter_def fw_in_def fw_out_def fw_extra_def fw_wf_def device_wf_def)
qed

lemma tx_counter: "on_tx f fw = (r, fw') \<Longrightarrow> fw_counter fw' = fw_counter fw"
  by (auto simp: on_tx_def zoom_def fw_counter_def split: prod.splits)

lemma with_tx_ready_counter [simp]: "fw_counter (with_tx_ready r fw) = fw_counter fw"
  by (simp add: with_tx_ready_def fw_counter_def)

text \<open>A change of the memory that the registers are in.\<close>

definition set_memory :: "((nat \<rightharpoonup> 'v) \<Rightarrow> nat \<rightharpoonup> 'v) \<Rightarrow> 'v rp_world firmware \<Rightarrow> 'v rp_world firmware" where
  "set_memory f fw = fw\<lparr>fw_mem := ((fst (fst (fw_mem fw)), f (snd (fst (fw_mem fw)))), snd (fw_mem fw))\<rparr>"

lemma set_memory_simps [simp]:
  "fw_wf (set_memory f fw) = fw_wf fw" "fw_in (set_memory f fw) = fw_in fw" "fw_out (set_memory f fw) = fw_out fw"
  "fw_extra (set_memory f fw) = fw_extra fw" "fw_counter (set_memory f fw) = fw_counter fw" "fw_uart (set_memory f fw) = fw_uart fw"
  "snd (fst (fw_mem (set_memory f fw))) = f (snd (fst (fw_mem fw)))" "snd (fw_mem (set_memory f fw)) = snd (fw_mem fw)"
  by (simp_all add: set_memory_def fw_simps fw_counter_def)

text \<open>An idle input.\<close>

lemma receive_idle:
  assumes wf: "fw_wf fw" and i: "fw_in fw = []"
  shows "\<exists>fw'. on_device ascii_serial_com_device_receive fw = (Inr (), fw') \<and> fw_wf fw' \<and> fw_in fw' = []
    \<and> fw_extra fw' = fw_extra fw \<and> fw_out fw' = fw_out fw \<and> fw_mem fw' = fw_mem fw \<and> fw_uart fw' = fw_uart fw
    \<and> dev_config (ascd fw') = dev_config (ascd fw) \<and> fw_counter fw' = fw_counter fw"
proof -
  have "device_wf (ascd fw)" "receive_frame (cb_list (in_buf (dev_asc (ascd fw)))) = (No_Message, [])"
    using wf i receive_frame_Nil by (simp_all add: fw_wf_def fw_in_def del: cb_list_Nil_iff)
  from receive_nothing [OF this, of "fw_mem fw"]
  obtain dev' where d: "ascii_serial_com_device_receive (ascd fw, fw_mem fw) = (Inr (), (dev', fw_mem fw))" "device_wf dev'"
      "dev_config dev' = dev_config (ascd fw)" "in_content (dev_asc (ascd fw)) 64 [] (dev_asc dev')" by auto
  note A = in_contentD [OF d(4)]
  have "send_stream_frame_counter (dev_asc dev') = send_stream_frame_counter (dev_asc (ascd fw))"
    using d(4) by (metis in_content_def ascii_serial_com.select_convs(3) ascii_serial_com.surjective ascii_serial_com.update_convs(1))
  then show ?thesis using wf d(1-3) A
    by (auto simp: on_device_def zoom_def fw_wf_def fw_in_def fw_out_def fw_extra_def fw_counter_def)
qed


text \<open>A turn of the macro with an idle input sends, and keeps the rest.\<close>

lemma handle_idle:
  assumes "fw_wf fw" and "fw_in fw = []" and "fw_extra fw = []"
  shows "\<exists>fw'. HANDLE_ASC_COMM_IN_POLLING_LOOP fw = (Inr (), fw') \<and> fw_wf fw' \<and> fw_in fw' = [] \<and> fw_extra fw' = []
    \<and> fw_mem fw' = fw_mem fw \<and> fw_counter fw' = fw_counter fw \<and> dev_config (ascd fw') = dev_config (ascd fw)
    \<and> fw_out fw' = (if tx_ready (fw_uart fw) then drop 1 (fw_out fw) else fw_out fw)
    \<and> tx_sent (fw_uart fw') = tx_sent (fw_uart fw) @ (if tx_ready (fw_uart fw) then take 1 (fw_out fw) else [])"
proof -
  from tx_step [OF assms(1)] assms(2,3)
  obtain fw1 where 1: "on_tx uart_tx_from_circ_buf fw = (Inr (), fw1)" "fw_wf fw1" "fw_in fw1 = []" "fw_extra fw1 = []"
    "fw_mem fw1 = fw_mem fw" "dev_config (ascd fw1) = dev_config (ascd fw)"
    "if tx_ready (fw_uart fw) \<and> fw_out fw \<noteq> [] then fw_out fw1 = tl (fw_out fw) \<and> tx_sent (fw_uart fw1) = tx_sent (fw_uart fw) @ [hd (fw_out fw)]
       else fw_out fw1 = fw_out fw \<and> tx_sent (fw_uart fw1) = tx_sent (fw_uart fw)" by auto
  from receive_idle [OF 1(2,3)] obtain fw2 where 2: "on_device ascii_serial_com_device_receive fw1 = (Inr (), fw2)" "fw_wf fw2" "fw_in fw2 = []"
    "fw_extra fw2 = fw_extra fw1" "fw_out fw2 = fw_out fw1" "fw_mem fw2 = fw_mem fw1" "fw_uart fw2 = fw_uart fw1"
    "dev_config (ascd fw2) = dev_config (ascd fw1)" "fw_counter fw2 = fw_counter fw1" by auto
  have "HANDLE_ASC_COMM_IN_POLLING_LOOP fw = (Inr (), fw2)"
    using 1(1,4) 2(1) by (simp add: HANDLE_ASC_COMM_IN_POLLING_LOOP_def extra_empty)
  then show ?thesis using 1 2 tx_counter [OF 1(1)] by (cases "fw_out fw") (auto split: if_splits)
qed

section \<open>Samples of an ADC\<close>

definition sample_frame :: "byte \<Rightarrow> 16 word \<Rightarrow> byte list" where
  "sample_frame k v = frame chr_0 chr_0 chr_s (stream_data k (hex_digits True 3 v))"

lemma sample_digits [simp]: "drop (Suc 0) (hex_digits True 4 v) = hex_digits True 3 (v :: 16 word)"
  by (simp add: numeral_eq_Suc)

text \<open>The three digits are the value, as long as it has 12 bits; the ADC has 10.\<close>

lemma sample_value:
  assumes "unat v < 4096"
  shows "hex_word (hex_digits True 3 v) = Some (v :: 16 word)"
proof -
  have "take_bit 12 v = v"
    by (rule word_unat_eq_iff [THEN iffD2]) (use assms in \<open>simp add: unsigned_take_bit_eq take_bit_nat_eq_self\<close>)
  then show ?thesis by (simp add: hex_word_def foldl_hex_digits)
qed

lemma sample_buffer: "final_state (convert_uint16_to_hex v 0 True (replicate 4 0)) = Inr (hex_digits True 4 v)"
  by (simp add: convert_uint16_to_hex_digits mem_put_def)

lemma stream_sample:
  assumes "fw_wf fw" and "fw_out fw = []"
  shows "\<exists>fw'. STREAM_TO_HOST_ASC_DEVICE_W_REGISTER_POINTERS (hex_digits True 3 v) 3 fw = (Inr (), fw') \<and> fw_wf fw'
    \<and> fw_out fw' = sample_frame (fw_counter fw) v \<and> fw_counter fw' = fw_counter fw + 1 \<and> fw_in fw' = fw_in fw
    \<and> fw_extra fw' = fw_extra fw \<and> fw_mem fw' = fw_mem fw \<and> fw_uart fw' = fw_uart fw \<and> dev_config (ascd fw') = dev_config (ascd fw)"
proof -
  have "chr_start \<notin> set (hex_digits True 3 v)" using hex_digits_plain(1) [of chr_start True 3 v] by auto
  with stream_to_host [OF assms, of 3 "hex_digits True 3 v" "hex_digits True 3 v"] show ?thesis
    by (simp add: STREAM_TO_HOST_ASC_DEVICE_W_REGISTER_POINTERS_def sample_frame_def)
qed

end
