(* ===== verification/Avr_Devices.thy ===== *)
theory Avr_Devices
  imports Avr Register_Block CException Streaming
begin

text \<open>
  The devices for the Arduino Uno that write their loop out:
  \<^verbatim>\<open>arduino_uno_dummy_register_block.c\<close>, \<^verbatim>\<open>arduino_uno_register_pointers.c\<close> and
  \<^verbatim>\<open>arduino_uno_test_device.c\<close>. Their loop is the one of \<^verbatim>\<open>asc_helpers.h\<close> with the
  sending moved to the end; it is shown to be a rotation of it.
\<close>

section \<open>The loop\<close>

text \<open>A byte is taken over, then a message is received; what a program streams comes before the sending.\<close>

definition intake :: "'w firmware \<Rightarrow> (unit, 'w firmware) res" where
  "intake fw =
     bind_res (if \<not> circular_buffer_is_empty_uint8 (extraInputBuffer fw) then
          bind_res (on_extra circular_buffer_pop_front_uint8 fw) (\<lambda>byte fw. push_input byte fw)
        else (Inr (), fw)) (\<lambda>_ fw.
       on_device ascii_serial_com_device_receive fw)"

definition avr_turn :: "'w firmware \<Rightarrow> (unit, 'w firmware) res" where
  "avr_turn fw = bind_res (intake fw) (\<lambda>_. on_tx uart_tx_from_circ_buf)"

text \<open>\<^verbatim>\<open>Try { ... } Catch(e) { nExceptions++; }\<close>: the count has 16 bits.\<close>

definition count_exceptions :: "('s \<Rightarrow> (unit, 's) res) \<Rightarrow> 's \<times> 16 word \<Rightarrow> (unit, 's \<times> 16 word) res" where
  "count_exceptions body s = try_catch (zoom fst (\<lambda>t s. (t, snd s)) body s) (\<lambda>e s. (Inr (), (fst s, snd s + 1)))"

lemma count_exceptions_simps [simp]:
  "body t = (Inr (), t') \<Longrightarrow> count_exceptions body (t, n) = (Inr (), (t', n))"
  "body t = (Inl (Throw e), t') \<Longrightarrow> count_exceptions body (t, n) = (Inr (), (t', n + 1))"
  "body t = (Inl UB, t') \<Longrightarrow> count_exceptions body (t, n) = (Inl UB, (t', n))"
  by (simp_all add: count_exceptions_def zoom_def)

text \<open>The setup of the device and the extra buffer, which the programs share.\<close>

definition device_setup :: "'w ascii_serial_com_device_config \<Rightarrow> byte list \<Rightarrow> byte list \<Rightarrow> 'w firmware \<Rightarrow> (unit, 'w firmware) res" where
  "device_setup ascd_config raw_buffer extraInputBuffer_raw fw =
     bind_res (on_device (\<lambda>s. ascii_serial_com_device_init s ascd_config raw_buffer) fw) (\<lambda>_.
       on_extra (\<lambda>cb. circular_buffer_init_uint8 cb extraInputBuffer_size extraInputBuffer_raw))"

definition MYUBRR :: "32 word" where
  "MYUBRR = 16000000 div 16 div 9600 - 1"

text \<open>\<^verbatim>\<open>main\<close> up to its loop: the exit code when the setup throws, and the UART set up otherwise.\<close>

definition start_device :: "('w firmware \<Rightarrow> (unit, 'w firmware) res) \<Rightarrow> ('w firmware \<Rightarrow> 'w firmware) \<Rightarrow> 'w firmware \<Rightarrow>
    (nat option, 'w firmware \<times> 16 word) res" where
  "start_device setup init_uart fw =
     (let nExceptions = 0 in
      try_catch (case bind_res (setup fw) (\<lambda>_ fw. (Inr None, init_uart fw)) of (r, fw) \<Rightarrow> (r, (fw, nExceptions)))
        (\<lambda>e s. (Inr (Some (asc_exception_code e)), s)))"

section \<open>The programs\<close>

subsection \<open>Register block\<close>

definition nRegs_block :: "16 word" where "nRegs_block = 10"

text \<open>The memory of the handler and the I/O registers; \<open>rb_config\<close> is the configuration also of the native program.\<close>

type_synonym block_world = "ascii_serial_com_register_block option \<times> byte memory"

definition block_config :: "block_world ascii_serial_com_device_config" where
  "block_config = \<lparr>func_rw = Some (handle_fst ascii_serial_com_register_block_handle_message), func_s = None, func_nf = None\<rparr>"

definition dummy_register_block_setup :: "byte list \<Rightarrow> byte list \<Rightarrow> byte list \<Rightarrow> block_world firmware \<Rightarrow> (unit, block_world firmware) res" where
  "dummy_register_block_setup regs raw_buffer extraInputBuffer_raw fw =
     (let fw = fw\<lparr>fw_mem := (map_option (\<lambda>rb. ascii_serial_com_register_block_init rb regs nRegs_block) (fst (fw_mem fw)), snd (fw_mem fw))\<rparr> in
      device_setup block_config raw_buffer extraInputBuffer_raw fw)"

definition dummy_register_block_start :: "avr_io \<Rightarrow> byte list \<Rightarrow> byte list \<Rightarrow> byte list \<Rightarrow> block_world firmware \<Rightarrow>
    (nat option, block_world firmware \<times> 16 word) res" where
  "dummy_register_block_start io regs raw_buffer extraInputBuffer_raw =
     start_device (dummy_register_block_setup regs raw_buffer extraInputBuffer_raw)
       (\<lambda>fw. fw\<lparr>fw_mem := (fst (fw_mem fw), UART_Init io MYUBRR 1 (snd (fw_mem fw)))\<rparr>)"

definition dummy_register_block_turn :: "block_world firmware \<times> 16 word \<Rightarrow> (unit, block_world firmware \<times> 16 word) res" where
  "dummy_register_block_turn = count_exceptions avr_turn"

subsection \<open>Register pointers\<close>

text \<open>The registers are the ports; only bit 5 of \<^verbatim>\<open>PORTB\<close> can be written.\<close>

definition port_regPtrs :: "avr_io \<Rightarrow> nat option list" where
  "port_regPtrs io = [Some (reg_addr io PORTB), Some (reg_addr io PORTC), Some (reg_addr io PORTD)]"

definition port_masks :: "byte list" where
  "port_masks = [push_bit 5 1, 0, 0]"

definition ports_config :: "byte reg_world ascii_serial_com_device_config" where
  "ports_config = \<lparr>func_rw = Some handle_message_avr, func_s = None, func_nf = None\<rparr>"

definition register_pointers_setup :: "avr_io \<Rightarrow> byte list \<Rightarrow> byte list \<Rightarrow> byte reg_world firmware \<Rightarrow> (unit, byte reg_world firmware) res" where
  "register_pointers_setup io raw_buffer extraInputBuffer_raw fw =
     (let fw = fw\<lparr>fw_mem := (map_option (\<lambda>rp. ascii_serial_com_register_pointers_init rp (port_regPtrs io) port_masks 3) (fst (fw_mem fw)), snd (fw_mem fw))\<rparr> in
      device_setup ports_config raw_buffer extraInputBuffer_raw fw)"

definition register_pointers_start :: "avr_io \<Rightarrow> byte list \<Rightarrow> byte list \<Rightarrow> byte reg_world firmware \<Rightarrow>
    (nat option, byte reg_world firmware \<times> 16 word) res" where
  "register_pointers_start io raw_buffer extraInputBuffer_raw fw =
     start_device (register_pointers_setup io raw_buffer extraInputBuffer_raw)
       (\<lambda>fw. fw\<lparr>fw_mem := (fst (fw_mem fw), UART_Init io MYUBRR 1 (snd (fw_mem fw)))\<rparr>)
       (fw\<lparr>fw_mem := (fst (fw_mem fw), io_or io DDRB (push_bit 5 1) (snd (fw_mem fw)))\<rparr>)"

definition register_pointers_turn :: "byte reg_world firmware \<times> 16 word \<Rightarrow> (unit, byte reg_world firmware \<times> 16 word) res" where
  "register_pointers_turn = count_exceptions avr_turn"


subsection \<open>Test device\<close>

text \<open>The test device also streams a counter; \<^verbatim>\<open>stream_state.on\<close> is in the memory of its second handler.\<close>

type_synonym test_world = "byte reg_world \<times> byte"

definition test_handle_nf_messages :: "test_world handler" where
  "test_handle_nf_messages ascVersion appVersion command dataLen s =
     (Inr (), (fst s, fst (snd s), (fst (snd (snd s)),
        if command = chr_n then 1 else if command = chr_f then 0 else snd (snd (snd s)))))"

definition test_config :: "test_world ascii_serial_com_device_config" where
  "test_config = \<lparr>func_rw = Some (handle_fst handle_message_avr), func_s = None, func_nf = Some test_handle_nf_messages\<rparr>"

record test_device =
  td_fw :: "test_world firmware"
  counter :: byte
  counter_buffer :: "byte list"

definition td_on_fw :: "(test_world firmware \<Rightarrow> ('a, test_world firmware) res) \<Rightarrow> test_device \<Rightarrow> ('a, test_device) res" where
  "td_on_fw = zoom td_fw (\<lambda>fw td. td\<lparr>td_fw := fw\<rparr>)"

definition test_device_setup :: "avr_io \<Rightarrow> byte list \<Rightarrow> byte list \<Rightarrow> test_world firmware \<Rightarrow> (unit, test_world firmware) res" where
  "test_device_setup io raw_buffer extraInputBuffer_raw fw =
     (let fw = fw\<lparr>fw_mem := ((map_option (\<lambda>rp. ascii_serial_com_register_pointers_init rp (port_regPtrs io) port_masks 3)
          (fst (fst (fw_mem fw))), snd (fst (fw_mem fw))), snd (fw_mem fw))\<rparr> in
      device_setup test_config raw_buffer extraInputBuffer_raw fw)"

definition test_device_start :: "avr_io \<Rightarrow> byte list \<Rightarrow> byte list \<Rightarrow> test_device \<Rightarrow> (nat option, test_device \<times> 16 word) res" where
  "test_device_start io raw_buffer extraInputBuffer_raw td =
     (let fw = td_fw td;
          fw = fw\<lparr>fw_mem := ((fst (fst (fw_mem fw)), io_or io DDRB (push_bit 5 1) (snd (fst (fw_mem fw)))), 0)\<rparr>;
          td = td\<lparr>counter := 0\<rparr> in
      case start_device (test_device_setup io raw_buffer extraInputBuffer_raw)
          (\<lambda>fw. fw\<lparr>fw_mem := ((fst (fst (fw_mem fw)), UART_Init io MYUBRR 1 (snd (fst (fw_mem fw)))), snd (fw_mem fw))\<rparr>) fw of
        (r, (fw, nExceptions)) \<Rightarrow> (r, (td\<lparr>td_fw := fw\<rparr>, nExceptions)))"

definition stream_counter :: "test_device \<Rightarrow> (unit, test_device) res" where
  "stream_counter td =
     (if snd (fw_mem (td_fw td)) \<noteq> 0 \<and> circular_buffer_get_size_uint8 (ascii_serial_com_device_get_output_buffer (ascd (td_fw td))) = 0 then
        bind_res (zoom counter_buffer (\<lambda>b td. td\<lparr>counter_buffer := b\<rparr>) (convert_uint8_to_hex (counter td) 0 True) td) (\<lambda>_ td.
        bind_res (td_on_fw (on_device (ascii_serial_com_device_put_s_message_in_output_buffer chr_0 chr_0 (counter_buffer td) 2)) td) (\<lambda>_ td.
          (Inr (), td\<lparr>counter := counter td + 1\<rparr>)))
      else (Inr (), td))"

definition test_device_turn :: "test_device \<times> 16 word \<Rightarrow> (unit, test_device \<times> 16 word) res" where
  "test_device_turn = count_exceptions (\<lambda>td.
     bind_res (td_on_fw intake td) (\<lambda>_ td.
     bind_res (stream_counter td) (\<lambda>_.
       td_on_fw (on_tx uart_tx_from_circ_buf))))"

section \<open>The loop is a rotation of the macro\<close>

text \<open>The UART does not matter to the intake.\<close>

lemma intake_with_tx_ready:
  "intake (with_tx_ready r fw) = (case intake fw of (x, fw') \<Rightarrow> (x, with_tx_ready r fw'))"
proof -
  have p: "push_input b (with_tx_ready r fw) = (case push_input b fw of (x, fw') \<Rightarrow> (x, with_tx_ready r fw'))" for b fw
    by (simp add: push_input_def on_device_def zoom_def with_tx_ready_def split: prod.split)
  have d: "on_device ascii_serial_com_device_receive (with_tx_ready r fw) =
      (case on_device ascii_serial_com_device_receive fw of (x, fw') \<Rightarrow> (x, with_tx_ready r fw'))" for fw
    by (simp add: on_device_def zoom_def with_tx_ready_def split: prod.split)
  have e: "on_extra circular_buffer_pop_front_uint8 (with_tx_ready r fw) =
      (case on_extra circular_buffer_pop_front_uint8 fw of (x, fw') \<Rightarrow> (x, with_tx_ready r fw'))" for fw
    by (simp add: on_extra_def zoom_def with_tx_ready_def split: prod.split)
  have x: "extraInputBuffer (with_tx_ready r fw) = extraInputBuffer fw" by (simp add: with_tx_ready_def)
  show ?thesis unfolding intake_def x e
    by (auto simp: bind_res_def p d split: prod.splits sum.splits)
qed

fun avr_loop :: "bool list \<Rightarrow> 'w firmware \<Rightarrow> (unit, 'w firmware) res" where
  "avr_loop [] fw = (Inr (), fw)"
| "avr_loop (r # rs) fw = bind_res (avr_turn (with_tx_ready r fw)) (\<lambda>_. avr_loop rs)"

lemma handle_macro_eq:
  "HANDLE_ASC_COMM_IN_POLLING_LOOP fw = bind_res (on_tx uart_tx_from_circ_buf fw) (\<lambda>_. intake)"
  by (simp add: HANDLE_ASC_COMM_IN_POLLING_LOOP_def intake_def [abs_def])

lemma bind_res_assoc: "bind_res (bind_res r f) g = bind_res r (\<lambda>v s. bind_res (f v s) g)"
  by (cases r) (auto simp: bind_res_def split: sum.splits)

lemma avr_loop_rotation:
  assumes "bind_res (poll_loop (butlast (r # rs)) fw) (\<lambda>_ fw. on_tx uart_tx_from_circ_buf (with_tx_ready (last (r # rs)) fw)) = (Inr (), fw')"
  shows "bind_res (on_tx uart_tx_from_circ_buf (with_tx_ready r fw)) (\<lambda>_. avr_loop rs) = (Inr (), fw')"
  using assms
proof (induction rs arbitrary: r fw)
  case Nil
  then show ?case by (cases "on_tx uart_tx_from_circ_buf (with_tx_ready r fw)") (auto simp: bind_res_def split: sum.splits)
next
  case (Cons r' rs)
  from Cons.prems have "bind_res (on_tx uart_tx_from_circ_buf (with_tx_ready r fw)) (\<lambda>_ fw. bind_res (intake fw) (\<lambda>_ fw.
      bind_res (poll_loop (butlast (r' # rs)) fw) (\<lambda>_ fw. on_tx uart_tx_from_circ_buf (with_tx_ready (last (r' # rs)) fw)))) = (Inr (), fw')"
    by (simp add: handle_macro_eq bind_res_assoc split: if_splits)
  then obtain fw1 fw2 where t: "on_tx uart_tx_from_circ_buf (with_tx_ready r fw) = (Inr (), fw1)" "intake fw1 = (Inr (), fw2)"
    and l: "bind_res (poll_loop (butlast (r' # rs)) fw2) (\<lambda>_ fw. on_tx uart_tx_from_circ_buf (with_tx_ready (last (r' # rs)) fw)) = (Inr (), fw')"
    by (elim bind_res_eq_InrD) simp
  from Cons.IH [OF l] show ?case using t
    by (simp add: avr_turn_def intake_with_tx_ready bind_res_assoc)
qed


section \<open>Start\<close>

lemma device_setup_ok:
  assumes "length raw_buffer = 128" "length extra_raw = 64" "length (msg_data (dev_msg (ascd fw))) = 54"
  shows "\<exists>fw'. device_setup config raw_buffer extra_raw fw = (Inr (), fw')
    \<and> fw_wf fw' \<and> fw_in fw' = [] \<and> fw_out fw' = [] \<and> fw_extra fw' = [] \<and> dev_config (ascd fw') = config
    \<and> fw_mem fw' = fw_mem fw \<and> fw_uart fw' = fw_uart fw"
proof -
  from init_interface [OF assms(1), of "dev_asc (ascd fw)"] obtain a where
    a: "ascii_serial_com_init (dev_asc (ascd fw)) raw_buffer = (Inr (), a)" "asc_wf a" "cb_list (in_buf a) = []"
      "cb_list (out_buf a) = []" "\<not> ignoreCRCMismatch a" by blast
  have p: "isPowerOfTwo 64" by code_simp
  then have "cb_returns (circular_buffer_init_uint8 (extraInputBuffer fw) 64 extra_raw) () 64 []"
    using init_returns [of 64 extra_raw "extraInputBuffer fw"] assms(2) by simp
  then obtain cb where cb: "circular_buffer_init_uint8 (extraInputBuffer fw) 64 extra_raw = (Inr (), cb)" "cb_wf cb" "cb_cap cb = 64" "cb_list cb = []"
    by (cases "circular_buffer_init_uint8 (extraInputBuffer fw) 64 extra_raw") (auto simp: cb_returns_def)
  show ?thesis using a cb assms(3)
    by (simp add: device_setup_def on_device_def on_extra_def zoom_def ascii_serial_com_device_init_def on_asc_def fw_simps)
qed

text \<open>An idle device: nothing waits in any buffer.\<close>

definition fw_idle :: "'w firmware \<Rightarrow> bool" where
  "fw_idle fw \<longleftrightarrow> fw_wf fw \<and> fw_in fw = [] \<and> fw_out fw = [] \<and> fw_extra fw = []"

lemma dummy_register_block_start_ok:
  assumes "length raw_buffer = 128" "length extra_raw = 64" "length (msg_data (dev_msg (ascd fw))) = 54"
    and "fw_mem fw = (Some rb, m)"
  shows "\<exists>fw'. dummy_register_block_start io regs raw_buffer extra_raw fw = (Inr None, (fw', 0)) \<and> fw_idle fw'
    \<and> dev_config (ascd fw') = block_config \<and> fw_uart fw' = fw_uart fw
    \<and> fw_mem fw' = (Some (rb\<lparr>rb_block := regs, rb_n_regs := 10\<rparr>), UART_Init io MYUBRR 1 m)"
proof -
  let ?fw = "fw\<lparr>fw_mem := (Some (rb\<lparr>rb_block := regs, rb_n_regs := 10\<rparr>), m)\<rparr>"
  have e: "dummy_register_block_setup regs raw_buffer extra_raw fw = device_setup block_config raw_buffer extra_raw ?fw"
    using assms(4) by (simp add: dummy_register_block_setup_def ascii_serial_com_register_block_init_def nRegs_block_def)
  from device_setup_ok [OF assms(1,2), of ?fw block_config] assms(3) obtain fw' where
    "device_setup block_config raw_buffer extra_raw ?fw = (Inr (), fw')" "fw_wf fw'" "fw_in fw' = []" "fw_out fw' = []"
    "fw_extra fw' = []" "dev_config (ascd fw') = block_config" "fw_mem fw' = fw_mem ?fw" "fw_uart fw' = fw_uart fw" by auto
  then show ?thesis unfolding dummy_register_block_start_def start_device_def e
    by (simp add: fw_idle_def fw_simps)
qed

section \<open>Bytes that arrive\<close>

text \<open>A byte arrives and the interrupt takes it.\<close>

definition byte_arrives :: "byte \<Rightarrow> 'w firmware \<Rightarrow> (unit, 'w firmware) res" where
  "byte_arrives b fw = usart_rx_isr (fw\<lparr>fw_uart := (fw_uart fw)\<lparr>rx_waiting := True, rx_data := b\<rparr>\<rparr>)"

lemma bytes_arrive:
  assumes "fw_wf fw" and "length (fw_extra fw) + length bs \<le> 64"
  shows "\<exists>fw'. for_each byte_arrives bs fw = (Inr (), fw') \<and> fw_wf fw' \<and> fw_extra fw' = fw_extra fw @ bs
    \<and> ascd fw' = ascd fw \<and> fw_mem fw' = fw_mem fw \<and> tx_sent (fw_uart fw') = tx_sent (fw_uart fw)"
  using assms
proof (induction bs arbitrary: fw)
  case Nil
  then show ?case by simp
next
  case (Cons b bs)
  let ?fw = "fw\<lparr>fw_uart := (fw_uart fw)\<lparr>rx_waiting := True, rx_data := b\<rparr>\<rparr>"
  have "cb_wf (extraInputBuffer ?fw)" "cb_cap (extraInputBuffer ?fw) = 64" "rx_waiting (fw_uart ?fw)"
    using Cons.prems(1) by (simp_all add: fw_wf_def)
  from isr_extra [OF this] obtain fw1 where 1: "byte_arrives b fw = (Inr (), fw1)" "cb_wf (extraInputBuffer fw1)"
    "cb_cap (extraInputBuffer fw1) = 64" "fw_extra fw1 = fw_extra fw @ [b]" "ascd fw1 = ascd fw" "fw_mem fw1 = fw_mem fw"
    "tx_sent (fw_uart fw1) = tx_sent (fw_uart fw)"
    using Cons.prems(2) by (auto simp: byte_arrives_def fw_extra_def split: if_splits)
  then have "fw_wf fw1" "length (fw_extra fw1) + length bs \<le> 64" using Cons.prems by (simp_all add: fw_wf_def)
  from Cons.IH [OF this] 1 show ?case by auto
qed

section \<open>Requests\<close>

text \<open>Turns that take over a part of a frame.\<close>

lemma tx_nothing:
  assumes "fw_out fw = []" shows "on_tx uart_tx_from_circ_buf fw = (Inr (), fw)"
  using assms by (simp add: on_tx_def zoom_def uart_tx_from_circ_buf_def circular_buffer_is_empty_uint8_def
    circular_buffer_get_size_uint8_def fw_out_def ascii_serial_com_device_get_output_buffer_def ascii_serial_com_get_output_buffer_def)

lemma intake_partial:
  assumes wf: "fw_wf fw" and eq: "p @ b # x = frame v ap c d" and x: "x \<noteq> []" and inp: "fw_in fw = p" and ex: "fw_extra fw = b # q"
    and pl: "plain ([v, ap, c] @ d)" and len: "length d \<le> 54"
  shows "\<exists>fw'. intake fw = (Inr (), fw') \<and> fw_wf fw' \<and> fw_in fw' = p @ [b] \<and> fw_extra fw' = q \<and> fw_out fw' = fw_out fw
    \<and> fw_mem fw' = fw_mem fw \<and> fw_uart fw' = fw_uart fw \<and> dev_config (ascd fw') = dev_config (ascd fw)"
proof -
  have "length (p @ b # x) \<le> 64" unfolding eq using len by simp
  then have "length (fw_in fw) < 64" using inp by simp
  from feed_step [OF wf ex this] obtain fw1 where
    1: "bind_res (on_extra circular_buffer_pop_front_uint8 fw) (\<lambda>tmp_byte fw. push_input tmp_byte fw) = (Inr (), fw1)"
      "fw_wf fw1" "fw_in fw1 = p @ [b]" "fw_extra fw1 = q" "fw_out fw1 = fw_out fw" "fw_mem fw1 = fw_mem fw" "fw_uart fw1 = fw_uart fw"
      "dev_config (ascd fw1) = dev_config (ascd fw)" unfolding inp by blast
  have "(p @ [b]) @ x = frame v ap c d" using eq by simp
  from frame_prefix [OF this _ x pl] obtain y where "p @ [b] = chr_start # y" "chr_start \<notin> set y" "chr_end \<notin> set y" by blast
  then have "receive_frame (fw_in fw1) = (No_Message, p @ [b])" using 1(3) receive_frame_open by simp
  from on_device_receive_nothing [OF 1(2) this] 1 ex show ?thesis
    by (auto simp: intake_def extra_empty)
qed

lemma avr_feed:
  assumes "fw_wf fw" and "p @ q @ x = frame v ap c d" and "x \<noteq> []" and "fw_in fw = p" and "fw_extra fw = q @ x" and "fw_out fw = []"
    and pl: "plain ([v, ap, c] @ d)" and len: "length d \<le> 54" and "length rs = length q"
  shows "\<exists>fw'. avr_loop rs fw = (Inr (), fw') \<and> fw_wf fw' \<and> fw_in fw' = p @ q \<and> fw_extra fw' = x \<and> fw_out fw' = []
    \<and> fw_mem fw' = fw_mem fw \<and> tx_sent (fw_uart fw') = tx_sent (fw_uart fw) \<and> dev_config (ascd fw') = dev_config (ascd fw)"
  using assms(1-6,9)
proof (induction q arbitrary: p fw rs)
  case Nil
  then show ?case by simp
next
  case (Cons b q)
  obtain r rs' where rs: "rs = r # rs'" "length rs' = length q" using Cons.prems(7) by (cases rs) auto
  have "\<exists>fw'. intake (with_tx_ready r fw) = (Inr (), fw') \<and> fw_wf fw' \<and> fw_in fw' = p @ [b] \<and> fw_extra fw' = q @ x \<and> fw_out fw' = fw_out (with_tx_ready r fw)
    \<and> fw_mem fw' = fw_mem (with_tx_ready r fw) \<and> fw_uart fw' = fw_uart (with_tx_ready r fw)
    \<and> dev_config (ascd fw') = dev_config (ascd (with_tx_ready r fw))"
    by (rule intake_partial [where x = "q @ x", OF _ _ _ _ _ pl len]) (use Cons.prems in simp_all)
  then obtain fw1 where 1: "intake (with_tx_ready r fw) = (Inr (), fw1)" "fw_wf fw1" "fw_in fw1 = p @ [b]" "fw_extra fw1 = q @ x"
    "fw_out fw1 = []" "fw_mem fw1 = fw_mem fw" "tx_sent (fw_uart fw1) = tx_sent (fw_uart fw)" "dev_config (ascd fw1) = dev_config (ascd fw)"
    using Cons.prems(6) by auto
  have "avr_loop rs fw = avr_loop rs' fw1"
    using 1(1,5) rs by (simp add: avr_turn_def tx_nothing)
  moreover have "\<exists>fw'. avr_loop rs' fw1 = (Inr (), fw') \<and> fw_wf fw' \<and> fw_in fw' = (p @ [b]) @ q \<and> fw_extra fw' = x \<and> fw_out fw' = []
    \<and> fw_mem fw' = fw_mem fw1 \<and> tx_sent (fw_uart fw') = tx_sent (fw_uart fw1) \<and> dev_config (ascd fw') = dev_config (ascd fw1)"
    by (rule Cons.IH) (use Cons.prems 1 rs in simp_all)
  ultimately show ?case using 1 by auto
qed


lemma avr_loop_tx_not_ready:
  assumes "rs \<noteq> []"
  shows "bind_res (on_tx uart_tx_from_circ_buf (with_tx_ready False fw)) (\<lambda>_. avr_loop rs) = avr_loop rs fw"
proof -
  have "on_tx uart_tx_from_circ_buf (with_tx_ready False fw) = (Inr (), with_tx_ready False fw)"
    by (simp add: on_tx_def zoom_def uart_tx_from_circ_buf_def is_uart_ready_to_tx_def with_tx_ready_def
      ascii_serial_com_device_get_output_buffer_def ascii_serial_com_get_output_buffer_def)
  moreover have "with_tx_ready r (with_tx_ready False fw) = with_tx_ready r fw" for r
    by (simp add: with_tx_ready_def)
  ultimately show ?thesis using assms by (cases rs) auto
qed

context device_handler
begin

text \<open>A request is answered and the reply sent, as by the loop of the macro.\<close>

lemma avr_serve:
  assumes "fw_wf fw" and "inv (fw_mem fw)" and "fw_in fw = []" and "fw_extra fw = frame v ap c d"
    and "fw_out fw = []" and pl: "plain ([v, ap, c] @ d)" and len: "length d \<le> 54"
    and "routed (dev_config (ascd fw)) c = Some handle"
    and "\<And>m. length m = 54 \<Longrightarrow> respond c (of_nat (length d)) (mem_put 0 d m) (fw_mem fw) = (rp, w')"
    and ok: "reply_result rp = Inr ()" and rs: "length rs = length (frame v ap c d)"
    and sent: "length (reply_bytes v ap rp) \<le> count_list ts True"
  shows "\<exists>fw'. avr_loop (rs @ ts @ [r]) fw = (Inr (), fw') \<and> fw_wf fw' \<and> fw_in fw' = [] \<and> fw_extra fw' = [] \<and> fw_out fw' = []
    \<and> fw_mem fw' = w' \<and> inv w' \<and> tx_sent (fw_uart fw') = tx_sent (fw_uart fw) @ reply_bytes v ap rp"
proof -
  have ne: "rs \<noteq> []" using rs by auto
  then obtain rs0 r0 where r0: "rs = rs0 @ [r0]" by (cases rs rule: rev_cases) auto
  have l: "length (False # rs0) = length (frame v ap c d)" using rs r0 by simp
  have s: "length (reply_bytes v ap rp) \<le> count_list (r0 # ts) True" using sent by simp
  from serve_loop [OF assms(1-5) pl len assms(8,9) ok l s]
  obtain fw1 where f: "poll_loop ((False # rs0) @ r0 # ts) fw = (Inr (), fw1)" "fw_wf fw1" "fw_in fw1 = []" "fw_extra fw1 = []" "fw_out fw1 = []"
    "fw_mem fw1 = w'" "inv w'" "tx_sent (fw_uart fw1) = tx_sent (fw_uart fw) @ reply_bytes v ap rp" by blast
  have b: "butlast (False # rs @ ts @ [r]) = (False # rs0) @ r0 # ts" "last (False # rs @ ts @ [r]) = r"
    by (simp_all add: r0 butlast_append)
  have "bind_res (poll_loop (butlast (False # rs @ ts @ [r])) fw)
      (\<lambda>_ fw. on_tx uart_tx_from_circ_buf (with_tx_ready (last (False # rs @ ts @ [r])) fw)) = (Inr (), with_tx_ready r fw1)"
    unfolding b using f(1) tx_nothing [of "with_tx_ready r fw1"] f(5) by simp
  from avr_loop_rotation [OF this] have "avr_loop (rs @ ts @ [r]) fw = (Inr (), with_tx_ready r fw1)"
    using ne avr_loop_tx_not_ready [of "rs @ ts @ [r]" fw] by simp
  then show ?thesis using f by auto
qed

text \<open>A request on which the handler throws ends its last turn; it is consumed, and nothing is sent.\<close>

lemma intake_last:
  assumes "fw_wf fw" and "inv (fw_mem fw)" and eq: "p @ [b] = frame v ap c d" and "fw_in fw = p" and "fw_extra fw = b # q"
    and "fw_out fw = []" and pl: "plain ([v, ap, c] @ d)" and len: "length d \<le> 54"
    and "routed (dev_config (ascd fw)) c = Some handle"
    and "\<And>m. length m = 54 \<Longrightarrow> respond c (of_nat (length d)) (mem_put 0 d m) (fw_mem fw) = (rp, w')"
  shows "\<exists>fw'. intake fw = (reply_result rp, fw') \<and> fw_wf fw' \<and> fw_in fw' = [] \<and> fw_extra fw' = q \<and> fw_out fw' = reply_bytes v ap rp
    \<and> fw_mem fw' = w' \<and> inv w' \<and> tx_sent (fw_uart fw') = tx_sent (fw_uart fw)"
proof -
  have "length (p @ [b]) \<le> 64" unfolding eq using len by simp
  then have "length (fw_in fw) < 64" using assms(4) by simp
  from feed_step [OF assms(1,5) this] assms(4,6) obtain fw2 where
    2: "bind_res (on_extra circular_buffer_pop_front_uint8 fw) (\<lambda>tmp_byte fw. push_input tmp_byte fw) = (Inr (), fw2)"
      "fw_wf fw2" "fw_in fw2 = frame v ap c d" "fw_extra fw2 = q" "fw_out fw2 = []" "fw_mem fw2 = fw_mem fw"
      "fw_uart fw2 = fw_uart fw" "dev_config (ascd fw2) = dev_config (ascd fw)" by (auto simp: eq)
  have "\<exists>fw'. on_device ascii_serial_com_device_receive fw2 = (reply_result rp, fw') \<and> fw_wf fw' \<and> fw_in fw' = []
    \<and> fw_extra fw' = fw_extra fw2 \<and> fw_out fw' = reply_bytes v ap rp \<and> fw_mem fw' = w' \<and> inv w' \<and> fw_uart fw' = fw_uart fw2"
    by (rule answer_turn [OF 2(2) _ 2(3,5) pl len]) (use assms(2,9,10) 2 in simp_all)
  then show ?thesis using 2(1,4,7) assms(5) by (auto simp: intake_def extra_empty)
qed

lemma avr_refuse:
  assumes "fw_wf fw" and "inv (fw_mem fw)" and "fw_in fw = []" and "fw_extra fw = frame v ap c d"
    and "fw_out fw = []" and pl: "plain ([v, ap, c] @ d)" and len: "length d \<le> 54"
    and "routed (dev_config (ascd fw)) c = Some handle"
    and "\<And>m. length m = 54 \<Longrightarrow> respond c (of_nat (length d)) (mem_put 0 d m) (fw_mem fw) = (Raise e, w')"
    and rs: "Suc (length rs) = length (frame v ap c d)"
  shows "\<exists>fw1 fw'. avr_loop rs fw = (Inr (), fw1) \<and> avr_turn (with_tx_ready r fw1) = (Inl (Throw e), fw') \<and> fw_idle fw'
    \<and> fw_mem fw' = w' \<and> inv w' \<and> tx_sent (fw_uart fw') = tx_sent (fw_uart fw) \<and> dev_config (ascd fw1) = dev_config (ascd fw)"
proof -
  obtain q b where qb: "frame v ap c d = q @ [b]" by (cases "frame v ap c d" rule: rev_cases) (use rs in auto)
  have l: "length rs = length q" using rs qb by simp
  from avr_feed [of fw "[]" q "[b]" v ap c d rs] assms(1,3-5) pl len qb l
  obtain fw1 where 1: "avr_loop rs fw = (Inr (), fw1)" "fw_wf fw1" "fw_in fw1 = q" "fw_extra fw1 = [b]" "fw_out fw1 = []"
    "fw_mem fw1 = fw_mem fw" "tx_sent (fw_uart fw1) = tx_sent (fw_uart fw)" "dev_config (ascd fw1) = dev_config (ascd fw)" by auto
  let ?fw = "with_tx_ready r fw1"
  have "\<exists>fw'. intake ?fw = (reply_result (Raise e), fw') \<and> fw_wf fw' \<and> fw_in fw' = [] \<and> fw_extra fw' = []
    \<and> fw_out fw' = reply_bytes v ap (Raise e) \<and> fw_mem fw' = w' \<and> inv w' \<and> tx_sent (fw_uart fw') = tx_sent (fw_uart ?fw)"
    by (rule intake_last [OF _ _ qb [symmetric] _ _ _ pl len]) (use assms(2,8,9) 1 in simp_all)
  then obtain fw' where 3: "intake ?fw = (Inl (Throw e), fw')" "fw_idle fw'" "fw_mem fw' = w'" "inv w'"
      "tx_sent (fw_uart fw') = tx_sent (fw_uart fw)"
    using 1(7) by (auto simp: fw_idle_def)
  have "avr_turn ?fw = (Inl (Throw e), fw')" using 3(1) by (simp add: avr_turn_def)
  then show ?thesis using 1(1,8) 3 by blast
qed

end

section \<open>The program with the register block\<close>

interpretation rb_avr: device_handler "handle_fst ascii_serial_com_register_block_handle_message" "\<lambda>w. rb_inv (fst w)" "respond_fst rb_respond"
  by (rule device_handler.handle_fst_handler [OF rb.device_handler_axioms])

interpretation rp_test: device_handler "handle_fst handle_message_avr" "\<lambda>w. rp_inv (fst w)"
    "respond_fst (rp_respond convert_hex_to_uint8 (\<lambda>caps. hex_digits caps 2) 1)"
  by (rule rp_avr_handler.handle_fst_handler)

fun program_turns :: "('s \<Rightarrow> (unit, 's) res) \<Rightarrow> (bool \<Rightarrow> 's \<Rightarrow> 's) \<Rightarrow> bool list \<Rightarrow> 's \<Rightarrow> (unit, 's) res" where
  "program_turns turn ready [] s = (Inr (), s)"
| "program_turns turn ready (r # rs) s = bind_res (turn (ready r s)) (\<lambda>_. program_turns turn ready rs)"

definition ready_fst :: "bool \<Rightarrow> 'w firmware \<times> 16 word \<Rightarrow> 'w firmware \<times> 16 word" where
  "ready_fst r s = (with_tx_ready r (fst s), snd s)"

lemma program_turns_avr:
  "avr_loop rs fw = (Inr (), fw') \<Longrightarrow> program_turns (count_exceptions avr_turn) ready_fst rs (fw, n) = (Inr (), (fw', n))"
proof (induction rs arbitrary: fw)
  case (Cons r rs)
  then obtain fw1 where "avr_turn (with_tx_ready r fw) = (Inr (), fw1)" "avr_loop rs fw1 = (Inr (), fw')"
    by (auto elim!: bind_res_eq_InrD)
  with Cons.IH show ?case by (simp add: ready_fst_def)
qed simp

lemma program_turns_append:
  "program_turns turn ready (rs @ ts) s = bind_res (program_turns turn ready rs s) (\<lambda>_. program_turns turn ready ts)"
  by (induction rs arbitrary: s) (auto simp: bind_res_def split: sum.splits)


text \<open>From the start: the bytes of a request arrive, and after enough turns its reply was sent.\<close>

lemma dummy_register_block_answers:
  assumes st: "length raw_buffer = 128" "length extra_raw = 64" "length (msg_data (dev_msg (ascd fw))) = 54" "fw_mem fw = (Some rb, m)"
    and regs: "length regs = 10" and reg: "unat (reg :: 16 word) < 10" and p: "plain [v, ap]"
    and rs: "length rs = 14" and ts: "17 \<le> count_list ts True"
  shows "\<exists>fw1 fw2 fw3. dummy_register_block_start io regs raw_buffer extra_raw fw = (Inr None, (fw1, 0))
    \<and> for_each byte_arrives (frame v ap chr_r (hex_digits caps 4 reg)) fw1 = (Inr (), fw2)
    \<and> program_turns dummy_register_block_turn ready_fst (rs @ ts @ [r]) (fw2, 0) = (Inr (), (fw3, 0)) \<and> fw_idle fw3
    \<and> tx_sent (fw_uart fw3) = tx_sent (fw_uart fw) @
        frame v ap chr_r (hex_digits caps 4 reg @ chr_comma # hex_digits True 2 (regs ! unat reg))"
proof -
  let ?rb = "rb\<lparr>rb_block := regs, rb_n_regs := 10\<rparr>" and ?f = "frame v ap chr_r (hex_digits caps 4 reg)"
  from dummy_register_block_start_ok [OF st, of io regs]
  obtain fw1 where 1: "dummy_register_block_start io regs raw_buffer extra_raw fw = (Inr None, (fw1, 0))" "fw_idle fw1"
    "dev_config (ascd fw1) = block_config" "fw_uart fw1 = fw_uart fw" "fst (fw_mem fw1) = Some ?rb" by auto
  have "fw_wf fw1" "length (fw_extra fw1) + length ?f \<le> 64" using 1(2) by (simp_all add: fw_idle_def)
  from bytes_arrive [OF this] 1(2-5)
  obtain fw2 where 2: "for_each byte_arrives ?f fw1 = (Inr (), fw2)" "fw_wf fw2" "fw_extra fw2 = ?f" "fst (fw_mem fw2) = Some ?rb"
    "fw_in fw2 = []" "fw_out fw2 = []" "dev_config (ascd fw2) = block_config" "tx_sent (fw_uart fw2) = tx_sent (fw_uart fw)"
    by (auto simp: fw_idle_def fw_in_def fw_out_def)
  have inv: "rb_inv (fst (fw_mem fw2))" using 2(4) regs by (simp add: rb_inv_def)
  have "reg < rb_n_regs ?rb" using reg by (simp add: word_less_nat_alt)
  from rb_respond_read [OF this, of caps]
  have resp: "respond_fst rb_respond chr_r (of_nat (length (hex_digits caps 4 reg))) (mem_put 0 (hex_digits caps 4 reg) mm) (fw_mem fw2) =
    (Reply chr_r (hex_digits caps 4 reg @ chr_comma # hex_digits True 2 (regs ! unat reg)), (Some ?rb, snd (fw_mem fw2)))" for mm
    using 2(4) by (simp add: respond_fst_def)
  have route: "routed (dev_config (ascd fw2)) chr_r = Some (handle_fst ascii_serial_com_register_block_handle_message)"
    using 2(7) by (simp add: routed_def block_config_def)
  have pl: "plain ([v, ap, chr_r] @ hex_digits caps 4 reg)" using p by simp
  have "length rs = length ?f" using rs by simp
  from rb_avr.avr_serve [OF 2(2) inv 2(5,3,6) pl _ route resp _ this, of ts r] ts
  obtain fw3 where "avr_loop (rs @ ts @ [r]) fw2 = (Inr (), fw3)" "fw_idle fw3"
      "tx_sent (fw_uart fw3) = tx_sent (fw_uart fw2) @ frame v ap chr_r (hex_digits caps 4 reg @ chr_comma # hex_digits True 2 (regs ! unat reg))"
    by (auto simp: fw_idle_def)
  then show ?thesis using 1(1) 2(1,8) program_turns_avr [of "rs @ ts @ [r]" fw2 fw3 0]
    by (auto simp: dummy_register_block_turn_def)
qed

text \<open>A request for a register that does not exist is counted, and the program goes on.\<close>

lemma dummy_register_block_counts:
  assumes idle: "fw_wf fw" "fw_in fw = []" "fw_out fw = []" and cfg: "dev_config (ascd fw) = block_config"
    and mem: "fw_mem fw = (Some rb, m)" "unat (rb_n_regs rb) \<le> length (rb_block rb)" "rb_n_regs rb \<le> reg"
    and p: "plain [v, ap]" and ex: "fw_extra fw = frame v ap chr_r (hex_digits caps 4 reg)" and rs: "length rs = 14"
  shows "\<exists>fw'. program_turns dummy_register_block_turn ready_fst rs (fw, n) = (Inr (), (fw', n + 1)) \<and> fw_idle fw'
    \<and> fw_mem fw' = fw_mem fw \<and> tx_sent (fw_uart fw') = tx_sent (fw_uart fw)"
proof -
  have inv: "rb_inv (fst (fw_mem fw))" using mem by (simp add: rb_inv_def)
  have resp: "respond_fst rb_respond chr_r (of_nat (length (hex_digits caps 4 reg))) (mem_put 0 (hex_digits caps 4 reg) mm) (fw_mem fw) =
    (Raise ASC_ERROR_REGNUM_OOB, fw_mem fw)" for mm
    using mem by (simp add: respond_fst_def rb_respond_def take_mem_put_0 hex_word_16)
  have route: "routed (dev_config (ascd fw)) chr_r = Some (handle_fst ascii_serial_com_register_block_handle_message)"
    using cfg by (simp add: routed_def block_config_def)
  have pl: "plain ([v, ap, chr_r] @ hex_digits caps 4 reg)" using p by simp
  obtain rs0 r where r: "rs = rs0 @ [r]" using rs by (cases rs rule: rev_cases) auto
  have l: "Suc (length rs0) = length (frame v ap chr_r (hex_digits caps 4 reg))" using rs r by simp
  from rb_avr.avr_refuse [OF idle(1) inv idle(2) ex idle(3) pl _ route resp l, of r]
  obtain fw1 fw' where f: "avr_loop rs0 fw = (Inr (), fw1)" "avr_turn (with_tx_ready r fw1) = (Inl (Throw ASC_ERROR_REGNUM_OOB), fw')"
    "fw_idle fw'" "fw_mem fw' = fw_mem fw" "tx_sent (fw_uart fw') = tx_sent (fw_uart fw)" by auto
  from program_turns_avr [OF f(1), of n] f(2) show ?thesis using f(3-5)
    by (simp add: r program_turns_append dummy_register_block_turn_def ready_fst_def)
qed


section \<open>The stream of the test device\<close>

definition td_ready :: "bool \<Rightarrow> test_device \<times> 16 word \<Rightarrow> test_device \<times> 16 word" where
  "td_ready r s = ((fst s)\<lparr>td_fw := with_tx_ready r (td_fw (fst s))\<rparr>, snd s)"

definition td_streaming :: "test_device \<times> 16 word \<Rightarrow> bool" where
  "td_streaming s \<longleftrightarrow> fw_wf (td_fw (fst s)) \<and> fw_in (td_fw (fst s)) = [] \<and> fw_extra (td_fw (fst s)) = []
     \<and> snd (fw_mem (td_fw (fst s))) \<noteq> 0 \<and> length (counter_buffer (fst s)) = 2"

definition td_key :: "test_device \<times> 16 word \<Rightarrow> byte \<times> byte" where
  "td_key s = (fw_counter (td_fw (fst s)), counter (fst s))"

definition td_payload :: "byte \<times> byte \<Rightarrow> byte list" where
  "td_payload k = frame chr_0 chr_0 chr_s (stream_data (fst k) (hex_digits True 2 (snd k)))"

lemma intake_idle:
  assumes "fw_wf fw" and "fw_in fw = []" and "fw_extra fw = []"
  shows "\<exists>fw'. intake fw = (Inr (), fw') \<and> fw_wf fw' \<and> fw_in fw' = []
    \<and> fw_extra fw' = [] \<and> fw_out fw' = fw_out fw \<and> fw_mem fw' = fw_mem fw \<and> fw_uart fw' = fw_uart fw
    \<and> dev_config (ascd fw') = dev_config (ascd fw) \<and> fw_counter fw' = fw_counter fw"
  using receive_idle [OF assms(1,2)] assms(3) by (auto simp: intake_def extra_empty)

lemma tx_sends:
  assumes "fw_wf fw" and "tx_ready (fw_uart fw)" and "fw_out fw = b # bs"
  shows "\<exists>fw'. on_tx uart_tx_from_circ_buf fw = (Inr (), fw') \<and> fw_wf fw' \<and> fw_in fw' = fw_in fw \<and> fw_extra fw' = fw_extra fw
    \<and> fw_mem fw' = fw_mem fw \<and> dev_config (ascd fw') = dev_config (ascd fw) \<and> fw_counter fw' = fw_counter fw
    \<and> fw_out fw' = bs \<and> tx_sent (fw_uart fw') = tx_sent (fw_uart fw) @ [b]"
  using tx_step [OF assms(1)] assms(2,3) tx_counter by (auto split: if_splits)

lemma out_size_0: "circular_buffer_get_size_uint8 (ascii_serial_com_device_get_output_buffer (ascd fw)) = 0 \<longleftrightarrow> fw_out fw = []"
  by (simp add: circular_buffer_get_size_uint8_def ascii_serial_com_device_get_output_buffer_def
    ascii_serial_com_get_output_buffer_def fw_out_def)

lemma stream_counter_fresh:
  assumes wf: "fw_wf (td_fw td)" and out: "fw_out (td_fw td) = []" and on: "snd (fw_mem (td_fw td)) \<noteq> 0" and b: "length (counter_buffer td) = 2"
  shows "\<exists>fw'. stream_counter td = (Inr (), td\<lparr>counter_buffer := hex_digits True 2 (counter td), td_fw := fw', counter := counter td + 1\<rparr>)
    \<and> fw_wf fw' \<and> fw_out fw' = td_payload (fw_counter (td_fw td), counter td) \<and> fw_counter fw' = fw_counter (td_fw td) + 1
    \<and> fw_in fw' = fw_in (td_fw td) \<and> fw_extra fw' = fw_extra (td_fw td) \<and> fw_mem fw' = fw_mem (td_fw td) \<and> fw_uart fw' = fw_uart (td_fw td)"
proof -
  let ?h = "hex_digits True 2 (counter td)"
  have m: "mem_put 0 ?h (counter_buffer td) = ?h" using b by (simp add: mem_put_def)
  have ns: "chr_start \<notin> set ?h" using hex_digits_plain(1) [of chr_start True 2 "counter td"] by auto
  from stream_to_host [OF wf out, of 2 ?h ?h] ns
  obtain fw' where "on_device (ascii_serial_com_device_put_s_message_in_output_buffer chr_0 chr_0 ?h 2) (td_fw td) = (Inr (), fw')"
    "fw_wf fw'" "fw_out fw' = td_payload (fw_counter (td_fw td), counter td)" "fw_counter fw' = fw_counter (td_fw td) + 1"
    "fw_in fw' = fw_in (td_fw td)" "fw_extra fw' = fw_extra (td_fw td)" "fw_mem fw' = fw_mem (td_fw td)" "fw_uart fw' = fw_uart (td_fw td)"
    by (auto simp: td_payload_def)
  then show ?thesis using out on b m
    by (intro exI [of _ fw']) (simp add: stream_counter_def out_size_0 zoom_def convert_uint8_to_hex_digits td_on_fw_def)
qed

interpretation td: streamer "\<lambda>s. test_device_turn (td_ready True s)" td_streaming "\<lambda>s. fw_out (td_fw (fst s))"
    "\<lambda>s. tx_sent (fw_uart (td_fw (fst s)))" td_key td_payload "\<lambda>k. (fst k + 1, snd k + 1)" 15
proof
  fix s :: "test_device \<times> 16 word"
  assume s: "td_streaming s"
  obtain td n where td: "s = (td, n)" by (cases s)
  let ?fw = "with_tx_ready True (td_fw td)"
  from s td intake_idle [of ?fw] obtain fw1 where 1: "intake ?fw = (Inr (), fw1)" "fw_wf fw1" "fw_in fw1 = []" "fw_extra fw1 = []"
    "fw_out fw1 = fw_out (td_fw td)" "fw_mem fw1 = fw_mem (td_fw td)" "fw_uart fw1 = fw_uart ?fw" "fw_counter fw1 = fw_counter (td_fw td)"
    by (auto simp: td_streaming_def)
  let ?td1 = "td\<lparr>td_fw := fw1\<rparr>"
  have i: "td_on_fw intake (td\<lparr>td_fw := ?fw\<rparr>) = (Inr (), ?td1)" using 1(1) by (simp add: td_on_fw_def zoom_def)
  have r: "td_ready True s = (td\<lparr>td_fw := ?fw\<rparr>, n)" by (simp add: td td_ready_def)
  {
    assume p: "fw_out (td_fw (fst s)) = []"
    from stream_counter_fresh [of ?td1] s td p 1
    obtain fw2 where 2: "stream_counter ?td1 = (Inr (), td\<lparr>counter_buffer := hex_digits True 2 (counter td), td_fw := fw2, counter := counter td + 1\<rparr>)"
      "fw_wf fw2" "fw_out fw2 = td_payload (td_key s)" "fw_counter fw2 = fw_counter (td_fw td) + 1" "fw_in fw2 = []" "fw_extra fw2 = []"
      "fw_mem fw2 = fw_mem (td_fw td)" "fw_uart fw2 = fw_uart ?fw" by (auto simp: td_streaming_def td_key_def)
    have "td_payload (td_key s) = hd (td_payload (td_key s)) # tl (td_payload (td_key s))" by (simp add: td_payload_def frame_def frame_body_def Let_def)
    then obtain fw3 where 3: "on_tx uart_tx_from_circ_buf fw2 = (Inr (), fw3)" "fw_wf fw3" "fw_in fw3 = []" "fw_extra fw3 = []"
      "fw_mem fw3 = fw_mem (td_fw td)" "fw_counter fw3 = fw_counter (td_fw td) + 1" "fw_out fw3 = tl (td_payload (td_key s))"
      "tx_sent (fw_uart fw3) = tx_sent (fw_uart (td_fw td)) @ [hd (td_payload (td_key s))]"
      using tx_sends [of fw2 "hd (td_payload (td_key s))" "tl (td_payload (td_key s))"] 2 by auto
    show "\<exists>s'. test_device_turn (td_ready True s) = (Inr (), s') \<and> td_streaming s' \<and> td_key s' = (fst (td_key s) + 1, snd (td_key s) + 1)
      \<and> tx_sent (fw_uart (td_fw (fst s'))) = tx_sent (fw_uart (td_fw (fst s))) @ [hd (td_payload (td_key s))]
      \<and> fw_out (td_fw (fst s')) = tl (td_payload (td_key s))"
      unfolding r test_device_turn_def using i 2(1) 3 s
      by (simp add: td td_on_fw_def zoom_def td_streaming_def td_key_def)
  next
    assume p: "fw_out (td_fw (fst s)) \<noteq> []"
    then obtain b bs where b: "fw_out fw1 = b # bs" using 1(5) td neq_Nil_conv [of "fw_out fw1"] by auto
    have 2: "stream_counter ?td1 = (Inr (), ?td1)" using b by (simp add: stream_counter_def out_size_0)
    from tx_sends [OF 1(2) _ b] 1 obtain fw3 where 3: "on_tx uart_tx_from_circ_buf fw1 = (Inr (), fw3)" "fw_wf fw3" "fw_in fw3 = []"
      "fw_extra fw3 = []" "fw_mem fw3 = fw_mem (td_fw td)" "fw_counter fw3 = fw_counter (td_fw td)" "fw_out fw3 = bs"
      "tx_sent (fw_uart fw3) = tx_sent (fw_uart (td_fw td)) @ [b]" by auto
    show "\<exists>s'. test_device_turn (td_ready True s) = (Inr (), s') \<and> td_streaming s' \<and> td_key s' = td_key s
      \<and> tx_sent (fw_uart (td_fw (fst s'))) = tx_sent (fw_uart (td_fw (fst s))) @ [hd (fw_out (td_fw (fst s)))]
      \<and> fw_out (td_fw (fst s')) = tl (fw_out (td_fw (fst s)))"
      unfolding r test_device_turn_def using i 2 3 s trans [OF 1(5) [symmetric] b]
      by (simp add: td td_on_fw_def zoom_def td_streaming_def td_key_def)
  }
qed (simp_all add: td_payload_def stream_data_def)

end
