(* ===== verification/Ignore_Crc.thy ===== *)
theory Ignore_Crc
  imports Ascii_Serial_Com_Spec
begin

text \<open>
  Receiving with \<^verbatim>\<open>ascii_serial_com_set_ignore_CRC_mismatch\<close>, as the loopback programs of the boards
  do: the checksum is not compared, and not computed either, so that the checks which
  \<^verbatim>\<open>compute_checksum\<close> makes on the way are missing too.
\<close>

section \<open>A frame at the front\<close>

text \<open>\<^verbatim>\<open>get_message\<close> up to the scan for unfinished frames.\<close>

lemma get_message_synced:
  assumes wf: "cb_wf (in_buf asc)" and ne: "cb_list (in_buf asc) \<noteq> []"
    and ys: "frame_sync chr_start chr_end (cb_list (in_buf asc)) = ys"
  shows "\<exists>b. ascii_serial_com_get_message_from_input_buffer (asc, m) = get_frame (replicate (unat NCHARCHECKSUM) 0) (b, m)
    \<and> in_content asc (cb_cap (in_buf asc)) ys b"
proof -
  let ?sync = "\<lambda>cb. circular_buffer_remove_front_unfinished_frames_uint8 cb chr_start chr_end"
  have "0 \<le> sint chr_start" by simp
  from with_in_buf_content [where f = ?sync, OF in_content_self [OF wf] remove_unfinished_frames_returns [OF wf this, of chr_end]]
  obtain v where "rx_yields (zoom fst (\<lambda>asc s. (asc, snd s)) (with_in_buf ?sync) (asc, m)) (Inr v) asc (cb_cap (in_buf asc)) ys m"
    unfolding ys by blast
  then obtain b where "zoom fst (\<lambda>asc s. (asc, snd s)) (with_in_buf ?sync) (asc, m) = (Inr v, b, m)"
      and "in_content asc (cb_cap (in_buf asc)) ys b"
    by (cases "zoom fst (\<lambda>asc s. (asc, snd s)) (with_in_buf ?sync) (asc, m)") (auto simp: rx_yields_def)
  then show ?thesis using ne
    by (auto simp: ascii_serial_com_get_message_from_input_buffer_def circular_buffer_get_size_uint8_def)
qed

lemma get_frame_ignoring:
  assumes b: "in_content asc n ([chr_start, v, ap, c] @ ds @ [chr_period] @ p @ [chr_end] @ zs) b" and ig: "ignoreCRCMismatch asc"
    and pl: "plain ([v, ap, c] @ ds)" "chr_end \<notin> set p"
  shows "\<exists>iPeriod. get_frame chk (b, m) = unpack_message iPeriod chk (b, m) \<and> unat iPeriod = 4 + length ds"
proof -
  note B = in_contentD [OF b]
  let ?ys = "[chr_start, v, ap, c] @ ds @ [chr_period] @ p @ [chr_end] @ zs"
  have find: "circular_buffer_find_first_uint8 (in_buf b) x = Inr (of_nat (first_index ?ys x))" for x
    using find_first_refines [OF B(1), of x] B(3) by simp
  have u: "unat (of_nat (first_index ?ys x) :: size_t) = first_index ?ys x" for x
    using unat_index [of "first_index ?ys x" "in_buf b"] first_index_le [of ?ys x] B(3) by simp
  have "?ys = ([chr_start, v, ap, c] @ ds) @ chr_period # p @ [chr_end] @ zs" "chr_period \<notin> set ([chr_start, v, ap, c] @ ds)"
    using pl(1) by (auto simp: plain_def)
  then have fp: "first_index ?ys chr_period = 4 + length ds"
    by (simp only: first_index_def takeWhile_append2 [of "[chr_start, v, ap, c] @ ds"]) (simp add: takeWhile_append)
  have "?ys = ([chr_start, v, ap, c] @ ds @ chr_period # p) @ chr_end # zs" "chr_end \<notin> set ([chr_start, v, ap, c] @ ds @ chr_period # p)"
    using pl by (auto simp: plain_def)
  then have fe: "first_index ?ys chr_end = 5 + length ds + length p"
    by (simp only: first_index_def) (simp add: takeWhile_append)
  note ue = u [of chr_end, unfolded fe] and up = u [of chr_period, unfolded fp]
  have "\<not> of_nat (first_index ?ys chr_end) \<ge> circular_buffer_get_size_uint8 (in_buf b)"
    unfolding circular_buffer_get_size_uint8_def word_le_nat_alt fe ue B(6) by simp
  moreover have "\<not> (of_nat (first_index ?ys chr_period) :: size_t) > of_nat (first_index ?ys chr_end)"
    unfolding word_less_nat_alt fp fe ue up by simp
  ultimately have "get_frame chk (b, m) = unpack_message (of_nat (first_index ?ys chr_period)) chk (b, m)"
    using ig B(5) by (simp add: get_frame_def Let_def find)
  moreover have "unat (of_nat (first_index ?ys chr_period) :: size_t) = 4 + length ds" using u [of chr_period] fp by simp
  ultimately show ?thesis by blast
qed

section \<open>Any checksum is good\<close>

lemma get_message_any_checksum:
  assumes wf: "asc_wf asc" and ig: "ignoreCRCMismatch asc" and len: "length (msg_data m) = 54" "length ds \<le> 54"
    and pl: "plain ([v, ap, c] @ ds)" "length chk = 4" "plain chk" "chr_end \<notin> set noise"
    and inp: "cb_list (in_buf asc) = noise @ [chr_start, v, ap, c] @ ds @ [chr_period] @ chk @ [chr_end] @ zs"
  shows "rx_yields (ascii_serial_com_get_message_from_input_buffer (asc, m)) (Inr ()) asc 64 zs (stored_message v ap c ds m)"
proof -
  let ?p = "[v, ap, c] @ ds @ [chr_period] @ chk"
  have "chr_start \<notin> set ?p" "chr_end \<notin> set ?p" using pl by (auto simp: plain_def)
  from frame_sync_front [OF pl(4) this, of zs]
  have ys: "frame_sync chr_start chr_end (cb_list (in_buf asc)) = [chr_start, v, ap, c] @ ds @ [chr_period] @ chk @ [chr_end] @ zs"
    unfolding inp by simp
  have "cb_wf (in_buf asc)" "cb_cap (in_buf asc) = 64" using wf by (simp_all add: asc_wf_def)
  with get_message_synced [OF _ _ ys, of m] inp obtain b where
    1: "ascii_serial_com_get_message_from_input_buffer (asc, m) = get_frame (replicate (unat NCHARCHECKSUM) 0) (b, m)"
      "in_content asc 64 ([chr_start, v, ap, c] @ ds @ [chr_period] @ chk @ [chr_end] @ zs) b" by auto
  have "chr_end \<notin> set chk" using pl(3) by (simp add: plain_def)
  from get_frame_ignoring [OF 1(2) ig pl(1) this] obtain iPeriod where
    2: "get_frame (replicate (unat NCHARCHECKSUM) 0) (b, m) = unpack_message iPeriod (replicate (unat NCHARCHECKSUM) 0) (b, m)"
      "unat iPeriod = 4 + length ds" by blast
  have "unpack_outcome True (replicate (unat NCHARCHECKSUM) 0) v ap c ds (chk @ [chr_end] @ zs) = (Message v ap c ds, zs)"
    using pl(2) by (simp add: unpack_outcome_def nth_append)
  moreover have "chr_period \<notin> set ds" using pl(1) by (simp add: plain_def)
  ultimately show ?thesis
    using unpack_message_yields [of asc 64 chr_start v ap c ds "chk @ [chr_end] @ zs" b iPeriod m "replicate (unat NCHARCHECKSUM) 0"]
      1 2 ig len by simp
qed

section \<open>Too much data\<close>

text \<open>
  Without the check of \<^verbatim>\<open>compute_checksum\<close> nothing keeps the loop over the data within the array of 54
  bytes that the caller gave.
\<close>

lemma rx_yields_throw: "rx_yields r (Inl e) asc n xs m \<Longrightarrow> rx_yields (bind_res r f) (Inl e) asc n xs m"
  by (cases r) (simp add: rx_yields_def)

lemma get_message_data_overflow:
  assumes "in_content asc n (ds @ rest) a" "chr_period \<notin> set ds" "unat i \<le> length (msg_data m)"
    and "unat i + length ds \<le> unat limit" "length (msg_data m) < unat i + length ds"
  shows "\<exists>xs m'. rx_yields (get_message_data limit i (a, m)) (Inl UB) asc n xs m'"
  using assms
proof (induction ds arbitrary: a m i)
  case Nil
  then show ?case by simp
next
  case (Cons d ds)
  have il: "unat i < unat limit" using Cons.prems(4) by simp
  then have i: "unat (i + 1) = Suc (unat i)" by (rule unat_Suc_64)
  have pop: "rx_yields (in_pop (a, m)) (Inr d) asc n (ds @ rest) m"
    by (rule in_pop_yields) (use Cons.prems(1) in simp)
  then obtain b where b: "in_pop (a, m) = (Inr d, b, m)" "in_content asc n (ds @ rest) b"
    by (cases "in_pop (a, m)") (auto simp: rx_yields_def)
  show ?case
  proof (cases "unat i = length (msg_data m)")
    case True
    then show ?thesis using il b Cons.prems(2)
      by (auto simp: get_message_data.simps [of limit i "(a, m)"] word_less_nat_alt write_data_def zoom_def rx_yields_def set_msg_def store_def)
  next
    case False
    let ?m = "m\<lparr>msg_data := (msg_data m)[unat i := d], msg_dataLen := msg_dataLen m + 1\<rparr>"
    have "\<exists>xs m'. rx_yields (get_message_data limit (i + 1) (b, ?m)) (Inl UB) asc n xs m'"
      by (rule Cons.IH [OF b(2)]) (use Cons.prems False i in auto)
    then show ?thesis using il b Cons.prems(2,3) False
      by (simp add: get_message_data.simps [of limit i "(a, m)"] word_less_nat_alt write_data_def zoom_def set_msg_def)
  qed
qed

lemma get_message_overflow:
  assumes wf: "asc_wf asc" and ig: "ignoreCRCMismatch asc" and len: "length (msg_data m) = 54" "54 < length ds"
    and pl: "plain ([v, ap, c] @ ds)" and inp: "cb_list (in_buf asc) = [chr_start, v, ap, c] @ ds @ [chr_period, chr_end]"
  shows "fst (ascii_serial_com_get_message_from_input_buffer (asc, m)) = Inl UB"
proof -
  let ?p = "[v, ap, c] @ ds @ [chr_period]"
  have "chr_start \<notin> set ?p" "chr_end \<notin> set ?p" using pl by (auto simp: plain_def)
  from frame_sync_front [of "[]", OF _ this, of "[]"]
  have ys: "frame_sync chr_start chr_end (cb_list (in_buf asc)) = [chr_start, v, ap, c] @ ds @ [chr_period] @ [] @ [chr_end] @ []"
    unfolding inp by simp
  have "cb_wf (in_buf asc)" "cb_cap (in_buf asc) = 64" using wf by (simp_all add: asc_wf_def)
  with get_message_synced [OF _ _ ys, of m] inp obtain b where
    1: "ascii_serial_com_get_message_from_input_buffer (asc, m) = get_frame (replicate (unat NCHARCHECKSUM) 0) (b, m)"
      "in_content asc 64 ([chr_start, v, ap, c] @ ds @ [chr_period] @ [] @ [chr_end] @ []) b" by auto
  from get_frame_ignoring [OF 1(2) ig pl] obtain iPeriod where
    2: "get_frame (replicate (unat NCHARCHECKSUM) 0) (b, m) = unpack_message iPeriod (replicate (unat NCHARCHECKSUM) 0) (b, m)"
      "unat iPeriod = 4 + length ds" by auto
  have lim: "unat (iPeriod - 4) = length ds"
    using 2(2) unat_sub [of 4 iPeriod] by (simp add: word_le_nat_alt)
  let ?m = "(m\<lparr>msg_ascVersion := v\<rparr>)\<lparr>msg_appVersion := ap\<rparr>\<lparr>msg_command := c\<rparr>\<lparr>msg_dataLen := 0\<rparr>"
  have pd: "chr_period \<notin> set ds" using pl by (simp add: plain_def)
  obtain b1 where p1: "in_pop (b, m) = (Inr chr_start, b1, m)" and c1: "in_content asc 64 ([v, ap, c] @ ds @ [chr_period, chr_end]) b1"
    using in_pop_yields [of asc 64 chr_start "[v, ap, c] @ ds @ [chr_period, chr_end]" b m] 1(2)
    by (cases "in_pop (b, m)") (auto simp: rx_yields_def)
  obtain b2 where p2: "in_pop (b1, m) = (Inr v, b2, m)" and c2: "in_content asc 64 ([ap, c] @ ds @ [chr_period, chr_end]) b2"
    using in_pop_yields [of asc 64 v "[ap, c] @ ds @ [chr_period, chr_end]" b1 m] c1
    by (cases "in_pop (b1, m)") (auto simp: rx_yields_def)
  let ?m1 = "m\<lparr>msg_ascVersion := v\<rparr>"
  obtain b3 where p3: "in_pop (b2, ?m1) = (Inr ap, b3, ?m1)" and c3: "in_content asc 64 ([c] @ ds @ [chr_period, chr_end]) b3"
    using in_pop_yields [of asc 64 ap "[c] @ ds @ [chr_period, chr_end]" b2 ?m1] c2
    by (cases "in_pop (b2, ?m1)") (auto simp: rx_yields_def)
  let ?m2 = "?m1\<lparr>msg_appVersion := ap\<rparr>"
  obtain b4 where p4: "in_pop (b3, ?m2) = (Inr c, b4, ?m2)" and c4: "in_content asc 64 (ds @ [chr_period, chr_end]) b4"
    using in_pop_yields [of asc 64 c "ds @ [chr_period, chr_end]" b3 ?m2] c3
    by (cases "in_pop (b3, ?m2)") (auto simp: rx_yields_def)
  have "\<exists>xs m'. rx_yields (get_message_data (iPeriod - 4) 0 (b4, ?m)) (Inl UB) asc 64 xs m'"
    by (rule get_message_data_overflow [OF c4 pd]) (use lim len in simp_all)
  then have "fst (get_message_data (iPeriod - 4) 0 (b4, ?m)) = Inl UB" by (auto simp: rx_yields_def)
  then show ?thesis unfolding 1(1) 2(1) unpack_message_def
    using p1 p2 p3 p4 by (simp add: set_msg_def)
qed

end
