(* ===== verification/Loopbacks.thy ===== *)
theory Loopbacks
  imports Avr_Devices Ignore_Crc
begin

text \<open>
  The programs that send back what they receive: \<^verbatim>\<open>arduino_uno_char_loopback.c\<close> and
  \<^verbatim>\<open>arduino_uno_cb_loopback.c\<close> on bytes, \<^verbatim>\<open>arduino_uno_asc_loopback.c\<close> and
  \<^verbatim>\<open>stm32f091nucleo64_asc_loopback.c\<close> on messages, the character loopbacks of the ARM and RISC-V boards.
\<close>

section \<open>Single characters\<close>

text \<open>What one poll of the status register finds.\<close>

definition with_rx :: "byte option \<Rightarrow> uart \<Rightarrow> uart" where
  "with_rx a u = (case a of None \<Rightarrow> u\<lparr>rx_waiting := False\<rparr> | Some b \<Rightarrow> u\<lparr>rx_waiting := True, rx_data := b\<rparr>)"

definition with_tx :: "bool \<Rightarrow> uart \<Rightarrow> uart" where
  "with_tx r u = u\<lparr>tx_ready := r\<rparr>"

text \<open>A turn of the blocking loop; it does not end when a list runs out.\<close>

definition char_loopback_turn :: "byte option list \<Rightarrow> bool list \<Rightarrow> uart \<Rightarrow> uart option" where
  "char_loopback_turn rx_polls tx_polls u =
     (case uart_rx_blocking (map (\<lambda>a. with_rx a u) rx_polls) of None \<Rightarrow> None
      | Some (byteBuffer, u) \<Rightarrow> uart_tx_blocking byteBuffer (map (\<lambda>r. with_tx r u) tx_polls))"

fun char_loopback :: "(byte option list \<times> bool list) list \<Rightarrow> uart \<Rightarrow> uart option" where
  "char_loopback [] u = Some u"
| "char_loopback ((a, r) # ps) u = (case char_loopback_turn a r u of None \<Rightarrow> None | Some u \<Rightarrow> char_loopback ps u)"

lemma rx_blocking_polls:
  "uart_rx_blocking (map (\<lambda>a. with_rx a u) (replicate n None @ Some b # as)) = Some (b, (with_rx (Some b) u)\<lparr>rx_waiting := False\<rparr>)"
  by (induction n) (simp_all add: with_rx_def is_uart_rx_data_waiting_def uart_rx_def)

lemma tx_blocking_polls:
  "uart_tx_blocking b (map (\<lambda>r. with_tx r u) (replicate n False @ True # rs)) = Some (uart_tx b (with_tx True u))"
  by (induction n) (simp_all add: with_tx_def is_uart_ready_to_tx_def)

text \<open>Every byte that arrives is sent, in order, however often the registers had to be polled.\<close>

lemma char_loopback_echoes:
  "\<exists>u'. char_loopback (map (\<lambda>(n, b, k). (replicate n None @ [Some b], replicate k False @ [True])) evs) u = Some u'
    \<and> tx_sent u' = tx_sent u @ map (\<lambda>(n, b, k). b) evs"
proof (induction evs arbitrary: u)
  case Nil
  then show ?case by simp
next
  case (Cons e evs)
  obtain n b k where e: "e = (n, b, k)" by (cases e)
  let ?u = "uart_tx b (with_tx True ((with_rx (Some b) u)\<lparr>rx_waiting := False\<rparr>))"
  have "char_loopback_turn (replicate n None @ [Some b]) (replicate k False @ [True]) u = Some ?u"
    by (simp only: char_loopback_turn_def rx_blocking_polls option.case prod.case tx_blocking_polls)
  moreover have "tx_sent ?u = tx_sent u @ [b]" by (simp add: uart_tx_def with_tx_def with_rx_def)
  ultimately show ?case using Cons.IH [of ?u] by (auto simp: e)
qed

text \<open>
  The ARM program does not block: it keeps one byte and takes 0 for none. A byte that arrives while the last one could
  not be sent replaces it, and a byte 0 is never sent.
\<close>

definition stm_char_loopback_turn :: "byte \<times> uart \<Rightarrow> byte \<times> uart" where
  "stm_char_loopback_turn s =
     (let s = (if is_uart_rx_data_waiting (snd s) then case uart_rx (snd s) of (b, u) \<Rightarrow> (b AND 0xFF, u) else s) in
      if fst s \<noteq> 0 \<and> is_uart_ready_to_tx (snd s) then (0, uart_tx (fst s) (snd s)) else s)"

text \<open>
  The RISC-V program has a flag instead. \<^verbatim>\<open>neorv32_uart1_getc_safe\<close> gives a byte or a nonzero status, and
  \<^verbatim>\<open>UART1_TX_BUFFER_FULL\<close> reads the control register.
\<close>

record riscv_char_loopback =
  loopbackChar :: byte
  charReceived :: bool
  rx_fifo :: "byte list"
  tx_written :: "byte list"

definition riscv_char_loopback_turn :: "bool \<Rightarrow> riscv_char_loopback \<Rightarrow> riscv_char_loopback" where
  "riscv_char_loopback_turn UART1_TX_BUFFER_FULL s =
     (let s = (if \<not> charReceived s then
           (case rx_fifo s of [] \<Rightarrow> s
            | tmpChar # q \<Rightarrow> s\<lparr>rx_fifo := q, loopbackChar := tmpChar, charReceived := True\<rparr>)
         else s) in
      if charReceived s \<and> \<not> UART1_TX_BUFFER_FULL then s\<lparr>tx_written := tx_written s @ [loopbackChar s], charReceived := False\<rparr>
      else s)"

definition riscv_held :: "riscv_char_loopback \<Rightarrow> byte list" where
  "riscv_held s = (if charReceived s then [loopbackChar s] else [])"

text \<open>The RISC-V loopback loses nothing.\<close>

lemma riscv_char_loopback_keeps:
  "tx_written (riscv_char_loopback_turn full s) @ riscv_held (riscv_char_loopback_turn full s) @ rx_fifo (riscv_char_loopback_turn full s) =
   tx_written s @ riscv_held s @ rx_fifo s"
  by (cases "rx_fifo s") (auto simp: riscv_char_loopback_turn_def riscv_held_def Let_def)

lemma riscv_char_loopback_run:
  "let t = fold riscv_char_loopback_turn fulls s in
     tx_written t @ riscv_held t @ rx_fifo t = tx_written s @ riscv_held s @ rx_fifo s"
proof (induction fulls arbitrary: s)
  case (Cons f fulls)
  from Cons.IH [of "riscv_char_loopback_turn f s"] show ?case by (simp add: Let_def riscv_char_loopback_keeps)
qed simp

lemma and_0xFF: "(b :: byte) AND 0xFF = b"
proof -
  have "(0xFF :: byte) = - 1" by simp
  then show ?thesis by (simp only: and.right_neutral)
qed

text \<open>The ARM loopback is right as long as every byte can be sent at once.\<close>

lemma stm_char_loopback_echo:
  assumes "tx_ready u" and "b \<noteq> 0"
  shows "tx_sent (snd (stm_char_loopback_turn (0, with_rx (Some b) u))) = tx_sent u @ [b]"
    and "fst (stm_char_loopback_turn (0, with_rx (Some b) u)) = 0"
proof -
  have "b AND 0xFF = b" by (rule and_0xFF)
  then show "tx_sent (snd (stm_char_loopback_turn (0, with_rx (Some b) u))) = tx_sent u @ [b]"
      "fst (stm_char_loopback_turn (0, with_rx (Some b) u)) = 0"
    using assms by (simp_all add: stm_char_loopback_turn_def with_rx_def is_uart_rx_data_waiting_def uart_rx_def
      is_uart_ready_to_tx_def uart_tx_def Let_def)
qed

lemma stm_char_loopback_loses:
  assumes "\<not> tx_ready u" and "b \<noteq> 0"
  shows "fst (stm_char_loopback_turn (a, with_rx (Some b) u)) = b"
    and "tx_sent (snd (stm_char_loopback_turn (a, with_rx (Some b) u))) = tx_sent u"
proof -
  have "b AND 0xFF = b" by (rule and_0xFF)
  then show "fst (stm_char_loopback_turn (a, with_rx (Some b) u)) = b" "tx_sent (snd (stm_char_loopback_turn (a, with_rx (Some b) u))) = tx_sent u"
    using assms by (simp_all add: stm_char_loopback_turn_def with_rx_def is_uart_rx_data_waiting_def uart_rx_def
      is_uart_ready_to_tx_def Let_def)
qed

section \<open>Through a circular buffer\<close>

definition cb_loopback_turn :: "uart \<times> circular_buffer_uint8 \<Rightarrow> (nat option, uart \<times> circular_buffer_uint8) res" where
  "cb_loopback_turn s =
     try_catch (bind_res (uart_rx_to_circ_buf s) (\<lambda>_ s. bind_res (uart_tx_from_circ_buf s) (\<lambda>_ s. (Inr None, s))))
       (\<lambda>e s. (Inr (Some (asc_exception_code e)), s))"

definition cb_loopback_start :: "avr_io \<Rightarrow> byte list \<Rightarrow> circular_buffer_uint8 \<times> byte memory \<Rightarrow>
    (nat option, circular_buffer_uint8 \<times> byte memory) res" where
  "cb_loopback_start io rawBuffer s =
     try_catch (bind_res (zoom fst (\<lambda>cb s. (cb, snd s)) (\<lambda>cb. circular_buffer_init_uint8 cb 64 rawBuffer) s)
         (\<lambda>_ s. (Inr None, (fst s, UART_Init io MYUBRR 0 (snd s)))))
       (\<lambda>e s. (Inr (Some (asc_exception_code e)), s))"

text \<open>What a turn finds: a byte or none, and whether the UART can send.\<close>

type_synonym cb_event = "byte option \<times> bool"

fun cb_loopback :: "cb_event list \<Rightarrow> uart \<times> circular_buffer_uint8 \<Rightarrow> (nat option, uart \<times> circular_buffer_uint8) res" where
  "cb_loopback [] s = (Inr None, s)"
| "cb_loopback ((a, r) # evs) s = bind_res (cb_loopback_turn (with_tx r (with_rx a (fst s)), snd s))
     (\<lambda>code s. case code of Some c \<Rightarrow> (Inr (Some c), s) | None \<Rightarrow> cb_loopback evs s)"

text \<open>The buffer never has to hold more than its 64 bytes.\<close>

fun cb_fits :: "nat \<Rightarrow> cb_event list \<Rightarrow> bool" where
  "cb_fits n [] \<longleftrightarrow> True"
| "cb_fits n ((a, r) # evs) \<longleftrightarrow> (let k = n + (if a = None then 0 else 1) in k \<le> 64 \<and> cb_fits (if r then k - 1 else k) evs)"

lemma rx_to_cb:
  assumes "cb_wf cb" "cb_cap cb = 64" "length (cb_list cb) + (if a = None then 0 else 1) \<le> 64"
  shows "\<exists>u' cb'. uart_rx_to_circ_buf (with_tx r (with_rx a u), cb) = (Inr (), (u', cb')) \<and> cb_wf cb' \<and> cb_cap cb' = 64
    \<and> cb_list cb' = cb_list cb @ (case a of None \<Rightarrow> [] | Some b \<Rightarrow> [b]) \<and> tx_sent u' = tx_sent u \<and> tx_ready u' = r"
proof (cases a)
  case None
  then show ?thesis using assms by (simp add: uart_rx_to_circ_buf_def is_uart_rx_data_waiting_def with_tx_def with_rx_def)
next
  case (Some b)
  from push_back_returns [OF assms(1), of b] assms Some
  obtain cb' where "circular_buffer_push_back_uint8 cb b = (Inr (), cb')" "cb_wf cb'" "cb_cap cb' = 64" "cb_list cb' = cb_list cb @ [b]"
    by (cases "circular_buffer_push_back_uint8 cb b") (auto simp: cb_returns_def)
  then show ?thesis using Some
    by (simp add: uart_rx_to_circ_buf_def is_uart_rx_data_waiting_def with_tx_def with_rx_def uart_rx_def zoom_def)
qed

lemma tx_from_cb:
  assumes "cb_wf cb" "cb_cap cb = 64"
  shows "\<exists>u' cb'. uart_tx_from_circ_buf (u, cb) = (Inr (), (u', cb')) \<and> cb_wf cb' \<and> cb_cap cb' = 64
    \<and> tx_sent u' @ cb_list cb' = tx_sent u @ cb_list cb
    \<and> length (cb_list cb') = (if tx_ready u then length (cb_list cb) - 1 else length (cb_list cb))"
proof (cases "tx_ready u \<and> cb_list cb \<noteq> []")
  case False
  then show ?thesis using assms
    by (auto simp: uart_tx_from_circ_buf_def is_uart_ready_to_tx_def circular_buffer_is_empty_uint8_def circular_buffer_get_size_uint8_def)
next
  case True
  then obtain x xs where x: "cb_list cb = x # xs" by (cases "cb_list cb") auto
  have "cb_returns (circular_buffer_pop_front_uint8 cb) x (cb_cap cb) xs" by (rule pop_front_returns [OF assms(1) x])
  then obtain cb' where "circular_buffer_pop_front_uint8 cb = (Inr x, cb')" "cb_wf cb'" "cb_cap cb' = 64" "cb_list cb' = xs"
    using assms(2) by (cases "circular_buffer_pop_front_uint8 cb") (auto simp: cb_returns_def)
  moreover have "cb_size cb \<noteq> 0" using x by (metis cb_list_Nil_iff list.distinct(1))
  ultimately show ?thesis using True x
    by (simp add: uart_tx_from_circ_buf_def is_uart_ready_to_tx_def circular_buffer_is_empty_uint8_def
      circular_buffer_get_size_uint8_def zoom_def uart_tx_def del: length_cb_list)
qed

lemma cb_loopback_fifo:
  assumes "cb_wf cb" "cb_cap cb = 64" "cb_fits (length (cb_list cb)) evs"
  shows "\<exists>u' cb'. cb_loopback evs (u, cb) = (Inr None, (u', cb')) \<and> cb_wf cb' \<and> cb_cap cb' = 64
    \<and> tx_sent u' @ cb_list cb' = tx_sent u @ cb_list cb @ concat (map (\<lambda>(a, r). case a of None \<Rightarrow> [] | Some b \<Rightarrow> [b]) evs)"
  using assms
proof (induction evs arbitrary: u cb)
  case Nil
  then show ?case by simp
next
  case (Cons e evs)
  obtain a r where e: "e = (a, r)" by (cases e)
  from rx_to_cb [OF Cons.prems(1,2), of a r u] Cons.prems(3)
  obtain u1 cb1 where 1: "uart_rx_to_circ_buf (with_tx r (with_rx a u), cb) = (Inr (), (u1, cb1))" "cb_wf cb1" "cb_cap cb1 = 64"
    "cb_list cb1 = cb_list cb @ (case a of None \<Rightarrow> [] | Some b \<Rightarrow> [b])" "tx_sent u1 = tx_sent u" "tx_ready u1 = r"
    by (auto simp: e Let_def)
  from tx_from_cb [OF 1(2,3), of u1]
  obtain u2 cb2 where 2: "uart_tx_from_circ_buf (u1, cb1) = (Inr (), (u2, cb2))" "cb_wf cb2" "cb_cap cb2 = 64"
    "tx_sent u2 @ cb_list cb2 = tx_sent u1 @ cb_list cb1"
    "length (cb_list cb2) = (if r then length (cb_list cb1) - 1 else length (cb_list cb1))" unfolding 1(6) by blast
  have "length (cb_list cb1) = length (cb_list cb) + (if a = None then 0 else 1)"
    unfolding 1(4) by (cases a) (simp_all del: length_cb_list)
  then have "cb_fits (length (cb_list cb2)) evs" unfolding 2(5) using Cons.prems(3)
    by (cases a; cases r) (simp_all add: e Let_def del: length_cb_list)
  from Cons.IH [OF 2(2,3) this, of u2] 1 2 show ?case
    by (auto simp: e cb_loopback_turn_def)
qed


section \<open>Messages\<close>

text \<open>Both programs ignore wrong checksums.\<close>

record asc_loopback =
  al_uart :: uart
  al_extra :: circular_buffer_uint8
  al_asc :: ascii_serial_com
  al_msg :: asc_message

definition al_on_asc :: "(ascii_serial_com \<Rightarrow> ('a, ascii_serial_com) res) \<Rightarrow> asc_loopback \<Rightarrow> ('a, asc_loopback) res" where
  "al_on_asc = zoom al_asc (\<lambda>a s. s\<lparr>al_asc := a\<rparr>)"

definition al_on_extra :: "(circular_buffer_uint8 \<Rightarrow> ('a, circular_buffer_uint8) res) \<Rightarrow> asc_loopback \<Rightarrow> ('a, asc_loopback) res" where
  "al_on_extra = zoom al_extra (\<lambda>cb s. s\<lparr>al_extra := cb\<rparr>)"

definition asc_loopback_setup :: "byte list \<Rightarrow> byte list \<Rightarrow> asc_loopback \<Rightarrow> (unit, asc_loopback) res" where
  "asc_loopback_setup raw_buffer extraInputBuffer_raw s =
     bind_res (al_on_asc (\<lambda>a. ascii_serial_com_init a raw_buffer) s) (\<lambda>_ s.
     let s = s\<lparr>al_asc := ascii_serial_com_set_ignore_CRC_mismatch (al_asc s)\<rparr> in
       al_on_extra (\<lambda>cb. circular_buffer_init_uint8 cb extraInputBuffer_size extraInputBuffer_raw) s)"

text \<open>A received message goes back; the loops of both boards have this in the middle.\<close>

definition echo_message :: "asc_loopback \<Rightarrow> (unit, asc_loopback) res" where
  "echo_message s =
     (if \<not> circular_buffer_is_empty_uint8 (ascii_serial_com_get_input_buffer (al_asc s)) then
        bind_res (zoom (\<lambda>s. (al_asc s, al_msg s)) (\<lambda>(a, m) s. s\<lparr>al_asc := a, al_msg := m\<rparr>)
            ascii_serial_com_get_message_from_input_buffer s) (\<lambda>_ s.
          let m = al_msg s in
          if msg_command m \<noteq> 0 then
            al_on_asc (\<lambda>a. ascii_serial_com_put_message_in_output_buffer a (msg_ascVersion m) (msg_appVersion m)
              (msg_command m) (msg_data m) (msg_dataLen m)) s
          else (Inr (), s))
      else (Inr (), s))"

definition al_push_input :: "byte \<Rightarrow> asc_loopback \<Rightarrow> (unit, asc_loopback) res" where
  "al_push_input b = al_on_asc (with_in_buf (\<lambda>cb. circular_buffer_push_back_uint8 cb b))"

subsection \<open>The ARM board\<close>

definition stm_send_from_out :: "asc_loopback \<Rightarrow> (unit, asc_loopback) res" where
  "stm_send_from_out s =
     (if \<not> circular_buffer_is_empty_uint8 (ascii_serial_com_get_output_buffer (al_asc s)) \<and> is_uart_ready_to_tx (al_uart s) then
        bind_res (al_on_asc (zoom out_buf (\<lambda>cb a. a\<lparr>out_buf := cb\<rparr>) circular_buffer_pop_front_uint8) s)
          (\<lambda>tmp_byte s. (Inr (), s\<lparr>al_uart := uart_tx tmp_byte (al_uart s)\<rparr>))
      else (Inr (), s))"

definition stm_asc_loopback_turn :: "asc_loopback \<times> 16 word \<Rightarrow> (unit, asc_loopback \<times> 16 word) res" where
  "stm_asc_loopback_turn = count_exceptions (\<lambda>s.
     bind_res (if \<not> circular_buffer_is_empty_uint8 (al_extra s) then
         bind_res (al_on_extra circular_buffer_pop_front_uint8 s) al_push_input
       else (Inr (), s)) (\<lambda>_ s.
     bind_res (echo_message s) (\<lambda>_. stm_send_from_out)))"

subsection \<open>The AVR board\<close>

text \<open>
  A question mark is not for the protocol: it prints the buffers. The text goes through
  \<^verbatim>\<open>uart_putchar\<close>, which does not wait for the UART. The formats are \<^verbatim>\<open>%s\<close>,
  \<^verbatim>\<open>%u\<close> and \<^verbatim>\<open>%c\<close>.
\<close>

fun decimal :: "nat \<Rightarrow> byte list" where
  "decimal n = (if n < 10 then [0x30 + of_nat n] else decimal (n div 10) @ [0x30 + of_nat (n mod 10)])"

definition chars :: "string \<Rightarrow> byte list" where
  "chars s = map (\<lambda>c. of_nat (of_char c)) s"

definition show_char :: "byte \<Rightarrow> byte list" where
  "show_char el = (if el = chr_end then [0x5C, 0x6E] else [el])"

definition buffer_marks :: "circular_buffer_uint8 \<Rightarrow> byte list" where
  "buffer_marks cb =
     (if iStart cb = iStop cb then
        map (\<lambda>i. if of_nat i = iStart cb then 0x58 else 0x20) [0..<unat (capacity cb)]
      else
        map (\<lambda>i. if of_nat i = iStart cb then 0x3E else if of_nat i = iStop cb then 0x3C else 0x20) [0..<unat (capacity cb)])"

fun show_elements :: "nat list \<Rightarrow> circular_buffer_uint8 \<Rightarrow> byte list exc" where
  "show_elements [] cb = Inr []"
| "show_elements (i # is) cb = bind_exc (circular_buffer_get_element_uint8 cb (of_nat i)) (\<lambda>el.
     bind_exc (show_elements is cb) (\<lambda>bs. Inr (show_char el @ bs)))"

definition print_buffer :: "string \<Rightarrow> circular_buffer_uint8 \<Rightarrow> byte list exc" where
  "print_buffer title cb =
     (let sz = unat (circular_buffer_get_size_uint8 cb) in
      bind_exc (show_elements [0..<sz] cb) (\<lambda>els.
        Inr (chars title @ [chr_end] @ chars ''  size: '' @ decimal sz @ [chr_end] @ chars ''  '' @ els @ [chr_end] @ chars ''  ''
          @ concat (map show_char (take (unat (capacity cb)) (buffer cb))) @ [chr_end] @ chars ''  '' @ buffer_marks cb @ [chr_end])))"

definition uart_putchar :: "byte \<Rightarrow> uart \<Rightarrow> uart" where
  "uart_putchar c u = uart_tx c u"

definition avr_print :: "string \<Rightarrow> (ascii_serial_com \<Rightarrow> circular_buffer_uint8) \<Rightarrow> asc_loopback \<Rightarrow> (unit, asc_loopback) res" where
  "avr_print title buf s =
     bind_res (print_buffer title (buf (al_asc s)), s) (\<lambda>text s. (Inr (), s\<lparr>al_uart := fold uart_putchar text (al_uart s)\<rparr>))"

definition avr_asc_loopback_turn :: "asc_loopback \<times> 16 word \<Rightarrow> (unit, asc_loopback \<times> 16 word) res" where
  "avr_asc_loopback_turn = count_exceptions (\<lambda>s.
     bind_res (if \<not> circular_buffer_is_empty_uint8 (al_extra s) then
         bind_res (al_on_extra circular_buffer_pop_front_uint8 s) (\<lambda>byte s.
           if byte = 0x3F then
             bind_res (avr_print ''in'' ascii_serial_com_get_input_buffer s) (\<lambda>_.
               avr_print ''out'' ascii_serial_com_get_output_buffer)
           else al_push_input byte s)
       else (Inr (), s)) (\<lambda>_ s.
     bind_res (echo_message s) (\<lambda>_.
       zoom (\<lambda>s. (al_uart s, ascii_serial_com_get_output_buffer (al_asc s)))
         (\<lambda>(u, cb) s. s\<lparr>al_uart := u, al_asc := (al_asc s)\<lparr>out_buf := cb\<rparr>\<rparr>) uart_tx_from_circ_buf)))"

text \<open>\<^verbatim>\<open>main\<close> of the AVR board up to its loop.\<close>

definition avr_asc_loopback_start :: "avr_io \<Rightarrow> byte list \<Rightarrow> byte list \<Rightarrow> asc_loopback \<times> byte memory \<Rightarrow> (nat option, asc_loopback \<times> byte memory) res" where
  "avr_asc_loopback_start io raw_buffer extraInputBuffer_raw s =
     try_catch (bind_res (zoom fst (\<lambda>a s. (a, snd s)) (asc_loopback_setup raw_buffer extraInputBuffer_raw) s)
         (\<lambda>_ s. (Inr None, (fst s, io_or io DDRB (push_bit 5 1) (TIMER0_Init io 5 0 1 (UART_Init io MYUBRR 1 (snd s)))))))
       (\<lambda>e s. (Inr (Some (asc_exception_code e)), s))"


section \<open>A frame with any checksum comes back with the right one\<close>

definition al_wf :: "asc_loopback \<Rightarrow> bool" where
  "al_wf s \<longleftrightarrow> asc_wf (al_asc s) \<and> ignoreCRCMismatch (al_asc s) \<and> length (msg_data (al_msg s)) = 54
     \<and> cb_wf (al_extra s) \<and> cb_cap (al_extra s) = 64"

lemma asc_loopback_setup_ok:
  assumes "length raw_buffer = 128" "length extra_raw = 64" "length (msg_data (al_msg s)) = 54"
  shows "\<exists>s'. asc_loopback_setup raw_buffer extra_raw s = (Inr (), s') \<and> al_wf s' \<and> cb_list (in_buf (al_asc s')) = []
    \<and> cb_list (out_buf (al_asc s')) = [] \<and> cb_list (al_extra s') = [] \<and> al_uart s' = al_uart s"
proof -
  from init_interface [OF assms(1), of "al_asc s"] obtain a where
    a: "ascii_serial_com_init (al_asc s) raw_buffer = (Inr (), a)" "asc_wf a" "cb_list (in_buf a) = []" "cb_list (out_buf a) = []" by blast
  have "isPowerOfTwo 64" by code_simp
  then have "cb_returns (circular_buffer_init_uint8 (al_extra s) 64 extra_raw) () 64 []"
    using init_returns [of 64 extra_raw "al_extra s"] assms(2) by simp
  then obtain cb where "circular_buffer_init_uint8 (al_extra s) 64 extra_raw = (Inr (), cb)" "cb_wf cb" "cb_cap cb = 64" "cb_list cb = []"
    by (cases "circular_buffer_init_uint8 (al_extra s) 64 extra_raw") (auto simp: cb_returns_def)
  then show ?thesis using a assms(3)
    by (simp add: asc_loopback_setup_def al_on_asc_def al_on_extra_def zoom_def ascii_serial_com_set_ignore_CRC_mismatch_def
      al_wf_def asc_wf_def)
qed

lemma echo_message_repairs:
  assumes wf: "al_wf s" and out: "cb_list (out_buf (al_asc s)) = []" and c: "c \<noteq> 0" and len: "length ds \<le> 54"
    and pl: "plain ([v, ap, c] @ ds)" "length chk = 4" "plain chk" "chr_end \<notin> set noise"
    and inp: "cb_list (in_buf (al_asc s)) = noise @ [chr_start, v, ap, c] @ ds @ [chr_period] @ chk @ [chr_end] @ zs"
  shows "\<exists>s'. echo_message s = (Inr (), s') \<and> al_wf s' \<and> cb_list (in_buf (al_asc s')) = zs
    \<and> cb_list (out_buf (al_asc s')) = frame v ap c ds \<and> al_extra s' = al_extra s \<and> al_uart s' = al_uart s"
proof -
  from get_message_any_checksum [OF _ _ _ len pl inp, of "al_msg s"] wf
  obtain a g where g: "ascii_serial_com_get_message_from_input_buffer (al_asc s, al_msg s) = (Inr (), a, g)"
    and a: "in_content (al_asc s) 64 zs a" and gm: "g = stored_message v ap c ds (al_msg s)"
    by (cases "ascii_serial_com_get_message_from_input_buffer (al_asc s, al_msg s)") (auto simp: al_wf_def rx_yields_def)
  note A = in_contentD [OF a]
  have sel: "msg_ascVersion g = v" "msg_appVersion g = ap" "msg_command g = c" "unat (msg_dataLen g) = length ds"
      "take (length ds) (msg_data g) = ds" "length (msg_data g) = 54"
    using stored_message_sel [OF len, of "al_msg s" v ap c] wf by (auto simp: gm al_wf_def)
  have aw: "asc_wf a" using wf A by (simp add: al_wf_def asc_wf_def)
  have "\<exists>a'. ascii_serial_com_put_message_in_output_buffer a v ap c (msg_data g) (msg_dataLen g) = (Inr (), a')
      \<and> out_content a (frame v ap c ds) a'"
    by (rule send_reply [OF aw]) (use A out sel len pl in \<open>auto simp: plain_def\<close>)
  then obtain a' where p: "ascii_serial_com_put_message_in_output_buffer a v ap c (msg_data g) (msg_dataLen g) = (Inr (), a')"
      and o: "out_content a (frame v ap c ds) a'" by blast
  note O = out_contentD [OF o]
  have "cb_list (in_buf (al_asc s)) \<noteq> []" unfolding inp by simp
  then have "cb_size (in_buf (al_asc s)) \<noteq> 0" by simp
  then have "echo_message s = (Inr (), s\<lparr>al_asc := a', al_msg := g\<rparr>)"
    using g p sel c by (simp add: echo_message_def zoom_def al_on_asc_def Let_def circular_buffer_is_empty_uint8_def
      circular_buffer_get_size_uint8_def ascii_serial_com_get_input_buffer_def)
  then show ?thesis using wf aw O A sel by (auto simp: al_wf_def asc_wf_def)
qed

text \<open>The text that is printed, and that printing changes no buffer.\<close>

lemma show_elements_ok:
  assumes "cb_wf cb" and "\<forall>i \<in> set is. i < length (cb_list cb)"
  shows "show_elements is cb = Inr (concat (map (\<lambda>i. show_char (cb_list cb ! i)) is))"
  using assms(2)
proof (induction "is")
  case (Cons i "is")
  have l: "length (cb_list cb) < 18446744073709551616" by simp
  then have u: "unat (of_nat i :: size_t) = i" using Cons.prems by (intro unat_of_nat_64) (simp del: length_cb_list)
  then have "circular_buffer_get_element_uint8 cb (of_nat i) = Inr (cb_list cb ! i)"
    using get_element_refines [OF assms(1), of "of_nat i"] Cons.prems by (simp del: length_cb_list)
  with Cons show ?case by simp
qed simp

lemma print_buffer_ok:
  assumes "cb_wf cb"
  shows "\<exists>marks. print_buffer title cb = Inr (chars title @ [chr_end] @ chars ''  size: '' @ decimal (length (cb_list cb)) @ [chr_end] @ chars ''  ''
    @ concat (map show_char (cb_list cb)) @ [chr_end] @ chars ''  '' @ concat (map show_char (take (cb_cap cb) (buffer cb)))
    @ [chr_end] @ chars ''  '' @ marks @ [chr_end]) \<and> length marks = cb_cap cb"
proof -
  have s: "unat (circular_buffer_get_size_uint8 cb) = length (cb_list cb)" by (simp add: circular_buffer_get_size_uint8_def)
  have e: "show_elements [0..<length (cb_list cb)] cb = Inr (concat (map show_char (cb_list cb)))"
  proof -
    have "map (\<lambda>i. show_char (cb_list cb ! i)) [0..<length (cb_list cb)] = map show_char (map (\<lambda>i. cb_list cb ! i) [0..<length (cb_list cb)])"
      by (simp only: map_map o_def)
    then show ?thesis using show_elements_ok [OF assms, of "[0..<length (cb_list cb)]"] by (simp add: map_nth del: length_cb_list)
  qed
  have "length (buffer_marks cb) = cb_cap cb" by (simp add: buffer_marks_def cb_cap_def)
  then show ?thesis by (intro exI [of _ "buffer_marks cb"]) (simp add: print_buffer_def s e cb_cap_def Let_def del: length_cb_list decimal.simps)
qed


lemma board_sends:
  assumes wf: "al_wf s"
  shows "\<exists>s'. stm_send_from_out s = (Inr (), s') \<and> al_wf s' \<and> cb_list (in_buf (al_asc s')) = cb_list (in_buf (al_asc s))
      \<and> tx_sent (al_uart s') @ cb_list (out_buf (al_asc s')) = tx_sent (al_uart s) @ cb_list (out_buf (al_asc s))"
    and "\<exists>s'. zoom (\<lambda>s. (al_uart s, ascii_serial_com_get_output_buffer (al_asc s)))
         (\<lambda>(u, cb) s. s\<lparr>al_uart := u, al_asc := (al_asc s)\<lparr>out_buf := cb\<rparr>\<rparr>) uart_tx_from_circ_buf s = (Inr (), s') \<and> al_wf s'
      \<and> cb_list (in_buf (al_asc s')) = cb_list (in_buf (al_asc s))
      \<and> tx_sent (al_uart s') @ cb_list (out_buf (al_asc s')) = tx_sent (al_uart s) @ cb_list (out_buf (al_asc s))"
proof -
  have w: "cb_wf (out_buf (al_asc s))" "cb_cap (out_buf (al_asc s)) = 64" using wf by (simp_all add: al_wf_def asc_wf_def)
  show "\<exists>s'. zoom (\<lambda>s. (al_uart s, ascii_serial_com_get_output_buffer (al_asc s)))
         (\<lambda>(u, cb) s. s\<lparr>al_uart := u, al_asc := (al_asc s)\<lparr>out_buf := cb\<rparr>\<rparr>) uart_tx_from_circ_buf s = (Inr (), s') \<and> al_wf s'
      \<and> cb_list (in_buf (al_asc s')) = cb_list (in_buf (al_asc s))
      \<and> tx_sent (al_uart s') @ cb_list (out_buf (al_asc s')) = tx_sent (al_uart s) @ cb_list (out_buf (al_asc s))"
    using tx_from_cb [OF w, of "al_uart s"] wf
    by (auto simp: zoom_def ascii_serial_com_get_output_buffer_def al_wf_def asc_wf_def)
  show "\<exists>s'. stm_send_from_out s = (Inr (), s') \<and> al_wf s' \<and> cb_list (in_buf (al_asc s')) = cb_list (in_buf (al_asc s))
      \<and> tx_sent (al_uart s') @ cb_list (out_buf (al_asc s')) = tx_sent (al_uart s) @ cb_list (out_buf (al_asc s))"
  proof (cases "cb_list (out_buf (al_asc s))")
    case Nil
    then show ?thesis using wf
      by (simp add: stm_send_from_out_def circular_buffer_is_empty_uint8_def circular_buffer_get_size_uint8_def ascii_serial_com_get_output_buffer_def)
  next
    case (Cons x xs)
    have "cb_returns (circular_buffer_pop_front_uint8 (out_buf (al_asc s))) x (cb_cap (out_buf (al_asc s))) xs" by (rule pop_front_returns [OF w(1) Cons])
    then obtain cb where "circular_buffer_pop_front_uint8 (out_buf (al_asc s)) = (Inr x, cb)" "cb_wf cb" "cb_cap cb = 64" "cb_list cb = xs"
      using w(2) by (cases "circular_buffer_pop_front_uint8 (out_buf (al_asc s))") (auto simp: cb_returns_def)
    then show ?thesis using wf Cons
      by (auto simp: stm_send_from_out_def zoom_def al_on_asc_def uart_tx_def al_wf_def asc_wf_def)
  qed
qed

lemma boards_repair:
  assumes wf: "al_wf s" and out: "cb_list (out_buf (al_asc s)) = []" and ex: "cb_list (al_extra s) = []" and c: "c \<noteq> 0" and len: "length ds \<le> 54"
    and pl: "plain ([v, ap, c] @ ds)" "length chk = 4" "plain chk" "chr_end \<notin> set noise"
    and inp: "cb_list (in_buf (al_asc s)) = noise @ [chr_start, v, ap, c] @ ds @ [chr_period] @ chk @ [chr_end] @ zs"
    and turn: "turn = stm_asc_loopback_turn \<or> turn = avr_asc_loopback_turn"
  shows "\<exists>s'. turn (s, n) = (Inr (), (s', n)) \<and> al_wf s' \<and> cb_list (in_buf (al_asc s')) = zs
    \<and> tx_sent (al_uart s') @ cb_list (out_buf (al_asc s')) = tx_sent (al_uart s) @ frame v ap c ds"
proof -
  from echo_message_repairs [OF wf out c len pl inp] obtain s1 where
    1: "echo_message s = (Inr (), s1)" "al_wf s1" "cb_list (in_buf (al_asc s1)) = zs" "cb_list (out_buf (al_asc s1)) = frame v ap c ds"
      "al_uart s1 = al_uart s" by blast
  have e: "circular_buffer_is_empty_uint8 (al_extra s)" using ex by (simp add: circular_buffer_is_empty_uint8_def circular_buffer_get_size_uint8_def)
  from board_sends [OF 1(2)] turn show ?thesis
    using 1 e by (elim disjE exE conjE) (force simp: stm_asc_loopback_turn_def avr_asc_loopback_turn_def)+
qed

end
