(* ===== verification/Patterns.thy ===== *)
theory Patterns
  imports Loopbacks
begin

text \<open>
  The programs that send a fixed pattern, and the ones that only blink:
  \<^verbatim>\<open>arduino_uno_write_pattern_to_serial.c\<close>, \<^verbatim>\<open>arduino_uno_write_message_to_serial.c\<close>,
  \<^verbatim>\<open>arduino_uno_asc_write_pattern_to_serial.c\<close>, \<^verbatim>\<open>stm32f091nucleo64_write_pattern_to_serial.c\<close>,
  \<^verbatim>\<open>arduino_uno_blink.c\<close>, \<^verbatim>\<open>arduino_mega2560_blink.c\<close> and \<^verbatim>\<open>neorv32_blink_led.c\<close>.
\<close>

section \<open>Digits\<close>

text \<open>Sending blocks: the list says what the polls find.\<close>

definition send_blocking :: "byte \<Rightarrow> bool list \<Rightarrow> uart \<Rightarrow> uart option" where
  "send_blocking b polls u = uart_tx_blocking b (map (\<lambda>r. with_tx r u) polls)"

lemma send_blocking_sent:
  "True \<in> set polls \<Longrightarrow> \<exists>u'. send_blocking b polls u = Some u' \<and> tx_sent u' = tx_sent u @ [b]"
  by (induction polls) (auto simp: send_blocking_def is_uart_ready_to_tx_def with_tx_def uart_tx_def)

definition avr_pattern_turn :: "bool list \<Rightarrow> byte \<times> uart \<Rightarrow> (byte \<times> uart) option" where
  "avr_pattern_turn polls s =
     (case send_blocking (fst s) polls (snd s) of None \<Rightarrow> None
      | Some u \<Rightarrow> let byteBuffer = fst s + 1 in Some (if byteBuffer > 57 then 48 else byteBuffer, u))"

definition stm_pattern_turn :: "bool list \<Rightarrow> byte \<times> uart \<Rightarrow> (byte \<times> uart) option" where
  "stm_pattern_turn polls s =
     (case send_blocking (0x30 + fst s) polls (snd s) of None \<Rightarrow> None
      | Some u \<Rightarrow> Some (if fst s \<ge> 9 then 0 else fst s + 1, u))"

fun pattern_run :: "(bool list \<Rightarrow> 's \<Rightarrow> 's option) \<Rightarrow> bool list list \<Rightarrow> 's \<Rightarrow> 's option" where
  "pattern_run turn [] s = Some s"
| "pattern_run turn (ps # pss) s = (case turn ps s of None \<Rightarrow> None | Some s \<Rightarrow> pattern_run turn pss s)"

text \<open>The decimal digits one after the other, from 0 on.\<close>

definition digit_of :: "nat \<Rightarrow> byte" where
  "digit_of i = 0x30 + of_nat (i mod 10)"

lemma mod_10_Suc: "Suc k mod 10 = (if k mod 10 = 9 then 0 else Suc (k mod 10))"
  by (simp add: mod_Suc)

lemma byte_of_small: "k < 10 \<Longrightarrow> unat (of_nat k :: byte) = k"
  by (simp add: unat_of_nat take_bit_nat_eq_self)

text \<open>One digit later: what both programs do to their variable.\<close>

lemma digit_step_below:
  assumes "j < 10"
  shows "(if 0x30 + of_nat j + 1 > (57 :: byte) then 48 else 0x30 + of_nat j + 1) = (0x30 + of_nat (if j = 9 then 0 else Suc j) :: byte)"
    and "(if (of_nat j :: byte) \<ge> 9 then 0 else of_nat j + 1) = (of_nat (if j = 9 then 0 else Suc j) :: byte)"
proof -
  have "list_all (\<lambda>j. (if 0x30 + of_nat j + 1 > (57 :: byte) then 48 else 0x30 + of_nat j + 1) = (0x30 + of_nat (if j = 9 then 0 else Suc j) :: byte)
      \<and> (if (of_nat j :: byte) \<ge> 9 then 0 else of_nat j + 1) = (of_nat (if j = 9 then 0 else Suc j) :: byte)) [0..<10]"
    by code_simp
  then show "(if 0x30 + of_nat j + 1 > (57 :: byte) then 48 else 0x30 + of_nat j + 1) = (0x30 + of_nat (if j = 9 then 0 else Suc j) :: byte)"
      "(if (of_nat j :: byte) \<ge> 9 then 0 else of_nat j + 1) = (of_nat (if j = 9 then 0 else Suc j) :: byte)"
    using assms unfolding list_all_iff by (metis atLeast0LessThan lessThan_iff set_upt)+
qed

lemma digit_step:
  "(if digit_of k + 1 > 57 then 48 else digit_of k + 1) = digit_of (Suc k)"
  "(if (of_nat (k mod 10) :: byte) \<ge> 9 then 0 else of_nat (k mod 10) + 1) = (of_nat (Suc k mod 10) :: byte)"
  using digit_step_below [of "k mod 10"] unfolding digit_of_def mod_10_Suc [symmetric] by simp_all

lemma avr_pattern:
  "\<forall>ps \<in> set pss. True \<in> set ps \<Longrightarrow> \<exists>u'. pattern_run avr_pattern_turn pss (digit_of k, u) = Some (digit_of (k + length pss), u')
    \<and> tx_sent u' = tx_sent u @ map digit_of [k..<k + length pss]"
proof (induction pss arbitrary: k u)
  case Nil
  then show ?case by simp
next
  case (Cons ps pss)
  then obtain u1 where 1: "send_blocking (digit_of k) ps u = Some u1" "tx_sent u1 = tx_sent u @ [digit_of k]"
    using send_blocking_sent [of ps "digit_of k" u] by auto
  then have "avr_pattern_turn ps (digit_of k, u) = Some (digit_of (Suc k), u1)"
    using digit_step(1) [of k] by (simp add: avr_pattern_turn_def Let_def)
  moreover have "[k..<k + length (ps # pss)] = k # [Suc k..<Suc k + length pss]" by (subst upt_conv_Cons) simp_all
  ultimately show ?case using Cons.IH [of "Suc k" u1] Cons.prems 1(2) by auto
qed

lemma stm_pattern:
  "\<forall>ps \<in> set pss. True \<in> set ps \<Longrightarrow> \<exists>u'. pattern_run stm_pattern_turn pss (of_nat (k mod 10), u) = Some (of_nat ((k + length pss) mod 10), u')
    \<and> tx_sent u' = tx_sent u @ map digit_of [k..<k + length pss]"
proof (induction pss arbitrary: k u)
  case Nil
  then show ?case by simp
next
  case (Cons ps pss)
  then obtain u1 where 1: "send_blocking (digit_of k) ps u = Some u1" "tx_sent u1 = tx_sent u @ [digit_of k]"
    using send_blocking_sent [of ps "digit_of k" u] by auto
  then have "stm_pattern_turn ps (of_nat (k mod 10), u) = Some (of_nat (Suc k mod 10), u1)"
    using digit_step(2) [of k] unfolding stm_pattern_turn_def fst_conv snd_conv by (simp only: digit_of_def option.case)
  moreover have "[k..<k + length (ps # pss)] = k # [Suc k..<Suc k + length pss]" by (subst upt_conv_Cons) simp_all
  ultimately show ?case using Cons.IH [of "Suc k" u1] Cons.prems 1(2) by auto
qed

section \<open>A message\<close>

definition message :: "byte list" where
  "message = chars ''>00s0 0 0 0.DE10'' @ [chr_end]"

definition message_len :: byte where
  "message_len = 17"

definition write_message_turn :: "bool list \<Rightarrow> byte \<times> uart \<Rightarrow> (byte \<times> uart) option" where
  "write_message_turn polls s =
     (case send_blocking (message ! unat (fst s)) polls (snd s) of None \<Rightarrow> None
      | Some u \<Rightarrow> let iChar = fst s + 1 in Some (if iChar = message_len then 0 else iChar, u))"

text \<open>The constant is a frame, with the right checksum.\<close>

lemma message_frame: "message = frame chr_0 chr_0 chr_s (chars ''0 0 0 0'')"
  by code_simp

lemma write_message_part:
  assumes "\<forall>ps \<in> set pss. True \<in> set ps" and "k + length pss = 17" "pss \<noteq> []"
  shows "\<exists>u'. pattern_run write_message_turn pss (of_nat k, u) = Some (0, u') \<and> tx_sent u' = tx_sent u @ drop k message"
  using assms
proof (induction pss arbitrary: k u)
  case Nil
  then show ?case by simp
next
  case (Cons ps pss)
  have k: "k < 17" using Cons.prems by simp
  have l: "length message = 17" by (simp add: message_def chars_def)
  have uk: "unat (of_nat k :: byte) = k" using k by (simp add: unat_of_nat take_bit_nat_eq_self)
  obtain u1 where 1: "send_blocking (message ! k) ps u = Some u1" "tx_sent u1 = tx_sent u @ [message ! k]"
    using send_blocking_sent [of ps "message ! k" u] Cons.prems(1) by auto
  have d: "drop k message = message ! k # drop (Suc k) message" by (rule Cons_nth_drop_Suc [symmetric]) (use k l in simp)
  have e: "(of_nat k + 1 :: byte) = message_len \<longleftrightarrow> Suc k = 17"
  proof -
    have "unat (of_nat (Suc k) :: byte) = Suc k" using k by (simp add: unat_of_nat take_bit_nat_eq_self del: of_nat_Suc)
    then have "unat (of_nat k + 1 :: byte) = Suc k" by (simp add: add.commute)
    then show ?thesis by (simp add: message_len_def word_unat_eq_iff)
  qed
  show ?case
  proof (cases pss)
    case Nil
    then have "Suc k = 17" using Cons.prems(2) by simp
    moreover have "drop (Suc k) message = []" using \<open>Suc k = 17\<close> l by simp
    ultimately show ?thesis using 1 Nil e d by (simp add: write_message_turn_def uk Let_def)
  next
    case (Cons p ps')
    then have "Suc k \<noteq> 17" using Cons.prems(2) by simp
    then have "write_message_turn ps (of_nat k, u) = Some (of_nat (Suc k), u1)"
      using 1 e by (simp add: write_message_turn_def uk Let_def add.commute)
    then show ?thesis using Cons.IH [of "Suc k" u1] Cons.prems Cons 1 d by auto
  qed
qed

text \<open>Every 17 turns send the frame once more.\<close>

lemma write_message_frames:
  assumes "\<forall>ps \<in> set pss. True \<in> set ps" and "length pss = 17 * n"
  shows "\<exists>u'. pattern_run write_message_turn pss (0, u) = Some (0, u') \<and> tx_sent u' = tx_sent u @ concat (replicate n message)"
  using assms
proof (induction n arbitrary: pss u)
  case 0
  then show ?case by simp
next
  case (Suc n)
  have a: "pattern_run t (xs @ ys) s = (case pattern_run t xs s of None \<Rightarrow> None | Some s \<Rightarrow> pattern_run t ys s)"
    for t :: "bool list \<Rightarrow> byte \<times> uart \<Rightarrow> (byte \<times> uart) option" and xs ys s
    by (induction xs arbitrary: s) (auto split: option.splits)
  have l: "length (take 17 pss) = 17" using Suc.prems(2) by simp
  then have "take 17 pss \<noteq> []" by auto
  moreover have "\<forall>ps \<in> set (take 17 pss). True \<in> set ps" using Suc.prems(1) by (meson in_set_takeD)
  ultimately obtain u1 where 1: "pattern_run write_message_turn (take 17 pss) (0, u) = Some (0, u1)" "tx_sent u1 = tx_sent u @ message"
    using write_message_part [of "take 17 pss" 0 u] l by auto
  have "\<forall>ps \<in> set (drop 17 pss). True \<in> set ps" using Suc.prems(1) by (meson in_set_dropD)
  from Suc.IH [OF this, of u1] Suc.prems(2) obtain u2 where
    "pattern_run write_message_turn (drop 17 pss) (0, u1) = Some (0, u2)" "tx_sent u2 = tx_sent u1 @ concat (replicate n message)" by auto
  then show ?case using 1 a [of write_message_turn "take 17 pss" "drop 17 pss" "(0, u)"] by simp
qed


section \<open>Stream messages\<close>

record write_pattern =
  wp_uart :: uart
  wp_asc :: ascii_serial_com
  wp_dataBuffer :: "byte list"

definition wp_on_asc :: "(ascii_serial_com \<Rightarrow> ('a, ascii_serial_com) res) \<Rightarrow> write_pattern \<Rightarrow> ('a, write_pattern) res" where
  "wp_on_asc = zoom wp_asc (\<lambda>a s. s\<lparr>wp_asc := a\<rparr>)"

definition wp_on_data :: "(byte list \<Rightarrow> ('a, byte list) res) \<Rightarrow> write_pattern \<Rightarrow> ('a, write_pattern) res" where
  "wp_on_data = zoom wp_dataBuffer (\<lambda>d s. s\<lparr>wp_dataBuffer := d\<rparr>)"

definition asc_write_pattern_setup :: "byte list \<Rightarrow> write_pattern \<Rightarrow> (unit, write_pattern) res" where
  "asc_write_pattern_setup raw_buffer s =
     bind_res (wp_on_asc (\<lambda>a. ascii_serial_com_init a raw_buffer) s) (\<lambda>_ s.
     let s = s\<lparr>wp_asc := ascii_serial_com_set_ignore_CRC_mismatch (wp_asc s)\<rparr> in
     bind_res (wp_on_data (store 0 chr_0) s) (\<lambda>_. wp_on_data (store 1 chr_0)))"

definition asc_write_pattern_turn :: "write_pattern \<times> 16 word \<Rightarrow> (unit, write_pattern \<times> 16 word) res" where
  "asc_write_pattern_turn = count_exceptions (\<lambda>s.
     bind_res (if circular_buffer_is_empty_uint8 (ascii_serial_com_get_output_buffer (wp_asc s)) then
         bind_res (wp_on_asc (\<lambda>a. ascii_serial_com_put_s_message_in_output_buffer a chr_0 chr_0 (wp_dataBuffer s) 2) s) (\<lambda>_ s.
         bind_res (load (wp_dataBuffer s) 0, s) (\<lambda>d s.
           if d = 0x39 then wp_on_data (store 0 chr_0) s else wp_on_data (store 0 (d + 1)) s))
       else (Inr (), s)) (\<lambda>_.
     zoom (\<lambda>s. (wp_uart s, ascii_serial_com_get_output_buffer (wp_asc s)))
       (\<lambda>(u, cb) s. s\<lparr>wp_uart := u, wp_asc := (wp_asc s)\<lparr>out_buf := cb\<rparr>\<rparr>) uart_tx_from_circ_buf))"

definition wp_inv :: "write_pattern \<times> 16 word \<Rightarrow> bool" where
  "wp_inv s \<longleftrightarrow> asc_wf (wp_asc (fst s)) \<and> (\<exists>k. wp_dataBuffer (fst s) = [digit_of k, chr_0])"

definition wp_key :: "write_pattern \<times> 16 word \<Rightarrow> byte \<times> byte" where
  "wp_key s = (send_stream_frame_counter (wp_asc (fst s)), hd (wp_dataBuffer (fst s)))"

definition wp_payload :: "byte \<times> byte \<Rightarrow> byte list" where
  "wp_payload k = frame chr_0 chr_0 chr_s (stream_data (fst k) [snd k, chr_0])"

definition wp_advance :: "byte \<times> byte \<Rightarrow> byte \<times> byte" where
  "wp_advance k = (fst k + 1, if snd k = 0x39 then chr_0 else snd k + 1)"

definition wp_ready :: "write_pattern \<times> 16 word \<Rightarrow> write_pattern \<times> 16 word" where
  "wp_ready s = ((fst s)\<lparr>wp_uart := with_tx True (wp_uart (fst s))\<rparr>, snd s)"

lemma digit_of_plain: "digit_of k \<noteq> chr_start"
proof -
  have "list_all (\<lambda>j. 0x30 + of_nat j \<noteq> chr_start) [0..<10]" by code_simp
  then show ?thesis unfolding list_all_iff digit_of_def by (metis atLeast0LessThan lessThan_iff mod_less_divisor set_upt zero_less_numeral)
qed

lemma digit_of_next: "(if digit_of k = 0x39 then chr_0 else digit_of k + 1) = digit_of (Suc k)"
proof -
  have "list_all (\<lambda>j. (if 0x30 + of_nat j = (0x39 :: byte) then chr_0 else 0x30 + of_nat j + 1) = 0x30 + of_nat (if j = 9 then 0 else Suc j)) [0..<10]"
    by code_simp
  moreover have "k mod 10 \<in> set [0..<10]" by simp
  ultimately show ?thesis unfolding list_all_iff digit_of_def mod_10_Suc by blast
qed

lemma tx_from_out:
  assumes w: "cb_wf cb" "cb_cap cb = 64" and x: "cb_list cb = b # bs"
  shows "\<exists>cb'. uart_tx_from_circ_buf (with_tx True u, cb) = (Inr (), (uart_tx b (with_tx True u), cb')) \<and> cb_wf cb' \<and> cb_cap cb' = 64 \<and> cb_list cb' = bs"
proof -
  have "cb_returns (circular_buffer_pop_front_uint8 cb) b (cb_cap cb) bs" by (rule pop_front_returns [OF w(1) x])
  then obtain cb' where "circular_buffer_pop_front_uint8 cb = (Inr b, cb')" "cb_wf cb'" "cb_cap cb' = 64" "cb_list cb' = bs"
    using w(2) by (cases "circular_buffer_pop_front_uint8 cb") (auto simp: cb_returns_def)
  moreover have "cb_size cb \<noteq> 0" using x by (metis cb_list_Nil_iff list.distinct(1))
  ultimately show ?thesis
    by (simp add: uart_tx_from_circ_buf_def is_uart_ready_to_tx_def with_tx_def circular_buffer_is_empty_uint8_def
      circular_buffer_get_size_uint8_def zoom_def)
qed

interpretation wp: streamer "\<lambda>s. asc_write_pattern_turn (wp_ready s)" wp_inv "\<lambda>s. cb_list (out_buf (wp_asc (fst s)))"
    "\<lambda>s. tx_sent (wp_uart (fst s))" wp_key wp_payload wp_advance 15
proof
  fix s :: "write_pattern \<times> 16 word"
  assume s: "wp_inv s"
  obtain w n k where w: "s = (w, n)" "asc_wf (wp_asc w)" "wp_dataBuffer w = [digit_of k, chr_0]"
    using s by (cases s) (auto simp: wp_inv_def)
  {
    assume p: "cb_list (out_buf (wp_asc (fst s))) = []"
    have ns: "chr_start \<notin> set ([chr_0, chr_0] @ [digit_of k, chr_0])" using digit_of_plain [of k] by auto
    have "\<exists>a'. ascii_serial_com_put_s_message_in_output_buffer (wp_asc w) chr_0 chr_0 (wp_dataBuffer w) 2 = (Inr (), a') \<and> asc_wf a'
      \<and> cb_list (out_buf a') = frame chr_0 chr_0 chr_s (stream_data (send_stream_frame_counter (wp_asc w)) [digit_of k, chr_0]) \<and> in_buf a' = in_buf (wp_asc w)
      \<and> send_stream_frame_counter a' = send_stream_frame_counter (wp_asc w) + 1 \<and> ignoreCRCMismatch a' = ignoreCRCMismatch (wp_asc w)"
      by (rule put_s_empty [OF w(2) _ _ _ _ ns]) (use w p in simp_all)
    then obtain a' where 1: "ascii_serial_com_put_s_message_in_output_buffer (wp_asc w) chr_0 chr_0 [digit_of k, chr_0] 2 = (Inr (), a')" "asc_wf a'"
      "cb_list (out_buf a') = wp_payload (wp_key s)" "send_stream_frame_counter a' = send_stream_frame_counter (wp_asc w) + 1"
      using w by (auto simp: wp_payload_def wp_key_def)
    have f: "wp_payload (wp_key s) = hd (wp_payload (wp_key s)) # tl (wp_payload (wp_key s))" by (simp add: wp_payload_def frame_def frame_body_def Let_def)
    have "cb_wf (out_buf a')" "cb_cap (out_buf a') = 64" using 1(2) by (simp_all add: asc_wf_def)
    from tx_from_out [OF this, of "hd (wp_payload (wp_key s))" "tl (wp_payload (wp_key s))" "wp_uart w"] 1(3) f
    obtain cb where 2: "uart_tx_from_circ_buf (with_tx True (wp_uart w), out_buf a') = (Inr (), (uart_tx (hd (wp_payload (wp_key s))) (with_tx True (wp_uart w)), cb))"
      "cb_wf cb" "cb_cap cb = 64" "cb_list cb = tl (wp_payload (wp_key s))" by auto
    have e: "cb_size (out_buf (wp_asc w)) = 0" using p w by simp
    have d: "(if digit_of k = 0x39 then wp_on_data (store 0 chr_0) t else wp_on_data (store 0 (digit_of k + 1)) t) = wp_on_data (store 0 (digit_of (Suc k))) t" for t
      by (simp flip: digit_of_next)
    have "asc_write_pattern_turn (wp_ready s) = (Inr (), (w\<lparr>wp_uart := uart_tx (hd (wp_payload (wp_key s))) (with_tx True (wp_uart w)),
        wp_asc := a'\<lparr>out_buf := cb\<rparr>, wp_dataBuffer := [digit_of (Suc k), chr_0]\<rparr>, n))"
      using 1(1) 2(1) e w
      by (simp add: asc_write_pattern_turn_def wp_ready_def wp_on_asc_def zoom_def circular_buffer_is_empty_uint8_def d
        circular_buffer_get_size_uint8_def ascii_serial_com_get_output_buffer_def load_def wp_on_data_def)
    then show "\<exists>s'. asc_write_pattern_turn (wp_ready s) = (Inr (), s') \<and> wp_inv s' \<and> wp_key s' = wp_advance (wp_key s)
      \<and> tx_sent (wp_uart (fst s')) = tx_sent (wp_uart (fst s)) @ [hd (wp_payload (wp_key s))]
      \<and> cb_list (out_buf (wp_asc (fst s'))) = tl (wp_payload (wp_key s))"
      using 1 2 w digit_of_next [of k] by (auto simp: wp_inv_def wp_key_def wp_advance_def asc_wf_def uart_tx_def with_tx_def)
  next
    assume p: "cb_list (out_buf (wp_asc (fst s))) \<noteq> []"
    then obtain b bs where b: "cb_list (out_buf (wp_asc w)) = b # bs" using w neq_Nil_conv [of "cb_list (out_buf (wp_asc w))"] by auto
    have "cb_wf (out_buf (wp_asc w))" "cb_cap (out_buf (wp_asc w)) = 64" using w by (simp_all add: asc_wf_def)
    from tx_from_out [OF this b, of "wp_uart w"]
    obtain cb where 2: "uart_tx_from_circ_buf (with_tx True (wp_uart w), out_buf (wp_asc w)) = (Inr (), (uart_tx b (with_tx True (wp_uart w)), cb))"
      "cb_wf cb" "cb_cap cb = 64" "cb_list cb = bs" by auto
    have e: "cb_size (out_buf (wp_asc w)) \<noteq> 0" using p w by simp
    have "asc_write_pattern_turn (wp_ready s) = (Inr (), (w\<lparr>wp_uart := uart_tx b (with_tx True (wp_uart w)), wp_asc := (wp_asc w)\<lparr>out_buf := cb\<rparr>\<rparr>, n))"
      using 2(1) e w
      by (simp add: asc_write_pattern_turn_def wp_ready_def zoom_def circular_buffer_is_empty_uint8_def
        circular_buffer_get_size_uint8_def ascii_serial_com_get_output_buffer_def)
    then show "\<exists>s'. asc_write_pattern_turn (wp_ready s) = (Inr (), s') \<and> wp_inv s' \<and> wp_key s' = wp_key s
      \<and> tx_sent (wp_uart (fst s')) = tx_sent (wp_uart (fst s)) @ [hd (cb_list (out_buf (wp_asc (fst s))))]
      \<and> cb_list (out_buf (wp_asc (fst s'))) = tl (cb_list (out_buf (wp_asc (fst s))))"
      using 2 w b by (auto simp: wp_inv_def wp_key_def asc_wf_def uart_tx_def with_tx_def simp del: length_cb_list)
  }
qed (simp_all add: wp_payload_def stream_data_def)

section \<open>Blinking\<close>

text \<open>
  The LED is bit 5 of port B on the Uno and bit 7 on the Mega. A turn gives the memory during its two delays.
\<close>

definition avr_blink_setup :: "avr_io \<Rightarrow> nat \<Rightarrow> byte memory \<Rightarrow> byte memory" where
  "avr_blink_setup io pin = io_or io DDRB (push_bit pin 1)"

definition avr_blink_on :: "avr_io \<Rightarrow> nat \<Rightarrow> byte memory \<Rightarrow> byte memory" where
  "avr_blink_on io pin = io_or io PORTB (push_bit pin 1)"

definition avr_blink_off :: "avr_io \<Rightarrow> nat \<Rightarrow> byte memory \<Rightarrow> byte memory" where
  "avr_blink_off io pin = io_and io PORTB (NOT (push_bit pin 1))"

definition arduino_uno_blink :: "avr_io \<Rightarrow> byte memory \<Rightarrow> byte memory list" where
  "arduino_uno_blink io m = [avr_blink_on io 5 m, avr_blink_off io 5 (avr_blink_on io 5 m)]"

definition arduino_mega2560_blink :: "avr_io \<Rightarrow> byte memory \<Rightarrow> byte memory list" where
  "arduino_mega2560_blink io m = [avr_blink_on io 7 m, avr_blink_off io 7 (avr_blink_on io 7 m)]"

lemma blink_bits:
  assumes "inj (reg_addr io)" and "pin < 8"
  shows "bit (io_get io PORTB (avr_blink_on io pin m)) k = (bit (io_get io PORTB m) k \<or> k = pin)"
    and "bit (io_get io PORTB (avr_blink_off io pin m)) k = (bit (io_get io PORTB m) k \<and> k \<noteq> pin)"
  using assms by (auto simp: avr_blink_on_def avr_blink_off_def bit_simps dest: bit_imp_le_length)

text \<open>
  The counter on the LEDs of the RISC-V board: a signed \<^verbatim>\<open>int\<close>, of which the lowest 8 bits are shown. Its
  increment is undefined at the largest value.
\<close>

definition blink_led_c_turn :: "32 word \<times> 64 word list \<Rightarrow> (unit, 32 word \<times> 64 word list) res" where
  "blink_led_c_turn s =
     (if fst s = 0x7FFFFFFF then (Inl UB, s) else (Inr (), (fst s + 1, snd s @ [ucast (fst s AND 0xFF)])))"

definition blink_led_c_start :: "32 word \<times> 64 word list" where
  "blink_led_c_start = (0, [0])"

lemma and_0xFF_of_nat: "(of_nat k AND 0xFF :: 32 word) = of_nat (k mod 256)"
proof -
  have m: "(0xFF :: 32 word) = mask 8" by (simp add: mask_eq_exp_minus_1)
  show ?thesis unfolding m take_bit_eq_mask [symmetric]
    by (simp add: take_bit_of_nat flip: take_bit_eq_mod [where n = 8, simplified])
qed

lemma blink_led_c_shows:
  "n < 2 ^ 31 \<Longrightarrow> run_turns blink_led_c_turn n blink_led_c_start = (Inr (), (of_nat n, 0 # map (\<lambda>k. of_nat (k mod 256)) [0..<n]))"
proof (induction n)
  case 0
  then show ?case by (simp add: blink_led_c_start_def)
next
  case (Suc n)
  have u: "unat (of_nat n :: 32 word) = n" using Suc.prems by (simp add: unat_of_nat take_bit_nat_eq_self)
  have ne: "(of_nat n :: 32 word) \<noteq> 0x7FFFFFFF"
  proof
    assume "(of_nat n :: 32 word) = 0x7FFFFFFF"
    then have "unat (of_nat n :: 32 word) = 0x7FFFFFFF" by simp
    then show False using u Suc.prems by simp
  qed
  have "ucast (of_nat (n mod 256) :: 32 word) = (of_nat (n mod 256) :: 64 word)"
  proof (rule word_unat_eq_iff [THEN iffD2])
    have l: "n mod 256 < 256" by simp
    then show "unat (ucast (of_nat (n mod 256) :: 32 word) :: 64 word) = unat (of_nat (n mod 256) :: 64 word)"
      by (simp add: unsigned_ucast_eq unat_of_nat take_bit_nat_eq_self less_trans [OF l])
  qed
  then have "blink_led_c_turn (of_nat n, xs) = (Inr (), (of_nat (Suc n), xs @ [of_nat (n mod 256)]))" for xs
    using ne by (simp add: blink_led_c_turn_def and_0xFF_of_nat add.commute)
  then show ?case using Suc by (simp add: run_turns_last del: run_turns.simps of_nat_Suc)
qed

text \<open>At the next turn the count overflows.\<close>

lemma blink_led_c_overflows: "fst s = 0x7FFFFFFF \<Longrightarrow> fst (blink_led_c_turn s) = Inl UB"
  by (simp add: blink_led_c_turn_def)

text \<open>
  The newer boards set a direction and toggle an output by writing a bit: the writes of the start and of a turn.
\<close>

datatype port_reg = DIRSET | OUTTGL

type_synonym port_write = "char \<times> port_reg \<times> byte"

definition port_blink :: "char \<Rightarrow> nat \<Rightarrow> port_write list \<times> port_write list" where
  "port_blink port pin = ([(port, DIRSET, push_bit pin 1)], [(port, OUTTGL, push_bit pin 1)])"

definition atmega4809_cnano_blink :: "port_write list \<times> port_write list" where
  "atmega4809_cnano_blink = port_blink CHR ''F'' 5"

definition attiny3217_cnano_blink :: "port_write list \<times> port_write list" where
  "attiny3217_cnano_blink = port_blink CHR ''A'' 3"

definition attiny817_xplained_blink :: "port_write list \<times> port_write list" where
  "attiny817_xplained_blink = port_blink CHR ''C'' 0"

section \<open>Starting\<close>

definition avr_char_loopback_start :: "avr_io \<Rightarrow> byte memory \<Rightarrow> byte memory" where
  "avr_char_loopback_start io = UART_Init io (16000000 div 16 div 19200 - 1) 0"

definition write_message_start :: "avr_io \<Rightarrow> byte memory \<Rightarrow> byte memory" where
  "write_message_start io = UART_Init io MYUBRR 0"

definition avr_pattern_start :: "avr_io \<Rightarrow> byte memory \<Rightarrow> byte \<times> byte memory" where
  "avr_pattern_start io m = (let m = UART_Init io MYUBRR 0 m; byteBuffer = 48 in (byteBuffer, m))"

definition asc_write_pattern_start :: "avr_io \<Rightarrow> byte list \<Rightarrow> write_pattern \<times> byte memory \<Rightarrow> (nat option, write_pattern \<times> byte memory) res" where
  "asc_write_pattern_start io raw_buffer s =
     try_catch (bind_res (zoom fst (\<lambda>w s. (w, snd s)) (asc_write_pattern_setup raw_buffer) s)
         (\<lambda>_ s. (Inr None, (fst s, UART_Init io MYUBRR 0 (snd s)))))
       (\<lambda>e s. (Inr (Some (asc_exception_code e)), s))"

end
