(* ===== verification/Avr_Adc.thy ===== *)
theory Avr_Adc
  imports Avr_Devices Millisec_Timer
begin

text \<open>
  \<^verbatim>\<open>arduino_uno_adc_streaming.c\<close>: samples the ADC at a period that is set through registers, and
  streams the values.
\<close>

section \<open>State\<close>

text \<open>
  The two variables that the register map reaches into are bytes of the memory; their addresses are a
  parameter, as the linker chooses them. The bit \<^verbatim>\<open>ADSC\<close> is set by the program, and cleared by the
  hardware when the conversion is done; the converted value is read from \<^verbatim>\<open>ADC\<close>.
\<close>

record adc_vars =
  adc_sample_period_ms :: nat
  MILLISEC_TIMER_NOW :: nat

definition register_map :: "avr_io \<Rightarrow> adc_vars \<Rightarrow> nat option list" where
  "register_map io vars = [Some (reg_addr io PORTB), Some (reg_addr io ADMUX),
     Some (adc_sample_period_ms vars), Some (adc_sample_period_ms vars + 1), Some (adc_sample_period_ms vars + 2), Some (adc_sample_period_ms vars + 3),
     Some (MILLISEC_TIMER_NOW vars), Some (MILLISEC_TIMER_NOW vars + 1), Some (MILLISEC_TIMER_NOW vars + 2), Some (MILLISEC_TIMER_NOW vars + 3)]"

definition register_write_masks :: "byte list" where
  "register_write_masks = [push_bit 5 1, 0x0F, 0xFF, 0xFF, 0xFF, 0xFF, 0, 0, 0, 0]"

record avr_adc =
  aa_fw :: "byte rp_world firmware"
  adc_timer :: millisec_timer
  have_started_ADC_conversion :: bool

definition aa_on_fw :: "(byte rp_world firmware \<Rightarrow> ('a, byte rp_world firmware) res) \<Rightarrow> avr_adc \<Rightarrow> ('a, avr_adc) res" where
  "aa_on_fw = zoom aa_fw (\<lambda>fw s. s\<lparr>aa_fw := fw\<rparr>)"

abbreviation aa_memory :: "avr_adc \<Rightarrow> byte memory" where
  "aa_memory s \<equiv> snd (fst (fw_mem (aa_fw s)))"

abbreviation streaming_is_on :: "avr_adc \<Rightarrow> bool" where
  "streaming_is_on s \<equiv> snd (fw_mem (aa_fw s))"

definition have_finished_ADC_conversion :: "avr_io \<Rightarrow> avr_adc \<Rightarrow> bool" where
  "have_finished_ADC_conversion io s \<longleftrightarrow> (ucast (io_get io ADCSRA (aa_memory s)) AND push_bit (bit_no io ADSC) (1 :: 16 word)) = 0"

section \<open>Start\<close>

definition adc_hardware_setup :: "avr_io \<Rightarrow> byte memory \<Rightarrow> byte memory" where
  "adc_hardware_setup io m =
     (let m = io_or io DDRB (push_bit 5 1) m;
          m = millisec_timer_avr_timer0_setup_16MHz io m;
          m = io_set io ADMUX 0x40 m;
          m = io_or io ADMUX 0xF m;
          m = io_set io ADCSRA 7 m in
      io_or io ADCSRA (ucast (push_bit (bit_no io ADEN) (1 :: 16 word))) m)"

definition adc_streaming_start :: "avr_io \<Rightarrow> adc_vars \<Rightarrow> byte list \<Rightarrow> byte list \<Rightarrow> avr_adc \<Rightarrow> (nat option, avr_adc \<times> 16 word) res" where
  "adc_streaming_start io vars raw_buffer extra_raw s =
     (let s = s\<lparr>aa_fw := set_memory (adc_hardware_setup io) (aa_fw s)\<rparr>; nExceptions = 0 in
      try_catch (bind_res (zoom fst (\<lambda>a s. (a, snd s)) (aa_on_fw
          (SETUP_ASC_DEVICE_W_REGISTER_POINTERS handle_message_avr raw_buffer extra_raw (register_map io vars) register_write_masks 10)) (s, nExceptions))
        (\<lambda>_ (s, n). (Inr None, (s\<lparr>aa_fw := set_memory (UART_Init io MYUBRR 1) (aa_fw s)\<rparr>, n))))
      (\<lambda>e s. (Inr (Some (asc_exception_code e)), s)))"

section \<open>The loop\<close>

definition start_timer :: "adc_vars \<Rightarrow> bool \<Rightarrow> avr_adc \<Rightarrow> avr_adc" where
  "start_timer vars stream_state_before_receiving s =
     (if streaming_is_on s \<and> \<not> stream_state_before_receiving then
        s\<lparr>adc_timer := millisec_timer_set_rel (adc_timer s) (read_uint32 (MILLISEC_TIMER_NOW vars) (aa_memory s))
          (read_uint32 (adc_sample_period_ms vars) (aa_memory s))\<rparr>
      else s)"

definition start_conversion :: "avr_io \<Rightarrow> adc_vars \<Rightarrow> avr_adc \<Rightarrow> avr_adc" where
  "start_conversion io vars s =
     (if streaming_is_on s \<and> \<not> have_started_ADC_conversion s then
        case millisec_timer_is_expired_repeat (adc_timer s) (read_uint32 (MILLISEC_TIMER_NOW vars) (aa_memory s)) of
          (expired, t) \<Rightarrow> let s = s\<lparr>adc_timer := t\<rparr> in
            if expired then s\<lparr>aa_fw := set_memory (io_or io ADCSRA (ucast (push_bit (bit_no io ADSC) (1 :: 16 word)))) (aa_fw s),
              have_started_ADC_conversion := True\<rparr> else s
      else s)"

text \<open>The four digits are stored in an array on the stack; the last three are sent.\<close>

definition send_sample :: "avr_io \<Rightarrow> 16 word \<Rightarrow> avr_adc \<Rightarrow> (unit, avr_adc) res" where
  "send_sample io ADC s =
     (if have_started_ADC_conversion s \<and> have_finished_ADC_conversion io s \<and> READY_TO_STREAM_ASC_DEVICE_W_REGISTER_POINTERS (aa_fw s) then
        bind_res (final_state (convert_uint16_to_hex ADC 0 True (replicate 4 0)), s) (\<lambda>adc_val_buffer s.
        bind_res (aa_on_fw (STREAM_TO_HOST_ASC_DEVICE_W_REGISTER_POINTERS (drop 1 adc_val_buffer) 3) s) (\<lambda>_ s.
          (Inr (), s\<lparr>have_started_ADC_conversion := False\<rparr>)))
      else (Inr (), s))"

definition adc_streaming_turn :: "avr_io \<Rightarrow> adc_vars \<Rightarrow> 16 word \<Rightarrow> avr_adc \<times> 16 word \<Rightarrow> (unit, avr_adc \<times> 16 word) res" where
  "adc_streaming_turn io vars ADC = count_exceptions (\<lambda>s.
     let stream_state_before_receiving = streaming_is_on s in
     bind_res (aa_on_fw HANDLE_ASC_COMM_IN_POLLING_LOOP s) (\<lambda>_ s.
       send_sample io ADC (start_conversion io vars (start_timer vars stream_state_before_receiving s))))"

section \<open>The period is set byte by byte\<close>

definition set_bytes :: "nat \<Rightarrow> 32 word \<Rightarrow> byte memory \<Rightarrow> byte memory" where
  "set_bytes a v m = fold (\<lambda>i m. m(a + i \<mapsto> ucast (drop_bit (8 * i) v))) [0..<4] m"

lemma set_bytes: "read_uint32 a (set_bytes a v m) = v"
proof -
  have "set_bytes a v m = write_uint32 a v m"
    by (simp add: set_bytes_def write_uint32_def numeral_eq_Suc upt_rec)
  then show ?thesis by simp
qed

section \<open>One sample\<close>

text \<open>
  A turn with an idle input, while streaming: a conversion is started when the period is over and none is
  running; a running one that is finished is sent when the last message is out.
\<close>

definition aa_idle :: "avr_adc \<Rightarrow> bool" where
  "aa_idle s \<longleftrightarrow> fw_wf (aa_fw s) \<and> fw_in (aa_fw s) = [] \<and> fw_extra (aa_fw s) = [] \<and> streaming_is_on s"

text \<open>The bit that the program sets is the one that it tests.\<close>

lemma adsc_bit:
  assumes "bit_no io ADSC < 8"
  shows "have_finished_ADC_conversion io s \<longleftrightarrow> \<not> bit (io_get io ADCSRA (aa_memory s)) (bit_no io ADSC)"
proof -
  have "(ucast b AND push_bit k (1 :: 16 word)) = 0 \<longleftrightarrow> \<not> bit (b :: byte) k" if "k < 8" for b k
  proof -
    have "(ucast b AND push_bit k (1 :: 16 word)) = (if bit b k then push_bit k 1 else 0)"
      using that by (intro bit_word_eqI) (auto simp: bit_simps)
    moreover have "push_bit k (1 :: 16 word) \<noteq> 0"
    proof -
      have "bit (push_bit k (1 :: 16 word)) k" unfolding bit_push_bit_iff using that by simp
      then show ?thesis by (metis bit_0_eq bot_apply bot_bool_def)
    qed
    ultimately show ?thesis by simp
  qed
  then show ?thesis using assms by (simp add: have_finished_ADC_conversion_def)
qed

lemma turn_idle:
  assumes s: "aa_idle s" and u: "\<not> tx_ready (fw_uart (aa_fw s)) \<or> fw_out (aa_fw s) = []"
  shows "\<exists>fw. aa_on_fw HANDLE_ASC_COMM_IN_POLLING_LOOP s = (Inr (), s\<lparr>aa_fw := fw\<rparr>) \<and> aa_idle (s\<lparr>aa_fw := fw\<rparr>)
    \<and> fw_mem fw = fw_mem (aa_fw s) \<and> fw_counter fw = fw_counter (aa_fw s) \<and> fw_out fw = fw_out (aa_fw s)
    \<and> tx_sent (fw_uart fw) = tx_sent (fw_uart (aa_fw s))"
  using handle_idle [of "aa_fw s"] s u by (auto simp: aa_idle_def aa_on_fw_def zoom_def split: if_splits)

lemma adc_turn_starts:
  assumes s: "aa_idle s" and u: "fw_out (aa_fw s) = []" and ns: "\<not> have_started_ADC_conversion s"
    and t: "millisec_timer_is_expired_repeat (adc_timer s) (read_uint32 (MILLISEC_TIMER_NOW vars) (aa_memory s)) = (True, t')"
    and io: "inj (reg_addr io)" "bit_no io ADSC < 8"
  shows "\<exists>s'. adc_streaming_turn io vars v (s, n) = (Inr (), (s', n)) \<and> aa_idle s' \<and> have_started_ADC_conversion s' \<and> adc_timer s' = t'
    \<and> aa_memory s' = io_or io ADCSRA (ucast (push_bit (bit_no io ADSC) (1 :: 16 word))) (aa_memory s)
    \<and> fw_out (aa_fw s') = [] \<and> fw_counter (aa_fw s') = fw_counter (aa_fw s) \<and> tx_sent (fw_uart (aa_fw s')) = tx_sent (fw_uart (aa_fw s))"
proof -
  from turn_idle [OF s] u obtain fw where 1: "aa_on_fw HANDLE_ASC_COMM_IN_POLLING_LOOP s = (Inr (), s\<lparr>aa_fw := fw\<rparr>)" "aa_idle (s\<lparr>aa_fw := fw\<rparr>)"
    "fw_mem fw = fw_mem (aa_fw s)" "fw_counter fw = fw_counter (aa_fw s)" "fw_out fw = []" "tx_sent (fw_uart fw) = tx_sent (fw_uart (aa_fw s))" by auto
  let ?f = "io_or io ADCSRA (ucast (push_bit (bit_no io ADSC) (1 :: 16 word)))"
  let ?s2 = "s\<lparr>aa_fw := set_memory ?f fw, adc_timer := t', have_started_ADC_conversion := True\<rparr>"
  have on: "streaming_is_on s" using s by (simp add: aa_idle_def)
  have 2: "start_conversion io vars (start_timer vars (streaming_is_on s) (s\<lparr>aa_fw := fw\<rparr>)) = ?s2"
    using on ns t 1(3) by (simp add: start_timer_def start_conversion_def Let_def)
  have b: "bit (ucast (push_bit (bit_no io ADSC) (1 :: 16 word)) :: byte) (bit_no io ADSC)" using io(2) by (simp add: bit_simps)
  have "\<not> have_finished_ADC_conversion io ?s2" using adsc_bit [OF io(2), of ?s2] io(1) b 1(3) by (simp add: bit_simps)
  then have "send_sample io v ?s2 = (Inr (), ?s2)" by (simp add: send_sample_def)
  then have "adc_streaming_turn io vars v (s, n) = (Inr (), (?s2, n))" using 1(1) 2 by (simp add: adc_streaming_turn_def Let_def)
  then show ?thesis using 1 on by (simp add: aa_idle_def)
qed

lemma adc_turn_sends:
  assumes s: "aa_idle s" and u: "fw_out (aa_fw s) = []" and st: "have_started_ADC_conversion s" and fin: "have_finished_ADC_conversion io s"
  shows "\<exists>s'. adc_streaming_turn io vars v (s, n) = (Inr (), (s', n)) \<and> aa_idle s' \<and> \<not> have_started_ADC_conversion s' \<and> adc_timer s' = adc_timer s
    \<and> aa_memory s' = aa_memory s \<and> fw_out (aa_fw s') = sample_frame (fw_counter (aa_fw s)) v
    \<and> fw_counter (aa_fw s') = fw_counter (aa_fw s) + 1 \<and> tx_sent (fw_uart (aa_fw s')) = tx_sent (fw_uart (aa_fw s))"
proof -
  from turn_idle [OF s] u obtain fw where 1: "aa_on_fw HANDLE_ASC_COMM_IN_POLLING_LOOP s = (Inr (), s\<lparr>aa_fw := fw\<rparr>)" "aa_idle (s\<lparr>aa_fw := fw\<rparr>)"
    "fw_mem fw = fw_mem (aa_fw s)" "fw_counter fw = fw_counter (aa_fw s)" "fw_out fw = []" "tx_sent (fw_uart fw) = tx_sent (fw_uart (aa_fw s))" by auto
  let ?s1 = "s\<lparr>aa_fw := fw\<rparr>"
  have on: "streaming_is_on s" using s by (simp add: aa_idle_def)
  have 2: "start_conversion io vars (start_timer vars (streaming_is_on s) ?s1) = ?s1"
    using on st by (simp add: start_timer_def start_conversion_def)
  have "fw_wf fw" using 1(2) by (simp add: aa_idle_def)
  from stream_sample [OF this 1(5), of v]
  obtain fw' where 3: "STREAM_TO_HOST_ASC_DEVICE_W_REGISTER_POINTERS (hex_digits True 3 v) 3 fw = (Inr (), fw')" "fw_wf fw'"
    "fw_out fw' = sample_frame (fw_counter fw) v" "fw_counter fw' = fw_counter fw + 1" "fw_in fw' = fw_in fw" "fw_extra fw' = fw_extra fw"
    "fw_mem fw' = fw_mem fw" "fw_uart fw' = fw_uart fw" by auto
  have "have_finished_ADC_conversion io ?s1" using fin 1(3) by (simp add: have_finished_ADC_conversion_def)
  moreover have "READY_TO_STREAM_ASC_DEVICE_W_REGISTER_POINTERS fw"
    using on 1(3,5) by (simp add: READY_TO_STREAM_ASC_DEVICE_W_REGISTER_POINTERS_def out_size_0)
  ultimately have "send_sample io v ?s1 = (Inr (), ?s1\<lparr>aa_fw := fw', have_started_ADC_conversion := False\<rparr>)"
    using st 3(1) by (simp add: send_sample_def aa_on_fw_def zoom_def sample_buffer)
  then have "adc_streaming_turn io vars v (s, n) = (Inr (), (?s1\<lparr>aa_fw := fw', have_started_ADC_conversion := False\<rparr>, n))"
    using 1(1) 2 by (simp add: adc_streaming_turn_def Let_def)
  then show ?thesis using 1 3 on by (auto simp: aa_idle_def)
qed

end
