(* ===== verification/Stm32.thy ===== *)
theory Stm32
  imports Loopbacks Millisec_Timer
begin

text \<open>
  The STM32 boards: \<^verbatim>\<open>arm/stm_usart.h\<close>, \<^verbatim>\<open>arm/stm_timers.h\<close>, the ARM part of
  \<^verbatim>\<open>millisec_timer\<close>, and the start of the programs without registers. The hardware is reached
  through libopencm3, which is not part of the repository: a program is modelled by the calls it makes,
  in their order and with their arguments.
\<close>

section \<open>Calls\<close>

text \<open>The constants of libopencm3 that the programs name.\<close>

datatype stm_const =
    GPIOA | USART2 | TIM1 | TIM2 | TIM6 | ADC | DAC1 | SYSTICK
  | RCC_GPIOA | RCC_USART2 | RCC_TIM1 | RCC_TIM2 | RCC_TIM6 | RCC_ADC | RCC_DAC
  | GPIO0 | GPIO2 | GPIO3 | GPIO4 | GPIO5 | GPIO8 | GPIO_AF1 | GPIO_AF2
  | GPIO_MODE_AF | GPIO_MODE_OUTPUT | GPIO_MODE_ANALOG | GPIO_PUPD_NONE | GPIO_OTYPE_PP | GPIO_OSPEED_HIGH
  | USART_PARITY_NONE | USART_CR2_STOPBITS_1 | USART_MODE_TX_RX | USART_FLOWCONTROL_NONE | NVIC_USART2_IRQ
  | TIM_CR1_CKD_CK_INT | TIM_CR1_CMS_EDGE | TIM_CR1_DIR_UP | TIM_OC1 | TIM_OCM_PWM1
  | TIM_IC1 | TIM_IC2 | TIM_IC_IN_TI1 | TIM_IC_RISING | TIM_IC_FALLING | TIM_SMCR_TS_TI1FP1 | TIM_SMCR_SMS_RM
  | TIM_SR_CC1IF | TIM_SR_CC1OF | TIM_SR_CC2OF | TIM_CR2_MMS_UPDATE | TIM_CR1_ARPE | TIM_CR1_CEN
  | ADC_CLKSOURCE_ADC | ADC_MODE_SCAN | ADC_SMPTIME_071DOT5 | ADC_RESOLUTION_12BIT | ADC_ISR_EOSEQ | ADC_ISR_EOC
  | DAC_CHANNEL1 | DAC_CR_TSEL1_T6 | STK_CSR_CLKSOURCE_LSB

datatype stm_fun =
    rcc_periph_clock_enable | nvic_enable_irq
  | gpio_mode_setup | gpio_set_output_options | gpio_set_af | gpio_toggle
  | usart_set_baudrate | usart_set_databits | usart_set_parity | usart_set_stopbits | usart_set_mode
  | usart_set_flow_control | usart_enable_rx_interrupt | usart_enable
  | timer_set_mode | timer_set_oc_mode | timer_enable_oc_output | timer_ic_set_input | timer_ic_set_polarity
  | timer_slave_set_trigger | timer_slave_set_mode | timer_ic_enable | timer_enable_counter | timer_clear_flag
  | systick_set_clocksource | systick_set_reload | systick_counter_enable | systick_interrupt_enable
  | adc_power_off | adc_set_clk_source | adc_calibrate | adc_set_operation_mode | adc_disable_external_trigger_regular
  | adc_set_right_aligned | adc_enable_temperature_sensor | adc_set_sample_time_on_all_channels | adc_set_regular_sequence
  | adc_set_resolution | adc_disable_analog_watchdog | adc_power_on | adc_start_conversion_regular | adc_clear_overrun_flag
  | dac_disable | dac_buffer_enable | dac_disable_waveform_generation | dac_set_trigger_source | dac_trigger_enable | dac_enable

text \<open>The registers that are assigned directly, and the variables that the register maps of the programs point to.\<close>

datatype stm_reg =
    TIM_PSC stm_const | TIM_ARR stm_const | TIM_CCR1 stm_const | TIM_CCR2 stm_const | TIM_CR1 stm_const | TIM_CR2 stm_const
  | STK_CVR | ADC_ISR stm_const | DAC_CR stm_const | DAC_DHR12R1 stm_const | DAC_DHR12R2 stm_const | GPIOA_IDR | GPIOA_ODR
  | optionFlags | MILLISEC_TIMER_NOW_var | adc_sample_period_ms_var | adc_n_overruns
  | ic_period | ic_pulse_length | ic_overrun

text \<open>An argument is a constant or a number; an array is given by its elements.\<close>

datatype stm_arg = Named stm_const | Value "32 word"

datatype stm_call =
    Call stm_fun "stm_arg list"
  | Assign stm_reg "32 word"
  | Or_Assign stm_reg "32 word"

text \<open>
  What a call does to memory. Addresses of registers and variables, values of constants and what the functions
  of the library do are parameters; assignments are known.
\<close>

record stm_board =
  stm_addr :: "stm_reg \<Rightarrow> nat"
  stm_value :: "stm_const \<Rightarrow> 32 word"
  stm_library :: "stm_fun \<Rightarrow> stm_arg list \<Rightarrow> 32 word memory \<Rightarrow> 32 word memory"

definition stm_var :: "stm_board \<Rightarrow> stm_reg \<Rightarrow> 32 word memory \<Rightarrow> 32 word" where
  "stm_var board r m = (case m (stm_addr board r) of None \<Rightarrow> 0 | Some v \<Rightarrow> v)"

fun effect :: "stm_board \<Rightarrow> stm_call \<Rightarrow> 32 word memory \<Rightarrow> 32 word memory" where
  "effect board (Call f as) m = stm_library board f as m"
| "effect board (Assign r v) m = m(stm_addr board r \<mapsto> v)"
| "effect board (Or_Assign r v) m = m(stm_addr board r \<mapsto> stm_var board r m OR v)"

section \<open>The macros\<close>

definition setup_usart :: "stm_const \<Rightarrow> 32 word \<Rightarrow> stm_const \<Rightarrow> stm_const \<Rightarrow> stm_const \<Rightarrow> stm_const \<Rightarrow> stm_const \<Rightarrow> stm_const \<Rightarrow> stm_call list" where
  "setup_usart usart baud tx_port tx_pin tx_af rx_port rx_pin rx_af =
    [Call gpio_mode_setup [Named tx_port, Named GPIO_MODE_AF, Named GPIO_PUPD_NONE, Named tx_pin],
     Call gpio_set_af [Named tx_port, Named tx_af, Named tx_pin],
     Call gpio_mode_setup [Named rx_port, Named GPIO_MODE_AF, Named GPIO_PUPD_NONE, Named rx_pin],
     Call gpio_set_af [Named rx_port, Named rx_af, Named rx_pin],
     Call usart_set_baudrate [Named usart, Value baud],
     Call usart_set_databits [Named usart, Value 8],
     Call usart_set_parity [Named usart, Named USART_PARITY_NONE],
     Call usart_set_stopbits [Named usart, Named USART_CR2_STOPBITS_1],
     Call usart_set_mode [Named usart, Named USART_MODE_TX_RX],
     Call usart_set_flow_control [Named usart, Named USART_FLOWCONTROL_NONE]]"

definition setup_timer_periodic_output_pulse ::
  "stm_const \<Rightarrow> 32 word \<Rightarrow> 32 word \<Rightarrow> 32 word \<Rightarrow> stm_const \<Rightarrow> stm_const \<Rightarrow> stm_const \<Rightarrow> stm_const \<Rightarrow> stm_call list" where
  "setup_timer_periodic_output_pulse timer prescale period pulse_length output gpio_port gpio_pin gpio_af =
    [Call gpio_mode_setup [Named gpio_port, Named GPIO_MODE_AF, Named GPIO_PUPD_NONE, Named gpio_pin],
     Call gpio_set_output_options [Named gpio_port, Named GPIO_OTYPE_PP, Named GPIO_OSPEED_HIGH, Named gpio_pin],
     Call gpio_set_af [Named gpio_port, Named gpio_af, Named gpio_pin],
     Call timer_set_mode [Named timer, Named TIM_CR1_CKD_CK_INT, Named TIM_CR1_CMS_EDGE, Named TIM_CR1_DIR_UP],
     Call timer_set_oc_mode [Named timer, Named output, Named TIM_OCM_PWM1],
     Call timer_enable_oc_output [Named timer, Named output],
     Assign (TIM_PSC timer) prescale,
     Assign (TIM_ARR timer) period,
     Assign (TIM_CCR1 timer) pulse_length]"

definition setup_timer_capture_pwm_input ::
  "stm_const \<Rightarrow> 32 word \<Rightarrow> 32 word \<Rightarrow> stm_const \<Rightarrow> stm_const \<Rightarrow> stm_const \<Rightarrow> stm_const \<Rightarrow> stm_call list" where
  "setup_timer_capture_pwm_input timer prescale max_timer_counts input gpio_port gpio_pin gpio_af =
    [Call gpio_mode_setup [Named gpio_port, Named GPIO_MODE_AF, Named GPIO_PUPD_NONE, Named gpio_pin],
     Call gpio_set_af [Named gpio_port, Named gpio_af, Named gpio_pin],
     Call timer_set_mode [Named timer, Named TIM_CR1_CKD_CK_INT, Named TIM_CR1_CMS_EDGE, Named TIM_CR1_DIR_UP],
     Call timer_ic_set_input [Named timer, Named TIM_IC1, Named input],
     Call timer_ic_set_polarity [Named timer, Named TIM_IC1, Named TIM_IC_RISING],
     Call timer_ic_set_input [Named timer, Named TIM_IC2, Named input],
     Call timer_ic_set_polarity [Named timer, Named TIM_IC2, Named TIM_IC_FALLING],
     Call timer_slave_set_trigger [Named timer, Named TIM_SMCR_TS_TI1FP1],
     Call timer_slave_set_mode [Named timer, Named TIM_SMCR_SMS_RM],
     Call timer_ic_enable [Named timer, Named TIM_IC1],
     Call timer_ic_enable [Named timer, Named TIM_IC2],
     Assign (TIM_PSC timer) prescale,
     Assign (TIM_ARR timer) max_timer_counts]"

definition millisec_timer_systick_setup :: "stm_board \<Rightarrow> 32 word \<Rightarrow> stm_call list" where
  "millisec_timer_systick_setup board ahb_frequency =
    [Call systick_set_clocksource [Value (push_bit (unat (stm_value board STK_CSR_CLKSOURCE_LSB)) 1)],
     Assign STK_CVR 0,
     Call systick_set_reload [Value (ahb_frequency div 1000)],
     Call systick_counter_enable [],
     Call systick_interrupt_enable []]"

definition sys_tick_handler :: "stm_board \<Rightarrow> 32 word memory \<Rightarrow> 32 word memory" where
  "sys_tick_handler board m = m(stm_addr board MILLISEC_TIMER_NOW_var \<mapsto> stm_var board MILLISEC_TIMER_NOW_var m + 1)"

text \<open>
  The receive interrupt of the USART: it is checked that the interrupt is enabled and that a byte waits.
\<close>

definition stm_usart_isr_push_rx_to_circ_buf :: "bool \<Rightarrow> 'w firmware \<Rightarrow> (unit, 'w firmware) res" where
  "stm_usart_isr_push_rx_to_circ_buf RXNEIE =
     on_rx (\<lambda>(u, cb). if RXNEIE \<and> is_uart_rx_data_waiting u then
         case uart_rx u of (b, u) \<Rightarrow> (case circular_buffer_push_back_uint8 cb (b AND 0xFF) of (r, cb) \<Rightarrow> (r, (u, cb)))
       else (Inr (), (u, cb)))"

lemma stm_isr_agrees: "stm_usart_isr_push_rx_to_circ_buf True fw = usart_rx_isr fw"
  by (simp add: stm_usart_isr_push_rx_to_circ_buf_def usart_rx_isr_def on_rx_def zoom_def uart_rx_to_circ_buf_def
    and_0xFF split: prod.split)

lemma stm_var_update [simp]:
  assumes "inj (stm_addr board)"
  shows "stm_var board r (m(stm_addr board r' \<mapsto> v)) = (if r = r' then v else stm_var board r m)"
  using assms by (auto simp: stm_var_def inj_eq)

lemma sys_ticks:
  assumes "inj (stm_addr board)"
  shows "stm_var board r ((sys_tick_handler board ^^ n) m) = stm_var board r m + (if r = MILLISEC_TIMER_NOW_var then of_nat n else 0)"
  using assms by (induction n) (auto simp: sys_tick_handler_def)

section \<open>Starting the programs\<close>

text \<open>The USART of every program, and the LED.\<close>

definition start_usart :: "stm_call list" where
  "start_usart = [Call rcc_periph_clock_enable [Named RCC_GPIOA], Call rcc_periph_clock_enable [Named RCC_USART2]]
     @ setup_usart USART2 9600 GPIOA GPIO2 GPIO_AF1 GPIOA GPIO3 GPIO_AF1"

definition start_usart_irq :: "stm_call list" where
  "start_usart_irq = start_usart @
    [Call nvic_enable_irq [Named NVIC_USART2_IRQ], Call usart_enable_rx_interrupt [Named USART2], Call usart_enable [Named USART2]]"

definition gpio_setup :: "stm_call list" where
  "gpio_setup = [Call rcc_periph_clock_enable [Named RCC_GPIOA],
     Call gpio_mode_setup [Named GPIOA, Named GPIO_MODE_OUTPUT, Named GPIO_PUPD_NONE, Named GPIO5]]"

definition stm_char_loopback_start :: "stm_call list" where
  "stm_char_loopback_start = start_usart @ [Call usart_enable [Named USART2]]"

definition stm_pattern_start :: "stm_call list" where
  "stm_pattern_start = gpio_setup @ start_usart @ [Call usart_enable [Named USART2]]"

definition stm_blink_turn :: "stm_call list" where
  "stm_blink_turn = [Call gpio_toggle [Named GPIOA, Named GPIO5]]"

definition stm_asc_loopback_start :: "byte list \<Rightarrow> byte list \<Rightarrow> asc_loopback \<times> stm_call list \<Rightarrow>
    (nat option, asc_loopback \<times> stm_call list) res" where
  "stm_asc_loopback_start raw_buffer extraInputBuffer_raw s =
     try_catch (bind_res (zoom fst (\<lambda>a s. (a, snd s)) (asc_loopback_setup raw_buffer extraInputBuffer_raw) s)
         (\<lambda>_ s. (Inr None, (fst s, snd s @ start_usart_irq))))
       (\<lambda>e s. (Inr (Some (asc_exception_code e)), s))"

section \<open>The clock of a peripheral is enabled before it is used\<close>

text \<open>Which clock a peripheral needs, which peripheral a call works on.\<close>

fun clock_of :: "stm_const \<Rightarrow> stm_const option" where
  "clock_of GPIOA = Some RCC_GPIOA"
| "clock_of USART2 = Some RCC_USART2"
| "clock_of TIM1 = Some RCC_TIM1"
| "clock_of TIM2 = Some RCC_TIM2"
| "clock_of TIM6 = Some RCC_TIM6"
| "clock_of ADC = Some RCC_ADC"
| "clock_of DAC1 = Some RCC_DAC"
| "clock_of _ = None"

fun peripheral :: "stm_call \<Rightarrow> stm_const option" where
  "peripheral (Call f (Named c # as)) = (if f = rcc_periph_clock_enable then None else Some c)"
| "peripheral (Call f _) = None"
| "peripheral (Assign (TIM_PSC t) v) = Some t"
| "peripheral (Assign (TIM_ARR t) v) = Some t"
| "peripheral (Assign (TIM_CCR1 t) v) = Some t"
| "peripheral (Assign r v) = None"
| "peripheral (Or_Assign (TIM_CR1 t) v) = Some t"
| "peripheral (Or_Assign (TIM_CR2 t) v) = Some t"
| "peripheral (Or_Assign (ADC_ISR a) v) = Some a"
| "peripheral (Or_Assign r v) = None"

definition needs_clock :: "stm_call \<Rightarrow> stm_const option" where
  "needs_clock c = (case peripheral c of None \<Rightarrow> None | Some p \<Rightarrow> clock_of p)"

fun enables_clock :: "stm_call \<Rightarrow> stm_const option" where
  "enables_clock (Call f (Named c # as)) = (if f = rcc_periph_clock_enable then Some c else None)"
| "enables_clock _ = None"

fun clocked :: "stm_const set \<Rightarrow> stm_call list \<Rightarrow> bool" where
  "clocked E [] \<longleftrightarrow> True"
| "clocked E (c # cs) \<longleftrightarrow> (case needs_clock c of None \<Rightarrow> True | Some r \<Rightarrow> r \<in> E)
     \<and> clocked (case enables_clock c of None \<Rightarrow> E | Some r \<Rightarrow> insert r E) cs"

text \<open>What \<open>clocked\<close> says: before each call that needs a clock there is one that enables it.\<close>

lemma clocked_iff:
  "clocked E cs \<longleftrightarrow> (\<forall>i < length cs. \<forall>r. needs_clock (cs ! i) = Some r \<longrightarrow>
     r \<in> E \<or> (\<exists>j < i. enables_clock (cs ! j) = Some r))"
proof (induction cs arbitrary: E)
  case Nil
  then show ?case by simp
next
  case (Cons c cs)
  let ?E = "case enables_clock c of None \<Rightarrow> E | Some r \<Rightarrow> insert r E"
  have E: "r \<in> ?E \<longleftrightarrow> r \<in> E \<or> enables_clock c = Some r" for r by (auto split: option.splits)
  have j: "(\<exists>j < Suc i. enables_clock ((c # cs) ! j) = Some r) \<longleftrightarrow> enables_clock c = Some r \<or> (\<exists>j < i. enables_clock (cs ! j) = Some r)" for i r
    by (auto simp: less_Suc_eq_0_disj)
  show ?case unfolding clocked.simps Cons.IH [of ?E] E list.size(4) add_0_right add_Suc_right All_less_Suc2 nth_Cons_0 nth_Cons_Suc j
    by (auto split: option.splits)
qed

lemma clocked_append:
  "clocked E (cs @ ds) \<longleftrightarrow> clocked E cs \<and> clocked (fold (\<lambda>c E. case enables_clock c of None \<Rightarrow> E | Some r \<Rightarrow> insert r E) cs E) ds"
  by (induction cs arbitrary: E) auto

lemmas start_defs = start_usart_irq_def start_usart_def setup_usart_def gpio_setup_def stm_char_loopback_start_def
  stm_pattern_start_def stm_blink_turn_def needs_clock_def

lemma small_programs_clocked:
  "clocked {} start_usart_irq" "clocked {} stm_char_loopback_start" "clocked {} stm_pattern_start" "clocked {} (gpio_setup @ stm_blink_turn)"
  by (simp_all add: start_defs)

lemma stm_asc_loopback_start_ok:
  assumes "length raw_buffer = 128" "length extra_raw = 64" "length (msg_data (al_msg s)) = 54"
  shows "\<exists>s'. stm_asc_loopback_start raw_buffer extra_raw (s, t) = (Inr None, (s', t @ start_usart_irq)) \<and> al_wf s'
    \<and> cb_list (in_buf (al_asc s')) = [] \<and> cb_list (out_buf (al_asc s')) = [] \<and> cb_list (al_extra s') = []"
  using asc_loopback_setup_ok [OF assms] by (auto simp: stm_asc_loopback_start_def zoom_def)

end
