(* ===== verification/Stm32_Adc.thy ===== *)
theory Stm32_Adc
  imports Stm32
begin

text \<open>
  \<^verbatim>\<open>arm/stm32f091nucleo64_adc_streaming.c\<close>: a device that streams samples of the ADC or a counter, and
  drives the DAC. Registers and the variables of the program are in one memory, where the register map
  points to.
\<close>

section \<open>Programs that call the library\<close>

type_synonym stm_io = "32 word rp_world firmware \<times> stm_call list"

abbreviation io_memory :: "stm_io \<Rightarrow> 32 word memory" where
  "io_memory io \<equiv> snd (fst (fw_mem (fst io)))"

definition perform :: "stm_board \<Rightarrow> stm_call list \<Rightarrow> stm_io \<Rightarrow> stm_io" where
  "perform board cs io = (set_memory (fold (effect board) cs) (fst io), snd io @ cs)"

definition get_var :: "stm_board \<Rightarrow> stm_reg \<Rightarrow> stm_io \<Rightarrow> 32 word" where
  "get_var board r io = stm_var board r (io_memory io)"

definition put_var :: "stm_board \<Rightarrow> stm_reg \<Rightarrow> 32 word \<Rightarrow> stm_io \<Rightarrow> stm_io" where
  "put_var board r v io = (set_memory (effect board (Assign r v)) (fst io), snd io)"

definition io_on_fw :: "(32 word rp_world firmware \<Rightarrow> ('a, 32 word rp_world firmware) res) \<Rightarrow> stm_io \<Rightarrow> ('a, stm_io) res" where
  "io_on_fw = zoom fst (\<lambda>fw io. (fw, snd io))"

definition stm_device_start :: "stm_board \<Rightarrow> nat option list \<Rightarrow> 32 word list \<Rightarrow> stm_call list \<Rightarrow> byte list \<Rightarrow> byte list \<Rightarrow> stm_io \<Rightarrow>
    (nat option, stm_io) res" where
  "stm_device_start board register_map register_write_masks calls raw_buffer extra_raw io =
     try_catch (bind_res (io_on_fw (SETUP_ASC_DEVICE_W_REGISTER_POINTERS handle_message_32 raw_buffer extra_raw
          register_map register_write_masks 10) io) (\<lambda>_ io. (Inr None, perform board calls io)))
       (\<lambda>e io. (Inr (Some (asc_exception_code e)), io))"

text \<open>The functions of the library work on the registers of peripherals, not on the variables of a program.\<close>

definition program_vars :: "stm_reg list" where
  "program_vars = [optionFlags, MILLISEC_TIMER_NOW_var, adc_sample_period_ms_var, adc_n_overruns, ic_period, ic_pulse_length, ic_overrun]"

definition keeps_variables :: "stm_board \<Rightarrow> bool" where
  "keeps_variables board \<longleftrightarrow> (\<forall>r \<in> set program_vars. \<forall>f as m. stm_var board r (stm_library board f as m) = stm_var board r m)"

fun assigned :: "stm_call \<Rightarrow> stm_reg option" where
  "assigned (Call f as) = None"
| "assigned (Assign r v) = Some r"
| "assigned (Or_Assign r v) = Some r"

lemma get_put_var [simp]:
  "inj (stm_addr board) \<Longrightarrow> get_var board r (put_var board r' v io) = (if r = r' then v else get_var board r io)"
  by (simp only: get_var_def put_var_def fst_conv set_memory_simps effect.simps stm_var_update)

lemma get_var_perform:
  assumes k: "keeps_variables board" and i: "inj (stm_addr board)" and r: "r \<in> set program_vars" "Some r \<notin> assigned ` set cs"
  shows "get_var board r (perform board cs io) = get_var board r io"
proof -
  have "stm_var board r (fold (effect board) cs m) = stm_var board r m" for m
    using r(2)
  proof (induction cs arbitrary: m)
    case (Cons c cs)
    then show ?case using k i r(1) by (cases c) (auto simp: keeps_variables_def)
  qed simp
  then show ?thesis by (simp add: get_var_def perform_def)
qed

lemma io_simps [simp]:
  "fw_wf (fst (perform board cs io)) = fw_wf (fst io)" "fw_in (fst (perform board cs io)) = fw_in (fst io)"
  "fw_out (fst (perform board cs io)) = fw_out (fst io)" "fw_extra (fst (perform board cs io)) = fw_extra (fst io)"
  "fw_counter (fst (perform board cs io)) = fw_counter (fst io)" "fw_uart (fst (perform board cs io)) = fw_uart (fst io)"
  "snd (fw_mem (fst (perform board cs io))) = snd (fw_mem (fst io))" "snd (perform board cs io) = snd io @ cs"
  "fw_wf (fst (put_var board r v io)) = fw_wf (fst io)" "fw_in (fst (put_var board r v io)) = fw_in (fst io)"
  "fw_out (fst (put_var board r v io)) = fw_out (fst io)" "fw_extra (fst (put_var board r v io)) = fw_extra (fst io)"
  "fw_counter (fst (put_var board r v io)) = fw_counter (fst io)" "fw_uart (fst (put_var board r v io)) = fw_uart (fst io)"
  "snd (fw_mem (fst (put_var board r v io))) = snd (fw_mem (fst io))" "snd (put_var board r v io) = snd io"
  by (simp_all add: perform_def put_var_def)

section \<open>The program\<close>

text \<open>The variables besides the ones in memory, and what the hardware shows to one turn of the loop.\<close>

record stm_adc =
  sa_io :: stm_io
  sa_adc_timer :: millisec_timer
  sa_dac_reset_timer :: millisec_timer
  sa_counter :: "32 word"

record adc_input =
  adc_eos :: bool
  adc_get_overrun_flag :: bool
  adc_read_regular :: "32 word"

definition adc_register_map :: "stm_board \<Rightarrow> nat option list" where
  "adc_register_map board = map (\<lambda>r. Some (stm_addr board r))
     [GPIOA_IDR, GPIOA_ODR, optionFlags, DAC_DHR12R1 DAC1, DAC_DHR12R2 DAC1, MILLISEC_TIMER_NOW_var, adc_sample_period_ms_var,
      adc_n_overruns, TIM_ARR TIM6, DAC_CR DAC1]"

definition adc_register_write_masks :: "32 word list" where
  "adc_register_write_masks = [0, push_bit 5 1, 0xFFFFFFFF, 0xFFF, 0, 0, 0xFFFFFFFF, 0, 0xFFFF, 0xFC0]"

definition adc_initial_memory :: "stm_board \<Rightarrow> 32 word memory \<Rightarrow> 32 word memory" where
  "adc_initial_memory board m = m(stm_addr board adc_sample_period_ms_var \<mapsto> 1000, stm_addr board adc_n_overruns \<mapsto> 0,
     stm_addr board optionFlags \<mapsto> 0, stm_addr board MILLISEC_TIMER_NOW_var \<mapsto> 0)"

definition adc_setup :: "stm_call list" where
  "adc_setup =
    [Call rcc_periph_clock_enable [Named RCC_ADC], Call rcc_periph_clock_enable [Named RCC_GPIOA],
     Call gpio_mode_setup [Named GPIOA, Named GPIO_MODE_ANALOG, Named GPIO_PUPD_NONE, Named GPIO0],
     Call adc_power_off [Named ADC], Call adc_set_clk_source [Named ADC, Named ADC_CLKSOURCE_ADC],
     Call adc_calibrate [Named ADC], Call adc_set_operation_mode [Named ADC, Named ADC_MODE_SCAN],
     Call adc_disable_external_trigger_regular [Named ADC], Call adc_set_right_aligned [Named ADC],
     Call adc_enable_temperature_sensor [], Call adc_set_sample_time_on_all_channels [Named ADC, Named ADC_SMPTIME_071DOT5],
     Call adc_set_regular_sequence [Named ADC, Value 1, Value 0], Call adc_set_resolution [Named ADC, Named ADC_RESOLUTION_12BIT],
     Call adc_disable_analog_watchdog [Named ADC], Call adc_power_on [Named ADC]]"

definition dac_setup :: "stm_board \<Rightarrow> 32 word \<Rightarrow> stm_call list" where
  "dac_setup board rcc_ahb_frequency =
    [Call rcc_periph_clock_enable [Named RCC_TIM6],
     Assign (TIM_PSC TIM6) (rcc_ahb_frequency div 100 - 1),
     Assign (TIM_ARR TIM6) 100,
     Or_Assign (TIM_CR2 TIM6) (stm_value board TIM_CR2_MMS_UPDATE),
     Or_Assign (TIM_CR1 TIM6) (stm_value board TIM_CR1_ARPE),
     Or_Assign (TIM_CR1 TIM6) (stm_value board TIM_CR1_CEN),
     Call rcc_periph_clock_enable [Named RCC_DAC], Call rcc_periph_clock_enable [Named RCC_GPIOA],
     Call gpio_mode_setup [Named GPIOA, Named GPIO_MODE_ANALOG, Named GPIO_PUPD_NONE, Named GPIO4],
     Call dac_disable [Named DAC1, Named DAC_CHANNEL1], Call dac_buffer_enable [Named DAC1, Named DAC_CHANNEL1],
     Call dac_disable_waveform_generation [Named DAC1, Named DAC_CHANNEL1],
     Call dac_set_trigger_source [Named DAC1, Named DAC_CR_TSEL1_T6],
     Call dac_trigger_enable [Named DAC1, Named DAC_CHANNEL1], Call dac_enable [Named DAC1, Named DAC_CHANNEL1]]"

definition stm_adc_calls :: "stm_board \<Rightarrow> 32 word \<Rightarrow> stm_call list" where
  "stm_adc_calls board rcc_ahb_frequency =
     millisec_timer_systick_setup board rcc_ahb_frequency @ gpio_setup @ adc_setup @ dac_setup board rcc_ahb_frequency @ start_usart_irq"

definition stm_adc_start :: "stm_board \<Rightarrow> 32 word \<Rightarrow> byte list \<Rightarrow> byte list \<Rightarrow> stm_io \<Rightarrow> (nat option, stm_io) res" where
  "stm_adc_start board rcc_ahb_frequency =
     stm_device_start board (adc_register_map board) adc_register_write_masks (stm_adc_calls board rcc_ahb_frequency)"

section \<open>The loop\<close>

abbreviation sa_streaming :: "stm_adc \<Rightarrow> bool" where
  "sa_streaming s \<equiv> snd (fw_mem (fst (sa_io s)))"

definition stm_now :: "stm_board \<Rightarrow> stm_adc \<Rightarrow> 32 word" where
  "stm_now board s = get_var board MILLISEC_TIMER_NOW_var (sa_io s)"

definition sa_on_fw :: "(32 word rp_world firmware \<Rightarrow> ('a, 32 word rp_world firmware) res) \<Rightarrow> stm_adc \<Rightarrow> ('a, stm_adc) res" where
  "sa_on_fw f = zoom sa_io (\<lambda>io s. s\<lparr>sa_io := io\<rparr>) (io_on_fw f)"

definition start_adc_timer :: "stm_board \<Rightarrow> bool \<Rightarrow> stm_adc \<Rightarrow> stm_adc" where
  "start_adc_timer board stream_state_before_receiving s =
     (if sa_streaming s \<and> \<not> stream_state_before_receiving then
        s\<lparr>sa_adc_timer := millisec_timer_set_rel (sa_adc_timer s) (stm_now board s) (get_var board adc_sample_period_ms_var (sa_io s))\<rparr>
      else s)"

definition reset_dac :: "stm_board \<Rightarrow> stm_adc \<Rightarrow> stm_adc" where
  "reset_dac board s =
     (if drop_bit 1 (get_var board optionFlags (sa_io s)) AND 1 \<noteq> 0 then
        let io = perform board [Call dac_disable [Named DAC1, Named DAC_CHANNEL1]] (sa_io s);
            io = put_var board optionFlags (get_var board optionFlags io AND NOT (push_bit 1 1)) io;
            s = s\<lparr>sa_io := io\<rparr> in
        s\<lparr>sa_dac_reset_timer := millisec_timer_set_rel (sa_dac_reset_timer s) (stm_now board s) 500\<rparr>
      else s)"

definition reenable_dac :: "stm_board \<Rightarrow> stm_adc \<Rightarrow> stm_adc" where
  "reenable_dac board s =
     (case millisec_timer_is_expired (sa_dac_reset_timer s) (stm_now board s) of (expired, t) \<Rightarrow>
        let s = s\<lparr>sa_dac_reset_timer := t\<rparr> in
        if expired then s\<lparr>sa_io := perform board [Call dac_enable [Named DAC1, Named DAC_CHANNEL1]] (sa_io s)\<rparr> else s)"

definition start_adc_conversion :: "stm_board \<Rightarrow> stm_adc \<Rightarrow> stm_adc" where
  "start_adc_conversion board s =
     (if sa_streaming s \<and> get_var board optionFlags (sa_io s) AND 1 = 0 then
        case millisec_timer_is_expired_repeat (sa_adc_timer s) (stm_now board s) of (expired, t) \<Rightarrow>
          let s = s\<lparr>sa_adc_timer := t\<rparr> in
          if expired then s\<lparr>sa_io := perform board [Call adc_start_conversion_regular [Named ADC]] (sa_io s)\<rparr> else s
      else s)"

text \<open>The digits are stored in arrays that are written in full before they are read.\<close>

definition send_counter :: "stm_adc \<Rightarrow> (unit, stm_adc) res" where
  "send_counter s =
     bind_res (final_state (convert_uint32_to_hex (sa_counter s) 0 True (replicate 8 0)), s) (\<lambda>counter_buffer s.
     bind_res (sa_on_fw (STREAM_TO_HOST_ASC_DEVICE_W_REGISTER_POINTERS counter_buffer 8) s) (\<lambda>_ s.
       (Inr (), s\<lparr>sa_counter := sa_counter s + 1\<rparr>)))"

definition count_overrun :: "stm_board \<Rightarrow> adc_input \<Rightarrow> stm_adc \<Rightarrow> stm_adc" where
  "count_overrun board inp s =
     (if adc_get_overrun_flag inp then
        let io = put_var board adc_n_overruns (get_var board adc_n_overruns (sa_io s) + 1) (sa_io s) in
        s\<lparr>sa_io := perform board [Call adc_clear_overrun_flag [Named ADC]] io\<rparr>
      else s)"

definition send_adc_val :: "stm_board \<Rightarrow> adc_input \<Rightarrow> stm_adc \<Rightarrow> (unit, stm_adc) res" where
  "send_adc_val board inp s =
     (let adc_val = ucast (adc_read_regular inp) :: 16 word;
          io = perform board [Or_Assign (ADC_ISR ADC)
            (push_bit (unat (stm_value board ADC_ISR_EOSEQ)) 1 OR push_bit (unat (stm_value board ADC_ISR_EOC)) 1)] (sa_io s) in
      bind_res (final_state (convert_uint16_to_hex adc_val 0 True (replicate 4 0)), s\<lparr>sa_io := io\<rparr>) (\<lambda>adc_val_buffer.
        sa_on_fw (STREAM_TO_HOST_ASC_DEVICE_W_REGISTER_POINTERS (drop 1 adc_val_buffer) 3)))"

definition stream_data_out :: "stm_board \<Rightarrow> adc_input \<Rightarrow> stm_adc \<Rightarrow> (unit, stm_adc) res" where
  "stream_data_out board inp s =
     (if READY_TO_STREAM_ASC_DEVICE_W_REGISTER_POINTERS (fst (sa_io s)) then
        if get_var board optionFlags (sa_io s) AND 1 \<noteq> 0 then send_counter s
        else if adc_eos inp then send_adc_val board inp (count_overrun board inp s)
        else (Inr (), s)
      else (Inr (), s))"

definition stm_adc_turn :: "stm_board \<Rightarrow> adc_input \<Rightarrow> stm_adc \<times> 16 word \<Rightarrow> (unit, stm_adc \<times> 16 word) res" where
  "stm_adc_turn board inp = count_exceptions (\<lambda>s.
     let stream_state_before_receiving = sa_streaming s in
     bind_res (sa_on_fw HANDLE_ASC_COMM_IN_POLLING_LOOP s) (\<lambda>_ s.
       stream_data_out board inp (start_adc_conversion board (reenable_dac board (reset_dac board
         (start_adc_timer board stream_state_before_receiving s))))))"

section \<open>The start\<close>

lemma adc_program_clocked: "clocked {} (stm_adc_calls board f)"
  by (simp add: stm_adc_calls_def adc_setup_def dac_setup_def start_defs millisec_timer_systick_setup_def)

lemma stm_device_start_ok:
  assumes "length raw_buffer = 128" "length extra_raw = 64" "length (msg_data (dev_msg (ascd fw))) = 54"
    and "fw_mem fw = ((Some rp, mem), streaming_is_on)"
  shows "\<exists>fw'. stm_device_start board regs masks calls raw_buffer extra_raw (fw, t) = (Inr None, (fw', t @ calls))
    \<and> fw_wf fw' \<and> fw_in fw' = [] \<and> fw_out fw' = [] \<and> fw_extra fw' = [] \<and> dev_config (ascd fw') = rp_config handle_message_32
    \<and> fw_mem fw' = ((Some (ascii_serial_com_register_pointers_init rp regs masks 10), fold (effect board) calls mem), streaming_is_on)
    \<and> fw_uart fw' = fw_uart fw"
proof -
  from setup_firmware [OF assms, of handle_message_32 regs masks 10] obtain fw' where
    1: "SETUP_ASC_DEVICE_W_REGISTER_POINTERS handle_message_32 raw_buffer extra_raw regs masks 10 fw = (Inr (), fw')"
    "fw_wf fw'" "fw_in fw' = []" "fw_out fw' = []" "fw_extra fw' = []" "dev_config (ascd fw') = rp_config handle_message_32"
    "fw_mem fw' = ((Some (ascii_serial_com_register_pointers_init rp regs masks 10), mem), streaming_is_on)" "fw_uart fw' = fw_uart fw" by auto
  have d: "ascd (set_memory f fw') = ascd fw'" for f by (simp add: set_memory_def)
  have m: "fw_mem (set_memory f fw') = ((fst (fst (fw_mem fw')), f (snd (fst (fw_mem fw')))), snd (fw_mem fw'))" for f
    by (simp add: set_memory_def)
  show ?thesis using 1 by (simp add: stm_device_start_def io_on_fw_def zoom_def perform_def d m)
qed

section \<open>A turn with an idle input\<close>

definition sa_idle :: "stm_adc \<Rightarrow> bool" where
  "sa_idle s \<longleftrightarrow> fw_wf (fst (sa_io s)) \<and> fw_in (fst (sa_io s)) = [] \<and> fw_extra (fst (sa_io s)) = []"

lemma sa_handle:
  assumes "sa_idle s"
  shows "\<exists>fw. sa_on_fw HANDLE_ASC_COMM_IN_POLLING_LOOP s = (Inr (), s\<lparr>sa_io := (fw, snd (sa_io s))\<rparr>)
    \<and> fw_wf fw \<and> fw_in fw = [] \<and> fw_extra fw = [] \<and> fw_mem fw = fw_mem (fst (sa_io s)) \<and> fw_counter fw = fw_counter (fst (sa_io s))
    \<and> fw_out fw = (if tx_ready (fw_uart (fst (sa_io s))) then drop 1 (fw_out (fst (sa_io s))) else fw_out (fst (sa_io s)))
    \<and> tx_sent (fw_uart fw) = tx_sent (fw_uart (fst (sa_io s))) @ (if tx_ready (fw_uart (fst (sa_io s))) then take 1 (fw_out (fst (sa_io s))) else [])
    \<and> (\<forall>board r. get_var board r (fw, snd (sa_io s)) = get_var board r (sa_io s))"
  using handle_idle [of "fst (sa_io s)"] assms
  by (auto simp: sa_idle_def sa_on_fw_def io_on_fw_def zoom_def get_var_def)

lemma dac_streaming [simp]:
  "snd (fw_mem (fst (sa_io (reset_dac board s)))) = sa_streaming s"
  "snd (fw_mem (fst (sa_io (reenable_dac board s)))) = sa_streaming s"
  by (simp_all add: reset_dac_def reenable_dac_def Let_def split: prod.split)

text \<open>The flag that resets the DAC.\<close>

abbreviation dac_flag :: "stm_board \<Rightarrow> stm_adc \<Rightarrow> bool" where
  "dac_flag board s \<equiv> drop_bit 1 (get_var board optionFlags (sa_io s)) AND 1 \<noteq> 0"

lemma reset_dac_off: "\<not> dac_flag board s \<Longrightarrow> reset_dac board s = s"
  by (simp add: reset_dac_def)

lemma reenable_dac_eq:
  "reenable_dac board s = (if fst (millisec_timer_is_expired (sa_dac_reset_timer s) (stm_now board s))
     then s\<lparr>sa_dac_reset_timer := sa_dac_reset_timer s\<lparr>enabled := False\<rparr>,
       sa_io := perform board [Call dac_enable [Named DAC1, Named DAC_CHANNEL1]] (sa_io s)\<rparr> else s)"
  using is_expired_state [of "sa_dac_reset_timer s" "stm_now board s"]
  by (cases "millisec_timer_is_expired (sa_dac_reset_timer s) (stm_now board s)") (auto simp: reenable_dac_def)

lemma reenable_dac_off: "\<not> enabled (sa_dac_reset_timer s) \<Longrightarrow> reenable_dac board s = s"
  by (simp add: reenable_dac_def millisec_timer_is_expired_def)

text \<open>Without streaming a turn only works on the DAC.\<close>

lemma quiet_turn:
  assumes "sa_idle s" and "\<not> sa_streaming s"
  shows "\<exists>fw. stm_adc_turn board inp (s, n) = (Inr (), (reenable_dac board (reset_dac board (s\<lparr>sa_io := (fw, snd (sa_io s))\<rparr>)), n))
    \<and> fw_wf fw \<and> fw_in fw = [] \<and> fw_extra fw = [] \<and> snd (fw_mem fw) = False
    \<and> (\<forall>board r. get_var board r (fw, snd (sa_io s)) = get_var board r (sa_io s))"
proof -
  from sa_handle [OF assms(1)] obtain fw where 1: "sa_on_fw HANDLE_ASC_COMM_IN_POLLING_LOOP s = (Inr (), s\<lparr>sa_io := (fw, snd (sa_io s))\<rparr>)"
    "fw_wf fw" "fw_in fw = []" "fw_extra fw = []" "fw_mem fw = fw_mem (fst (sa_io s))"
    "\<forall>board r. get_var board r (fw, snd (sa_io s)) = get_var board r (sa_io s)" by auto
  have "start_adc_timer board False (s\<lparr>sa_io := (fw, snd (sa_io s))\<rparr>) = s\<lparr>sa_io := (fw, snd (sa_io s))\<rparr>"
    using assms(2) 1(5) by (simp add: start_adc_timer_def)
  then have "stm_adc_turn board inp (s, n) = (Inr (), (reenable_dac board (reset_dac board (s\<lparr>sa_io := (fw, snd (sa_io s))\<rparr>)), n))"
    using assms(2) 1 unfolding stm_adc_turn_def
    by (simp add: Let_def start_adc_conversion_def stream_data_out_def READY_TO_STREAM_ASC_DEVICE_W_REGISTER_POINTERS_def)
  then show ?thesis using 1 assms(2) by auto
qed

text \<open>Time passes between two turns.\<close>

definition ticks :: "stm_board \<Rightarrow> nat \<Rightarrow> stm_adc \<Rightarrow> stm_adc" where
  "ticks board k s = s\<lparr>sa_io := (set_memory (sys_tick_handler board ^^ k) (fst (sa_io s)), snd (sa_io s))\<rparr>"

lemma get_var_ticks:
  assumes "inj (stm_addr board)"
  shows "get_var board r (sa_io (ticks board k s)) = get_var board r (sa_io s) + (if r = MILLISEC_TIMER_NOW_var then of_nat k else 0)"
  by (simp add: ticks_def get_var_def sys_ticks [OF assms])

lemma reset_dac_on:
  assumes "inj (stm_addr board)" and "keeps_variables board" and "dac_flag board s"
  shows "snd (sa_io (reset_dac board s)) = snd (sa_io s) @ [Call dac_disable [Named DAC1, Named DAC_CHANNEL1]]"
    and "get_var board optionFlags (sa_io (reset_dac board s)) = get_var board optionFlags (sa_io s) AND NOT 2"
    and "get_var board MILLISEC_TIMER_NOW_var (sa_io (reset_dac board s)) = get_var board MILLISEC_TIMER_NOW_var (sa_io s)"
    and "sa_dac_reset_timer (reset_dac board s) = \<lparr>enabled = True, set_time = stm_now board s, expire_time = stm_now board s + 500\<rparr>"
    and "fw_wf (fst (sa_io (reset_dac board s))) = fw_wf (fst (sa_io s))" "fw_in (fst (sa_io (reset_dac board s))) = fw_in (fst (sa_io s))"
      "fw_extra (fst (sa_io (reset_dac board s))) = fw_extra (fst (sa_io s))"
  using assms(3) get_var_perform [OF assms(2,1), of _ "[Call dac_disable [Named DAC1, Named DAC_CHANNEL1]]" "sa_io s"] assms(1)
  by (simp_all add: reset_dac_def Let_def program_vars_def stm_now_def millisec_timer_set_rel_def)

lemma dac_reset_cycle:
  assumes board: "inj (stm_addr board)" "keeps_variables board" and s: "sa_idle s" "\<not> sa_streaming s" "dac_flag board s" and k: "k < 2 ^ 32"
  shows "\<exists>s1 s2. stm_adc_turn board inp (s, n) = (Inr (), (s1, n)) \<and> \<not> dac_flag board s1
    \<and> snd (sa_io s1) = snd (sa_io s) @ [Call dac_disable [Named DAC1, Named DAC_CHANNEL1]]
    \<and> stm_adc_turn board inp' (ticks board k s1, n) = (Inr (), (s2, n))
    \<and> snd (sa_io s2) = snd (sa_io s1) @ (if 500 \<le> k then [Call dac_enable [Named DAC1, Named DAC_CHANNEL1]] else [])"
proof -
  let ?now = "get_var board MILLISEC_TIMER_NOW_var (sa_io s)"
  let ?t = "\<lparr>enabled = True, set_time = ?now, expire_time = ?now + 500\<rparr>"
  from quiet_turn [OF s(1,2), of board inp n] obtain fw where
    1: "stm_adc_turn board inp (s, n) = (Inr (), (reenable_dac board (reset_dac board (s\<lparr>sa_io := (fw, snd (sa_io s))\<rparr>)), n))"
    "fw_wf fw" "fw_in fw = []" "fw_extra fw = []" "snd (fw_mem fw) = False"
    "\<And>board r. get_var board r (fw, snd (sa_io s)) = get_var board r (sa_io s)" by auto
  let ?s = "s\<lparr>sa_io := (fw, snd (sa_io s))\<rparr>"
  let ?s1 = "reset_dac board ?s"
  have f: "dac_flag board ?s" using s(3) 1(6) by simp
  note R = reset_dac_on [OF board f]
  have t1: "sa_dac_reset_timer ?s1 = ?t" "stm_now board ?s1 = ?now" using R(3,4) 1(6) by (simp_all add: stm_now_def)
  have "fst (millisec_timer_is_expired ?t (?now + of_nat k)) \<longleftrightarrow> 500 \<le> k" if "k < 2 ^ 32" for k
    using that unat_of_nat_32 [of k] unat_of_nat_32 [of 500] by (simp add: is_expired_iff interval_def elapsed_def)
  note E = this [of 0] this [OF k]
  have e1: "reenable_dac board ?s1 = ?s1"
    using E(1) t1 by (simp add: reenable_dac_eq)
  have nf: "\<not> dac_flag board ?s1"
  proof -
    have "drop_bit 1 (w AND NOT 2) AND 1 = 0" for w :: "32 word"
      by (simp add: and_one_eq mod2_eq_if even_and_iff)
    then show ?thesis using R(2) by simp
  qed
  let ?s2 = "ticks board k ?s1"
  have "sa_idle ?s2" "\<not> sa_streaming ?s2" using R(5-7) 1 by (simp_all add: sa_idle_def ticks_def)
  from quiet_turn [OF this, of board inp' n] obtain fw2 where
    2: "stm_adc_turn board inp' (?s2, n) = (Inr (), (reenable_dac board (reset_dac board (?s2\<lparr>sa_io := (fw2, snd (sa_io ?s2))\<rparr>)), n))"
    "\<And>board r. get_var board r (fw2, snd (sa_io ?s2)) = get_var board r (sa_io ?s2)" by auto
  let ?s3 = "?s2\<lparr>sa_io := (fw2, snd (sa_io ?s2))\<rparr>"
  have "\<not> dac_flag board ?s3" using nf 2(2) get_var_ticks [OF board(1)] by simp
  moreover have "stm_now board ?s3 = ?now + of_nat k" "sa_dac_reset_timer ?s3 = ?t"
    using t1 2(2) get_var_ticks [OF board(1)] by (simp_all add: stm_now_def ticks_def)
  ultimately have "snd (sa_io (reenable_dac board (reset_dac board ?s3))) = snd (sa_io ?s1) @
      (if 500 \<le> k then [Call dac_enable [Named DAC1, Named DAC_CHANNEL1]] else [])"
    using E(2) by (simp add: reset_dac_off reenable_dac_eq) (simp add: ticks_def)
  then show ?thesis using 1(1) 2(1) e1 nf R(1) by auto
qed

section \<open>Streaming the counter\<close>

definition counting :: "stm_board \<Rightarrow> stm_adc \<times> 16 word \<Rightarrow> bool" where
  "counting board s \<longleftrightarrow> sa_idle (fst s) \<and> sa_streaming (fst s) \<and> get_var board optionFlags (sa_io (fst s)) AND 1 \<noteq> 0
     \<and> \<not> dac_flag board (fst s) \<and> \<not> enabled (sa_dac_reset_timer (fst s))"

definition sa_ready :: "stm_adc \<times> 16 word \<Rightarrow> stm_adc \<times> 16 word" where
  "sa_ready s = ((fst s)\<lparr>sa_io := (with_tx_ready True (fst (sa_io (fst s))), snd (sa_io (fst s)))\<rparr>, snd s)"

definition counter_key :: "stm_adc \<times> 16 word \<Rightarrow> byte \<times> 32 word" where
  "counter_key s = (fw_counter (fst (sa_io (fst s))), sa_counter (fst s))"

definition counter_frame :: "byte \<times> 32 word \<Rightarrow> byte list" where
  "counter_frame k = frame chr_0 chr_0 chr_s (stream_data (fst k) (hex_digits True 8 (snd k)))"

lemma send_counter_out:
  assumes "fw_wf (fst (sa_io s))" and "fw_out (fst (sa_io s)) = []"
  shows "\<exists>fw. send_counter s = (Inr (), s\<lparr>sa_io := (fw, snd (sa_io s)), sa_counter := sa_counter s + 1\<rparr>) \<and> fw_wf fw
    \<and> fw_out fw = counter_frame (fw_counter (fst (sa_io s)), sa_counter s) \<and> fw_counter fw = fw_counter (fst (sa_io s)) + 1
    \<and> fw_in fw = fw_in (fst (sa_io s)) \<and> fw_extra fw = fw_extra (fst (sa_io s)) \<and> fw_mem fw = fw_mem (fst (sa_io s))
    \<and> fw_uart fw = fw_uart (fst (sa_io s))"
proof -
  let ?h = "hex_digits True 8 (sa_counter s)"
  have m: "mem_put 0 ?h (replicate 8 0) = ?h" by (simp add: mem_put_def)
  have "chr_start \<notin> set ?h" using hex_digits_plain(1) [of chr_start True 8 "sa_counter s"] by auto
  from stream_to_host [OF assms, of 8 ?h ?h] this obtain fw where
    "on_device (ascii_serial_com_device_put_s_message_in_output_buffer chr_0 chr_0 ?h 8) (fst (sa_io s)) = (Inr (), fw)" "fw_wf fw"
    "fw_out fw = counter_frame (fw_counter (fst (sa_io s)), sa_counter s)" "fw_counter fw = fw_counter (fst (sa_io s)) + 1"
    "fw_in fw = fw_in (fst (sa_io s))" "fw_extra fw = fw_extra (fst (sa_io s))" "fw_mem fw = fw_mem (fst (sa_io s))"
    "fw_uart fw = fw_uart (fst (sa_io s))" by (auto simp: counter_frame_def)
  then show ?thesis
    by (intro exI [of _ fw]) (simp add: send_counter_def convert_uint32_to_hex_digits m sa_on_fw_def io_on_fw_def zoom_def
      STREAM_TO_HOST_ASC_DEVICE_W_REGISTER_POINTERS_def)
qed

lemma counting_turn:
  assumes "counting board s"
  shows "\<exists>s'. stm_adc_turn board inp (sa_ready s) = (Inr (), s') \<and> counting board s'
    \<and> tx_sent (fw_uart (fst (sa_io (fst s')))) = tx_sent (fw_uart (fst (sa_io (fst s)))) @ take 1 (fw_out (fst (sa_io (fst s))))
    \<and> (if length (fw_out (fst (sa_io (fst s)))) \<le> 1
       then fw_out (fst (sa_io (fst s'))) = counter_frame (counter_key s) \<and> counter_key s' = (fst (counter_key s) + 1, snd (counter_key s) + 1)
       else fw_out (fst (sa_io (fst s'))) = tl (fw_out (fst (sa_io (fst s)))) \<and> counter_key s' = counter_key s)"
proof -
  obtain st n where s: "s = (st, n)" by (cases s)
  let ?st = "fst (sa_ready s)" and ?out = "fw_out (fst (sa_io st))"
  have c: "sa_idle ?st" "sa_streaming ?st" "fw_out (fst (sa_io ?st)) = ?out" "fw_counter (fst (sa_io ?st)) = fw_counter (fst (sa_io st))"
    "snd (sa_io ?st) = snd (sa_io st)" "tx_ready (fw_uart (fst (sa_io ?st)))" "tx_sent (fw_uart (fst (sa_io ?st))) = tx_sent (fw_uart (fst (sa_io st)))"
    using assms by (simp_all add: s sa_ready_def counting_def sa_idle_def)
  have v: "get_var board r (sa_io ?st) = get_var board r (sa_io st)" for r by (simp add: s sa_ready_def get_var_def)
  from sa_handle [OF c(1)] c obtain fw where 1: "sa_on_fw HANDLE_ASC_COMM_IN_POLLING_LOOP ?st = (Inr (), ?st\<lparr>sa_io := (fw, snd (sa_io st))\<rparr>)"
    "fw_wf fw" "fw_in fw = []" "fw_extra fw = []" "fw_mem fw = fw_mem (fst (sa_io ?st))" "fw_counter fw = fw_counter (fst (sa_io st))"
    "fw_out fw = drop 1 ?out" "tx_sent (fw_uart fw) = tx_sent (fw_uart (fst (sa_io st))) @ take 1 ?out"
    "\<And>r. get_var board r (fw, snd (sa_io st)) = get_var board r (sa_io st)" by (auto simp: v)
  let ?s1 = "?st\<lparr>sa_io := (fw, snd (sa_io st))\<rparr>"
  have on: "sa_streaming ?s1" using c(2) 1(5) by simp
  have fl: "get_var board optionFlags (sa_io ?s1) AND 1 \<noteq> 0" "\<not> dac_flag board ?s1" "\<not> enabled (sa_dac_reset_timer ?s1)"
    using assms 1(9) by (simp_all add: counting_def s sa_ready_def)
  have "start_adc_conversion board (reenable_dac board (reset_dac board (start_adc_timer board True ?s1))) = ?s1"
    using on fl by (simp add: start_adc_timer_def reset_dac_off reenable_dac_off start_adc_conversion_def)
  then have t: "stm_adc_turn board inp (sa_ready s) = (case stream_data_out board inp ?s1 of (r, st') \<Rightarrow> count_exceptions (\<lambda>_. (r, st')) (?s1, n))"
    using 1(1) c(2) by (simp add: stm_adc_turn_def count_exceptions_def zoom_def s sa_ready_def split: prod.split)
  have e: "READY_TO_STREAM_ASC_DEVICE_W_REGISTER_POINTERS fw \<longleftrightarrow> length ?out \<le> 1"
    using on 1(7) by (auto simp: READY_TO_STREAM_ASC_DEVICE_W_REGISTER_POINTERS_def out_size_0)
  show ?thesis
  proof (cases "length ?out \<le> 1")
    case True
    from send_counter_out [of ?s1] 1 True obtain fw' where 2: "send_counter ?s1 = (Inr (), ?s1\<lparr>sa_io := (fw', snd (sa_io st)), sa_counter := sa_counter ?s1 + 1\<rparr>)"
      "fw_wf fw'" "fw_out fw' = counter_frame (fw_counter fw, sa_counter ?s1)" "fw_counter fw' = fw_counter fw + 1" "fw_in fw' = []"
      "fw_extra fw' = []" "fw_mem fw' = fw_mem fw" "fw_uart fw' = fw_uart fw" by auto
    have "stream_data_out board inp ?s1 = send_counter ?s1" using e True fl(1) by (simp add: stream_data_out_def)
    moreover have "get_var board r (fw', snd (sa_io st)) = get_var board r (sa_io st)" for r using 1(9) [of r] 2(7) by (simp add: get_var_def)
    ultimately show ?thesis using t 2 1 True on fl
      by (auto simp: s counting_def sa_idle_def counter_key_def sa_ready_def)
  next
    case False
    then have "stream_data_out board inp ?s1 = (Inr (), ?s1)" using e by (simp add: stream_data_out_def)
    then show ?thesis using t 1 False on fl
      by (auto simp: s counting_def sa_idle_def counter_key_def sa_ready_def drop_Suc)
  qed
qed

interpretation adc_counter: eager_streamer "\<lambda>s. stm_adc_turn board inp (sa_ready s)" "counting board" "\<lambda>s. fw_out (fst (sa_io (fst s)))"
    "\<lambda>s. tx_sent (fw_uart (fst (sa_io (fst s))))" counter_key counter_frame "\<lambda>k. (fst k + 1, snd k + 1)" 21 for board inp
  by unfold_locales (use counting_turn in \<open>simp_all add: counter_frame_def stream_data_def\<close>)

section \<open>One sample\<close>

lemma send_adc_val_out:
  assumes board: "inj (stm_addr board)" "keeps_variables board" and f: "fw_wf (fst (sa_io s))" "fw_out (fst (sa_io s)) = []"
  shows "\<exists>fw isr. send_adc_val board inp s = (Inr (), s\<lparr>sa_io := (fw, snd (sa_io s) @ [Or_Assign (ADC_ISR ADC) isr])\<rparr>) \<and> fw_wf fw
    \<and> fw_out fw = sample_frame (fw_counter (fst (sa_io s))) (ucast (adc_read_regular inp)) \<and> fw_in fw = fw_in (fst (sa_io s))
    \<and> fw_extra fw = fw_extra (fst (sa_io s)) \<and> snd (fw_mem fw) = sa_streaming s
    \<and> get_var board adc_n_overruns (fw, snd (sa_io s) @ [Or_Assign (ADC_ISR ADC) isr]) = get_var board adc_n_overruns (sa_io s)"
proof -
  obtain isr :: "32 word" where isr: "push_bit (unat (stm_value board ADC_ISR_EOSEQ)) 1 OR push_bit (unat (stm_value board ADC_ISR_EOC)) 1 = isr" by blast
  let ?io = "perform board [Or_Assign (ADC_ISR ADC) isr] (sa_io s)" and ?v = "ucast (adc_read_regular inp) :: 16 word"
  have "fw_wf (fst ?io)" "fw_out (fst ?io) = []" using f by simp_all
  from stream_sample [OF this, of ?v] obtain fw' where
    1: "STREAM_TO_HOST_ASC_DEVICE_W_REGISTER_POINTERS (hex_digits True 3 ?v) 3 (fst ?io) = (Inr (), fw')"
    "fw_wf fw'" "fw_out fw' = sample_frame (fw_counter (fst (sa_io s))) ?v" "fw_in fw' = fw_in (fst (sa_io s))"
    "fw_extra fw' = fw_extra (fst (sa_io s))" "fw_mem fw' = fw_mem (fst ?io)" by auto
  have "send_adc_val board inp s = (Inr (), s\<lparr>sa_io := (fw', snd (sa_io s) @ [Or_Assign (ADC_ISR ADC) isr])\<rparr>)"
    using 1(1) unfolding send_adc_val_def isr by (simp add: sample_buffer sa_on_fw_def io_on_fw_def zoom_def)
  moreover have "get_var board adc_n_overruns ?io = get_var board adc_n_overruns (sa_io s)"
    using get_var_perform [OF board(2,1), of adc_n_overruns "[Or_Assign (ADC_ISR ADC) isr]"] by (simp add: program_vars_def)
  then have "get_var board adc_n_overruns (fw', snd (sa_io s) @ [Or_Assign (ADC_ISR ADC) isr]) = get_var board adc_n_overruns (sa_io s)"
    using 1(6) by (simp add: get_var_def)
  ultimately show ?thesis using 1 by (intro exI [of _ fw'] exI [of _ isr]) simp
qed

text \<open>
  When a sequence of conversions is complete and the last message is out, the sample is sent; an overrun is counted
  and cleared. In the same turn the next conversion is started, if the period is over.
\<close>

lemma adc_sample_turn:
  assumes board: "inj (stm_addr board)" "keeps_variables board" and s: "sa_idle s" "sa_streaming s" "fw_out (fst (sa_io s)) = []"
    and fl: "get_var board optionFlags (sa_io s) AND 1 = 0" "\<not> dac_flag board s" "\<not> enabled (sa_dac_reset_timer s)" and eos: "adc_eos inp"
  shows "\<exists>s'. stm_adc_turn board inp (s, n) = (Inr (), (s', n)) \<and> sa_idle s' \<and> sa_streaming s'
    \<and> fw_out (fst (sa_io s')) = sample_frame (fw_counter (fst (sa_io s))) (ucast (adc_read_regular inp))
    \<and> get_var board adc_n_overruns (sa_io s') = get_var board adc_n_overruns (sa_io s) + (if adc_get_overrun_flag inp then 1 else 0)
    \<and> sa_adc_timer s' = snd (millisec_timer_is_expired_repeat (sa_adc_timer s) (stm_now board s))
    \<and> (\<exists>isr. snd (sa_io s') = snd (sa_io s)
        @ (if fst (millisec_timer_is_expired_repeat (sa_adc_timer s) (stm_now board s)) then [Call adc_start_conversion_regular [Named ADC]] else [])
        @ (if adc_get_overrun_flag inp then [Call adc_clear_overrun_flag [Named ADC]] else []) @ [Or_Assign (ADC_ISR ADC) isr])"
proof -
  from sa_handle [OF s(1)] s(3) obtain fw where 1: "sa_on_fw HANDLE_ASC_COMM_IN_POLLING_LOOP s = (Inr (), s\<lparr>sa_io := (fw, snd (sa_io s))\<rparr>)"
    "fw_wf fw" "fw_in fw = []" "fw_extra fw = []" "fw_mem fw = fw_mem (fst (sa_io s))" "fw_counter fw = fw_counter (fst (sa_io s))"
    "fw_out fw = []" "\<And>board r. get_var board r (fw, snd (sa_io s)) = get_var board r (sa_io s)" by auto
  let ?s1 = "s\<lparr>sa_io := (fw, snd (sa_io s))\<rparr>"
  obtain ex t where ex: "millisec_timer_is_expired_repeat (sa_adc_timer s) (stm_now board s) = (ex, t)" by fastforce
  let ?io2 = "if ex then perform board [Call adc_start_conversion_regular [Named ADC]] (sa_io ?s1) else sa_io ?s1"
  let ?s2 = "s\<lparr>sa_io := ?io2, sa_adc_timer := t\<rparr>"
  have on: "sa_streaming ?s1" using s(2) 1(5) by simp
  have v: "get_var board r ?io2 = get_var board r (sa_io s)" if "r \<in> set program_vars" for r
    using get_var_perform [OF board(2,1) that, of "[Call adc_start_conversion_regular [Named ADC]]" "sa_io ?s1"] 1(8) by simp
  have a: "start_adc_conversion board (reenable_dac board (reset_dac board (start_adc_timer board True ?s1))) = ?s2"
    using on fl ex 1(8) by (auto simp: start_adc_timer_def reset_dac_off reenable_dac_off start_adc_conversion_def stm_now_def)
  let ?io3 = "if adc_get_overrun_flag inp then perform board [Call adc_clear_overrun_flag [Named ADC]]
      (put_var board adc_n_overruns (get_var board adc_n_overruns ?io2 + 1) ?io2) else ?io2"
  have b: "count_overrun board inp ?s2 = ?s2\<lparr>sa_io := ?io3\<rparr>" by (simp add: count_overrun_def)
  have v3: "get_var board adc_n_overruns ?io3 = get_var board adc_n_overruns (sa_io s) + (if adc_get_overrun_flag inp then 1 else 0)"
    using v [of adc_n_overruns] get_var_perform [OF board(2,1), of adc_n_overruns "[Call adc_clear_overrun_flag [Named ADC]]"] board(1)
    by (simp add: program_vars_def)
  have 3: "fw_wf (fst ?io3)" "fw_out (fst ?io3) = []" "fw_in (fst ?io3) = []" "fw_extra (fst ?io3) = []"
    "fw_counter (fst ?io3) = fw_counter (fst (sa_io s))" "snd (fw_mem (fst ?io3)) = True"
    "snd ?io3 = snd (sa_io s) @ (if ex then [Call adc_start_conversion_regular [Named ADC]] else [])
      @ (if adc_get_overrun_flag inp then [Call adc_clear_overrun_flag [Named ADC]] else [])"
    using 1 on by simp_all
  obtain io3 where io3: "io3 = ?io3" by blast
  note 3 = 3 [folded io3] and b = b [folded io3] and v3 = v3 [folded io3]
  from send_adc_val_out [OF board, of "?s2\<lparr>sa_io := io3\<rparr>" inp] 3 obtain fw' isr where
    2: "send_adc_val board inp (?s2\<lparr>sa_io := io3\<rparr>) = (Inr (), ?s2\<lparr>sa_io := (fw', snd io3 @ [Or_Assign (ADC_ISR ADC) isr])\<rparr>)" "fw_wf fw'"
    "fw_out fw' = sample_frame (fw_counter (fst (sa_io s))) (ucast (adc_read_regular inp))" "fw_in fw' = []" "fw_extra fw' = []" "snd (fw_mem fw')"
    "get_var board adc_n_overruns (fw', snd io3 @ [Or_Assign (ADC_ISR ADC) isr]) = get_var board adc_n_overruns io3" by auto
  have "READY_TO_STREAM_ASC_DEVICE_W_REGISTER_POINTERS (fst ?io2)"
    using on 1(7) by (simp add: READY_TO_STREAM_ASC_DEVICE_W_REGISTER_POINTERS_def out_size_0)
  then have "stream_data_out board inp ?s2 = send_adc_val board inp (?s2\<lparr>sa_io := io3\<rparr>)"
    using v [of optionFlags] fl(1) eos b by (simp add: stream_data_out_def program_vars_def)
  then have "stm_adc_turn board inp (s, n) = (Inr (), (?s2\<lparr>sa_io := (fw', snd io3 @ [Or_Assign (ADC_ISR ADC) isr])\<rparr>, n))"
    using 1(1) a 2(1) s(2) by (simp add: stm_adc_turn_def)
  then show ?thesis using 2 3(7) v3 ex by (auto simp: sa_idle_def)
qed

end
