(* ===== verification/Stm32_Pulser.thy ===== *)
theory Stm32_Pulser
  imports Stm32_Adc
begin

text \<open>
  \<^verbatim>\<open>arm/stm32f091nucleo64_pulser.c\<close>: a device that drives a pulse on the LED and measures pulses on
  an input; period, length and overruns of the last pulse are registers for the host.
\<close>

section \<open>The program\<close>

definition pulser_register_map :: "stm_board \<Rightarrow> nat option list" where
  "pulser_register_map board = map (\<lambda>r. Some (stm_addr board r))
     [GPIOA_IDR, GPIOA_ODR, optionFlags, MILLISEC_TIMER_NOW_var, TIM_PSC TIM2, TIM_ARR TIM2, TIM_CCR1 TIM2,
      ic_period, ic_pulse_length, ic_overrun]"

definition pulser_register_write_masks :: "32 word list" where
  "pulser_register_write_masks = [0, push_bit 5 1, 0xFFFFFFFF, 0, 0xFFFF, 0xFFFF, 0xFFFF, 0, 0, 0]"

text \<open>The frequencies of the clock and of the two timers come from the library.\<close>

definition pulser_calls :: "stm_board \<Rightarrow> 32 word \<Rightarrow> (stm_const \<Rightarrow> 32 word) \<Rightarrow> stm_call list" where
  "pulser_calls board rcc_ahb_frequency rcc_get_timer_clk_freq =
     millisec_timer_systick_setup board rcc_ahb_frequency @ start_usart_irq @
     [Call rcc_periph_clock_enable [Named RCC_GPIOA], Call rcc_periph_clock_enable [Named RCC_TIM2]] @
     setup_timer_periodic_output_pulse TIM2 (rcc_get_timer_clk_freq TIM2 div 1000) 1000 500 TIM_OC1 GPIOA GPIO5 GPIO_AF2 @
     [Call timer_enable_counter [Named TIM2],
      Call rcc_periph_clock_enable [Named RCC_GPIOA], Call rcc_periph_clock_enable [Named RCC_TIM1]] @
     setup_timer_capture_pwm_input TIM1 (rcc_get_timer_clk_freq TIM1 div 1000) 0xFFFF TIM_IC_IN_TI1 GPIOA GPIO8 GPIO_AF2 @
     [Call timer_enable_counter [Named TIM1]]"

definition pulser_start :: "stm_board \<Rightarrow> 32 word \<Rightarrow> (stm_const \<Rightarrow> 32 word) \<Rightarrow> byte list \<Rightarrow> byte list \<Rightarrow> stm_io \<Rightarrow> (nat option, stm_io) res" where
  "pulser_start board rcc_ahb_frequency rcc_get_timer_clk_freq =
     stm_device_start board (pulser_register_map board) pulser_register_write_masks
       (pulser_calls board rcc_ahb_frequency rcc_get_timer_clk_freq)"

text \<open>One overrun flag: it is noted for the host and cleared.\<close>

definition note_overrun :: "stm_board \<Rightarrow> (stm_const \<Rightarrow> bool) \<Rightarrow> stm_const \<Rightarrow> 32 word \<Rightarrow> stm_io \<Rightarrow> stm_io" where
  "note_overrun board timer_get_flag flag v io =
     (if timer_get_flag flag then
        perform board [Call timer_clear_flag [Named TIM1, Named flag]] (put_var board ic_overrun (get_var board ic_overrun io OR v) io)
      else io)"

definition read_capture :: "stm_board \<Rightarrow> (stm_const \<Rightarrow> bool) \<Rightarrow> stm_io \<Rightarrow> stm_io" where
  "read_capture board timer_get_flag io =
     (if timer_get_flag TIM_SR_CC1IF then
        let io = put_var board ic_pulse_length (get_var board (TIM_CCR2 TIM1) io) io;
            io = put_var board ic_period (get_var board (TIM_CCR1 TIM1) io) io;
            io = put_var board ic_overrun 0 io;
            io = note_overrun board timer_get_flag TIM_SR_CC1OF 1 io in
        note_overrun board timer_get_flag TIM_SR_CC2OF (push_bit 4 1) io
      else io)"

definition pulser_turn :: "stm_board \<Rightarrow> (stm_const \<Rightarrow> bool) \<Rightarrow> stm_io \<times> 16 word \<Rightarrow> (unit, stm_io \<times> 16 word) res" where
  "pulser_turn board timer_get_flag = count_exceptions (\<lambda>io.
     bind_res (io_on_fw HANDLE_ASC_COMM_IN_POLLING_LOOP io) (\<lambda>_ io. (Inr (), read_capture board timer_get_flag io)))"

section \<open>The start\<close>

lemma pulser_clocked: "clocked {} (pulser_calls board f g)"
  by (simp add: pulser_calls_def setup_timer_periodic_output_pulse_def setup_timer_capture_pwm_input_def start_defs
    millisec_timer_systick_setup_def)

text \<open>
  The pulse: a period register of \<open>p\<close> makes the timer count \<open>p + 1\<close> ticks. The masks leave the captured values
  to the program.
\<close>

lemma captured_read_only: "\<forall>i \<in> {7, 8, 9}. pulser_register_write_masks ! i = 0"
  by (simp add: pulser_register_write_masks_def)

section \<open>A capture\<close>

lemma note_overrun_var:
  assumes "inj (stm_addr board)" and "keeps_variables board" and "r \<in> set program_vars"
  shows "get_var board r (note_overrun board flag f v io) =
    (if r = ic_overrun \<and> flag f then get_var board r io OR v else get_var board r io)"
  using assms get_var_perform [OF assms(2,1,3), of "[Call timer_clear_flag [Named TIM1, Named f]]"]
  by (cases "r = ic_overrun") (auto simp: note_overrun_def)

lemma note_overrun_simps [simp]:
  "fw_wf (fst (note_overrun board flag f v io)) = fw_wf (fst io)" "fw_in (fst (note_overrun board flag f v io)) = fw_in (fst io)"
  "fw_out (fst (note_overrun board flag f v io)) = fw_out (fst io)" "fw_extra (fst (note_overrun board flag f v io)) = fw_extra (fst io)"
  "snd (note_overrun board flag f v io) = snd io @ (if flag f then [Call timer_clear_flag [Named TIM1, Named f]] else [])"
  by (simp_all add: note_overrun_def)

lemma read_capture_vars:
  assumes board: "inj (stm_addr board)" "keeps_variables board" and c: "flag TIM_SR_CC1IF"
  shows "get_var board ic_period (read_capture board flag io) = get_var board (TIM_CCR1 TIM1) io"
    and "get_var board ic_pulse_length (read_capture board flag io) = get_var board (TIM_CCR2 TIM1) io"
    and "get_var board ic_overrun (read_capture board flag io) =
      (if flag TIM_SR_CC1OF then 1 else 0) OR (if flag TIM_SR_CC2OF then 16 else 0)"
  using c board note_overrun_var [OF board]
  by (simp_all add: read_capture_def Let_def program_vars_def)

lemma read_capture_simps [simp]:
  "fw_wf (fst (read_capture board flag io)) = fw_wf (fst io)" "fw_in (fst (read_capture board flag io)) = fw_in (fst io)"
  "fw_out (fst (read_capture board flag io)) = fw_out (fst io)" "fw_extra (fst (read_capture board flag io)) = fw_extra (fst io)"
  by (simp_all add: read_capture_def Let_def)

text \<open>What the host can read after the turn that finds a capture.\<close>

lemma pulser_captures:
  assumes board: "inj (stm_addr board)" "keeps_variables board" and io: "fw_wf (fst io)" "fw_in (fst io) = []" "fw_extra (fst io) = []"
    and c: "flag TIM_SR_CC1IF"
  shows "\<exists>io'. pulser_turn board flag (io, n) = (Inr (), (io', n)) \<and> fw_wf (fst io') \<and> fw_in (fst io') = [] \<and> fw_extra (fst io') = []
    \<and> get_var board ic_period io' = get_var board (TIM_CCR1 TIM1) io
    \<and> get_var board ic_pulse_length io' = get_var board (TIM_CCR2 TIM1) io
    \<and> get_var board ic_overrun io' = (if flag TIM_SR_CC1OF then 1 else 0) OR (if flag TIM_SR_CC2OF then 16 else 0)
    \<and> snd io' = snd io @ (if flag TIM_SR_CC1OF then [Call timer_clear_flag [Named TIM1, Named TIM_SR_CC1OF]] else [])
        @ (if flag TIM_SR_CC2OF then [Call timer_clear_flag [Named TIM1, Named TIM_SR_CC2OF]] else [])"
proof -
  from handle_idle [OF io] obtain fw where 1: "HANDLE_ASC_COMM_IN_POLLING_LOOP (fst io) = (Inr (), fw)" "fw_wf fw" "fw_in fw = []" "fw_extra fw = []"
    "fw_mem fw = fw_mem (fst io)" by auto
  have v: "get_var board r (fw, snd io) = get_var board r io" for r using 1(5) by (simp add: get_var_def)
  have "pulser_turn board flag (io, n) = (Inr (), (read_capture board flag (fw, snd io), n))"
    using 1(1) by (simp add: pulser_turn_def io_on_fw_def zoom_def)
  moreover have "snd (read_capture board flag (fw, snd io)) = snd io
      @ (if flag TIM_SR_CC1OF then [Call timer_clear_flag [Named TIM1, Named TIM_SR_CC1OF]] else [])
      @ (if flag TIM_SR_CC2OF then [Call timer_clear_flag [Named TIM1, Named TIM_SR_CC2OF]] else [])"
    using c by (simp add: read_capture_def Let_def)
  ultimately show ?thesis using read_capture_vars [of board flag "(fw, snd io)", OF board c] 1 v by simp
qed

text \<open>Without a capture a turn is the one of the macro.\<close>

lemma pulser_quiet:
  assumes "\<not> flag TIM_SR_CC1IF" and "HANDLE_ASC_COMM_IN_POLLING_LOOP fw = (Inr (), fw')"
  shows "pulser_turn board flag ((fw, t), n) = (Inr (), ((fw', t), n))"
  using assms by (simp add: pulser_turn_def io_on_fw_def zoom_def read_capture_def)

definition ready_io :: "bool \<Rightarrow> stm_io \<times> 16 word \<Rightarrow> stm_io \<times> 16 word" where
  "ready_io r s = ((with_tx_ready r (fst (fst s)), snd (fst s)), snd s)"

lemma pulser_poll_loop:
  assumes "\<not> flag TIM_SR_CC1IF"
  shows "poll_loop rs fw = (Inr (), fw') \<Longrightarrow> program_turns (pulser_turn board flag) ready_io rs ((fw, t), n) = (Inr (), ((fw', t), n))"
proof (induction rs arbitrary: fw)
  case (Cons r rs)
  then obtain fw1 where "HANDLE_ASC_COMM_IN_POLLING_LOOP (with_tx_ready r fw) = (Inr (), fw1)" "poll_loop rs fw1 = (Inr (), fw')"
    by (auto elim!: bind_res_eq_InrD)
  with Cons.IH pulser_quiet [of flag, OF assms] show ?case by (simp add: ready_io_def)
qed simp

end
