(* ===== verification/Neorv32.thy ===== *)
theory Neorv32
  imports Asc_Prelude
begin

text \<open>
  The programs under \<^verbatim>\<open>riscv/neorv32/\<close>, up to their loops. The calls to the library of the processor
  are recorded in their order; what its functions return is a parameter. Of the two devices,
  \<^verbatim>\<open>neorv32_asc_gpio.c\<close> and \<^verbatim>\<open>neorv32_asc_pulse_counter.c\<close>, only the tables and the start before
  the macros of \<^verbatim>\<open>asc_helpers.h\<close> are here: the programs do not include that file, pass an undefined name to its
  macros, and the branch of it for this processor pastes \<^verbatim>\<open>##.CTRL\<close>, which is no token, so there is no loop to model.
  The loops of the other two are in \<open>Loopbacks\<close> and \<open>Patterns\<close>.
\<close>

datatype neo_const = PARITY_NONE | FLOW_CONTROL_NONE

datatype neo_call =
    neorv32_uart0_setup "32 word" neo_const neo_const
  | neorv32_uart1_setup "32 word" neo_const neo_const
  | neorv32_uart0_print string
  | neorv32_rte_setup

datatype neo_reg = GPIO_OUTPUT_LO | GPIO_OUTPUT_HI | GPIO_INPUT_LO | GPIO_INPUT_HI

abbreviation newline :: char where "newline \<equiv> CHR 0x0A"

section \<open>The devices\<close>

definition gpio_register_map :: "(neo_reg \<Rightarrow> nat) \<Rightarrow> nat option list" where
  "gpio_register_map neo_addr = [Some (neo_addr GPIO_OUTPUT_LO), Some (neo_addr GPIO_OUTPUT_HI),
     Some (neo_addr GPIO_INPUT_LO), Some (neo_addr GPIO_INPUT_HI)]"

definition gpio_register_write_masks :: "32 word list" where
  "gpio_register_write_masks = [0xFFFFFFFF, 0xFFFFFFFF, 0, 0]"

definition pulse_counter_register_map :: "(neo_reg \<Rightarrow> nat) \<Rightarrow> nat option list" where
  "pulse_counter_register_map neo_addr = [Some (neo_addr GPIO_OUTPUT_LO), Some (neo_addr GPIO_OUTPUT_HI),
     Some (neo_addr GPIO_INPUT_LO), Some (neo_addr GPIO_INPUT_HI), Some 0x71000000, Some 0x71000004]"

definition pulse_counter_register_write_masks :: "32 word list" where
  "pulse_counter_register_write_masks = [0xFFFFFFFF, 0xFFFFFFFF, 0, 0, 0, 0x3]"

text \<open>
  The start up to the first macro, with the exit code when the hardware is missing. \<open>neo_start\<close> is what the two
  programs share.
\<close>

definition neo_start :: "string \<Rightarrow> 32 word \<Rightarrow> 32 word \<Rightarrow> nat option \<times> neo_call list" where
  "neo_start greeting neorv32_uart1_available neorv32_gpio_available =
     (if neorv32_uart1_available = 0 then
        (Some 1, [neorv32_uart0_setup 19200 PARITY_NONE FLOW_CONTROL_NONE,
           neorv32_uart0_print (''Error! UART1 not synthesized!'' @ [newline])])
      else if neorv32_gpio_available = 0 then
        (Some 1, [neorv32_uart0_setup 19200 PARITY_NONE FLOW_CONTROL_NONE,
           neorv32_uart0_print (''Error! GPIO not synthesized!'' @ [newline])])
      else (None, [neorv32_uart0_setup 19200 PARITY_NONE FLOW_CONTROL_NONE, neorv32_rte_setup,
           neorv32_uart0_print (greeting @ [newline]), neorv32_uart1_setup 9600 PARITY_NONE FLOW_CONTROL_NONE]))"

definition neorv32_asc_gpio_start :: "32 word \<Rightarrow> 32 word \<Rightarrow> nat option \<times> neo_call list" where
  "neorv32_asc_gpio_start = neo_start ''Starting UART1 loopback demo program''"

definition neorv32_asc_pulse_counter_start :: "32 word \<Rightarrow> 32 word \<Rightarrow> nat option \<times> neo_call list" where
  "neorv32_asc_pulse_counter_start = neo_start ''Starting ASCII-Serial-Com WB Pulse Counter Program''"

section \<open>The programs without a device\<close>

definition neorv32_char_loopback_start :: "32 word \<Rightarrow> nat option \<times> neo_call list" where
  "neorv32_char_loopback_start neorv32_uart1_available =
     (if neorv32_uart1_available = 0 then
        (Some 1, [neorv32_uart0_setup 19200 PARITY_NONE FLOW_CONTROL_NONE,
           neorv32_uart0_print (''Error! UART1 not synthesized!'' @ [newline])])
      else (None, [neorv32_uart0_setup 19200 PARITY_NONE FLOW_CONTROL_NONE, neorv32_rte_setup,
           neorv32_uart1_setup 9600 PARITY_NONE FLOW_CONTROL_NONE,
           neorv32_uart0_print (''Starting UART1 loopback demo program'' @ [newline])]))"

definition neorv32_blink_led_start :: "32 word \<Rightarrow> nat option \<times> neo_call list" where
  "neorv32_blink_led_start neorv32_gpio_available =
     (if neorv32_gpio_available = 0 then
        (Some 1, [neorv32_uart0_setup 19200 PARITY_NONE FLOW_CONTROL_NONE,
           neorv32_uart0_print (''Error! No GPIO unit synthesized!'' @ [newline])])
      else (None, [neorv32_uart0_setup 19200 PARITY_NONE FLOW_CONTROL_NONE, neorv32_rte_setup,
           neorv32_uart0_print (''Blinking LED demo program'' @ [newline])]))"

text \<open>The second UART is set up only when it is there, and the program goes on only then.\<close>

lemma neo_uart1_checked:
  "neorv32_uart1_setup b p c \<in> set (snd (neo_start greeting uart1 gpio)) \<Longrightarrow> uart1 \<noteq> 0 \<and> gpio \<noteq> 0"
  "neorv32_uart1_setup b p c \<in> set (snd (neorv32_char_loopback_start uart1)) \<Longrightarrow> uart1 \<noteq> 0"
  by (auto simp: neo_start_def neorv32_char_loopback_start_def split: if_splits)

lemma neo_exit_code: "fst (neo_start greeting uart1 gpio) = None \<longleftrightarrow> uart1 \<noteq> 0 \<and> gpio \<noteq> 0"
  by (simp add: neo_start_def)

end
