(* ===== verification/Cmock.thy ===== *)
theory Cmock
  imports Asc_Prelude
begin

text \<open>
  \<^verbatim>\<open>externals/cmock.c\<close>: the memory from which the mocks of the unit tests take their records. It is a
  static array that is handed out from the front; a block begins with the index of the next one of its chain.
\<close>

unbundle bit_operations_syntax

section \<open>State\<close>

text \<open>
  A 64-bit machine with the lowest byte first: an index and a unit of alignment have eight bytes. Memory is static, since
  nothing defines \<^verbatim>\<open>CMOCK_MEM_DYNAMIC\<close>.
\<close>

abbreviation CMOCK_GUTS_NONE :: "64 word" where "CMOCK_GUTS_NONE \<equiv> 0"
abbreviation CMOCK_MEM_SIZE :: "64 word" where "CMOCK_MEM_SIZE \<equiv> 32768"
abbreviation CMOCK_MEM_ALIGN_SIZE :: "64 word" where "CMOCK_MEM_ALIGN_SIZE \<equiv> 8"
abbreviation CMOCK_MEM_ALIGN_MASK :: "64 word" where "CMOCK_MEM_ALIGN_MASK \<equiv> 7"
abbreviation CMOCK_MEM_INDEX_SIZE :: "64 word" where "CMOCK_MEM_INDEX_SIZE \<equiv> 8"

record cmock =
  CMock_Guts_Buffer :: "byte list"
  CMock_Guts_BufferSize :: "64 word"
  CMock_Guts_FreePtr :: "64 word"

definition cmock_initial :: cmock where
  "cmock_initial = \<lparr>CMock_Guts_Buffer = replicate 32776 0, CMock_Guts_BufferSize = CMOCK_MEM_SIZE + CMOCK_MEM_ALIGN_SIZE,
     CMock_Guts_FreePtr = CMOCK_MEM_ALIGN_SIZE\<rparr>"

text \<open>An index in the array; an access outside of it is a fault.\<close>

definition index_bytes :: "64 word \<Rightarrow> byte list" where
  "index_bytes v = map (\<lambda>j. ucast (drop_bit (8 * j) v)) [0..<8]"

definition bytes_index :: "byte list \<Rightarrow> 64 word" where
  "bytes_index bs = foldr (\<lambda>b v. push_bit 8 v OR ucast b) bs 0"

definition load_index :: "64 word \<Rightarrow> cmock \<Rightarrow> 64 word exc" where
  "load_index a g =
     (if unat a + 8 \<le> length (CMock_Guts_Buffer g) then Inr (bytes_index (take 8 (drop (unat a) (CMock_Guts_Buffer g)))) else Inl UB)"

definition store_index :: "64 word \<Rightarrow> 64 word \<Rightarrow> cmock \<Rightarrow> (unit, cmock) res" where
  "store_index a v g =
     (if unat a + 8 \<le> length (CMock_Guts_Buffer g) then (Inr (), g\<lparr>CMock_Guts_Buffer := mem_put (unat a) (index_bytes v) (CMock_Guts_Buffer g)\<rparr>)
      else (Inl UB, g))"

section \<open>Operations\<close>

text \<open>Room for the index and the bytes, rounded up.\<close>

definition aligned_size :: "64 word \<Rightarrow> 64 word" where
  "aligned_size n =
     (let n = n + CMOCK_MEM_INDEX_SIZE in
      if n AND CMOCK_MEM_ALIGN_MASK \<noteq> 0 then (n + CMOCK_MEM_ALIGN_MASK) AND NOT CMOCK_MEM_ALIGN_MASK else n)"

definition CMock_Guts_MemNew :: "64 word \<Rightarrow> cmock \<Rightarrow> (64 word, cmock) res" where
  "CMock_Guts_MemNew n g =
     (if n < 1 then (Inr CMOCK_GUTS_NONE, g)
      else
        let n = aligned_size n in
        if CMock_Guts_BufferSize g - CMock_Guts_FreePtr g < n then (Inr CMOCK_GUTS_NONE, g)
        else
          let index = CMock_Guts_FreePtr g + CMOCK_MEM_INDEX_SIZE in
          bind_res (store_index (CMock_Guts_FreePtr g) CMOCK_GUTS_NONE g) (\<lambda>_ g.
            (Inr index, g\<lparr>CMock_Guts_FreePtr := CMock_Guts_FreePtr g + n\<rparr>)))"

text \<open>
  The loop that looks for the end of a chain: \<open>None\<close> when it does not end, and otherwise the last block, or no block
  when an index points outside of the memory in use.
\<close>

partial_function (option) find_end :: "cmock \<Rightarrow> 64 word \<Rightarrow> 64 word option exc option" where
  "find_end g next_block =
     (case load_index (next_block - CMOCK_MEM_INDEX_SIZE) g of
        Inl e \<Rightarrow> Some (Inl e)
      | Inr index \<Rightarrow>
          if index \<ge> CMock_Guts_FreePtr g then Some (Inr None)
          else if index > 0 then find_end g index
          else Some (Inr (Some next_block)))"

definition in_use :: "64 word \<Rightarrow> cmock \<Rightarrow> bool" where
  "in_use index g \<longleftrightarrow> \<not> (index < CMOCK_MEM_ALIGN_SIZE \<or> index \<ge> CMock_Guts_FreePtr g)"

definition CMock_Guts_MemChain :: "64 word \<Rightarrow> 64 word \<Rightarrow> cmock \<Rightarrow> (64 word, cmock) res option" where
  "CMock_Guts_MemChain root_index obj_index g =
     (if root_index = CMOCK_GUTS_NONE then Some (Inr obj_index, g)
      else if \<not> in_use root_index g then Some (Inr CMOCK_GUTS_NONE, g)
      else if \<not> in_use obj_index g then Some (Inr CMOCK_GUTS_NONE, g)
      else
        case find_end g root_index of
          None \<Rightarrow> None
        | Some (Inl e) \<Rightarrow> Some (Inl e, g)
        | Some (Inr None) \<Rightarrow> Some (Inr CMOCK_GUTS_NONE, g)
        | Some (Inr (Some last_block)) \<Rightarrow>
            Some (bind_res (store_index (last_block - CMOCK_MEM_INDEX_SIZE) obj_index g) (\<lambda>_ g. (Inr root_index, g))))"

definition CMock_Guts_MemNext :: "64 word \<Rightarrow> cmock \<Rightarrow> 64 word exc" where
  "CMock_Guts_MemNext previous_item_index g =
     (if \<not> in_use previous_item_index g then Inr CMOCK_GUTS_NONE
      else bind_exc (load_index (previous_item_index - CMOCK_MEM_INDEX_SIZE) g) (\<lambda>index.
        if index > 1 \<and> index < CMock_Guts_FreePtr g then Inr index else Inr CMOCK_GUTS_NONE))"

text \<open>\<^verbatim>\<open>CMock_Guts_MemEndOfChain\<close>: the loop with its two variables.\<close>

partial_function (option) end_of_chain :: "cmock \<Rightarrow> 64 word \<Rightarrow> 64 word \<Rightarrow> 64 word exc option" where
  "end_of_chain g index next_index =
     (if next_index \<noteq> CMOCK_GUTS_NONE then
        case CMock_Guts_MemNext next_index g of
          Inl e \<Rightarrow> Some (Inl e)
        | Inr next \<Rightarrow> end_of_chain g next_index next
      else Some (Inr index))"

definition CMock_Guts_MemEndOfChain :: "64 word \<Rightarrow> cmock \<Rightarrow> 64 word exc option" where
  "CMock_Guts_MemEndOfChain root_index g = end_of_chain g root_index root_index"

text \<open>The offset of the address in the array; \<open>None\<close> is the null pointer.\<close>

definition CMock_Guts_GetAddressFor :: "64 word \<Rightarrow> cmock \<Rightarrow> nat option" where
  "CMock_Guts_GetAddressFor index g =
     (if index \<ge> CMOCK_MEM_ALIGN_SIZE \<and> index < CMock_Guts_FreePtr g then Some (unat index) else None)"

definition CMock_Guts_MemBytesCapacity :: "cmock \<Rightarrow> 64 word" where
  "CMock_Guts_MemBytesCapacity g = of_nat (length (CMock_Guts_Buffer g)) - CMOCK_MEM_ALIGN_SIZE"

definition CMock_Guts_MemBytesFree :: "cmock \<Rightarrow> 64 word" where
  "CMock_Guts_MemBytesFree g = CMock_Guts_BufferSize g - CMock_Guts_FreePtr g"

definition CMock_Guts_MemBytesUsed :: "cmock \<Rightarrow> 64 word" where
  "CMock_Guts_MemBytesUsed g = CMock_Guts_FreePtr g - CMOCK_MEM_ALIGN_SIZE"

definition CMock_Guts_MemFreeAll :: "cmock \<Rightarrow> cmock" where
  "CMock_Guts_MemFreeAll g = g\<lparr>CMock_Guts_FreePtr := CMOCK_MEM_ALIGN_SIZE\<rparr>"

definition CMock_Guts_MemFreeFinal :: "cmock \<Rightarrow> cmock" where
  "CMock_Guts_MemFreeFinal g = g\<lparr>CMock_Guts_FreePtr := CMOCK_MEM_ALIGN_SIZE\<rparr>"

section \<open>Bytes of an index\<close>

lemma bit_bytes_index: "length bs \<le> 8 \<Longrightarrow> bit (bytes_index bs) n \<longleftrightarrow> n div 8 < length bs \<and> bit (bs ! (n div 8)) (n mod 8)"
proof (induction bs arbitrary: n)
  case Nil
  then show ?case by (simp add: bytes_index_def)
next
  case (Cons b bs)
  have e: "bit (bytes_index (b # bs)) n \<longleftrightarrow> (8 \<le> n \<and> n < 64 \<and> bit (bytes_index bs) (n - 8)) \<or> (n < 64 \<and> bit b n)"
    by (simp add: bytes_index_def bit_simps)
  have b: "bit b n \<Longrightarrow> n < 8" by (auto dest: bit_imp_le_length)
  show ?case
  proof (cases "n < 8")
    case True
    then show ?thesis unfolding e by simp
  next
    case False
    then obtain m where m: "n = m + 8" by (metis add.commute le_Suc_ex not_less)
    have s: "m < 56" if "m div 8 < length bs"
    proof -
      have "m div 8 < 7" using that Cons.prems by simp
      then show ?thesis by (simp add: div_less_iff_less_mult)
    qed
    have "(m + 8) div 8 = Suc (m div 8)" "(m + 8) mod 8 = m mod 8" by simp_all
    then show ?thesis using Cons.IH [of m] Cons.prems s b unfolding e by (auto simp: m)
  qed
qed

lemma index_round_trip [simp]: "bytes_index (index_bytes v) = v"
proof (intro bit_word_eqI)
  fix n assume n: "n < LENGTH(64)"
  then have d: "n div 8 < 8" by (simp add: div_less_iff_less_mult)
  have "bit (bytes_index (index_bytes v)) n \<longleftrightarrow> bit (ucast (drop_bit (8 * (n div 8)) v) :: byte) (n mod 8)"
    using d bit_bytes_index [of "index_bytes v" n] by (simp add: index_bytes_def)
  also have "\<dots> \<longleftrightarrow> bit v (8 * (n div 8) + n mod 8)" by (simp add: bit_simps)
  also have "\<dots> \<longleftrightarrow> bit v n" by simp
  finally show "bit (bytes_index (index_bytes v)) n \<longleftrightarrow> bit v n" .
qed

lemma length_index_bytes [simp]: "length (index_bytes v) = 8"
  by (simp add: index_bytes_def)

text \<open>Reading after writing: the same index, and one that does not overlap.\<close>

lemma load_store:
  assumes "unat a + 8 \<le> length (CMock_Guts_Buffer g)"
  shows "\<exists>g'. store_index a v g = (Inr (), g') \<and> load_index a g' = Inr v
    \<and> length (CMock_Guts_Buffer g') = length (CMock_Guts_Buffer g) \<and> CMock_Guts_FreePtr g' = CMock_Guts_FreePtr g
    \<and> CMock_Guts_BufferSize g' = CMock_Guts_BufferSize g
    \<and> (\<forall>b. unat b + 8 \<le> unat a \<or> unat a + 8 \<le> unat b \<longrightarrow> load_index b g' = load_index b g)
    \<and> (\<forall>i. i < unat a \<or> unat a + 8 \<le> i \<longrightarrow> i < length (CMock_Guts_Buffer g) \<longrightarrow> CMock_Guts_Buffer g' ! i = CMock_Guts_Buffer g ! i)"
proof -
  let ?b = "mem_put (unat a) (index_bytes v) (CMock_Guts_Buffer g)"
  have l: "length ?b = length (CMock_Guts_Buffer g)" using assms by simp
  have n: "?b ! i = CMock_Guts_Buffer g ! i" if "i < unat a \<or> unat a + 8 \<le> i" "i < length (CMock_Guts_Buffer g)" for i
    using nth_mem_put [of "unat a" "index_bytes v" "CMock_Guts_Buffer g" i] assms that by auto
  have "take 8 (drop (unat b) ?b) = take 8 (drop (unat b) (CMock_Guts_Buffer g))"
    if "unat b + 8 \<le> unat a \<or> unat a + 8 \<le> unat b" "unat b + 8 \<le> length (CMock_Guts_Buffer g)" for b :: "64 word"
    using that l by (intro nth_equalityI) (auto intro!: n)
  moreover have "take 8 (drop (unat a) ?b) = index_bytes v" using take_drop_mem_put [of "unat a" "index_bytes v"] assms by simp
  ultimately show ?thesis using assms l n by (auto simp: store_index_def load_index_def)
qed

section \<open>Chains\<close>

definition cmock_wf :: "cmock \<Rightarrow> bool" where
  "cmock_wf g \<longleftrightarrow> length (CMock_Guts_Buffer g) = 32776 \<and> CMock_Guts_BufferSize g = 32776
     \<and> 8 \<le> unat (CMock_Guts_FreePtr g) \<and> unat (CMock_Guts_FreePtr g) \<le> 32776 \<and> 8 dvd unat (CMock_Guts_FreePtr g)"

definition is_block :: "cmock \<Rightarrow> 64 word \<Rightarrow> bool" where
  "is_block g x \<longleftrightarrow> 16 \<le> unat x \<and> 8 dvd unat x \<and> unat x < unat (CMock_Guts_FreePtr g)"

text \<open>The abstraction: a chain is the list of its blocks.\<close>

fun block_chain :: "cmock \<Rightarrow> 64 word \<Rightarrow> 64 word list \<Rightarrow> bool" where
  "block_chain g i [] \<longleftrightarrow> i = 0"
| "block_chain g i (x # xs) \<longleftrightarrow> i = x \<and> is_block g x
     \<and> (case load_index (x - 8) g of Inl e \<Rightarrow> False | Inr i' \<Rightarrow> block_chain g i' xs)"

lemma initial_wf: "cmock_wf cmock_initial"
  by (simp add: cmock_wf_def cmock_initial_def)

lemma block_in_use: "is_block g x \<Longrightarrow> in_use x g \<and> x \<noteq> 0"
  by (auto simp: is_block_def in_use_def word_less_nat_alt word_le_nat_alt)

lemma unat_link: "16 \<le> unat x \<Longrightarrow> unat (x - 8 :: 64 word) = unat x - 8"
  by (simp add: unat_sub_if')

text \<open>The indices of different blocks do not overlap.\<close>

lemma links_apart:
  assumes "is_block g x" "is_block g y" "x \<noteq> y"
  shows "unat (y - 8) + 8 \<le> unat (x - 8) \<or> unat (x - 8) + 8 \<le> unat (y - 8)"
proof -
  obtain a b where ab: "unat x = 8 * a" "unat y = 8 * b" using assms by (auto simp: is_block_def elim!: dvdE)
  moreover have "unat x \<noteq> unat y" using assms(3) by (simp add: word_unat_eq_iff)
  ultimately have "a \<noteq> b" by auto
  then show ?thesis using assms(1,2) ab by (auto simp: is_block_def unat_link)
qed

lemma block_chain_deterministic: "\<lbrakk>block_chain g i xs; block_chain g i ys\<rbrakk> \<Longrightarrow> xs = ys"
proof (induction xs arbitrary: i ys)
  case Nil
  then show ?case using block_in_use by (cases ys) auto
next
  case (Cons x xs)
  then show ?case using block_in_use by (cases ys) (auto split: sum.splits)
qed

lemma block_chain_suffix: "block_chain g i (xs @ y # ys) \<Longrightarrow> block_chain g y (y # ys)"
  by (induction xs arbitrary: i) (auto split: sum.splits)

lemma block_chain_blocks: "block_chain g i xs \<Longrightarrow> list_all (is_block g) xs"
  by (induction xs arbitrary: i) (auto split: sum.splits)

lemma block_chain_distinct: "block_chain g i xs \<Longrightarrow> distinct xs"
proof (induction xs arbitrary: i)
  case (Cons x xs)
  have "x \<notin> set xs"
  proof
    assume "x \<in> set xs"
    then obtain b c where s: "xs = b @ x # c" by (auto dest: split_list)
    have "i = x" using Cons.prems by simp
    moreover have "block_chain g x (x # c)" using block_chain_suffix [of g i "x # b" x c] Cons.prems s by simp
    ultimately have "x # xs = x # c" using block_chain_deterministic Cons.prems by blast
    then have "length (b @ x # c) = length c" using s by simp
    then show False by simp
  qed
  then show ?case using Cons by (auto split: sum.splits)
qed simp

text \<open>A change of the memory that keeps the indices of the blocks keeps their chains.\<close>

lemma block_chain_cong:
  assumes "block_chain g i xs" and "unat (CMock_Guts_FreePtr g) \<le> unat (CMock_Guts_FreePtr g')"
    and "\<And>x. x \<in> set xs \<Longrightarrow> is_block g x \<Longrightarrow> load_index (x - 8) g' = load_index (x - 8) g"
  shows "block_chain g' i xs"
  using assms(1,3)
proof (induction xs arbitrary: i)
  case (Cons x xs)
  have "is_block g' x" using Cons.prems(1) assms(2) by (auto simp: is_block_def)
  then show ?case using Cons by (auto split: sum.splits)
qed simp

section \<open>New blocks\<close>

definition room :: "nat \<Rightarrow> nat" where
  "room n = (n + 15) div 8 * 8"

lemma unat_align:
  fixes n :: "64 word"
  assumes "unat n + 15 < 2 ^ 64"
  shows "unat (aligned_size n) = room (unat n)"
proof -
  have m: "(7 :: 64 word) = mask 3" by (simp add: mask_eq_exp_minus_1)
  have u: "unat (n + 8) = unat n + 8" "unat ((n + 8) + 7) = unat n + 15"
    using assms by (simp_all add: unat_word_ariths)
  have "w AND NOT 7 = push_bit 3 (drop_bit 3 w)" for w :: "64 word"
    unfolding m by (intro bit_word_eqI) (auto simp: bit_simps)
  moreover have "unat (push_bit 3 (drop_bit 3 w)) = unat w div 8 * 8" for w :: "64 word"
  proof -
    have "unat w div 8 * 8 \<le> unat w" by (simp add: div_times_less_eq_dividend)
    moreover have "unat w < 2 ^ 64" using unsigned_less [of w, where 'a = nat] by simp
    ultimately have "unat w div 8 * 8 < 2 ^ 64" by linarith
    then show ?thesis
      by (subst unsigned_push_bit_eq, subst unsigned_drop_bit_eq) (simp add: push_bit_eq_mult drop_bit_eq_div take_bit_nat_eq_self)
  qed
  moreover have "(n + 8) AND 7 = 0 \<longleftrightarrow> (unat n + 8) mod 8 = 0"
  proof -
    have "unat ((n + 8) AND 7) = (unat n + 8) mod 8"
      unfolding m take_bit_eq_mask [symmetric] unsigned_take_bit_eq u by (simp add: take_bit_eq_mod)
    then show ?thesis by (metis unat_0 unat_eq_zero)
  qed
  ultimately show ?thesis using u by (auto simp: room_def aligned_size_def)
qed

text \<open>
  A new block: its bytes are inside the memory and behind everything that is in use, it is a chain of its own, and
  the chains that exist stay as they are.
\<close>

lemma mem_new:
  fixes n :: "64 word"
  assumes wf: "cmock_wf g" and n: "1 \<le> n" "unat n + 15 < 2 ^ 64" and fits: "room (unat n) \<le> 32776 - unat (CMock_Guts_FreePtr g)"
  shows "\<exists>i g'. CMock_Guts_MemNew n g = (Inr i, g') \<and> cmock_wf g' \<and> unat i = unat (CMock_Guts_FreePtr g) + 8
    \<and> unat i + unat n \<le> unat (CMock_Guts_FreePtr g') \<and> unat (CMock_Guts_FreePtr g') = unat (CMock_Guts_FreePtr g) + room (unat n)
    \<and> block_chain g' i [i] \<and> (\<forall>j xs. block_chain g j xs \<longrightarrow> block_chain g' j xs)
    \<and> (\<forall>k < unat (CMock_Guts_FreePtr g). CMock_Guts_Buffer g' ! k = CMock_Guts_Buffer g ! k)"
proof -
  let ?f = "CMock_Guts_FreePtr g" and ?s = "aligned_size n"
  have w: "length (CMock_Guts_Buffer g) = 32776" "CMock_Guts_BufferSize g = 32776" "8 \<le> unat ?f" "unat ?f \<le> 32776" "8 dvd unat ?f"
    using wf by (simp_all add: cmock_wf_def)
  have s: "unat ?s = room (unat n)" by (rule unat_align [OF n(2)])
  have n1: "1 \<le> unat n" using n(1) by (simp add: word_le_nat_alt)
  have r: "unat n + 8 \<le> room (unat n)" "8 dvd room (unat n)" "16 \<le> room (unat n)" using n1 by (auto simp: room_def)
  have sub: "unat (32776 - ?f) = 32776 - unat ?f" using w(4) by (simp add: unat_sub_if')
  have ge: "\<not> CMock_Guts_BufferSize g - ?f < ?s" using w(2) sub fits s by (simp add: word_less_nat_alt)
  have f8: "unat ?f + 8 \<le> length (CMock_Guts_Buffer g)" using w fits r by simp
  from load_store [OF f8, of 0] obtain g1 where
    g1: "store_index ?f 0 g = (Inr (), g1)" "load_index ?f g1 = Inr 0" "length (CMock_Guts_Buffer g1) = 32776" "CMock_Guts_FreePtr g1 = ?f"
      "CMock_Guts_BufferSize g1 = 32776" "\<And>b. unat b + 8 \<le> unat ?f \<Longrightarrow> load_index b g1 = load_index b g"
      "\<And>i. i < unat ?f \<Longrightarrow> i < 32776 \<Longrightarrow> CMock_Guts_Buffer g1 ! i = CMock_Guts_Buffer g ! i"
    using w by auto
  let ?g = "g1\<lparr>CMock_Guts_FreePtr := ?f + ?s\<rparr>"
  have l: "load_index b ?g = load_index b g1" for b by (simp add: load_index_def)
  have e: "CMock_Guts_MemNew n g = (Inr (?f + 8), ?g)"
  proof -
    have "\<not> n < 1" using n1 unfolding word_less_nat_alt by simp
    then show ?thesis using ge g1(1,4) by (simp add: CMock_Guts_MemNew_def)
  qed
  have u: "unat (?f + 8) = unat ?f + 8" using w(4) by (simp add: unat_word_ariths)
  have uf: "unat (?f + ?s) = unat ?f + room (unat n)"
  proof -
    have "unat ?f + unat ?s < 2 ^ LENGTH(64)" using s fits w(4) by simp
    then show ?thesis using unat_add_lem [of ?f ?s] s by (metis (no_types, lifting))
  qed
  have wf': "cmock_wf ?g" using g1(3,5) uf w fits r by (simp add: cmock_wf_def)
  have "block_chain ?g (?f + 8) [?f + 8]"
    using u uf w r l g1(2) by (simp add: is_block_def)
  moreover have "block_chain ?g j xs" if "block_chain g j xs" for j xs
  proof (rule block_chain_cong [OF that])
    show "unat ?f \<le> unat (CMock_Guts_FreePtr ?g)" using uf by simp
  next
    fix x assume "is_block g x"
    then have x: "16 \<le> unat x" "unat x < unat ?f" by (simp_all add: is_block_def)
    then have "unat (x - 8) + 8 \<le> unat ?f" by (simp add: unat_link)
    from g1(6) [OF this] show "load_index (x - 8) ?g = load_index (x - 8) g" using l by simp
  qed
  ultimately show ?thesis using e u uf wf' r(1) g1(7) w(4) by (intro exI [of _ "?f + 8"] exI [of _ ?g]) simp
qed

lemma mem_new_refused:
  fixes n :: "64 word"
  assumes "cmock_wf g" and "n = 0 \<or> (unat n + 15 < 2 ^ 64 \<and> 32776 - unat (CMock_Guts_FreePtr g) < room (unat n))"
  shows "CMock_Guts_MemNew n g = (Inr 0, g)"
proof (cases "n = 0")
  case False
  let ?f = "CMock_Guts_FreePtr g" and ?s = "aligned_size n"
  have "unat ?s = room (unat n)" using assms(2) False by (intro unat_align) simp
  moreover have "unat (32776 - ?f) = 32776 - unat ?f" using assms(1) by (simp add: cmock_wf_def unat_sub_if')
  ultimately have "CMock_Guts_BufferSize g - ?f < ?s"
    using assms False by (simp add: cmock_wf_def word_less_nat_alt)
  then show ?thesis using False by (simp add: CMock_Guts_MemNew_def Let_def word_less_nat_alt)
qed (simp add: CMock_Guts_MemNew_def)

text \<open>A size close to the largest number wraps around: the call succeeds, with a block that has no bytes.\<close>

lemma mem_new_wraps:
  assumes "cmock_wf g" and "unat (CMock_Guts_FreePtr g) < 32776"
  shows "\<exists>g'. CMock_Guts_MemNew (- 1) g = (Inr (CMock_Guts_FreePtr g + 8), g') \<and> CMock_Guts_FreePtr g' = CMock_Guts_FreePtr g + 8"
proof -
  let ?f = "CMock_Guts_FreePtr g"
  have w: "length (CMock_Guts_Buffer g) = 32776" "CMock_Guts_BufferSize g = 32776" "8 dvd unat ?f" using assms(1) by (simp_all add: cmock_wf_def)
  then obtain a where "unat ?f = 8 * a" by (auto elim: dvdE)
  then have f8: "unat ?f + 8 \<le> 32776" using assms(2) by auto
  then have "unat (32776 - ?f) = 32776 - unat ?f" by (simp add: unat_sub_if')
  then have "\<not> 32776 - ?f < 8" using f8 by (simp add: word_less_nat_alt)
  moreover from load_store [of ?f g 0] f8 w obtain g1 where "store_index ?f 0 g = (Inr (), g1)" "CMock_Guts_FreePtr g1 = ?f" by auto
  ultimately show ?thesis using w by (simp add: CMock_Guts_MemNew_def aligned_size_def)
qed

section \<open>Linking and walking\<close>

lemma find_end_chain:
  "block_chain g i (x # xs) \<Longrightarrow> find_end g i = Some (Inr (Some (last (x # xs))))"
proof (induction xs arbitrary: i x)
  case Nil
  then show ?case by (auto simp: find_end.simps [of g x] is_block_def word_le_nat_alt split: sum.splits)
next
  case (Cons y ys)
  then have "is_block g y" "load_index (x - 8) g = Inr y" "block_chain g y (y # ys)" "i = x" by (auto split: sum.splits)
  then show ?case using Cons.IH [of y y]
    by (auto simp: find_end.simps [of g x] is_block_def word_le_nat_alt word_less_nat_alt)
qed

text \<open>A chain linked to another, of other blocks, is the two in a row; every chain that shares no block with the first stays.\<close>

lemma mem_chain:
  assumes wf: "cmock_wf g" and r: "block_chain g r xs" "xs \<noteq> []" and o: "block_chain g o' ys" "ys \<noteq> []" and d: "set xs \<inter> set ys = {}"
  shows "\<exists>g'. CMock_Guts_MemChain r o' g = Some (Inr r, g') \<and> cmock_wf g' \<and> CMock_Guts_FreePtr g' = CMock_Guts_FreePtr g
    \<and> block_chain g' r (xs @ ys) \<and> (\<forall>j zs. block_chain g j zs \<longrightarrow> set xs \<inter> set zs = {} \<longrightarrow> block_chain g' j zs)"
proof -
  let ?l = "last xs"
  have ir: "is_block g r" and io: "is_block g o'" using r o by (cases xs; cases ys; auto)+
  have xl: "xs = butlast xs @ [?l]" using r(2) by simp
  have il: "is_block g ?l" using block_chain_blocks [OF r(1)] r(2) by (simp add: list_all_iff)
  have e: "find_end g r = Some (Inr (Some ?l))"
    using find_end_chain [of g r "hd xs" "tl xs"] r by simp
  have "unat (?l - 8) + 8 \<le> length (CMock_Guts_Buffer g)"
    using il wf by (simp add: is_block_def cmock_wf_def unat_link)
  from load_store [OF this, of o'] obtain g' where g: "store_index (?l - 8) o' g = (Inr (), g')" "load_index (?l - 8) g' = Inr o'"
      "length (CMock_Guts_Buffer g') = length (CMock_Guts_Buffer g)" "CMock_Guts_FreePtr g' = CMock_Guts_FreePtr g"
      "CMock_Guts_BufferSize g' = CMock_Guts_BufferSize g"
      "\<And>b. unat b + 8 \<le> unat (?l - 8) \<or> unat (?l - 8) + 8 \<le> unat b \<Longrightarrow> load_index b g' = load_index b g" by blast
  have other: "load_index (x - 8) g' = load_index (x - 8) g" if "is_block g x" "x \<noteq> ?l" for x
    using links_apart [OF il that(1)] that(2) by (intro g(6)) blast
  have keep: "block_chain g' j zs" if "block_chain g j zs" "?l \<notin> set zs" for j zs
    using that g(4) by (intro block_chain_cong [OF that(1)]) (auto intro!: other)
  have blk: "is_block g' x = is_block g x" for x using g(4) by (simp add: is_block_def)
  have yk: "block_chain g' o' ys" using o(1) d last_in_set [OF r(2)] by (intro keep) blast+
  have "block_chain g' j (bs @ ys)" if "block_chain g j bs" "bs \<noteq> []" "last bs = ?l" "distinct bs" for j bs
    using that
  proof (induction bs arbitrary: j)
    case (Cons b bs)
    then have b: "is_block g b" "j = b" by auto
    show ?case
    proof (cases "bs = []")
      case True
      then show ?thesis using Cons.prems b g(2) yk blk by simp
    next
      case False
      then have "b \<noteq> ?l" using Cons.prems by (metis distinct.simps(2) last_ConsR last_in_set)
      then have "load_index (b - 8) g' = load_index (b - 8) g" using other b by simp
      then show ?thesis using Cons False b blk by (auto split: sum.splits)
    qed
  qed simp
  from this [OF r refl block_chain_distinct [OF r(1)]] have "block_chain g' r (xs @ ys)" .
  moreover have "block_chain g' j zs" if "block_chain g j zs" "set xs \<inter> set zs = {}" for j zs
    using that last_in_set [OF r(2)] by (intro keep) blast+
  moreover have "CMock_Guts_MemChain r o' g = Some (Inr r, g')"
    using block_in_use [OF ir] block_in_use [OF io] e g(1) by (simp add: CMock_Guts_MemChain_def)
  moreover have "cmock_wf g'" using wf g by (simp add: cmock_wf_def)
  ultimately show ?thesis using g(4) by blast
qed

lemma mem_next:
  assumes "block_chain g r (xs @ x # ys)"
  shows "CMock_Guts_MemNext x g = Inr (case ys of [] \<Rightarrow> 0 | y # _ \<Rightarrow> y)"
proof -
  have c: "block_chain g x (x # ys)" by (rule block_chain_suffix [OF assms])
  then have x: "is_block g x" by simp
  show ?thesis
  proof (cases ys)
    case Nil
    then show ?thesis using c block_in_use [OF x] by (auto simp: CMock_Guts_MemNext_def split: sum.splits)
  next
    case (Cons y zs)
    then have y: "is_block g y" "load_index (x - 8) g = Inr y" using c by (auto split: sum.splits)
    then have "1 < y \<and> y < CMock_Guts_FreePtr g" by (auto simp: is_block_def word_less_nat_alt)
    then show ?thesis using Cons y block_in_use [OF x] by (simp add: CMock_Guts_MemNext_def)
  qed
qed

lemma end_of_chain_last:
  "block_chain g i (x # xs) \<Longrightarrow> end_of_chain g j i = Some (Inr (last (x # xs)))"
proof (induction xs arbitrary: i j x)
  case Nil
  then have i: "i = x" "is_block g x" by auto
  then show ?case using mem_next [of g x "[]" x "[]"] Nil block_in_use [OF i(2)]
    by (simp add: end_of_chain.simps [of g j x] end_of_chain.simps [of g x 0])
next
  case (Cons y ys)
  then have i: "i = x" "is_block g x" "block_chain g y (y # ys)" by (auto split: sum.splits)
  have "CMock_Guts_MemNext x g = Inr y" using mem_next [of g x "[]" x "y # ys"] Cons.prems i(1) by simp
  then show ?case using Cons.IH [OF i(3), of x] block_in_use [OF i(2)] i(1)
    by (simp add: end_of_chain.simps [of g j x])
qed

lemma mem_end_of_chain:
  assumes "block_chain g r xs"
  shows "CMock_Guts_MemEndOfChain r g = Some (Inr (if xs = [] then 0 else last xs))"
  using assms end_of_chain_last [of g r "hd xs" "tl xs" r]
  by (cases xs) (simp_all add: CMock_Guts_MemEndOfChain_def end_of_chain.simps [of g 0 0])

text \<open>The address of a block is its offset, and the bytes used and free make up the capacity.\<close>

lemma address_of_block: "is_block g x \<Longrightarrow> CMock_Guts_GetAddressFor x g = Some (unat x)"
  by (auto simp: is_block_def CMock_Guts_GetAddressFor_def word_le_nat_alt word_less_nat_alt)

lemma capacity:
  assumes "cmock_wf g"
  shows "unat (CMock_Guts_MemBytesUsed g) + unat (CMock_Guts_MemBytesFree g) = unat (CMock_Guts_MemBytesCapacity g)"
proof -
  let ?f = "CMock_Guts_FreePtr g"
  have w: "length (CMock_Guts_Buffer g) = 32776" "CMock_Guts_BufferSize g = 32776" "8 \<le> unat ?f" "unat ?f \<le> 32776"
    using assms by (simp_all add: cmock_wf_def)
  then have "unat (32776 - ?f) = 32776 - unat ?f" "unat (?f - 8) = unat ?f - 8" by (simp_all add: unat_sub_if')
  then show ?thesis using w
    by (simp add: CMock_Guts_MemBytesUsed_def CMock_Guts_MemBytesFree_def CMock_Guts_MemBytesCapacity_def)
qed

lemma free_all_wf:
  assumes "cmock_wf g"
  shows "cmock_wf (CMock_Guts_MemFreeAll g) \<and> CMock_Guts_MemBytesUsed (CMock_Guts_MemFreeAll g) = 0
    \<and> CMock_Guts_MemFreeFinal g = CMock_Guts_MemFreeAll g"
  using assms by (simp add: cmock_wf_def CMock_Guts_MemFreeAll_def CMock_Guts_MemFreeFinal_def CMock_Guts_MemBytesUsed_def)

end
