(* ===== verification/Printing.thy ===== *)
theory Printing
  imports Loopbacks Circular_Buffer_Io
begin

text \<open>
  The functions that show the state for debugging: \<^verbatim>\<open>circular_buffer_print_uint8\<close> and
  \<^verbatim>\<open>circular_buffer_io_fd_poll_print\<close>. A stream is the text that was written to it; the text of a
  pointer (\<^verbatim>\<open>%p\<close>), which C leaves to the library, is a parameter.
\<close>

unbundle bit_operations_syntax

section \<open>Formats\<close>

definition fprintf :: "byte list \<Rightarrow> byte list \<Rightarrow> (unit, byte list) res" where
  "fprintf text outfile = (Inr (), outfile @ text)"

text \<open>\<^verbatim>\<open>%i\<close> and \<^verbatim>\<open>%hi\<close>, and a field of at least \<open>w\<close> characters.\<close>

definition signed_decimal :: "int \<Rightarrow> byte list" where
  "signed_decimal n = (if n < 0 then 0x2D # decimal (nat (- n)) else decimal (nat n))"

definition field :: "nat \<Rightarrow> byte list \<Rightarrow> byte list" where
  "field w s = replicate (w - length s) 0x20 @ s"

definition show_byte :: "byte \<Rightarrow> byte list" where
  "show_byte thisChar =
     (if thisChar = 0x0A then chars [CHR 0x5C, CHR ''n'']
      else if thisChar < 0x20 \<or> thisChar \<ge> 0x7F then chars [CHR 0x5C, CHR ''x''] @ hex_digits True 2 thisChar
      else [thisChar])"

section \<open>The circular buffer\<close>

definition print_elements :: "(byte \<Rightarrow> byte list) \<Rightarrow> circular_buffer_uint8 \<Rightarrow> byte list \<Rightarrow> (unit, byte list) res" where
  "print_elements text circ_buf =
     for_each (\<lambda>i outfile. bind_res (circular_buffer_get_element_uint8 circ_buf (of_nat i), outfile) (\<lambda>thisChar. fprintf (text thisChar)))
       [0..<unat (cb_size circ_buf)]"

definition print_memory :: "(byte \<Rightarrow> byte list) \<Rightarrow> circular_buffer_uint8 \<Rightarrow> byte list \<Rightarrow> (unit, byte list) res" where
  "print_memory text circ_buf =
     for_each (\<lambda>i outfile. bind_res (mem_read (buffer circ_buf) (of_nat i), outfile) (\<lambda>thisChar. fprintf (text thisChar)))
       [0..<unat (capacity circ_buf)]"

definition spaced :: "byte \<Rightarrow> byte list" where
  "spaced b = decimal (unat b) @ [0x20]"

definition only_if :: "bool \<Rightarrow> ('s \<Rightarrow> (unit, 's) res) \<Rightarrow> 's \<Rightarrow> (unit, 's) res" where
  "only_if c f s = (if c then f s else (Inr (), s))"

definition circular_buffer_print_uint8 ::
  "byte list \<Rightarrow> circular_buffer_uint8 \<Rightarrow> byte \<Rightarrow> byte list \<Rightarrow> (unit, byte list) res" where
  "circular_buffer_print_uint8 pointer circ_buf verbosity outfile =
     bind_res (fprintf (chars ''circular_buffer_uint8, capacity: '' @ decimal (unat (capacity circ_buf))
         @ chars '' size: '' @ decimal (unat (cb_size circ_buf))) outfile) (\<lambda>_ outfile.
     bind_res (only_if (verbosity \<ge> 2) (fprintf (chars ''  iStart: '' @ decimal (unat (iStart circ_buf))
         @ chars '' iStop '' @ decimal (unat (iStop circ_buf)) @ chars '' buffer: '' @ pointer @ [chr_end])) outfile) (\<lambda>_ outfile.
     bind_res (only_if (verbosity \<ge> 3) (\<lambda>outfile.
         bind_res (fprintf (chars ''  Content: [ '') outfile) (\<lambda>_ outfile.
         bind_res (print_elements spaced circ_buf outfile) (\<lambda>_.
           fprintf (chars '']'' @ [chr_end])))) outfile) (\<lambda>_ outfile.
     bind_res (only_if (verbosity \<ge> 4) (\<lambda>outfile.
         bind_res (fprintf (chars ''  Raw Memory: [ '') outfile) (\<lambda>_ outfile.
         bind_res (print_memory spaced circ_buf outfile) (\<lambda>_.
           fprintf (chars '']'' @ [chr_end])))) outfile) (\<lambda>_ outfile.
     bind_res (fprintf (chars ''  Content as string: '') outfile) (\<lambda>_ outfile.
     bind_res (print_elements show_byte circ_buf outfile) (\<lambda>_ outfile.
     bind_res (fprintf [chr_end] outfile) (\<lambda>_.
       only_if (verbosity \<ge> 1) (\<lambda>outfile.
         bind_res (fprintf (chars ''  Raw memory as string: '') outfile) (\<lambda>_ outfile.
         bind_res (print_memory show_byte circ_buf outfile) (\<lambda>_.
           fprintf [chr_end]))))))))))"

subsection \<open>What is printed\<close>

lemma for_each_fprintf:
  assumes "\<And>i. i \<in> set is \<Longrightarrow> r i = Inr (v i)"
  shows "for_each (\<lambda>i outfile. bind_res (r i, outfile) (\<lambda>x. fprintf (text x))) is outfile =
    (Inr (), outfile @ concat (map (\<lambda>i. text (v i)) is))"
  using assms by (induction "is" arbitrary: outfile) (simp_all add: fprintf_def)

lemma map_of_index: "map (\<lambda>i. f (xs ! i)) [0..<length xs] = map f xs"
  by (rule nth_equalityI) simp_all

lemma print_elements_ok:
  assumes "cb_wf cb"
  shows "print_elements text cb outfile = (Inr (), outfile @ concat (map text (cb_list cb)))"
proof -
  have "for_each (\<lambda>i outfile. bind_res (circular_buffer_get_element_uint8 cb (of_nat i), outfile) (\<lambda>x. fprintf (text x)))
      [0..<length (cb_list cb)] outfile = (Inr (), outfile @ concat (map (\<lambda>i. text (cb_list cb ! i)) [0..<length (cb_list cb)]))"
  proof (rule for_each_fprintf)
    fix i assume "i \<in> set [0..<length (cb_list cb)]"
    then have i: "i < length (cb_list cb)" by simp
    then have "unat (of_nat i :: size_t) = i" using less_trans [OF _ unat_less_64 [of "cb_size cb"], of i] by (intro unat_of_nat_64) simp
    then show "circular_buffer_get_element_uint8 cb (of_nat i) = Inr (cb_list cb ! i)"
      using get_element_refines [OF assms, of "of_nat i"] i by (simp del: length_cb_list)
  qed
  then show ?thesis by (simp add: print_elements_def map_of_index flip: length_cb_list)
qed

lemma print_memory_ok:
  assumes "cb_wf cb"
  shows "print_memory text cb outfile = (Inr (), outfile @ concat (map text (take (cb_cap cb) (buffer cb))))"
proof -
  have l: "cb_cap cb \<le> length (buffer cb)" using cb_wfD(2) [OF assms] by (simp add: cb_cap_def)
  have "for_each (\<lambda>i outfile. bind_res (mem_read (buffer cb) (of_nat i), outfile) (\<lambda>x. fprintf (text x)))
      [0..<cb_cap cb] outfile = (Inr (), outfile @ concat (map (\<lambda>i. text (take (cb_cap cb) (buffer cb) ! i)) [0..<cb_cap cb]))"
  proof (rule for_each_fprintf)
    fix i assume "i \<in> set [0..<cb_cap cb]"
    then have i: "i < cb_cap cb" by simp
    then have "unat (of_nat i :: size_t) = i" using less_trans [OF _ unat_less_64 [of "capacity cb"], of i] by (intro unat_of_nat_64) (simp add: cb_cap_def)
    then show "mem_read (buffer cb) (of_nat i) = Inr (take (cb_cap cb) (buffer cb) ! i)" using i l by simp
  qed
  moreover have "length (take (cb_cap cb) (buffer cb)) = cb_cap cb" using l by simp
  ultimately show ?thesis using map_of_index [of "text" "take (cb_cap cb) (buffer cb)"] by (simp add: print_memory_def cb_cap_def)
qed

text \<open>The text: what each verbosity adds, and always the contents in their order.\<close>

definition when_text :: "bool \<Rightarrow> byte list \<Rightarrow> byte list" where
  "when_text c t = (if c then t else [])"

lemma circular_buffer_print_text:
  assumes "cb_wf cb"
  shows "circular_buffer_print_uint8 pointer cb verbosity outfile =
    (Inr (), outfile
      @ chars ''circular_buffer_uint8, capacity: '' @ decimal (cb_cap cb) @ chars '' size: '' @ decimal (length (cb_list cb))
      @ when_text (verbosity \<ge> 2) (chars ''  iStart: '' @ decimal (unat (iStart cb)) @ chars '' iStop '' @ decimal (unat (iStop cb))
          @ chars '' buffer: '' @ pointer @ [chr_end])
      @ when_text (verbosity \<ge> 3) (chars ''  Content: [ '' @ concat (map spaced (cb_list cb)) @ chars '']'' @ [chr_end])
      @ when_text (verbosity \<ge> 4) (chars ''  Raw Memory: [ '' @ concat (map spaced (take (cb_cap cb) (buffer cb))) @ chars '']'' @ [chr_end])
      @ chars ''  Content as string: '' @ concat (map show_byte (cb_list cb)) @ [chr_end]
      @ when_text (verbosity \<ge> 1) (chars ''  Raw memory as string: '' @ concat (map show_byte (take (cb_cap cb) (buffer cb))) @ [chr_end]))"
  by (cases "verbosity \<ge> 1"; cases "verbosity \<ge> 2"; cases "verbosity \<ge> 3"; cases "verbosity \<ge> 4")
    (simp_all only: circular_buffer_print_uint8_def only_if_def when_text_def fprintf_def bind_res_simps if_True if_False
      print_elements_ok [OF assms] print_memory_ok [OF assms] append_assoc append_Nil append_Nil2 cb_cap_def length_cb_list)

text \<open>
  The contents can be read back from the string, unless they have a backslash: it is printed as it is, so that a
  newline and the two characters backslash and n look the same.
\<close>

lemma show_byte_simps:
  "show_byte 0x0A = [0x5C, 0x6E]"
  "b \<noteq> 0x0A \<Longrightarrow> b < 0x20 \<or> b \<ge> 0x7F \<Longrightarrow> show_byte b = 0x5C # 0x78 # hex_digits True 2 b"
  "\<not> (b < 0x20 \<or> b \<ge> 0x7F) \<Longrightarrow> show_byte b = [b]"
proof -
  have "b \<noteq> 0x0A" if "\<not> (b < 0x20 \<or> b \<ge> 0x7F)" using that by auto
  then show "\<not> (b < 0x20 \<or> b \<ge> 0x7F) \<Longrightarrow> show_byte b = [b]" by (simp add: show_byte_def)
qed (simp_all add: show_byte_def chars_def)

lemma show_byte_prefix:
  assumes "show_byte a @ s = show_byte b @ t" and "a \<noteq> 0x5C" and "b \<noteq> 0x5C"
  shows "a = b \<and> s = t"
proof -
  have hex: "a = b \<and> s = t" if "hex_digits True 2 a @ s = hex_digits True 2 b @ t"
  proof -
    have l: "length (hex_digits True 2 a) = length (hex_digits True 2 b)" by (simp only: length_hex_digits)
    from that have "hex_digits True 2 a = hex_digits True 2 b \<and> s = t" by (simp only: append_eq_append_conv [OF disjI1 [OF l]])
    moreover have "hex_word (hex_digits True 2 a) = Some a" "hex_word (hex_digits True 2 b) = Some b"
      by (rule hex_word_digits, simp)+
    ultimately show ?thesis by (metis option.inject)
  qed
  consider "\<not> (a < 0x20 \<or> a \<ge> 0x7F)" | "a = 0x0A" | "a \<noteq> 0x0A" "a < 0x20 \<or> a \<ge> 0x7F" by blast
  then show ?thesis
  proof cases
    case 1
    from assms(1) have e: "a # s = show_byte b @ t" by (simp only: show_byte_simps(3) [OF 1] append.simps)
    show ?thesis
    proof (cases "b < 0x20 \<or> b \<ge> 0x7F")
      case True
      then have "\<exists>u. show_byte b = 0x5C # u" using show_byte_simps(1) show_byte_simps(2) [of b] by (cases "b = 0x0A") auto
      then show ?thesis using e assms(2) by auto
    next
      case False
      from e show ?thesis by (simp add: show_byte_simps(3) [OF False])
    qed
  next
    case 2
    from assms(1) have e: "0x5C # 0x6E # s = show_byte b @ t" by (simp only: 2 show_byte_simps(1) append.simps)
    show ?thesis
    proof (cases "b < 0x20 \<or> b \<ge> 0x7F")
      case True
      then show ?thesis using e 2 show_byte_simps(1) show_byte_simps(2) [of b] by (cases "b = 0x0A") auto
    next
      case False
      from e show ?thesis using assms(3) by (simp add: show_byte_simps(3) [OF False])
    qed
  next
    case 3
    from assms(1) have e: "0x5C # 0x78 # hex_digits True 2 a @ s = show_byte b @ t" by (simp only: show_byte_simps(2) [OF 3] append.simps)
    show ?thesis
    proof (cases "b < 0x20 \<or> b \<ge> 0x7F")
      case True
      show ?thesis
      proof (cases "b = 0x0A")
        case True
        from e show ?thesis by (simp add: True show_byte_simps(1))
      next
        case False
        from e have "hex_digits True 2 a @ s = hex_digits True 2 b @ t" by (simp only: show_byte_simps(2) [OF False True] append.simps list.inject)
        then show ?thesis by (rule hex)
      qed
    next
      case False
      from e show ?thesis using assms(3) by (simp add: show_byte_simps(3) [OF False])
    qed
  qed
qed

lemma show_byte_nonempty: "show_byte b \<noteq> []"
  by (auto simp: show_byte_def chars_def)

lemma show_bytes_inject:
  assumes "concat (map show_byte xs) = concat (map show_byte ys)" and "0x5C \<notin> set xs" and "0x5C \<notin> set ys"
  shows "xs = ys"
  using assms
proof (induction xs arbitrary: ys)
  case Nil
  then show ?case using show_byte_nonempty by (cases ys) auto
next
  case (Cons x xs)
  then obtain y zs where ys: "ys = y # zs" using show_byte_nonempty [of x] by (cases ys) auto
  then show ?case using Cons show_byte_prefix [of x "concat (map show_byte xs)" y "concat (map show_byte zs)"] by auto
qed

lemma backslash_ambiguous: "concat (map show_byte [0x5C, 0x6E]) = concat (map show_byte [0x0A])"
  by (simp add: show_byte_def chars_def)

section \<open>The polled files\<close>

abbreviation POLLPRI :: "16 word" where "POLLPRI \<equiv> 0x02"

definition print_row :: "string \<Rightarrow> 16 word \<Rightarrow> 16 word \<Rightarrow> byte list \<Rightarrow> (unit, byte list) res" where
  "print_row name e r =
     fprintf (field 12 (chars name) @ field 12 (signed_decimal (sint e)) @ field 12 (signed_decimal (sint r)) @ [chr_end])"

definition circular_buffer_io_fd_poll_print ::
  "byte list \<Rightarrow> byte list \<Rightarrow> 'm circular_buffer_io_fd_poll \<Rightarrow> byte list \<Rightarrow> (unit, byte list) res" where
  "circular_buffer_io_fd_poll_print in_ptr out_ptr cb_io stream =
     (let e0 = events (fst (io_fds cb_io)); r0 = revents (fst (io_fds cb_io));
          e1 = events (snd (io_fds cb_io)); r1 = revents (snd (io_fds cb_io)) in
      bind_res (fprintf (chars ''circular_buffer_io_fd_poll: in buf: '' @ in_ptr @ chars '', out buf: '' @ out_ptr
          @ chars '', in fd: '' @ signed_decimal (io_fd_in cb_io) @ chars '', out fd: '' @ signed_decimal (io_fd_out cb_io) @ [chr_end]) stream) (\<lambda>_ stream.
      bind_res (fprintf (field 12 [] @ field 12 (chars ''events'') @ field 12 (chars ''revents'') @ [chr_end]) stream) (\<lambda>_ stream.
      bind_res (print_row ''in POLLIN'' (e0 AND POLLIN) (r0 AND POLLIN) stream) (\<lambda>_ stream.
      bind_res (print_row ''in POLLPRI'' (e0 AND POLLPRI) (r0 AND POLLPRI) stream) (\<lambda>_ stream.
      bind_res (print_row ''in POLLOUT'' (e0 AND POLLOUT) (r0 AND POLLOUT) stream) (\<lambda>_ stream.
      bind_res (print_row ''in POLLHUP'' (e0 AND POLLHUP) (r0 AND POLLHUP) stream) (\<lambda>_ stream.
      bind_res (print_row ''out POLLIN'' (e1 AND POLLIN) (r1 AND POLLIN) stream) (\<lambda>_ stream.
      bind_res (print_row ''out POLLPRI'' (e1 AND POLLPRI) (r1 AND POLLPRI) stream) (\<lambda>_ stream.
      bind_res (print_row ''out POLLOUT'' (e1 AND POLLOUT) (r1 AND POLLOUT) stream) (\<lambda>_ stream.
      bind_res (print_row ''out POLLHUP'' (e1 AND POLLHUP) (r1 AND POLLHUP) stream) (\<lambda>_ stream.
      bind_res (print_row ''in raw'' e0 r0 stream) (\<lambda>_ stream.
        print_row ''out raw'' e1 r1 stream))))))))))))"

text \<open>Every row of the table has the same width, whatever the values are.\<close>

lemma length_decimal: "n < 10 ^ Suc k \<Longrightarrow> length (decimal n) \<le> Suc k"
proof (induction k arbitrary: n)
  case 0
  then show ?case by simp
next
  case (Suc k)
  show ?case
  proof (cases "n < 10")
    case False
    have "n div 10 < 10 ^ Suc k" using Suc.prems by (simp add: less_mult_imp_div_less)
    from Suc.IH [OF this] False show ?thesis by (subst decimal.simps) (simp del: decimal.simps)
  qed simp
qed

lemma length_short: "length (signed_decimal (sint (w :: 16 word))) \<le> 6"
proof -
  have "- 32768 \<le> sint w" "sint w < 32768" using sint_ge [of w] sint_lt [of w] by simp_all
  then have "nat (- sint w) < 10 ^ Suc 4" "nat (sint w) < 10 ^ Suc 4" by simp_all
  from this [THEN length_decimal] show ?thesis by (simp add: signed_decimal_def del: decimal.simps)
qed

lemma length_field: "length s \<le> w \<Longrightarrow> length (field w s) = w"
  by (simp add: field_def)

lemma print_row_width:
  assumes "length name \<le> 12"
  shows "\<exists>row. print_row name e r stream = (Inr (), stream @ row @ [chr_end]) \<and> length row = 36"
proof -
  have n: "length (chars name) \<le> 12" using assms by (simp add: chars_def)
  have s: "length (signed_decimal (sint w)) \<le> 12" for w :: "16 word" using length_short [of w] by simp
  show ?thesis unfolding print_row_def fprintf_def
    by (intro exI [of _ "field 12 (chars name) @ field 12 (signed_decimal (sint e)) @ field 12 (signed_decimal (sint r))"])
      (simp add: length_field [OF n] length_field [OF s])
qed

text \<open>The number of a flag is 1 exactly when the flag is set.\<close>

lemma flag_shown: "signed_decimal (sint (w AND POLLIN)) = (if bit w 0 then [0x31] else [0x30])"
proof -
  have "w AND 1 = (if bit w 0 then 1 else 0)" by (auto simp: and_one_eq bit_0 odd_iff_mod_2_eq_one)
  then show ?thesis by (simp add: signed_decimal_def)
qed

end
