(* ===== verification/Buffer_Calls.thy ===== *)
theory Buffer_Calls
  imports Circular_Buffer_Io Frame_Sync
begin

text \<open>
  A circular buffer over its lifetime: the calls that change it as values, and what every sequence of them keeps,
  also when some of them throw and the caller goes on. The calls that only read are left out, and so is the one that reads
  from a file descriptor, of which \<open>push_back_from_fd_refines\<close> in \<open>Circular_Buffer_Io\<close> shows what it keeps.
\<close>

section \<open>Calls\<close>

datatype cb_call =
    Push_Front byte
  | Push_Back byte
  | Pop_Front
  | Pop_Back
  | Remove_Front_To byte bool
  | Remove_Back_To byte bool
  | Delete_First_Block
  | Push_Back_Block "byte list" size_t
  | Push_Back_String "byte list"
  | Pop_Front_Block "byte list" size_t
  | Remove_Front_Unfinished_Frames byte byte
  | Pop_Front_To_Fd int size_t
  | Clear

text \<open>A file that takes at most \<open>k\<close> of the bytes that it is offered.\<close>

definition takes_at_most :: "size_t \<Rightarrow> unit posix" where
  "takes_at_most k = \<lparr>posix_read = \<lambda>_ _ f. (None, f), posix_write = \<lambda>_ bs f. (Some (min k (of_nat (length bs))), f),
     posix_poll = \<lambda>_ _ f. (0, (0, 0), f)\<rparr>"

fun run_call :: "cb_call \<Rightarrow> circular_buffer_uint8 \<Rightarrow> (unit, circular_buffer_uint8) res" where
  "run_call (Push_Front b) cb = circular_buffer_push_front_uint8 cb b"
| "run_call (Push_Back b) cb = circular_buffer_push_back_uint8 cb b"
| "run_call Pop_Front cb = discard (circular_buffer_pop_front_uint8 cb)"
| "run_call Pop_Back cb = discard (circular_buffer_pop_back_uint8 cb)"
| "run_call (Remove_Front_To b incl) cb = circular_buffer_remove_front_to_uint8 cb b incl"
| "run_call (Remove_Back_To b incl) cb = circular_buffer_remove_back_to_uint8 cb b incl"
| "run_call Delete_First_Block cb = discard (circular_buffer_delete_first_block_uint8 cb)"
| "run_call (Push_Back_Block source n) cb = circular_buffer_push_back_block_uint8 cb source n"
| "run_call (Push_Back_String string) cb = discard (circular_buffer_push_back_string_uint8 cb string)"
| "run_call (Pop_Front_Block dest n) cb =
     (case discard (circular_buffer_pop_front_block_uint8 cb dest n) of (r, s) \<Rightarrow> (r, snd s))"
| "run_call (Remove_Front_Unfinished_Frames st en) cb = discard (circular_buffer_remove_front_unfinished_frames_uint8 cb st en)"
| "run_call (Pop_Front_To_Fd fd k) cb =
     (case discard (circular_buffer_pop_front_to_fd_uint8 (takes_at_most k) fd (cb, ())) of (r, s) \<Rightarrow> (r, fst s))"
| "run_call Clear cb = (Inr (), circular_buffer_clear_uint8 cb)"

text \<open>What the caller has to see to: arrays as long as it says, a string with an end, and a start character below 128.\<close>

fun allowed :: "cb_call \<Rightarrow> bool" where
  "allowed (Push_Back_Block source n) \<longleftrightarrow> unat n \<le> length source"
| "allowed (Push_Back_String string) \<longleftrightarrow> 0 \<in> set string"
| "allowed (Pop_Front_Block dest n) \<longleftrightarrow> unat n \<le> length dest"
| "allowed (Remove_Front_Unfinished_Frames st en) \<longleftrightarrow> 0 \<le> sint st"
| "allowed _ \<longleftrightarrow> True"

definition run_calls :: "cb_call list \<Rightarrow> circular_buffer_uint8 \<Rightarrow> circular_buffer_uint8" where
  "run_calls cs cb = fold (\<lambda>c cb. snd (run_call c cb)) cs cb"

section \<open>What they keep\<close>

definition sound :: "nat \<Rightarrow> (unit, circular_buffer_uint8) res \<Rightarrow> bool" where
  "sound n r \<longleftrightarrow> (fst r = Inr () \<or> fst r = Inl (Throw ASC_ERROR_CB_POP_EMPTY)) \<and> cb_wf (snd r) \<and> cb_cap (snd r) = n"

lemma returns_sound: "cb_returns r () n xs \<Longrightarrow> sound n r"
  by (simp add: cb_returns_def sound_def)

lemma pop_sound:
  assumes "cb_wf cb"
  shows "sound (cb_cap cb) (discard (circular_buffer_pop_front_uint8 cb))" and "sound (cb_cap cb) (discard (circular_buffer_pop_back_uint8 cb))"
proof -
  show "sound (cb_cap cb) (discard (circular_buffer_pop_front_uint8 cb))"
  proof (cases "cb_size cb = 0")
    case True
    then show ?thesis using assms by (simp add: circular_buffer_pop_front_uint8_def sound_def)
  next
    case False
    from pop_front_refines [OF assms this] show ?thesis by (simp add: sound_def)
  qed
  show "sound (cb_cap cb) (discard (circular_buffer_pop_back_uint8 cb))"
  proof (cases "cb_size cb = 0")
    case True
    then show ?thesis using assms by (simp add: circular_buffer_pop_back_uint8_def sound_def)
  next
    case False
    from pop_back_refines [OF assms this] show ?thesis by (simp add: sound_def)
  qed
qed

lemma run_call_sound:
  assumes wf: "cb_wf cb" and ok: "allowed c"
  shows "sound (cb_cap cb) (run_call c cb)"
proof (cases c)
  case (Push_Front b)
  then show ?thesis using push_front_refines [OF wf, of b] by (simp add: sound_def)
next
  case (Push_Back_String string)
  then obtain xs rest where "string = xs @ 0 # rest" "0 \<notin> set xs" using ok by (auto dest: split_list_first)
  then show ?thesis using Push_Back_String push_back_string_returns [OF wf, of xs rest] by (auto intro!: returns_sound cb_returns_discard)
next
  case (Pop_Front_Block dest n)
  then show ?thesis using pop_front_block_returns [OF wf, of n dest] ok by (auto simp: sound_def discard_def)
next
  case (Remove_Front_Unfinished_Frames st en)
  then have "0 \<le> sint st" using ok by simp
  from remove_unfinished_frames_returns [OF wf this, of en] show ?thesis
    using Remove_Front_Unfinished_Frames by (auto intro!: returns_sound cb_returns_discard)
next
  case (Pop_Front_To_Fd fd k)
  let ?bs = "take (first_block_len cb) (cb_list cb)"
  have u: "unat (of_nat (length ?bs) :: size_t) = length ?bs"
    by (rule unat_of_nat_64) (simp add: first_block_len_def min.strict_coboundedI1)
  then have "unat (min k (of_nat (length ?bs))) \<le> first_block_len cb" by (simp add: min_def word_le_nat_alt)
  from pop_front_to_fd_refines [OF wf _ this, of "takes_at_most k" fd "()" "()"] show ?thesis
    using Pop_Front_To_Fd by (auto simp: takes_at_most_def sound_def discard_def)
next
  case Clear
  then show ?thesis using clear_wf [OF wf] by (simp add: sound_def)
qed (use wf ok pop_sound push_back_returns remove_front_to_returns remove_back_to_returns delete_first_block_returns push_back_block_returns
  in \<open>auto intro!: returns_sound cb_returns_discard\<close>)

lemma run_calls_wf:
  assumes "cb_wf cb" and "list_all allowed cs"
  shows "cb_wf (run_calls cs cb) \<and> cb_cap (run_calls cs cb) = cb_cap cb"
  using assms
proof (induction cs arbitrary: cb)
  case (Cons c cs)
  then have "cb_wf (snd (run_call c cb))" "cb_cap (snd (run_call c cb)) = cb_cap cb"
    using run_call_sound [of cb c] by (simp_all add: sound_def)
  with Cons.IH [of "snd (run_call c cb)"] Cons.prems(2) show ?case by (simp add: run_calls_def)
qed (simp add: run_calls_def)

end
