(* ===== verification/Unity_Print.thy ===== *)
theory Unity_Print
  imports Printing
begin

text \<open>
  \<^verbatim>\<open>externals/unity.c\<close>, the framework of the unit tests: its state and the functions that print. The
  configuration is the default one on a 64-bit machine: no colours, results in the format \<open>file:line:name:\<close>, an
  \<^verbatim>\<open>int\<close> of 32 bits, numbers of 64.
\<close>

unbundle bit_operations_syntax

section \<open>State\<close>

text \<open>
  A string is the list of its characters, of which a 0 or the end of the list is the end; \<open>None\<close> is the null pointer.
  What is written with \<^verbatim>\<open>putchar\<close> is a part of the state.
\<close>

type_synonym cstring = "byte list option"
type_synonym unity_int = "64 word"

record unity =
  TestFile :: cstring
  CurrentTestName :: cstring
  CurrentDetail1 :: cstring
  CurrentDetail2 :: cstring
  CurrentTestLineNumber :: unity_int
  NumberOfTests :: unity_int
  TestFailures :: unity_int
  TestIgnores :: unity_int
  CurrentTestFailed :: unity_int
  CurrentTestIgnored :: unity_int
  unity_output :: "byte list"

definition UNITY_OUTPUT_CHAR :: "byte \<Rightarrow> unity \<Rightarrow> unity" where
  "UNITY_OUTPUT_CHAR c u = u\<lparr>unity_output := unity_output u @ [c]\<rparr>"

definition UNITY_PRINT_EOL :: "unity \<Rightarrow> unity" where
  "UNITY_PRINT_EOL = UNITY_OUTPUT_CHAR chr_end"

section \<open>Numbers\<close>

lemma divisor_grows:
  fixes number divisor :: unity_int
  assumes "number div divisor > 9"
  shows "unat (divisor * 10) = unat divisor * 10" and "unat divisor * 10 \<le> unat number" and "0 < unat divisor"
proof -
  have d: "10 \<le> unat number div unat divisor" using assms by (simp add: word_less_nat_alt unat_div)
  show p: "0 < unat divisor"
  proof (rule ccontr)
    assume "\<not> 0 < unat divisor"
    then show False using d by simp
  qed
  have "10 * unat divisor \<le> unat number div unat divisor * unat divisor" using d by simp
  also have "\<dots> \<le> unat number" by (rule div_times_less_eq_dividend)
  finally show l: "unat divisor * 10 \<le> unat number" by simp
  moreover have "unat number < 2 ^ 64" using unsigned_less [of number, where 'a = nat] by simp
  ultimately have "unat divisor * 10 < 2 ^ 64" by linarith
  then show "unat (divisor * 10) = unat divisor * 10" by (simp add: unat_word_ariths)
qed

function initial_divisor :: "unity_int \<Rightarrow> unity_int \<Rightarrow> unity_int" where
  "initial_divisor number divisor = (if number div divisor > 9 then initial_divisor number (divisor * 10) else divisor)"
  by auto

termination
proof (relation "measure (\<lambda>(number, divisor). unat number - unat divisor)")
  fix number divisor :: unity_int
  assume "number div divisor > 9"
  from divisor_grows [OF this]
  show "((number, divisor * 10), number, divisor) \<in> measure (\<lambda>(number, divisor). unat number - unat divisor)" by simp
qed simp

definition print_digit :: "unity_int \<Rightarrow> unity_int \<Rightarrow> unity \<Rightarrow> unity" where
  "print_digit number divisor = UNITY_OUTPUT_CHAR (ucast (0x30 + number div divisor mod 10))"

function print_digits :: "unity_int \<Rightarrow> unity_int \<Rightarrow> unity \<Rightarrow> unity" where
  "print_digits number divisor u =
     (if divisor div 10 > 0 then print_digits number (divisor div 10) (print_digit number divisor u) else print_digit number divisor u)"
  by auto

termination
proof (relation "measure (\<lambda>(number, divisor, u). unat divisor)")
  fix number divisor :: unity_int and u :: unity
  assume "divisor div 10 > 0"
  then have "0 < unat divisor div 10" by (simp add: word_less_nat_alt unat_div)
  then show "((number, divisor div 10, print_digit number divisor u), number, divisor, u) \<in> measure (\<lambda>(number, divisor, u). unat divisor)"
    by (simp add: unat_div)
qed simp

declare initial_divisor.simps [simp del] print_digits.simps [simp del]

definition UnityPrintNumberUnsigned :: "unity_int \<Rightarrow> unity \<Rightarrow> unity" where
  "UnityPrintNumberUnsigned number = print_digits number (initial_divisor number 1)"

definition UnityPrintNumber :: "unity_int \<Rightarrow> unity \<Rightarrow> unity" where
  "UnityPrintNumber number_to_print u =
     (if number_to_print <s 0 then UnityPrintNumberUnsigned (NOT number_to_print + 1) (UNITY_OUTPUT_CHAR 0x2D u)
      else UnityPrintNumberUnsigned number_to_print u)"

fun print_nibbles :: "nat \<Rightarrow> unity_int \<Rightarrow> unity \<Rightarrow> unity" where
  "print_nibbles 0 number u = u"
| "print_nibbles (Suc nibbles) number u =
     (let nibble = ucast (drop_bit (nibbles * 4) number) AND 0x0F :: 32 word in
      print_nibbles nibbles number
        (if nibble \<le> 9 then UNITY_OUTPUT_CHAR (ucast (0x30 + nibble)) u else UNITY_OUTPUT_CHAR (ucast (0x41 - 10 + nibble)) u))"

definition UnityPrintNumberHex :: "unity_int \<Rightarrow> byte \<Rightarrow> unity \<Rightarrow> unity" where
  "UnityPrintNumberHex number nibbles_to_print =
     (let nibbles = (if (scast nibbles_to_print :: 32 word) > 16 then 16 else nibbles_to_print) in
      print_nibbles (nat (sint nibbles)) number)"

fun print_mask_bits :: "nat \<Rightarrow> unity_int \<Rightarrow> unity_int \<Rightarrow> unity_int \<Rightarrow> unity \<Rightarrow> unity" where
  "print_mask_bits 0 current_bit msk number u = u"
| "print_mask_bits (Suc n) current_bit msk number u =
     print_mask_bits n (drop_bit 1 current_bit) msk number
       (if current_bit AND msk \<noteq> 0 then
          if current_bit AND number \<noteq> 0 then UNITY_OUTPUT_CHAR 0x31 u else UNITY_OUTPUT_CHAR 0x30 u
        else UNITY_OUTPUT_CHAR 0x58 u)"

definition UnityPrintMask :: "unity_int \<Rightarrow> unity_int \<Rightarrow> unity \<Rightarrow> unity" where
  "UnityPrintMask msk number = print_mask_bits 32 (push_bit 31 1) msk number"

section \<open>Strings\<close>

text \<open>A \<^verbatim>\<open>char\<close> is signed.\<close>

definition UnityPrintChar :: "byte \<Rightarrow> unity \<Rightarrow> unity" where
  "UnityPrintChar pch u =
     (if sint pch \<le> 126 \<and> sint pch \<ge> 32 then UNITY_OUTPUT_CHAR pch u
      else if pch = 13 then UNITY_OUTPUT_CHAR 0x72 (UNITY_OUTPUT_CHAR 0x5C u)
      else if pch = 10 then UNITY_OUTPUT_CHAR 0x6E (UNITY_OUTPUT_CHAR 0x5C u)
      else UnityPrintNumberHex (scast pch) 2 (UNITY_OUTPUT_CHAR 0x78 (UNITY_OUTPUT_CHAR 0x5C u)))"

fun print_string :: "byte list \<Rightarrow> unity \<Rightarrow> unity" where
  "print_string [] u = u"
| "print_string (c # pch) u = (if c = 0 then u else print_string pch (UnityPrintChar c u))"

definition UnityPrint :: "cstring \<Rightarrow> unity \<Rightarrow> unity" where
  "UnityPrint string u = (case string of None \<Rightarrow> u | Some pch \<Rightarrow> print_string pch u)"

text \<open>The loop of \<^verbatim>\<open>UnityPrintLen\<close>, whose body is that of \<^verbatim>\<open>UnityPrintChar\<close>; \<open>k\<close> is \<^verbatim>\<open>pch - string\<close>.\<close>

fun print_string_len :: "32 word \<Rightarrow> nat \<Rightarrow> byte list \<Rightarrow> unity \<Rightarrow> unity" where
  "print_string_len len k [] u = u"
| "print_string_len len k (c # pch) u =
     (if c \<noteq> 0 \<and> (of_nat k :: 32 word) < len then print_string_len len (Suc k) pch (UnityPrintChar c u) else u)"

definition UnityPrintLen :: "cstring \<Rightarrow> 32 word \<Rightarrow> unity \<Rightarrow> unity" where
  "UnityPrintLen string len u = (case string of None \<Rightarrow> u | Some pch \<Rightarrow> print_string_len len 0 pch u)"

section \<open>Styles\<close>

type_synonym display_style = "32 word"

abbreviation UNITY_DISPLAY_RANGE_INT :: display_style where "UNITY_DISPLAY_RANGE_INT \<equiv> 0x10"
abbreviation UNITY_DISPLAY_RANGE_UINT :: display_style where "UNITY_DISPLAY_RANGE_UINT \<equiv> 0x20"
abbreviation UNITY_DISPLAY_RANGE_HEX :: display_style where "UNITY_DISPLAY_RANGE_HEX \<equiv> 0x40"
abbreviation UNITY_DISPLAY_RANGE_CHAR :: display_style where "UNITY_DISPLAY_RANGE_CHAR \<equiv> 0x80"
abbreviation UNITY_DISPLAY_STYLE_HEX8 :: display_style where "UNITY_DISPLAY_STYLE_HEX8 \<equiv> 0x41"
abbreviation UNITY_DISPLAY_STYLE_CHAR :: display_style where "UNITY_DISPLAY_STYLE_CHAR \<equiv> 0x91"

definition UnityPrintNumberByStyle :: "unity_int \<Rightarrow> display_style \<Rightarrow> unity \<Rightarrow> unity" where
  "UnityPrintNumberByStyle number style u =
     (if style AND UNITY_DISPLAY_RANGE_INT = UNITY_DISPLAY_RANGE_INT then
        if style = UNITY_DISPLAY_STYLE_CHAR then
          let u = UNITY_OUTPUT_CHAR 0x27 u;
              u = (if sint number \<le> 126 \<and> sint number \<ge> 32 then UNITY_OUTPUT_CHAR (ucast number) u
                   else if number = 13 then UNITY_OUTPUT_CHAR 0x72 (UNITY_OUTPUT_CHAR 0x5C u)
                   else if number = 10 then UNITY_OUTPUT_CHAR 0x6E (UNITY_OUTPUT_CHAR 0x5C u)
                   else UnityPrintNumberHex number 2 (UNITY_OUTPUT_CHAR 0x78 (UNITY_OUTPUT_CHAR 0x5C u))) in
          UNITY_OUTPUT_CHAR 0x27 u
        else UnityPrintNumber number u
      else if style AND UNITY_DISPLAY_RANGE_UINT = UNITY_DISPLAY_RANGE_UINT then UnityPrintNumberUnsigned number u
      else UnityPrintNumberHex number (ucast ((style AND 0xF) * 2)) (UNITY_OUTPUT_CHAR 0x78 (UNITY_OUTPUT_CHAR 0x30 u)))"

section \<open>What is printed\<close>

declare decimal.simps [simp del]

definition wrote :: "byte list \<Rightarrow> unity \<Rightarrow> unity" where
  "wrote text u = u\<lparr>unity_output := unity_output u @ text\<rparr>"

lemma output_char [simp]: "UNITY_OUTPUT_CHAR c u = wrote [c] u"
  by (simp add: UNITY_OUTPUT_CHAR_def wrote_def)

lemma print_eol [simp]: "UNITY_PRINT_EOL u = wrote [chr_end] u"
  by (simp add: UNITY_PRINT_EOL_def)

lemma wrote_wrote [simp]: "wrote b (wrote a u) = wrote (a @ b) u" "wrote [] u = u"
  by (simp_all add: wrote_def)

text \<open>An unsigned number is printed as its decimal digits.\<close>

lemma ucast_of_nat_byte: "ucast (of_nat n :: 64 word) = (of_nat n :: byte)"
  by (rule word_unat_eq_iff [THEN iffD2]) (simp add: unsigned_ucast_eq unat_of_nat take_bit_eq_mod mod_mod_cancel)

lemma ten_digit: "ucast (0x30 + x mod 10 :: 64 word) = (0x30 + of_nat (unat x mod 10) :: byte)"
proof -
  have "unat x mod 10 < 2 ^ 64" by (rule less_trans [OF mod_less_divisor]) simp_all
  then have "x mod 10 = of_nat (unat x mod 10)"
    by (intro word_unat_eq_iff [THEN iffD2]) (simp add: unat_mod unat_of_nat_64)
  then have "0x30 + x mod 10 = of_nat (0x30 + unat x mod 10)" by simp
  then have "ucast (0x30 + x mod 10) = (of_nat (0x30 + unat x mod 10) :: byte)" by (simp only: ucast_of_nat_byte)
  then show ?thesis by simp
qed

lemma initial_divisor_power:
  fixes number divisor :: unity_int
  assumes "unat divisor = 10 ^ j" and "j = 0 \<or> 10 ^ j \<le> unat number"
  shows "\<exists>k. unat (initial_divisor number divisor) = 10 ^ k \<and> (k = 0 \<or> 10 ^ k \<le> unat number) \<and> unat number < 10 ^ Suc k"
  using assms
proof (induction number divisor arbitrary: j rule: initial_divisor.induct)
  case (1 number divisor)
  show ?case
  proof (cases "number div divisor > 9")
    case True
    have "unat (divisor * 10) = 10 ^ Suc j" "Suc j = 0 \<or> 10 ^ Suc j \<le> unat number"
      using divisor_grows [OF True] 1(2) by simp_all
    from 1(1) [OF True this] True show ?thesis by (simp add: initial_divisor.simps [of number divisor])
  next
    case False
    then have "unat number div 10 ^ j \<le> 9" using 1(2) by (simp add: word_less_nat_alt unat_div not_less)
    then have "unat number < 10 ^ Suc j" using div_less_iff_less_mult [of "10 ^ j" "unat number" 10] by (simp add: mult.commute)
    then show ?thesis using False 1(2,3) by (intro exI [of _ j]) (simp add: initial_divisor.simps [of number divisor])
  qed
qed

definition digits_from :: "nat \<Rightarrow> nat \<Rightarrow> byte list" where
  "digits_from k n = map (\<lambda>i. 0x30 + of_nat (n div 10 ^ i mod 10)) (rev [0..<Suc k])"

lemma print_digit_text:
  assumes "unat divisor = 10 ^ k"
  shows "print_digit number divisor u = wrote [0x30 + of_nat (unat number div 10 ^ k mod 10)] u"
proof -
  have "unat (number div divisor) = unat number div 10 ^ k" using assms by (simp add: unat_div)
  then have "ucast (0x30 + number div divisor mod 10) = (0x30 + of_nat (unat number div 10 ^ k mod 10) :: byte)"
    by (intro word_unat_eq_iff [THEN iffD2])
      (simp add: ten_digit unat_word_ariths unat_of_nat take_bit_nat_eq_self)
  then show ?thesis by (simp add: print_digit_def)
qed

lemma print_digits_text:
  "unat divisor = 10 ^ k \<Longrightarrow> print_digits number divisor u = wrote (digits_from k (unat number)) u"
proof (induction k arbitrary: divisor u)
  case 0
  then have "divisor = 1" by (simp add: word_unat_eq_iff)
  then show ?case using print_digit_text [OF 0, of number u] by (simp add: print_digits.simps [of number 1] digits_from_def)
next
  case (Suc k)
  have d: "unat (divisor div 10) = 10 ^ k" using Suc.prems by (simp add: unat_div)
  then have "divisor div 10 > 0" by (simp add: word_less_nat_alt)
  then show ?case using Suc.IH [OF d] print_digit_text [OF Suc.prems, of number u]
    by (simp add: print_digits.simps [of number divisor] digits_from_def)
qed

lemma digits_from_Suc: "digits_from (Suc k) n = (0x30 + of_nat (n div 10 ^ Suc k mod 10)) # digits_from k n"
  by (simp add: digits_from_def)

lemma digits_from_snoc: "digits_from (Suc k) n = digits_from k (n div 10) @ [0x30 + of_nat (n mod 10)]"
proof (induction k)
  case 0
  show ?case by (simp add: digits_from_def)
next
  case (Suc k)
  have "n div 10 div 10 ^ Suc k = n div 10 ^ Suc (Suc k)" by (simp only: div_mult2_eq [symmetric] power_Suc)
  then show ?case by (simp only: digits_from_Suc [of "Suc k" n] digits_from_Suc [of k "n div 10"] Suc.IH append.simps)
qed

lemma decimal_digits:
  "k = 0 \<or> 10 ^ k \<le> n \<Longrightarrow> n < 10 ^ Suc k \<Longrightarrow> decimal n = digits_from k n"
proof (induction k arbitrary: n)
  case 0
  then show ?case by (simp add: digits_from_def decimal.simps [of n])
next
  case (Suc k)
  have "10 \<le> n"
  proof -
    have "(10 :: nat) \<le> 10 ^ Suc k" by simp
    then show ?thesis using Suc.prems(1) by linarith
  qed
  moreover have "k = 0 \<or> 10 ^ k \<le> n div 10"
  proof -
    have "10 ^ k * 10 \<le> n" using Suc.prems(1) by simp
    then show ?thesis by (simp add: less_eq_div_iff_mult_less_eq)
  qed
  moreover have "n div 10 < 10 ^ Suc k" using Suc.prems(2) by (simp add: less_mult_imp_div_less mult.commute)
  ultimately have "decimal n = digits_from k (n div 10) @ [0x30 + of_nat (n mod 10)]"
    using Suc.IH [of "n div 10"] by (subst decimal.simps) (simp)
  then show ?case by (simp only: digits_from_snoc)
qed

lemma UnityPrintNumberUnsigned_text [simp]: "UnityPrintNumberUnsigned number u = wrote (decimal (unat number)) u"
proof -
  from initial_divisor_power [of 1 0 number] obtain k where
    k: "unat (initial_divisor number 1) = 10 ^ k" "k = 0 \<or> 10 ^ k \<le> unat number" "unat number < 10 ^ Suc k" by auto
  show ?thesis using print_digits_text [OF k(1), of number u] decimal_digits [OF k(2,3)]
    by (simp add: UnityPrintNumberUnsigned_def)
qed

text \<open>A signed one with its sign, the smallest number included.\<close>

lemma unat_signed:
  fixes n :: "64 word"
  shows "sint n < 0 \<Longrightarrow> unat (- n) = nat (- sint n)" and "0 \<le> sint n \<Longrightarrow> unat n = nat (sint n)"
proof -
  have b: "- (2 ^ 63) \<le> sint n" "sint n < 2 ^ 63" using sint_ge [of n] sint_lt [of n] by simp_all
  have e: "n = word_of_int (sint n)" by simp
  have m: "- n = word_of_int (- sint n)" by simp
  show "unat (- n) = nat (- sint n)" if "sint n < 0"
    unfolding m by (simp only: unat_eq_nat_uint uint_word_of_int) (use that b in simp)
  show "unat n = nat (sint n)" if "0 \<le> sint n"
    by (subst e) (simp only: unat_eq_nat_uint uint_word_of_int, use that b in simp)
qed

lemma UnityPrintNumber_text [simp]: "UnityPrintNumber number u = wrote (signed_decimal (sint number)) u"
proof (cases "sint number < 0")
  case True
  have e: "NOT number + 1 = - number" by (simp add: minus_eq_not_plus_1)
  show ?thesis using True unat_signed(1) [OF True] by (simp add: UnityPrintNumber_def word_sless_alt e signed_decimal_def)
next
  case False
  then show ?thesis using unat_signed(2) [of number] by (simp add: UnityPrintNumber_def word_sless_alt signed_decimal_def)
qed

text \<open>Hexadecimal digits, with at most 16 of them.\<close>

lemma nibble:
  fixes number :: "64 word" and k :: nat
  defines "n \<equiv> (ucast (drop_bit (k * 4) number) AND 0x0F :: 32 word)"
  shows "unat n = unat (ucast (drop_bit (4 * k) number AND 0xF) :: byte)" and "unat n < 16"
proof -
  have m: "(0x0F :: 'b::len word) = mask 4" by (simp add: mask_eq_exp_minus_1)
  have 1: "unat n = take_bit 4 (unat (drop_bit (4 * k) number))"
    unfolding n_def m take_bit_eq_mask [symmetric] unsigned_take_bit_eq by (simp add: unsigned_ucast_eq mult.commute)
  have "unat (ucast (drop_bit (4 * k) number AND 0xF) :: byte) = take_bit 4 (unat (drop_bit (4 * k) number))"
    unfolding m take_bit_eq_mask [symmetric] by (simp add: unsigned_ucast_eq unsigned_take_bit_eq)
  with 1 show "unat n = unat (ucast (drop_bit (4 * k) number AND 0xF) :: byte)" by simp
  show "unat n < 16" unfolding 1 by (simp add: take_bit_eq_mod)
qed

lemma nibble_char:
  fixes n :: "32 word" and b :: byte
  assumes "unat n = unat b" and "unat n < 16"
  shows "(if n \<le> 9 then [ucast (0x30 + n)] else [ucast (0x41 - 10 + n)]) = [hex_digit True b]"
proof -
  have n: "n = of_nat (unat b)" by (simp flip: assms(1))
  have "list_all (\<lambda>m. (if (of_nat m :: 32 word) \<le> 9 then [ucast (0x30 + of_nat m :: 32 word)] else [ucast (0x41 - 10 + of_nat m :: 32 word)])
      = [hex_digit True (of_nat m)]) [0..<16]"
    by (simp add: upt_rec hex_digit_def)
  moreover have "unat b \<in> set [0..<16]" using assms by simp
  ultimately have "(if (of_nat (unat b) :: 32 word) \<le> 9 then [ucast (0x30 + of_nat (unat b) :: 32 word)] else [ucast (0x41 - 10 + of_nat (unat b) :: 32 word)])
      = [hex_digit True (of_nat (unat b))]" unfolding list_all_iff by blast
  then show ?thesis unfolding n by simp
qed

lemma print_nibbles_text: "print_nibbles k number u = wrote (hex_digits True k number) u"
proof (induction k arbitrary: u)
  case (Suc k)
  from nibble_char [OF nibble [of k number]] Suc show ?case by (auto simp: Let_def split: if_splits)
qed simp

lemma UnityPrintNumberHex_text:
  assumes "k \<le> 16"
  shows "UnityPrintNumberHex number (of_nat k) u = wrote (hex_digits True k number) u"
proof -
  have "list_all (\<lambda>k. sint (of_nat k :: byte) = int k \<and> scast (of_nat k :: byte) = (of_nat k :: 32 word) \<and> \<not> (16 :: 32 word) < of_nat k) [0..<17]"
    by (simp add: upt_rec)
  moreover have "k \<in> set [0..<17]" using assms by simp
  ultimately have "sint (of_nat k :: byte) = int k \<and> scast (of_nat k :: byte) = (of_nat k :: 32 word) \<and> \<not> (16 :: 32 word) < of_nat k"
    unfolding list_all_iff by blast
  then show ?thesis by (simp add: UnityPrintNumberHex_def print_nibbles_text)
qed

text \<open>A mask shows the bits it has, and a cross for the others.\<close>

lemma print_mask_bits_text:
  "n < 64 \<Longrightarrow> print_mask_bits (Suc n) (push_bit n 1) msk number u =
    wrote (map (\<lambda>i. if bit msk i then if bit number i then 0x31 else 0x30 else 0x58) (rev [0..<Suc n])) u"
proof (induction n arbitrary: u)
  case 0
  show ?case using bit_iff_and_push_bit_not_eq_0 [of msk 0] bit_iff_and_push_bit_not_eq_0 [of number 0]
    by (simp add: and.commute)
next
  case (Suc n)
  have d: "drop_bit 1 (push_bit (Suc n) 1 :: unity_int) = push_bit n 1"
    using Suc.prems by (intro bit_word_eqI) (auto simp: bit_simps)
  have b: "push_bit (Suc n) 1 AND w \<noteq> 0 \<longleftrightarrow> bit w (Suc n)" for w :: unity_int
    using bit_iff_and_push_bit_not_eq_0 [of w "Suc n"] by (simp add: and.commute)
  show ?case using Suc.IH Suc.prems unfolding print_mask_bits.simps(2) [of "Suc n"] d b
    by (simp del: print_mask_bits.simps push_bit_Suc)
qed

lemma UnityPrintMask_text [simp]: "UnityPrintMask msk number u =
    wrote (map (\<lambda>i. if bit msk i then if bit number i then 0x31 else 0x30 else 0x58) (rev [0..<32])) u"
proof -
  have "32 = Suc 31" by simp
  then show ?thesis using print_mask_bits_text [of 31 msk number u] by (simp only: UnityPrintMask_def)
qed

text \<open>Strings: the escaped form of each character up to the end.\<close>

definition shown_char :: "byte \<Rightarrow> byte list" where
  "shown_char c = (if sint c \<le> 126 \<and> sint c \<ge> 32 then [c] else if c = 13 then [0x5C, 0x72] else if c = 10 then [0x5C, 0x6E]
     else [0x5C, 0x78] @ hex_digits True 2 c)"

definition shown :: "byte list \<Rightarrow> byte list" where
  "shown s = concat (map shown_char (takeWhile (\<lambda>c. c \<noteq> 0) s))"

lemma UnityPrintChar_text [simp]: "UnityPrintChar c u = wrote (shown_char c) u"
proof -
  have m: "(0xF :: 'b::len word) = mask 4" by (simp add: mask_eq_exp_minus_1)
  have "ucast (drop_bit (4 * n) (scast c :: unity_int) AND 0xF) = (ucast (drop_bit (4 * n) c AND 0xF) :: byte)" if "n < 2" for n
  proof -
    have "i < 4 \<Longrightarrow> min 7 (4 * n + i) = 4 * n + i" for i using that by auto
    then show ?thesis using that unfolding m by (intro bit_word_eqI) (auto simp: bit_simps)
  qed
  from this [of 0] this [of 1] have "hex_digits True 2 (scast c :: unity_int) = hex_digits True 2 c"
    by (simp add: numeral_2_eq_2)
  then show ?thesis using UnityPrintNumberHex_text [of 2 "scast c"] by (simp add: UnityPrintChar_def shown_char_def)
qed

lemma print_string_text: "print_string s u = wrote (shown s) u"
  by (induction s arbitrary: u) (simp_all add: shown_def)

lemma print_string_len_text:
  "k + length s < 2 ^ 32 \<Longrightarrow> print_string_len n k s u = wrote (shown (take (unat n - k) s)) u"
proof (induction s arbitrary: k u)
  case Nil
  then show ?case by (simp add: shown_def)
next
  case (Cons c s)
  have "unat (of_nat k :: 32 word) = k" using Cons.prems by (simp add: unat_of_nat take_bit_nat_eq_self)
  then have l: "(of_nat k :: 32 word) < n \<longleftrightarrow> k < unat n" by (simp add: word_less_nat_alt)
  show ?case
  proof (cases "k < unat n")
    case True
    then have "unat n - k = Suc (unat n - Suc k)" by simp
    then show ?thesis using Cons l True by (auto simp: shown_def)
  next
    case False
    then show ?thesis using l by (simp add: shown_def)
  qed
qed

lemma UnityPrint_text [simp]:
  "UnityPrint None u = u" "UnityPrint (Some s) u = wrote (shown s) u"
  by (simp_all add: UnityPrint_def print_string_text)

lemma UnityPrintLen_text:
  "UnityPrintLen None n u = u" "length s < 2 ^ 32 \<Longrightarrow> UnityPrintLen (Some s) n u = wrote (shown (take (unat n) s)) u"
  by (simp_all add: UnityPrintLen_def print_string_len_text)

end
