(* ===== verification/Unity_Assert.thy ===== *)
theory Unity_Assert
  imports Unity_Print
begin

text \<open>
  The assertions of \<^verbatim>\<open>externals/unity.c\<close>, without those on floating-point numbers and on arrays of strings.
  An assertion returns or jumps to the frame of the test that runs; memory that is compared is a map from
  addresses to bytes.
\<close>

unbundle bit_operations_syntax

section \<open>Jumps\<close>

datatype unity_jump = Abort | Bad_Access

type_synonym 'a unity_run = "(unity_jump + 'a) \<times> unity"

definition TEST_ABORT :: "unity \<Rightarrow> 'a unity_run" where
  "TEST_ABORT u = (Inl Abort, u)"

definition UNITY_FAIL_AND_BAIL :: "unity \<Rightarrow> 'a unity_run" where
  "UNITY_FAIL_AND_BAIL u = TEST_ABORT (u\<lparr>CurrentTestFailed := 1\<rparr>)"

definition UNITY_IGNORE_AND_BAIL :: "unity \<Rightarrow> 'a unity_run" where
  "UNITY_IGNORE_AND_BAIL u = TEST_ABORT (u\<lparr>CurrentTestIgnored := 1\<rparr>)"

definition RETURN_IF_FAIL_OR_IGNORE :: "(unity \<Rightarrow> 'a unity_run) \<Rightarrow> unity \<Rightarrow> 'a unity_run" where
  "RETURN_IF_FAIL_OR_IGNORE body u = (if CurrentTestFailed u \<noteq> 0 \<or> CurrentTestIgnored u \<noteq> 0 then TEST_ABORT u else body u)"

section \<open>Messages\<close>

abbreviation UnityStrOk :: cstring where "UnityStrOk \<equiv> Some (chars ''OK'')"
abbreviation UnityStrPass :: cstring where "UnityStrPass \<equiv> Some (chars ''PASS'')"
abbreviation UnityStrFail :: cstring where "UnityStrFail \<equiv> Some (chars ''FAIL'')"
abbreviation UnityStrIgnore :: cstring where "UnityStrIgnore \<equiv> Some (chars ''IGNORE'')"
abbreviation UnityStrNull :: cstring where "UnityStrNull \<equiv> Some (chars ''NULL'')"
abbreviation UnityStrSpacer :: cstring where "UnityStrSpacer \<equiv> Some (chars ''. '')"
abbreviation UnityStrExpected :: cstring where "UnityStrExpected \<equiv> Some (chars '' Expected '')"
abbreviation UnityStrWas :: cstring where "UnityStrWas \<equiv> Some (chars '' Was '')"
abbreviation UnityStrGt :: cstring where "UnityStrGt \<equiv> Some (chars '' to be greater than '')"
abbreviation UnityStrLt :: cstring where "UnityStrLt \<equiv> Some (chars '' to be less than '')"
abbreviation UnityStrOrEqual :: cstring where "UnityStrOrEqual \<equiv> Some (chars ''or equal to '')"
abbreviation UnityStrNotEqual :: cstring where "UnityStrNotEqual \<equiv> Some (chars '' to be not equal to '')"
abbreviation UnityStrElement :: cstring where "UnityStrElement \<equiv> Some (chars '' Element '')"
abbreviation UnityStrByte :: cstring where "UnityStrByte \<equiv> Some (chars '' Byte '')"
abbreviation UnityStrMemory :: cstring where "UnityStrMemory \<equiv> Some (chars '' Memory Mismatch.'')"
abbreviation UnityStrDelta :: cstring where "UnityStrDelta \<equiv> Some (chars '' Values Not Within Delta '')"
abbreviation UnityStrPointless :: cstring where
  "UnityStrPointless \<equiv> Some (chars '' You Asked Me To Compare Nothing, Which Was Pointless.'')"
abbreviation UnityStrNullPointerForExpected :: cstring where
  "UnityStrNullPointerForExpected \<equiv> Some (chars '' Expected pointer to be NULL'')"
abbreviation UnityStrNullPointerForActual :: cstring where
  "UnityStrNullPointerForActual \<equiv> Some (chars '' Actual pointer was NULL'')"
abbreviation UnityStrDetail1Name :: cstring where "UnityStrDetail1Name \<equiv> Some (chars ''Function '')"
abbreviation UnityStrDetail2Name :: cstring where "UnityStrDetail2Name \<equiv> Some (chars '' Argument '')"

definition UnityTestResultsBegin :: "cstring \<Rightarrow> unity_int \<Rightarrow> unity \<Rightarrow> unity" where
  "UnityTestResultsBegin file line u =
     (let u = UnityPrint file u;
          u = UNITY_OUTPUT_CHAR 0x3A u;
          u = UnityPrintNumber line u;
          u = UNITY_OUTPUT_CHAR 0x3A u;
          u = UnityPrint (CurrentTestName u) u in
      UNITY_OUTPUT_CHAR 0x3A u)"

definition UnityTestResultsFailBegin :: "unity_int \<Rightarrow> unity \<Rightarrow> unity" where
  "UnityTestResultsFailBegin line u =
     UNITY_OUTPUT_CHAR 0x3A (UnityPrint UnityStrFail (UnityTestResultsBegin (TestFile u) line u))"

definition print_details :: "unity \<Rightarrow> unity" where
  "print_details u =
     (if CurrentDetail1 u \<noteq> None then
        let u = UnityPrint UnityStrDetail1Name u;
            u = UnityPrint (CurrentDetail1 u) u;
            u = (if CurrentDetail2 u \<noteq> None then UnityPrint (CurrentDetail2 u) (UnityPrint UnityStrDetail2Name u) else u) in
        UnityPrint UnityStrSpacer u
      else u)"

definition UnityAddMsgIfSpecified :: "cstring \<Rightarrow> unity \<Rightarrow> unity" where
  "UnityAddMsgIfSpecified msg u = (if msg \<noteq> None then UnityPrint msg (print_details (UnityPrint UnityStrSpacer u)) else u)"

definition print_quoted :: "(unity \<Rightarrow> unity) \<Rightarrow> cstring \<Rightarrow> unity \<Rightarrow> unity" where
  "print_quoted print string u =
     (if string \<noteq> None then UNITY_OUTPUT_CHAR 0x27 (print (UNITY_OUTPUT_CHAR 0x27 u)) else UnityPrint UnityStrNull u)"

definition UnityPrintExpectedAndActualStrings :: "cstring \<Rightarrow> cstring \<Rightarrow> unity \<Rightarrow> unity" where
  "UnityPrintExpectedAndActualStrings expected actual u =
     (let u = UnityPrint UnityStrExpected u;
          u = print_quoted (UnityPrint expected) expected u;
          u = UnityPrint UnityStrWas u in
      print_quoted (UnityPrint actual) actual u)"

definition UnityPrintExpectedAndActualStringsLen :: "cstring \<Rightarrow> cstring \<Rightarrow> 32 word \<Rightarrow> unity \<Rightarrow> unity" where
  "UnityPrintExpectedAndActualStringsLen expected actual len u =
     (let u = UnityPrint UnityStrExpected u;
          u = print_quoted (UnityPrintLen expected len) expected u;
          u = UnityPrint UnityStrWas u in
      print_quoted (UnityPrintLen actual len) actual u)"

section \<open>Numbers\<close>

definition UnityAssertBits :: "unity_int \<Rightarrow> unity_int \<Rightarrow> unity_int \<Rightarrow> cstring \<Rightarrow> unity_int \<Rightarrow> unity \<Rightarrow> unit unity_run" where
  "UnityAssertBits msk expected actual msg lineNumber = RETURN_IF_FAIL_OR_IGNORE (\<lambda>u.
     if msk AND expected \<noteq> msk AND actual then
       let u = UnityTestResultsFailBegin lineNumber u;
           u = UnityPrint UnityStrExpected u;
           u = UnityPrintMask msk expected u;
           u = UnityPrint UnityStrWas u;
           u = UnityPrintMask msk actual u;
           u = UnityAddMsgIfSpecified msg u in
       UNITY_FAIL_AND_BAIL u
     else (Inr (), u))"

definition UnityAssertEqualNumber :: "unity_int \<Rightarrow> unity_int \<Rightarrow> cstring \<Rightarrow> unity_int \<Rightarrow> display_style \<Rightarrow> unity \<Rightarrow> unit unity_run" where
  "UnityAssertEqualNumber expected actual msg lineNumber style = RETURN_IF_FAIL_OR_IGNORE (\<lambda>u.
     if expected \<noteq> actual then
       let u = UnityTestResultsFailBegin lineNumber u;
           u = UnityPrint UnityStrExpected u;
           u = UnityPrintNumberByStyle expected style u;
           u = UnityPrint UnityStrWas u;
           u = UnityPrintNumberByStyle actual style u;
           u = UnityAddMsgIfSpecified msg u in
       UNITY_FAIL_AND_BAIL u
     else (Inr (), u))"

type_synonym comparison = "32 word"

abbreviation UNITY_EQUAL_TO :: comparison where "UNITY_EQUAL_TO \<equiv> 1"
abbreviation UNITY_GREATER_THAN :: comparison where "UNITY_GREATER_THAN \<equiv> 2"
abbreviation UNITY_SMALLER_THAN :: comparison where "UNITY_SMALLER_THAN \<equiv> 4"
abbreviation UNITY_NOT_EQUAL :: comparison where "UNITY_NOT_EQUAL \<equiv> 0"

definition UnityAssertGreaterOrLessOrEqualNumber ::
  "unity_int \<Rightarrow> unity_int \<Rightarrow> comparison \<Rightarrow> cstring \<Rightarrow> unity_int \<Rightarrow> display_style \<Rightarrow> unity \<Rightarrow> unit unity_run" where
  "UnityAssertGreaterOrLessOrEqualNumber threshold actual compare msg lineNumber style = RETURN_IF_FAIL_OR_IGNORE (\<lambda>u.
     if threshold = actual \<and> compare AND UNITY_EQUAL_TO \<noteq> 0 then (Inr (), u)
     else
       let failed = (if threshold = actual then True else False);
           failed = (if style AND UNITY_DISPLAY_RANGE_INT = UNITY_DISPLAY_RANGE_INT then
               let failed = (if threshold <s actual \<and> compare AND UNITY_SMALLER_THAN \<noteq> 0 then True else failed) in
               if actual <s threshold \<and> compare AND UNITY_GREATER_THAN \<noteq> 0 then True else failed
             else
               let failed = (if actual > threshold \<and> compare AND UNITY_SMALLER_THAN \<noteq> 0 then True else failed) in
               if actual < threshold \<and> compare AND UNITY_GREATER_THAN \<noteq> 0 then True else failed) in
       if failed then
         let u = UnityTestResultsFailBegin lineNumber u;
             u = UnityPrint UnityStrExpected u;
             u = UnityPrintNumberByStyle actual style u;
             u = (if compare AND UNITY_GREATER_THAN \<noteq> 0 then UnityPrint UnityStrGt u else u);
             u = (if compare AND UNITY_SMALLER_THAN \<noteq> 0 then UnityPrint UnityStrLt u else u);
             u = (if compare AND UNITY_EQUAL_TO \<noteq> 0 then UnityPrint UnityStrOrEqual u else u);
             u = (if compare = UNITY_NOT_EQUAL then UnityPrint UnityStrNotEqual u else u);
             u = UnityPrintNumberByStyle threshold style u;
             u = UnityAddMsgIfSpecified msg u in
         UNITY_FAIL_AND_BAIL u
       else (Inr (), u))"

text \<open>The distance of two numbers, signed or not, against \<open>delta\<close>.\<close>

definition outside :: "unity_int \<Rightarrow> unity_int \<Rightarrow> unity_int \<Rightarrow> display_style \<Rightarrow> bool" where
  "outside delta expected actual style =
     (if style AND UNITY_DISPLAY_RANGE_INT = UNITY_DISPLAY_RANGE_INT then
        if expected <s actual then actual - expected > delta else expected - actual > delta
      else
        if actual > expected then actual - expected > delta else expected - actual > delta)"

definition UnityAssertNumbersWithin ::
  "unity_int \<Rightarrow> unity_int \<Rightarrow> unity_int \<Rightarrow> cstring \<Rightarrow> unity_int \<Rightarrow> display_style \<Rightarrow> unity \<Rightarrow> unit unity_run" where
  "UnityAssertNumbersWithin delta expected actual msg lineNumber style = RETURN_IF_FAIL_OR_IGNORE (\<lambda>u.
     let u = u\<lparr>CurrentTestFailed := of_bool (outside delta expected actual style)\<rparr> in
     if CurrentTestFailed u \<noteq> 0 then
       let u = UnityTestResultsFailBegin lineNumber u;
           u = UnityPrint UnityStrDelta u;
           u = UnityPrintNumberByStyle delta style u;
           u = UnityPrint UnityStrExpected u;
           u = UnityPrintNumberByStyle expected style u;
           u = UnityPrint UnityStrWas u;
           u = UnityPrintNumberByStyle actual style u;
           u = UnityAddMsgIfSpecified msg u in
       UNITY_FAIL_AND_BAIL u
     else (Inr (), u))"

section \<open>Arrays and memory\<close>

type_synonym pointer = "nat option"
type_synonym byte_store = "nat \<rightharpoonup> byte"
type_synonym array_flags = "32 word"

abbreviation UNITY_ARRAY_TO_VAL :: array_flags where "UNITY_ARRAY_TO_VAL \<equiv> 0"
abbreviation UNITY_ARRAY_TO_ARRAY :: array_flags where "UNITY_ARRAY_TO_ARRAY \<equiv> 1"

definition UnityIsOneArrayNull :: "pointer \<Rightarrow> pointer \<Rightarrow> unity_int \<Rightarrow> cstring \<Rightarrow> unity \<Rightarrow> bool \<times> unity" where
  "UnityIsOneArrayNull expected actual lineNumber msg u =
     (if expected = actual then (False, u)
      else if expected = None then
        (True, UnityAddMsgIfSpecified msg (UnityPrint UnityStrNullPointerForExpected (UnityTestResultsFailBegin lineNumber u)))
      else if actual = None then
        (True, UnityAddMsgIfSpecified msg (UnityPrint UnityStrNullPointerForActual (UnityTestResultsFailBegin lineNumber u)))
      else (False, u))"

definition UnityPrintPointlessAndBail :: "unity_int \<Rightarrow> cstring \<Rightarrow> unity \<Rightarrow> unit unity_run" where
  "UnityPrintPointlessAndBail lineNumber msg u =
     UNITY_FAIL_AND_BAIL (UnityAddMsgIfSpecified msg (UnityPrint UnityStrPointless (UnityTestResultsFailBegin lineNumber u)))"

text \<open>A number of 1, 2, 4 or 8 bytes, the lowest first, with its sign.\<close>

definition read_bytes :: "byte_store \<Rightarrow> nat \<Rightarrow> nat \<Rightarrow> byte list option" where
  "read_bytes m n a = those (map m [a..<a + n])"

definition word_of_bytes :: "byte list \<Rightarrow> 'a::len word" where
  "word_of_bytes bs = foldr (\<lambda>b v. push_bit 8 v OR ucast b) bs 0"

definition element_size :: "display_style \<Rightarrow> nat" where
  "element_size style = (let n = style AND 0xF in if n = 1 then 1 else if n = 2 then 2 else if n = 8 then 8 else 4)"

definition read_int :: "byte_store \<Rightarrow> nat \<Rightarrow> nat \<Rightarrow> unity_int option" where
  "read_int m n a =
     (case read_bytes m n a of None \<Rightarrow> None
      | Some bs \<Rightarrow> Some (if n = 1 then scast (word_of_bytes bs :: 8 word) else if n = 2 then scast (word_of_bytes bs :: 16 word)
          else if n = 8 then word_of_bytes bs else scast (word_of_bytes bs :: 32 word)))"

definition strip_sign :: "display_style \<Rightarrow> nat \<Rightarrow> unity_int \<Rightarrow> unity_int" where
  "strip_sign style n v = (if style AND UNITY_DISPLAY_RANGE_UINT \<noteq> 0 \<and> n < 4 then v AND (push_bit (8 * n) 1 - 1) else v)"

text \<open>
  The loop of \<^verbatim>\<open>UnityAssertEqualIntArray\<close> and \<^verbatim>\<open>UnityAssertNumbersArrayWithin\<close>, which differ in the
  check of two elements and in the begin of the message.
\<close>

fun compare_elements :: "(unity_int \<Rightarrow> unity_int \<Rightarrow> unity \<Rightarrow> bool \<times> unity) \<Rightarrow> (unity \<Rightarrow> unity) \<Rightarrow> byte_store \<Rightarrow> 32 word \<Rightarrow> cstring \<Rightarrow>
    unity_int \<Rightarrow> display_style \<Rightarrow> array_flags \<Rightarrow> nat \<Rightarrow> nat \<Rightarrow> nat \<Rightarrow> unity \<Rightarrow> unit unity_run" where
  "compare_elements check intro m num_elements msg lineNumber style flags 0 expected actual u = (Inr (), u)"
| "compare_elements check intro m num_elements msg lineNumber style flags (Suc elements) expected actual u =
     (let n = element_size style in
      case read_int m n expected of None \<Rightarrow> (Inl Bad_Access, u) | Some expect_val \<Rightarrow>
      (case read_int m n actual of None \<Rightarrow> (Inl Bad_Access, u) | Some actual_val \<Rightarrow>
      (case check expect_val actual_val u of (failed, u) \<Rightarrow>
        if failed then
          let expect_val = strip_sign style n expect_val;
              actual_val = strip_sign style n actual_val;
              u = UnityTestResultsFailBegin lineNumber u;
              u = intro u;
              u = UnityPrint UnityStrElement u;
              u = UnityPrintNumberUnsigned (ucast (num_elements - of_nat elements - 1)) u;
              u = UnityPrint UnityStrExpected u;
              u = UnityPrintNumberByStyle expect_val style u;
              u = UnityPrint UnityStrWas u;
              u = UnityPrintNumberByStyle actual_val style u;
              u = UnityAddMsgIfSpecified msg u in
          UNITY_FAIL_AND_BAIL u
        else compare_elements check intro m num_elements msg lineNumber style flags elements
          (if flags = UNITY_ARRAY_TO_ARRAY then expected + n else expected) (actual + n) u)))"

text \<open>The checks before the loop.\<close>

definition with_arrays :: "pointer \<Rightarrow> pointer \<Rightarrow> bool \<Rightarrow> cstring \<Rightarrow> unity_int \<Rightarrow> (nat \<Rightarrow> nat \<Rightarrow> unity \<Rightarrow> unit unity_run) \<Rightarrow> unity \<Rightarrow> unit unity_run" where
  "with_arrays expected actual nothing msg lineNumber loop = RETURN_IF_FAIL_OR_IGNORE (\<lambda>u.
     if nothing then UnityPrintPointlessAndBail lineNumber msg u
     else if expected = actual then (Inr (), u)
     else
       case UnityIsOneArrayNull expected actual lineNumber msg u of (null, u) \<Rightarrow>
         if null then UNITY_FAIL_AND_BAIL u else loop (the expected) (the actual) u)"

definition UnityAssertEqualIntArray ::
  "byte_store \<Rightarrow> pointer \<Rightarrow> pointer \<Rightarrow> 32 word \<Rightarrow> cstring \<Rightarrow> unity_int \<Rightarrow> display_style \<Rightarrow> array_flags \<Rightarrow> unity \<Rightarrow> unit unity_run" where
  "UnityAssertEqualIntArray m expected actual num_elements msg lineNumber style flags =
     with_arrays expected actual (num_elements = 0) msg lineNumber
       (compare_elements (\<lambda>e a u. (e \<noteq> a, u)) (\<lambda>u. u) m num_elements msg lineNumber style flags (unat num_elements))"

definition UnityAssertNumbersArrayWithin ::
  "byte_store \<Rightarrow> unity_int \<Rightarrow> pointer \<Rightarrow> pointer \<Rightarrow> 32 word \<Rightarrow> cstring \<Rightarrow> unity_int \<Rightarrow> display_style \<Rightarrow> array_flags \<Rightarrow> unity \<Rightarrow> unit unity_run" where
  "UnityAssertNumbersArrayWithin m delta expected actual num_elements msg lineNumber style flags =
     with_arrays expected actual (num_elements = 0) msg lineNumber
       (compare_elements (\<lambda>e a u. (outside delta e a style, u\<lparr>CurrentTestFailed := of_bool (outside delta e a style)\<rparr>))
         (\<lambda>u. UnityPrintNumberByStyle delta style (UnityPrint UnityStrDelta u))
         m num_elements msg lineNumber style flags (unat num_elements))"

text \<open>The bytes of one element: the first difference, with the count of the bytes behind it.\<close>

fun compare_bytes :: "byte_store \<Rightarrow> nat \<Rightarrow> nat \<Rightarrow> nat \<Rightarrow> unity_jump + (nat \<times> byte \<times> byte) option" where
  "compare_bytes m 0 ptr_exp ptr_act = Inr None"
| "compare_bytes m (Suc bytes) ptr_exp ptr_act =
     (case m ptr_exp of None \<Rightarrow> Inl Bad_Access | Some e \<Rightarrow>
      (case m ptr_act of None \<Rightarrow> Inl Bad_Access | Some a \<Rightarrow>
        if e \<noteq> a then Inr (Some (bytes, e, a)) else compare_bytes m bytes (ptr_exp + 1) (ptr_act + 1)))"

fun compare_memory :: "byte_store \<Rightarrow> nat \<Rightarrow> 32 word \<Rightarrow> 32 word \<Rightarrow> cstring \<Rightarrow> unity_int \<Rightarrow> array_flags \<Rightarrow> nat \<Rightarrow> nat \<Rightarrow> nat \<Rightarrow> unity \<Rightarrow> unit unity_run" where
  "compare_memory m expected len num_elements msg lineNumber flags 0 ptr_exp ptr_act u = (Inr (), u)"
| "compare_memory m expected len num_elements msg lineNumber flags (Suc elements) ptr_exp ptr_act u =
     (case compare_bytes m (unat len) ptr_exp ptr_act of
        Inl j \<Rightarrow> (Inl j, u)
      | Inr None \<Rightarrow> compare_memory m expected len num_elements msg lineNumber flags elements
          (if flags = UNITY_ARRAY_TO_VAL then expected else ptr_exp + unat len) (ptr_act + unat len) u
      | Inr (Some (bytes, e, a)) \<Rightarrow>
          let u = UnityTestResultsFailBegin lineNumber u;
              u = UnityPrint UnityStrMemory u;
              u = (if num_elements > 1 then
                     UnityPrintNumberUnsigned (ucast (num_elements - of_nat elements - 1)) (UnityPrint UnityStrElement u)
                   else u);
              u = UnityPrint UnityStrByte u;
              u = UnityPrintNumberUnsigned (ucast (len - of_nat bytes - 1)) u;
              u = UnityPrint UnityStrExpected u;
              u = UnityPrintNumberByStyle (ucast e) UNITY_DISPLAY_STYLE_HEX8 u;
              u = UnityPrint UnityStrWas u;
              u = UnityPrintNumberByStyle (ucast a) UNITY_DISPLAY_STYLE_HEX8 u;
              u = UnityAddMsgIfSpecified msg u in
          UNITY_FAIL_AND_BAIL u)"

definition UnityAssertEqualMemory ::
  "byte_store \<Rightarrow> pointer \<Rightarrow> pointer \<Rightarrow> 32 word \<Rightarrow> 32 word \<Rightarrow> cstring \<Rightarrow> unity_int \<Rightarrow> array_flags \<Rightarrow> unity \<Rightarrow> unit unity_run" where
  "UnityAssertEqualMemory m expected actual len num_elements msg lineNumber flags =
     with_arrays expected actual (num_elements = 0 \<or> len = 0) msg lineNumber
       (\<lambda>e. compare_memory m e len num_elements msg lineNumber flags (unat num_elements) e)"

section \<open>Strings\<close>

text \<open>
  The loops over two strings, which end at the first difference or at the end of both. The index of the first has 32
  bits: strings are shorter than that.
\<close>

definition char_at_front :: "byte list \<Rightarrow> byte" where
  "char_at_front s = (case s of [] \<Rightarrow> 0 | c # _ \<Rightarrow> c)"

function strings_differ :: "byte list \<Rightarrow> byte list \<Rightarrow> bool" where
  "strings_differ expected actual =
     (if char_at_front expected \<noteq> 0 \<or> char_at_front actual \<noteq> 0 then
        if char_at_front expected \<noteq> char_at_front actual then True else strings_differ (tl expected) (tl actual)
      else False)"
  by auto

termination
  by (relation "measure (\<lambda>(e, a). length e)") (auto simp: char_at_front_def split: list.splits)

declare strings_differ.simps [simp del]

fun strings_differ_len :: "nat \<Rightarrow> byte list \<Rightarrow> byte list \<Rightarrow> bool" where
  "strings_differ_len 0 expected actual = False"
| "strings_differ_len (Suc n) expected actual =
     (if char_at_front expected \<noteq> 0 \<or> char_at_front actual \<noteq> 0 then
        if char_at_front expected \<noteq> char_at_front actual then True else strings_differ_len n (tl expected) (tl actual)
      else False)"

definition fail_if_set :: "unity_int \<Rightarrow> cstring \<Rightarrow> (unity \<Rightarrow> unity) \<Rightarrow> unity \<Rightarrow> unit unity_run" where
  "fail_if_set lineNumber msg print u =
     (if CurrentTestFailed u \<noteq> 0 then UNITY_FAIL_AND_BAIL (UnityAddMsgIfSpecified msg (print (UnityTestResultsFailBegin lineNumber u)))
      else (Inr (), u))"

definition UnityAssertEqualString :: "cstring \<Rightarrow> cstring \<Rightarrow> cstring \<Rightarrow> unity_int \<Rightarrow> unity \<Rightarrow> unit unity_run" where
  "UnityAssertEqualString expected actual msg lineNumber = RETURN_IF_FAIL_OR_IGNORE (\<lambda>u.
     fail_if_set lineNumber msg (UnityPrintExpectedAndActualStrings expected actual)
       (case (expected, actual) of
          (Some e, Some a) \<Rightarrow> if strings_differ e a then u\<lparr>CurrentTestFailed := 1\<rparr> else u
        | _ \<Rightarrow> if expected \<noteq> actual then u\<lparr>CurrentTestFailed := 1\<rparr> else u))"

definition UnityAssertEqualStringLen :: "cstring \<Rightarrow> cstring \<Rightarrow> 32 word \<Rightarrow> cstring \<Rightarrow> unity_int \<Rightarrow> unity \<Rightarrow> unit unity_run" where
  "UnityAssertEqualStringLen expected actual len msg lineNumber = RETURN_IF_FAIL_OR_IGNORE (\<lambda>u.
     fail_if_set lineNumber msg (UnityPrintExpectedAndActualStringsLen expected actual len)
       (case (expected, actual) of
          (Some e, Some a) \<Rightarrow> if strings_differ_len (unat len) e a then u\<lparr>CurrentTestFailed := 1\<rparr> else u
        | _ \<Rightarrow> if expected \<noteq> actual then u\<lparr>CurrentTestFailed := 1\<rparr> else u))"

section \<open>Ending a test\<close>

definition UnityFail :: "cstring \<Rightarrow> unity_int \<Rightarrow> unity \<Rightarrow> unit unity_run" where
  "UnityFail msg line = RETURN_IF_FAIL_OR_IGNORE (\<lambda>u.
     let u = UnityTestResultsBegin (TestFile u) line u;
         u = UnityPrint UnityStrFail u;
         u = (case msg of None \<Rightarrow> u
              | Some text \<Rightarrow>
                  let u = print_details (UNITY_OUTPUT_CHAR 0x3A u);
                      u = (if char_at_front text \<noteq> 0x20 then UNITY_OUTPUT_CHAR 0x20 u else u) in
                  UnityPrint msg u) in
     UNITY_FAIL_AND_BAIL u)"

definition UnityIgnore :: "cstring \<Rightarrow> unity_int \<Rightarrow> unity \<Rightarrow> unit unity_run" where
  "UnityIgnore msg line = RETURN_IF_FAIL_OR_IGNORE (\<lambda>u.
     let u = UnityTestResultsBegin (TestFile u) line u;
         u = UnityPrint UnityStrIgnore u;
         u = (if msg \<noteq> None then UnityPrint msg (UNITY_OUTPUT_CHAR 0x20 (UNITY_OUTPUT_CHAR 0x3A u)) else u) in
     UNITY_IGNORE_AND_BAIL u)"

definition UnityMessage :: "cstring \<Rightarrow> unity_int \<Rightarrow> unity \<Rightarrow> unity" where
  "UnityMessage msg line u =
     (let u = UnityTestResultsBegin (TestFile u) line u;
          u = UnityPrint (Some (chars ''INFO'')) u;
          u = (if msg \<noteq> None then UnityPrint msg (UNITY_OUTPUT_CHAR 0x20 (UNITY_OUTPUT_CHAR 0x3A u)) else u) in
      UNITY_PRINT_EOL u)"

text \<open>\<^verbatim>\<open>UNITY_TEST_ASSERT\<close>, the macro of the assertions on a condition.\<close>

definition UNITY_TEST_ASSERT :: "bool \<Rightarrow> unity_int \<Rightarrow> cstring \<Rightarrow> unity \<Rightarrow> unit unity_run" where
  "UNITY_TEST_ASSERT condition line msg u = (if condition then (Inr (), u) else UnityFail msg line u)"

section \<open>Printing changes nothing else\<close>

definition prints :: "unity \<Rightarrow> unity \<Rightarrow> bool" where
  "prints u v \<longleftrightarrow> (\<exists>t. v = wrote t u)"

lemma prints_refl [intro]: "prints u u"
  by (auto simp: prints_def intro: exI [of _ "[]"])

lemma prints_wrote [intro]: "prints u v \<Longrightarrow> prints u (wrote t v)"
  by (auto simp: prints_def)

lemma prints_if [intro]: "(c \<Longrightarrow> prints u v) \<Longrightarrow> (\<not> c \<Longrightarrow> prints u w) \<Longrightarrow> prints u (if c then v else w)"
  by simp

lemma prints_case_option [intro]:
  "(x = None \<Longrightarrow> prints u v) \<Longrightarrow> (\<And>y. x = Some y \<Longrightarrow> prints u (f y)) \<Longrightarrow> prints u (case x of None \<Rightarrow> v | Some y \<Rightarrow> f y)"
  by (cases x) simp_all

lemma print_nibbles_wrote: "UnityPrintNumberHex number n v = wrote (hex_digits True (nat (sint (if (scast n :: 32 word) > 16 then 16 else n))) number) v"
  by (simp add: UnityPrintNumberHex_def print_nibbles_text Let_def)

lemma prints_chars [intro]:
  assumes "prints u v"
  shows "prints u (UNITY_OUTPUT_CHAR c v)" and "prints u (UNITY_PRINT_EOL v)"
    and "prints u (UnityPrintNumberUnsigned number v)" and "prints u (UnityPrintNumber number v)"
    and "prints u (UnityPrintNumberHex number n v)" and "prints u (UnityPrintMask msk number v)"
    and "prints u (UnityPrint s v)"
  using assms by (auto simp: print_nibbles_wrote intro: prints_wrote) (cases s; simp add: prints_wrote)

lemma print_string_len_prints: "prints u v \<Longrightarrow> prints u (print_string_len n k s v)"
  by (induction s arbitrary: k v) (simp_all add: prints_wrote)

lemma prints_len [intro]: "prints u v \<Longrightarrow> prints u (UnityPrintLen s n v)"
  unfolding UnityPrintLen_def by (intro prints_case_option print_string_len_prints)

lemma prints_style [intro]: "prints u v \<Longrightarrow> prints u (UnityPrintNumberByStyle number style v)"
  unfolding UnityPrintNumberByStyle_def Let_def by (intro prints_if prints_chars)

lemma prints_begin [intro]: "prints u v \<Longrightarrow> prints u (UnityTestResultsBegin file line v)"
  unfolding UnityTestResultsBegin_def Let_def by (intro prints_chars)

lemma prints_fail_begin [intro]: "prints u v \<Longrightarrow> prints u (UnityTestResultsFailBegin line v)"
  unfolding UnityTestResultsFailBegin_def by (intro prints_chars prints_begin)

lemma prints_details [intro]: "prints u v \<Longrightarrow> prints u (print_details v)"
  unfolding print_details_def Let_def by (intro prints_if prints_chars)

lemma prints_msg [intro]: "prints u v \<Longrightarrow> prints u (UnityAddMsgIfSpecified msg v)"
  unfolding UnityAddMsgIfSpecified_def by (intro prints_if prints_chars prints_details)

lemma prints_quoted [intro]: "(\<And>w. prints u w \<Longrightarrow> prints u (f w)) \<Longrightarrow> prints u v \<Longrightarrow> prints u (print_quoted f s v)"
  unfolding print_quoted_def by (intro prints_if prints_chars) blast+

lemma prints_strings [intro]:
  "prints u v \<Longrightarrow> prints u (UnityPrintExpectedAndActualStrings e a v)"
  "prints u v \<Longrightarrow> prints u (UnityPrintExpectedAndActualStringsLen e a n v)"
  unfolding UnityPrintExpectedAndActualStrings_def UnityPrintExpectedAndActualStringsLen_def Let_def
  by (auto intro!: prints_quoted prints_chars prints_len simp del: output_char UnityPrint_text)

lemmas prints_rules = prints_if prints_chars prints_len prints_style prints_begin prints_fail_begin prints_details prints_msg
  prints_strings prints_case_option prints_refl

section \<open>The contract of an assertion\<close>

definition clean :: "unity \<Rightarrow> bool" where
  "clean u \<longleftrightarrow> CurrentTestFailed u = 0 \<and> CurrentTestIgnored u = 0"

definition failed_after :: "unity \<Rightarrow> unity \<Rightarrow> bool" where
  "failed_after u v \<longleftrightarrow> (\<exists>t. v = (wrote t u)\<lparr>CurrentTestFailed := 1\<rparr>)"

text \<open>
  What a test relies on: an assertion whose condition holds has no effect; one whose condition does not hold
  prints, marks the test as failed and leaves it; in a test that has already failed or was ignored an assertion
  changes nothing.
\<close>

locale assertion =
  fixes assert :: "unity \<Rightarrow> unit unity_run" and holds :: bool
  assumes passes: "clean u \<Longrightarrow> holds \<Longrightarrow> assert u = (Inr (), u)"
    and fails: "clean u \<Longrightarrow> \<not> holds \<Longrightarrow> \<exists>v. assert u = (Inl Abort, v) \<and> failed_after u v"
    and guarded: "\<not> clean u \<Longrightarrow> assert u = (Inl Abort, u) \<or> assert u = (Inr (), u)"
begin

lemma no_access: "fst (assert u) \<noteq> Inl Bad_Access"
  using passes [of u] fails [of u] guarded [of u] by (cases "clean u"; cases holds) auto

lemma returns_iff: "clean u \<Longrightarrow> fst (assert u) = Inr () \<longleftrightarrow> holds"
  using passes [of u] fails [of u] by (cases holds) auto

end

lemma failed_afterI: "prints u v \<Longrightarrow> failed_after u (v\<lparr>CurrentTestFailed := 1\<rparr>)"
  by (auto simp: prints_def failed_after_def)

lemma failed_afterI_set: "prints (u\<lparr>CurrentTestFailed := x\<rparr>) v \<Longrightarrow> failed_after u (v\<lparr>CurrentTestFailed := 1\<rparr>)"
  by (auto simp: prints_def failed_after_def wrote_def)

lemma bail: "failed_after u (v\<lparr>CurrentTestFailed := 1\<rparr>) \<Longrightarrow> \<exists>w. UNITY_FAIL_AND_BAIL v = (Inl Abort, w) \<and> failed_after u w"
  by (simp add: UNITY_FAIL_AND_BAIL_def TEST_ABORT_def)

lemma assertionI:
  assumes "\<And>u. clean u \<Longrightarrow> p \<Longrightarrow> body u = (Inr (), u)"
    and "\<And>u. clean u \<Longrightarrow> \<not> p \<Longrightarrow> \<exists>v. body u = (Inl Abort, v) \<and> failed_after u v"
  shows "assertion (RETURN_IF_FAIL_OR_IGNORE body) p"
  using assms by unfold_locales (auto simp: RETURN_IF_FAIL_OR_IGNORE_def TEST_ABORT_def clean_def)

lemma set_failed_clean [simp]: "clean u \<Longrightarrow> u\<lparr>CurrentTestFailed := 0\<rparr> = u"
  by (cases u) (simp add: clean_def)

lemma clean_not_failed [simp]: "clean u \<Longrightarrow> CurrentTestFailed u = 0"
  by (simp add: clean_def)

section \<open>The assertions meet it\<close>

lemma bits_assertion: "assertion (UnityAssertBits msk e a msg line) (\<forall>i<64. bit msk i \<longrightarrow> bit e i = bit a i)"
proof -
  have "msk AND e = msk AND a \<longleftrightarrow> (\<forall>i<64. bit msk i \<longrightarrow> bit e i = bit a i)"
    unfolding bit_eq_iff by (auto simp: bit_simps)
  then show ?thesis unfolding UnityAssertBits_def
    by (intro assertionI) (auto simp: Let_def intro!: bail failed_afterI prints_rules simp del: output_char UnityPrintMask_text UnityPrint_text)
qed

lemma number_assertion: "assertion (UnityAssertEqualNumber e a msg line style) (e = a)"
  unfolding UnityAssertEqualNumber_def
  by (intro assertionI) (auto simp: Let_def intro!: bail failed_afterI prints_rules simp del: output_char UnityPrint_text)

text \<open>The value that a comparison takes a number for.\<close>

definition read_as :: "display_style \<Rightarrow> unity_int \<Rightarrow> int" where
  "read_as style w = (if style AND UNITY_DISPLAY_RANGE_INT = UNITY_DISPLAY_RANGE_INT then sint w else uint w)"

definition in_order :: "comparison \<Rightarrow> int \<Rightarrow> int \<Rightarrow> bool" where
  "in_order compare threshold actual =
     (if actual = threshold then compare AND UNITY_EQUAL_TO \<noteq> 0
      else if threshold < actual then compare AND UNITY_SMALLER_THAN = 0
      else compare AND UNITY_GREATER_THAN = 0)"

lemma read_as_eq: "read_as style a = read_as style b \<longleftrightarrow> a = b"
  by (auto simp: read_as_def intro: signed_word_eqI word_uint_eqI)

lemma order_assertion:
  "assertion (UnityAssertGreaterOrLessOrEqualNumber threshold actual compare msg line style)
     (in_order compare (read_as style threshold) (read_as style actual))"
proof -
  have less: "(if style AND UNITY_DISPLAY_RANGE_INT = UNITY_DISPLAY_RANGE_INT then v <s w else v < w) \<longleftrightarrow> read_as style v < read_as style w"
    for v w by (simp add: read_as_def word_sless_alt word_less_def)
  have tri: "read_as style actual < read_as style threshold \<longleftrightarrow> actual \<noteq> threshold \<and> \<not> read_as style threshold < read_as style actual"
    using read_as_eq [of style actual threshold] by linarith
  show ?thesis
  proof (cases "style AND UNITY_DISPLAY_RANGE_INT = UNITY_DISPLAY_RANGE_INT")
    case True
    then have l: "v <s w \<longleftrightarrow> read_as style v < read_as style w" for v w using less by simp
    show ?thesis unfolding UnityAssertGreaterOrLessOrEqualNumber_def in_order_def Let_def read_as_eq
      by (intro assertionI)
        (use True l tri in \<open>auto simp: read_as_eq intro!: bail failed_afterI prints_rules simp del: output_char UnityPrint_text split: if_splits\<close>)
  next
    case False
    then have l: "v < w \<longleftrightarrow> read_as style v < read_as style w" for v w using less by simp
    show ?thesis unfolding UnityAssertGreaterOrLessOrEqualNumber_def in_order_def Let_def read_as_eq
      by (intro assertionI)
        (use False l tri in \<open>auto simp: read_as_eq intro!: bail failed_afterI prints_rules simp del: output_char UnityPrint_text split: if_splits\<close>)
  qed
qed

lemma signed_difference:
  fixes a e :: "64 word"
  assumes "sint e \<le> sint a"
  shows "uint (a - e) = sint a - sint e"
proof -
  have b: "- (2 ^ 63) \<le> sint e" "sint a < 2 ^ 63" using sint_ge [of e] sint_lt [of a] by simp_all
  have "a - e = word_of_int (sint a - sint e)" by simp
  then show ?thesis using b assms by (simp only: uint_word_of_int) simp
qed

lemma outside_distance: "outside delta e a style \<longleftrightarrow> uint delta < \<bar>read_as style a - read_as style e\<bar>"
proof -
  have u: "uint (a - e) = uint a - uint e" if "uint e \<le> uint a" for a e :: "64 word"
    using that uint_sub_lem [of e a] by simp
  have "outside delta e a style \<longleftrightarrow> uint delta < (if style AND UNITY_DISPLAY_RANGE_INT = UNITY_DISPLAY_RANGE_INT
      then if sint e < sint a then uint (a - e) else uint (e - a) else if uint e < uint a then uint (a - e) else uint (e - a))"
    by (simp add: outside_def word_sless_alt word_less_def)
  also have "\<dots> \<longleftrightarrow> uint delta < (if style AND UNITY_DISPLAY_RANGE_INT = UNITY_DISPLAY_RANGE_INT then \<bar>sint a - sint e\<bar> else \<bar>uint a - uint e\<bar>)"
    using signed_difference [of e a] signed_difference [of a e] u [of e a] u [of a e] by (simp only: split: if_splits) linarith
  finally show ?thesis by (simp add: read_as_def)
qed

lemma within_assertion:
  "assertion (UnityAssertNumbersWithin delta e a msg line style) (\<bar>read_as style a - read_as style e\<bar> \<le> uint delta)"
  unfolding UnityAssertNumbersWithin_def not_less [symmetric] outside_distance [symmetric]
  by (intro assertionI) (auto simp: Let_def intro!: bail failed_afterI_set prints_rules simp del: output_char UnityPrint_text)

text \<open>Strings are compared up to their end, or up to a length.\<close>

definition c_string :: "byte list \<Rightarrow> byte list" where
  "c_string = takeWhile (\<lambda>c. c \<noteq> 0)"

lemma strings_differ_iff: "strings_differ e a \<longleftrightarrow> c_string e \<noteq> c_string a"
proof (induction e a rule: strings_differ.induct)
  case (1 e a)
  then show ?case by (subst strings_differ.simps) (cases e; cases a; auto simp: char_at_front_def c_string_def)
qed

lemma strings_differ_len_iff: "strings_differ_len n e a \<longleftrightarrow> c_string (take n e) \<noteq> c_string (take n a)"
proof (induction n arbitrary: e a)
  case (Suc n)
  then show ?case by (cases e; cases a) (auto simp: char_at_front_def c_string_def)
qed (simp add: c_string_def)

lemma string_assertion:
  "assertion (UnityAssertEqualString e a msg line) (map_option c_string e = map_option c_string a)"
  unfolding UnityAssertEqualString_def
  by (intro assertionI)
    (auto simp: fail_if_set_def strings_differ_iff intro!: bail failed_afterI_set prints_rules split: option.splits
      simp del: output_char UnityPrint_text)

lemma string_len_assertion:
  "assertion (UnityAssertEqualStringLen e a n msg line)
     (map_option (\<lambda>s. c_string (take (unat n) s)) e = map_option (\<lambda>s. c_string (take (unat n) s)) a)"
  unfolding UnityAssertEqualStringLen_def
  by (intro assertionI)
    (auto simp: fail_if_set_def strings_differ_len_iff intro!: bail failed_afterI_set prints_rules split: option.splits
      simp del: output_char UnityPrint_text)

text \<open>A plain failure, and a condition.\<close>

lemma fail_assertion: "assertion (UnityFail msg line) False"
  unfolding UnityFail_def
  by (intro assertionI) (auto simp: Let_def intro!: bail failed_afterI prints_rules simp del: output_char UnityPrint_text)

lemma condition_assertion: "assertion (UNITY_TEST_ASSERT c line msg) c"
  using assertion.fails [OF fail_assertion] assertion.guarded [OF fail_assertion]
  by unfold_locales (simp_all add: UNITY_TEST_ASSERT_def)

text \<open>Memory that can be read is compared byte by byte.\<close>

definition readable :: "byte_store \<Rightarrow> nat \<Rightarrow> nat \<Rightarrow> bool" where
  "readable m a n \<longleftrightarrow> (\<forall>i<n. m (a + i) \<noteq> None)"

lemma readable_Suc: "readable m a (Suc n) \<longleftrightarrow> (\<exists>b. m a = Some b) \<and> readable m (a + 1) n"
  by (auto simp: readable_def less_Suc_eq_0_disj)

lemma readable_split: "readable m a (k + n) \<longleftrightarrow> readable m a k \<and> readable m (a + k) n"
proof -
  have "(\<forall>i<k + n. P i) \<longleftrightarrow> (\<forall>i<k. P i) \<and> (\<forall>i<n. P (k + i))" for P
    by (metis add_less_cancel_left le_add_diff_inverse not_le trans_less_add1)
  then show ?thesis by (simp add: readable_def add.assoc)
qed

lemma all_less_Suc: "(\<forall>i<Suc n. P i) \<longleftrightarrow> P 0 \<and> (\<forall>i<n. P (Suc i))"
  by (auto simp: less_Suc_eq_0_disj)

lemma compare_bytes_iff:
  assumes "readable m e n" and "readable m a n"
  shows "\<forall>i<n. m (e + i) = m (a + i) \<Longrightarrow> compare_bytes m n e a = Inr None"
    and "\<not> (\<forall>i<n. m (e + i) = m (a + i)) \<Longrightarrow> \<exists>d. compare_bytes m n e a = Inr (Some d)"
  using assms
  by (induction n arbitrary: e a) (auto simp: readable_Suc all_less_Suc, metis add_Suc)

lemma compare_memory_loop:
  assumes "readable m pa (k * unat len)" and "readable m pe (if flags = UNITY_ARRAY_TO_VAL then unat len else k * unat len)"
    and "flags = UNITY_ARRAY_TO_VAL \<longrightarrow> pe = e"
  defines "stride \<equiv> if flags = UNITY_ARRAY_TO_VAL then 0 else unat len"
  defines "same \<equiv> \<forall>i<k. \<forall>j<unat len. m (pe + i * stride + j) = m (pa + i * unat len + j)"
  shows "same \<Longrightarrow> compare_memory m e len n msg line flags k pe pa u = (Inr (), u)"
    and "\<not> same \<Longrightarrow> \<exists>v. compare_memory m e len n msg line flags k pe pa u = (Inl Abort, v) \<and> failed_after u v"
proof -
  have "(same \<longrightarrow> compare_memory m e len n msg line flags k pe pa u = (Inr (), u)) \<and>
      (\<not> same \<longrightarrow> (\<exists>v. compare_memory m e len n msg line flags k pe pa u = (Inl Abort, v) \<and> failed_after u v))"
    using assms(1-3) unfolding same_def
  proof (induction k arbitrary: pe pa)
    case (Suc k)
    define pe' where "pe' = (if flags = UNITY_ARRAY_TO_VAL then e else pe + unat len)"
    have pe': "pe' + i * stride + j = pe + Suc i * stride + j" for i j
      using Suc.prems(3) by (simp add: pe'_def stride_def)
    have r: "readable m pe (unat len)" "readable m pa (unat len)" "readable m (pa + unat len) (k * unat len)"
      "readable m pe' (if flags = UNITY_ARRAY_TO_VAL then unat len else k * unat len)"
      using Suc.prems by (auto simp: readable_split pe'_def split: if_splits)
    have f: "flags = UNITY_ARRAY_TO_VAL \<longrightarrow> pe' = e" by (simp add: pe'_def)
    have IH: "((\<forall>i<k. \<forall>j<unat len. m (pe + Suc i * stride + j) = m (pa + Suc i * unat len + j)) \<longrightarrow>
          compare_memory m e len n msg line flags k pe' (pa + unat len) u = (Inr (), u)) \<and>
        (\<not> (\<forall>i<k. \<forall>j<unat len. m (pe + Suc i * stride + j) = m (pa + Suc i * unat len + j)) \<longrightarrow>
          (\<exists>v. compare_memory m e len n msg line flags k pe' (pa + unat len) u = (Inl Abort, v) \<and> failed_after u v))"
      using Suc.IH [OF r(3,4) f] by (simp only: pe') (simp add: add.assoc)
    show ?case
    proof (cases "\<forall>j<unat len. m (pe + j) = m (pa + j)")
      case True
      then have "compare_bytes m (unat len) pe pa = Inr None" using compare_bytes_iff(1) [OF r(1,2)] by simp
      then show ?thesis using IH True by (auto simp: all_less_Suc simp flip: pe'_def)
    next
      case False
      then obtain d where "compare_bytes m (unat len) pe pa = Inr (Some d)" using compare_bytes_iff(2) [OF r(1,2)] by blast
      then show ?thesis using False
        by (cases d) (auto simp: Let_def all_less_Suc intro!: bail failed_afterI prints_rules simp del: output_char UnityPrint_text)
    qed
  qed simp
  then show "same \<Longrightarrow> compare_memory m e len n msg line flags k pe pa u = (Inr (), u)"
    and "\<not> same \<Longrightarrow> \<exists>v. compare_memory m e len n msg line flags k pe pa u = (Inl Abort, v) \<and> failed_after u v" by blast+
qed

lemma null_prints:
  "(\<lambda>(null, v). prints u v \<and> (null \<longleftrightarrow> e \<noteq> a \<and> (e = None \<or> a = None)) \<and> (\<not> null \<longrightarrow> v = u)) (UnityIsOneArrayNull e a line msg u)"
  unfolding UnityIsOneArrayNull_def
  by (auto intro!: prints_rules simp del: output_char UnityPrint_text)

lemma with_arrays_assertion:
  assumes "\<And>e a u. expected = Some e \<Longrightarrow> actual = Some a \<Longrightarrow> clean u \<Longrightarrow> p e a \<Longrightarrow> loop e a u = (Inr (), u)"
    and "\<And>e a u. expected = Some e \<Longrightarrow> actual = Some a \<Longrightarrow> clean u \<Longrightarrow> \<not> p e a \<Longrightarrow> \<exists>v. loop e a u = (Inl Abort, v) \<and> failed_after u v"
  shows "assertion (with_arrays expected actual nothing msg line loop)
     (\<not> nothing \<and> (expected = actual \<or> (\<exists>e a. expected = Some e \<and> actual = Some a \<and> p e a)))"
  unfolding with_arrays_def
proof (intro assertionI)
  fix u assume "clean u" "\<not> nothing \<and> (expected = actual \<or> (\<exists>e a. expected = Some e \<and> actual = Some a \<and> p e a))"
  then show "(if nothing then UnityPrintPointlessAndBail line msg u
        else if expected = actual then (Inr (), u)
             else case UnityIsOneArrayNull expected actual line msg u of
                  (null, u) \<Rightarrow> if null then UNITY_FAIL_AND_BAIL u else loop (the expected) (the actual) u) = (Inr (), u)"
    using assms(1) null_prints [of u expected actual line msg] by (auto split: prod.splits)
next
  fix u assume c: "clean u" "\<not> (\<not> nothing \<and> (expected = actual \<or> (\<exists>e a. expected = Some e \<and> actual = Some a \<and> p e a)))"
  have "nothing \<Longrightarrow> \<exists>v. UnityPrintPointlessAndBail line msg u = (Inl Abort, v) \<and> failed_after u v"
    unfolding UnityPrintPointlessAndBail_def by (intro bail failed_afterI prints_rules)
  moreover have "expected \<noteq> actual \<Longrightarrow> \<not> nothing \<Longrightarrow> \<exists>v. (case UnityIsOneArrayNull expected actual line msg u of
      (null, u) \<Rightarrow> if null then UNITY_FAIL_AND_BAIL u else loop (the expected) (the actual) u) = (Inl Abort, v) \<and> failed_after u v"
    using assms(2) [OF _ _ c(1)] c(2) null_prints [of u expected actual line msg]
    by (auto split: prod.splits intro!: bail failed_afterI)
  ultimately show "\<exists>v. (if nothing then UnityPrintPointlessAndBail line msg u
        else if expected = actual then (Inr (), u)
             else case UnityIsOneArrayNull expected actual line msg u of
                  (null, u) \<Rightarrow> if null then UNITY_FAIL_AND_BAIL u else loop (the expected) (the actual) u) = (Inl Abort, v) \<and> failed_after u v"
    using c by auto
qed

lemma memory_assertion:
  assumes "\<And>a. actual = Some a \<Longrightarrow> readable m a (unat n * unat len)"
    and "\<And>e. expected = Some e \<Longrightarrow> readable m e (if flags = UNITY_ARRAY_TO_VAL then unat len else unat n * unat len)"
  shows "assertion (UnityAssertEqualMemory m expected actual len n msg line flags)
    (\<not> (n = 0 \<or> len = 0) \<and> (expected = actual \<or> (\<exists>e a. expected = Some e \<and> actual = Some a \<and>
      (\<forall>i<unat n. \<forall>j<unat len. m (e + i * (if flags = UNITY_ARRAY_TO_VAL then 0 else unat len) + j) = m (a + i * unat len + j)))))"
  unfolding UnityAssertEqualMemory_def
  by (rule with_arrays_assertion) (use assms in \<open>simp_all add: compare_memory_loop\<close>)

text \<open>Arrays of integers are compared element by element.\<close>

lemma read_int_readable: "readable m a n \<Longrightarrow> \<exists>v. read_int m n a = Some v"
proof -
  assume r: "readable m a n"
  have "\<exists>bs. those (map m [a..<a + n]) = Some bs" using r
  proof (induction n arbitrary: a)
    case (Suc n)
    then show ?case using Suc.IH [of "Suc a"] by (fastforce simp: readable_Suc upt_rec [of a])
  qed simp
  then show "\<exists>v. read_int m n a = Some v" by (auto simp: read_int_def read_bytes_def)
qed

definition compares :: "(unity_int \<Rightarrow> unity_int \<Rightarrow> unity \<Rightarrow> bool \<times> unity) \<Rightarrow> (unity_int \<Rightarrow> unity_int \<Rightarrow> bool) \<Rightarrow> bool" where
  "compares check ok \<longleftrightarrow> (\<forall>e a u. clean u \<longrightarrow> (if ok e a then check e a u = (False, u) else \<exists>x. check e a u = (True, u\<lparr>CurrentTestFailed := x\<rparr>)))"

lemma compare_elements_loop:
  assumes c: "compares check ok" and i: "\<And>u v. prints u v \<Longrightarrow> prints u (intro v)" and u: "clean u"
    and n: "n = element_size style" and s: "stride = (if flags = UNITY_ARRAY_TO_ARRAY then n else 0)"
    and "readable m a (k * n)" and "readable m e (if flags = UNITY_ARRAY_TO_ARRAY then k * n else n)"
  shows "(if \<forall>i<k. ok (the (read_int m n (e + i * stride))) (the (read_int m n (a + i * n)))
     then compare_elements check intro m num msg line style flags k e a u = (Inr (), u)
     else \<exists>v. compare_elements check intro m num msg line style flags k e a u = (Inl Abort, v) \<and> failed_after u v)"
  using assms(6,7)
proof (induction k arbitrary: e a)
  case (Suc k)
  define e' where "e' = (if flags = UNITY_ARRAY_TO_ARRAY then e + n else e)"
  have e': "e' + i * stride = e + Suc i * stride" for i by (simp add: e'_def s)
  have r: "readable m e n" "readable m a n" "readable m (a + n) (k * n)"
    "readable m e' (if flags = UNITY_ARRAY_TO_ARRAY then k * n else n)"
    using Suc.prems by (auto simp: readable_split e'_def split: if_splits)
  obtain x y where xy: "read_int m n e = Some x" "read_int m n a = Some y"
    using read_int_readable [OF r(1)] read_int_readable [OF r(2)] by blast
  show ?case
  proof (cases "ok x y")
    case True
    then have "check x y u = (False, u)" using c u by (simp add: compares_def)
    then have "compare_elements check intro m num msg line style flags (Suc k) e a u =
        compare_elements check intro m num msg line style flags k e' (a + n) u"
      using xy by (simp add: e'_def flip: n)
    then show ?thesis using Suc.IH [OF r(3,4)] True xy by (simp only: e' all_less_Suc) (simp add: add.assoc)
  next
    case False
    then obtain z where "check x y u = (True, u\<lparr>CurrentTestFailed := z\<rparr>)" using c u unfolding compares_def by meson
    then show ?thesis using False xy
      by (auto simp: all_less_Suc Let_def intro!: bail failed_afterI_set prints_rules i simp flip: n
        simp del: output_char UnityPrint_text UnityPrintNumberUnsigned_text)
  qed
qed simp

lemma int_array_assertion:
  assumes "\<And>a. actual = Some a \<Longrightarrow> readable m a (unat num * n)"
    and "\<And>e. expected = Some e \<Longrightarrow> readable m e (if flags = UNITY_ARRAY_TO_ARRAY then unat num * n else n)"
    and n: "n = element_size style" and s: "stride = (if flags = UNITY_ARRAY_TO_ARRAY then n else 0)"
  shows "assertion (UnityAssertEqualIntArray m expected actual num msg line style flags)
    (\<not> num = 0 \<and> (expected = actual \<or> (\<exists>e a. expected = Some e \<and> actual = Some a \<and>
      (\<forall>i<unat num. the (read_int m n (e + i * stride)) = the (read_int m n (a + i * n))))))"
proof -
  have c: "compares (\<lambda>e a u. (e \<noteq> a, u)) (=)" unfolding compares_def
  proof (intro allI impI)
    fix e a :: unity_int and u
    have "u = u\<lparr>CurrentTestFailed := CurrentTestFailed u\<rparr>" by simp
    then have "\<exists>x. u = u\<lparr>CurrentTestFailed := x\<rparr>" by (rule exI)
    then show "if e = a then (e \<noteq> a, u) = (False, u) else \<exists>x. (e \<noteq> a, u) = (True, u\<lparr>CurrentTestFailed := x\<rparr>)" by simp
  qed
  show ?thesis unfolding UnityAssertEqualIntArray_def
  proof (rule with_arrays_assertion)
    fix e a u assume *: "expected = Some e" "actual = Some a" "clean u"
    note l = compare_elements_loop [OF c _ *(3) n s assms(1) [OF *(2)] assms(2) [OF *(1)]]
    show "(\<forall>i<unat num. the (read_int m n (e + i * stride)) = the (read_int m n (a + i * n))) \<Longrightarrow>
      compare_elements (\<lambda>e a u. (e \<noteq> a, u)) (\<lambda>u. u) m num msg line style flags (unat num) e a u = (Inr (), u)"
      using l [of "\<lambda>u. u" num msg line] by simp
    show "\<not> (\<forall>i<unat num. the (read_int m n (e + i * stride)) = the (read_int m n (a + i * n))) \<Longrightarrow>
      \<exists>v. compare_elements (\<lambda>e a u. (e \<noteq> a, u)) (\<lambda>u. u) m num msg line style flags (unat num) e a u = (Inl Abort, v) \<and> failed_after u v"
      using l [of "\<lambda>u. u" num msg line] by auto
  qed
qed

lemma int_array_within_assertion:
  assumes "\<And>a. actual = Some a \<Longrightarrow> readable m a (unat num * n)"
    and "\<And>e. expected = Some e \<Longrightarrow> readable m e (if flags = UNITY_ARRAY_TO_ARRAY then unat num * n else n)"
    and n: "n = element_size style" and s: "stride = (if flags = UNITY_ARRAY_TO_ARRAY then n else 0)"
  shows "assertion (UnityAssertNumbersArrayWithin m delta expected actual num msg line style flags)
    (\<not> num = 0 \<and> (expected = actual \<or> (\<exists>e a. expected = Some e \<and> actual = Some a \<and>
      (\<forall>i<unat num. \<bar>read_as style (the (read_int m n (a + i * n))) - read_as style (the (read_int m n (e + i * stride)))\<bar> \<le> uint delta))))"
proof -
  define check where "check = (\<lambda>e a (u :: unity). (outside delta e a style, u\<lparr>CurrentTestFailed := of_bool (outside delta e a style)\<rparr>))"
  have c: "compares check (\<lambda>e a. \<bar>read_as style a - read_as style e\<bar> \<le> uint delta)"
    unfolding compares_def check_def outside_distance by auto
  define intro where "intro = (\<lambda>u. UnityPrintNumberByStyle delta style (UnityPrint UnityStrDelta u))"
  have i: "prints u (intro v)" if "prints u v" for u v
    unfolding intro_def using that by (intro prints_rules)
  show ?thesis unfolding UnityAssertNumbersArrayWithin_def check_def [symmetric] intro_def [symmetric]
  proof (rule with_arrays_assertion)
    fix e a u assume *: "expected = Some e" "actual = Some a" "clean u"
    note l = compare_elements_loop [OF c _ *(3) n s assms(1) [OF *(2)] assms(2) [OF *(1)], where intro = intro and num = num and msg = msg and line = line]
    show "(\<forall>i<unat num. \<bar>read_as style (the (read_int m n (a + i * n))) - read_as style (the (read_int m n (e + i * stride)))\<bar> \<le> uint delta) \<Longrightarrow>
      compare_elements check intro m num msg line style flags (unat num) e a u = (Inr (), u)"
      using l i by simp
    show "\<not> (\<forall>i<unat num. \<bar>read_as style (the (read_int m n (a + i * n))) - read_as style (the (read_int m n (e + i * stride)))\<bar> \<le> uint delta) \<Longrightarrow>
      \<exists>v. compare_elements check intro m num msg line style flags (unat num) e a u
        = (Inl Abort, v) \<and> failed_after u v"
      using l i by auto
  qed
qed

text \<open>
  The elements of an unsigned array are read as signed ones, so that 127 and 128 are not within 1 of each other.
\<close>

abbreviation UNITY_DISPLAY_STYLE_UINT8 :: display_style where "UNITY_DISPLAY_STYLE_UINT8 \<equiv> 0x21"

lemma array_within_sign_extended:
  assumes "clean u"
  shows "\<exists>v. UnityAssertNumbersArrayWithin [0 \<mapsto> 127, 1 \<mapsto> 128] 1 (Some 0) (Some 1) 1 msg line UNITY_DISPLAY_STYLE_UINT8 UNITY_ARRAY_TO_ARRAY u
    = (Inl Abort, v) \<and> failed_after u v"
proof -
  have r: "read_int [0 \<mapsto> 127, 1 \<mapsto> 128] 1 0 = Some 127" "read_int [0 \<mapsto> 127, 1 \<mapsto> 128] 1 1 = Some (- 128)"
    by (simp_all add: read_int_def read_bytes_def word_of_bytes_def)
  have e: "element_size UNITY_DISPLAY_STYLE_UINT8 = 1" by (simp add: element_size_def)
  have "assertion (UnityAssertNumbersArrayWithin [0 \<mapsto> 127, 1 \<mapsto> 128] 1 (Some 0) (Some 1) 1 msg line UNITY_DISPLAY_STYLE_UINT8 UNITY_ARRAY_TO_ARRAY)
    (\<not> (1 :: 32 word) = 0 \<and> (Some 0 = Some (1 :: nat) \<or> (\<exists>e a. Some 0 = Some e \<and> Some 1 = Some a \<and>
      (\<forall>i<unat (1 :: 32 word). \<bar>read_as UNITY_DISPLAY_STYLE_UINT8 (the (read_int [0 \<mapsto> 127, 1 \<mapsto> 128] 1 (a + i * 1)))
        - read_as UNITY_DISPLAY_STYLE_UINT8 (the (read_int [0 \<mapsto> 127, 1 \<mapsto> 128] 1 (e + i * 1)))\<bar> \<le> uint (1 :: unity_int)))))"
    by (rule int_array_within_assertion) (simp_all add: readable_def e)
  from assertion.fails [OF this assms] show ?thesis by (simp add: r read_as_def del: One_nat_def)
qed

section \<open>Interpretations\<close>

interpretation bits: assertion "UnityAssertBits msk e a msg line" "\<forall>i<64. bit msk i \<longrightarrow> bit e i = bit a i" for msk e a msg line
  by (rule bits_assertion)

interpretation num: assertion "UnityAssertEqualNumber e a msg line style" "e = a" for e a msg line style
  by (rule number_assertion)

interpretation order: assertion "UnityAssertGreaterOrLessOrEqualNumber t a compare msg line style"
    "in_order compare (read_as style t) (read_as style a)" for t a compare msg line style
  by (rule order_assertion)

interpretation within: assertion "UnityAssertNumbersWithin delta e a msg line style" "\<bar>read_as style a - read_as style e\<bar> \<le> uint delta"
    for delta e a msg line style
  by (rule within_assertion)

interpretation cstr: assertion "UnityAssertEqualString e a msg line" "map_option c_string e = map_option c_string a" for e a msg line
  by (rule string_assertion)

interpretation cstrn: assertion "UnityAssertEqualStringLen e a n msg line"
    "map_option (\<lambda>s. c_string (take (unat n) s)) e = map_option (\<lambda>s. c_string (take (unat n) s)) a" for e a n msg line
  by (rule string_len_assertion)

interpretation failing: assertion "UnityFail msg line" False for msg line
  by (rule fail_assertion)

interpretation condition: assertion "UNITY_TEST_ASSERT c line msg" c for c line msg
  by (rule condition_assertion)

end
