(* ===== verification/Unity_Macros.thy ===== *)
theory Unity_Macros
  imports Unity_Assert
begin

text \<open>
  The assertion macros of \<^verbatim>\<open>externals/unity_internals.h\<close> and \<^verbatim>\<open>externals/unity.h\<close>: the tests write these,
  and the macros convert their operands before they call the functions of \<open>Unity_Assert\<close>. There is one macro for
  every type of an operand; here each family is one definition with the type as its argument. An operand is the
  64 bits to which C extends the value of the expression.
\<close>

section \<open>The types of operands\<close>

datatype int_kind =
    K_INT | K_INT8 | K_INT16 | K_INT32 | K_INT64
  | K_UINT | K_UINT8 | K_UINT16 | K_UINT32 | K_UINT64
  | K_HEX8 | K_HEX16 | K_HEX32 | K_HEX64 | K_CHAR

text \<open>The suffixes \<^verbatim>\<open>size_t\<close> and \<^verbatim>\<open>HEX\<close> stand for other ones.\<close>

abbreviation (input) K_size_t :: int_kind where "K_size_t \<equiv> K_UINT"
abbreviation (input) K_HEX :: int_kind where "K_HEX \<equiv> K_HEX32"

text \<open>The display style of a type: its number of bytes, an \<^verbatim>\<open>int\<close> has four, and how it is printed.\<close>

primrec style_of :: "int_kind \<Rightarrow> display_style" where
  "style_of K_INT = 4 + UNITY_DISPLAY_RANGE_INT"
| "style_of K_INT8 = 1 + UNITY_DISPLAY_RANGE_INT"
| "style_of K_INT16 = 2 + UNITY_DISPLAY_RANGE_INT"
| "style_of K_INT32 = 4 + UNITY_DISPLAY_RANGE_INT"
| "style_of K_INT64 = 8 + UNITY_DISPLAY_RANGE_INT"
| "style_of K_UINT = 4 + UNITY_DISPLAY_RANGE_UINT"
| "style_of K_UINT8 = 1 + UNITY_DISPLAY_RANGE_UINT"
| "style_of K_UINT16 = 2 + UNITY_DISPLAY_RANGE_UINT"
| "style_of K_UINT32 = 4 + UNITY_DISPLAY_RANGE_UINT"
| "style_of K_UINT64 = 8 + UNITY_DISPLAY_RANGE_UINT"
| "style_of K_HEX8 = 1 + UNITY_DISPLAY_RANGE_HEX"
| "style_of K_HEX16 = 2 + UNITY_DISPLAY_RANGE_HEX"
| "style_of K_HEX32 = 4 + UNITY_DISPLAY_RANGE_HEX"
| "style_of K_HEX64 = 8 + UNITY_DISPLAY_RANGE_HEX"
| "style_of K_CHAR = 1 + UNITY_DISPLAY_RANGE_CHAR + UNITY_DISPLAY_RANGE_INT"

abbreviation UNITY_DISPLAY_STYLE_POINTER :: display_style where "UNITY_DISPLAY_STYLE_POINTER \<equiv> style_of K_HEX64"

text \<open>The casts to a narrow type and back to 64 bits.\<close>

definition UNITY_INT8 :: "unity_int \<Rightarrow> unity_int" where "UNITY_INT8 w = scast (ucast w :: 8 word)"
definition UNITY_INT16 :: "unity_int \<Rightarrow> unity_int" where "UNITY_INT16 w = scast (ucast w :: 16 word)"
definition UNITY_INT32 :: "unity_int \<Rightarrow> unity_int" where "UNITY_INT32 w = scast (ucast w :: 32 word)"
definition UNITY_UINT8 :: "unity_int \<Rightarrow> unity_int" where "UNITY_UINT8 w = ucast (ucast w :: 8 word)"
definition UNITY_UINT16 :: "unity_int \<Rightarrow> unity_int" where "UNITY_UINT16 w = ucast (ucast w :: 16 word)"
definition UNITY_UINT32 :: "unity_int \<Rightarrow> unity_int" where "UNITY_UINT32 w = ucast (ucast w :: 32 word)"

text \<open>Whether the macro for a type is in the group for 64 bits, which casts to \<^verbatim>\<open>UNITY_INT\<close> only.\<close>

definition wide :: "int_kind \<Rightarrow> bool" where
  "wide kind \<longleftrightarrow> kind = K_INT64 \<or> kind = K_UINT64 \<or> kind = K_HEX64"

section \<open>Equality\<close>

text \<open>The operands of \<^verbatim>\<open>EQUAL\<close> and \<^verbatim>\<open>EACH_EQUAL\<close>: hexadecimal ones are signed here.\<close>

fun equal_operand :: "int_kind \<Rightarrow> unity_int \<Rightarrow> unity_int" where
  "equal_operand K_INT8 w = UNITY_INT8 w"
| "equal_operand K_INT16 w = UNITY_INT16 w"
| "equal_operand K_INT32 w = UNITY_INT32 w"
| "equal_operand K_UINT8 w = UNITY_UINT8 w"
| "equal_operand K_UINT16 w = UNITY_UINT16 w"
| "equal_operand K_UINT32 w = UNITY_UINT32 w"
| "equal_operand K_HEX8 w = UNITY_INT8 w"
| "equal_operand K_HEX16 w = UNITY_INT16 w"
| "equal_operand K_HEX32 w = UNITY_INT32 w"
| "equal_operand K_CHAR w = UNITY_INT8 w"
| "equal_operand _ w = w"

definition UNITY_TEST_ASSERT_EQUAL_64 :: "int_kind \<Rightarrow> unity_int \<Rightarrow> unity_int \<Rightarrow> unity_int \<Rightarrow> cstring \<Rightarrow> unity \<Rightarrow> unit unity_run" where
  "UNITY_TEST_ASSERT_EQUAL_64 kind expected actual line message = UnityAssertEqualNumber expected actual message line (style_of kind)"

definition UNITY_TEST_ASSERT_EQUAL :: "int_kind \<Rightarrow> unity_int \<Rightarrow> unity_int \<Rightarrow> unity_int \<Rightarrow> cstring \<Rightarrow> unity \<Rightarrow> unit unity_run" where
  "UNITY_TEST_ASSERT_EQUAL kind expected actual line message =
     (if wide kind then UNITY_TEST_ASSERT_EQUAL_64 kind expected actual line message
      else UnityAssertEqualNumber (equal_operand kind expected) (equal_operand kind actual) message line (style_of kind))"

definition UNITY_TEST_ASSERT_BITS :: "unity_int \<Rightarrow> unity_int \<Rightarrow> unity_int \<Rightarrow> unity_int \<Rightarrow> cstring \<Rightarrow> unity \<Rightarrow> unit unity_run" where
  "UNITY_TEST_ASSERT_BITS msk expected actual line message = UnityAssertBits msk expected actual message line"

section \<open>Order\<close>

text \<open>The operands of the comparisons: hexadecimal ones are unsigned.\<close>

fun order_operand :: "int_kind \<Rightarrow> unity_int \<Rightarrow> unity_int" where
  "order_operand K_INT8 w = UNITY_INT8 w"
| "order_operand K_INT16 w = UNITY_INT16 w"
| "order_operand K_INT32 w = UNITY_INT32 w"
| "order_operand K_UINT8 w = UNITY_UINT8 w"
| "order_operand K_UINT16 w = UNITY_UINT16 w"
| "order_operand K_UINT32 w = UNITY_UINT32 w"
| "order_operand K_HEX8 w = UNITY_UINT8 w"
| "order_operand K_HEX16 w = UNITY_UINT16 w"
| "order_operand K_HEX32 w = UNITY_UINT32 w"
| "order_operand K_CHAR w = UNITY_INT8 w"
| "order_operand _ w = w"

abbreviation UNITY_GREATER_OR_EQUAL :: comparison where "UNITY_GREATER_OR_EQUAL \<equiv> 2 + UNITY_EQUAL_TO"
abbreviation UNITY_SMALLER_OR_EQUAL :: comparison where "UNITY_SMALLER_OR_EQUAL \<equiv> 4 + UNITY_EQUAL_TO"

definition UNITY_TEST_ASSERT_NOT_EQUAL_64 :: "int_kind \<Rightarrow> unity_int \<Rightarrow> unity_int \<Rightarrow> unity_int \<Rightarrow> cstring \<Rightarrow> unity \<Rightarrow> unit unity_run" where
  "UNITY_TEST_ASSERT_NOT_EQUAL_64 kind threshold actual line message =
     UnityAssertGreaterOrLessOrEqualNumber threshold actual UNITY_NOT_EQUAL message line (style_of kind)"

definition UNITY_TEST_ASSERT_NOT_EQUAL :: "int_kind \<Rightarrow> unity_int \<Rightarrow> unity_int \<Rightarrow> unity_int \<Rightarrow> cstring \<Rightarrow> unity \<Rightarrow> unit unity_run" where
  "UNITY_TEST_ASSERT_NOT_EQUAL kind threshold actual line message =
     (if wide kind then UNITY_TEST_ASSERT_NOT_EQUAL_64 kind threshold actual line message
      else UnityAssertGreaterOrLessOrEqualNumber (order_operand kind threshold) (order_operand kind actual) UNITY_NOT_EQUAL message line
        (style_of kind))"

definition UNITY_TEST_ASSERT_GREATER_THAN_64 :: "int_kind \<Rightarrow> unity_int \<Rightarrow> unity_int \<Rightarrow> unity_int \<Rightarrow> cstring \<Rightarrow> unity \<Rightarrow> unit unity_run" where
  "UNITY_TEST_ASSERT_GREATER_THAN_64 kind threshold actual line message =
     UnityAssertGreaterOrLessOrEqualNumber threshold actual UNITY_GREATER_THAN message line (style_of kind)"

definition UNITY_TEST_ASSERT_GREATER_THAN :: "int_kind \<Rightarrow> unity_int \<Rightarrow> unity_int \<Rightarrow> unity_int \<Rightarrow> cstring \<Rightarrow> unity \<Rightarrow> unit unity_run" where
  "UNITY_TEST_ASSERT_GREATER_THAN kind threshold actual line message =
     (if wide kind then UNITY_TEST_ASSERT_GREATER_THAN_64 kind threshold actual line message
      else UnityAssertGreaterOrLessOrEqualNumber (order_operand kind threshold) (order_operand kind actual) UNITY_GREATER_THAN message line
        (style_of kind))"

definition UNITY_TEST_ASSERT_SMALLER_THAN_64 :: "int_kind \<Rightarrow> unity_int \<Rightarrow> unity_int \<Rightarrow> unity_int \<Rightarrow> cstring \<Rightarrow> unity \<Rightarrow> unit unity_run" where
  "UNITY_TEST_ASSERT_SMALLER_THAN_64 kind threshold actual line message =
     UnityAssertGreaterOrLessOrEqualNumber threshold actual UNITY_SMALLER_THAN message line (style_of kind)"

definition UNITY_TEST_ASSERT_SMALLER_THAN :: "int_kind \<Rightarrow> unity_int \<Rightarrow> unity_int \<Rightarrow> unity_int \<Rightarrow> cstring \<Rightarrow> unity \<Rightarrow> unit unity_run" where
  "UNITY_TEST_ASSERT_SMALLER_THAN kind threshold actual line message =
     (if wide kind then UNITY_TEST_ASSERT_SMALLER_THAN_64 kind threshold actual line message
      else UnityAssertGreaterOrLessOrEqualNumber (order_operand kind threshold) (order_operand kind actual) UNITY_SMALLER_THAN message line
        (style_of kind))"

definition UNITY_TEST_ASSERT_GREATER_OR_EQUAL_64 :: "int_kind \<Rightarrow> unity_int \<Rightarrow> unity_int \<Rightarrow> unity_int \<Rightarrow> cstring \<Rightarrow> unity \<Rightarrow> unit unity_run" where
  "UNITY_TEST_ASSERT_GREATER_OR_EQUAL_64 kind threshold actual line message =
     UnityAssertGreaterOrLessOrEqualNumber threshold actual UNITY_GREATER_OR_EQUAL message line (style_of kind)"

definition UNITY_TEST_ASSERT_GREATER_OR_EQUAL :: "int_kind \<Rightarrow> unity_int \<Rightarrow> unity_int \<Rightarrow> unity_int \<Rightarrow> cstring \<Rightarrow> unity \<Rightarrow> unit unity_run" where
  "UNITY_TEST_ASSERT_GREATER_OR_EQUAL kind threshold actual line message =
     (if wide kind then UNITY_TEST_ASSERT_GREATER_OR_EQUAL_64 kind threshold actual line message
      else UnityAssertGreaterOrLessOrEqualNumber (order_operand kind threshold) (order_operand kind actual) UNITY_GREATER_OR_EQUAL message line
        (style_of kind))"

definition UNITY_TEST_ASSERT_SMALLER_OR_EQUAL_64 :: "int_kind \<Rightarrow> unity_int \<Rightarrow> unity_int \<Rightarrow> unity_int \<Rightarrow> cstring \<Rightarrow> unity \<Rightarrow> unit unity_run" where
  "UNITY_TEST_ASSERT_SMALLER_OR_EQUAL_64 kind threshold actual line message =
     UnityAssertGreaterOrLessOrEqualNumber threshold actual UNITY_SMALLER_OR_EQUAL message line (style_of kind)"

definition UNITY_TEST_ASSERT_SMALLER_OR_EQUAL :: "int_kind \<Rightarrow> unity_int \<Rightarrow> unity_int \<Rightarrow> unity_int \<Rightarrow> cstring \<Rightarrow> unity \<Rightarrow> unit unity_run" where
  "UNITY_TEST_ASSERT_SMALLER_OR_EQUAL kind threshold actual line message =
     (if wide kind then UNITY_TEST_ASSERT_SMALLER_OR_EQUAL_64 kind threshold actual line message
      else UnityAssertGreaterOrLessOrEqualNumber (order_operand kind threshold) (order_operand kind actual) UNITY_SMALLER_OR_EQUAL message line
        (style_of kind))"

section \<open>Distance\<close>

fun delta_operand :: "int_kind \<Rightarrow> unity_int \<Rightarrow> unity_int" where
  "delta_operand K_INT8 w = UNITY_UINT8 w"
| "delta_operand K_INT16 w = UNITY_UINT16 w"
| "delta_operand K_INT32 w = UNITY_UINT32 w"
| "delta_operand K_UINT8 w = UNITY_UINT8 w"
| "delta_operand K_UINT16 w = UNITY_UINT16 w"
| "delta_operand K_UINT32 w = UNITY_UINT32 w"
| "delta_operand K_HEX8 w = UNITY_UINT8 w"
| "delta_operand K_HEX16 w = UNITY_UINT16 w"
| "delta_operand K_HEX32 w = UNITY_UINT32 w"
| "delta_operand K_CHAR w = UNITY_UINT8 w"
| "delta_operand _ w = w"

definition UNITY_TEST_ASSERT_WITHIN_64 :: "int_kind \<Rightarrow> unity_int \<Rightarrow> unity_int \<Rightarrow> unity_int \<Rightarrow> unity_int \<Rightarrow> cstring \<Rightarrow> unity \<Rightarrow> unit unity_run" where
  "UNITY_TEST_ASSERT_WITHIN_64 kind delta expected actual line message =
     UnityAssertNumbersWithin delta expected actual message line (style_of kind)"

definition UNITY_TEST_ASSERT_WITHIN :: "int_kind \<Rightarrow> unity_int \<Rightarrow> unity_int \<Rightarrow> unity_int \<Rightarrow> unity_int \<Rightarrow> cstring \<Rightarrow> unity \<Rightarrow> unit unity_run" where
  "UNITY_TEST_ASSERT_WITHIN kind delta expected actual line message =
     (if wide kind then UNITY_TEST_ASSERT_WITHIN_64 kind delta expected actual line message
      else UnityAssertNumbersWithin (delta_operand kind delta) (order_operand kind expected) (order_operand kind actual) message line
        (style_of kind))"

section \<open>Arrays\<close>

text \<open>The delta of \<^verbatim>\<open>UINT8\<close> arrays is cast to 16 bits, unlike all others.\<close>

definition array_delta_operand :: "int_kind \<Rightarrow> unity_int \<Rightarrow> unity_int" where
  "array_delta_operand kind w = (if kind = K_UINT8 then UNITY_UINT16 w else delta_operand kind w)"

definition UNITY_TEST_ASSERT_ARRAY_WITHIN_64 :: "byte_store \<Rightarrow> int_kind \<Rightarrow> unity_int \<Rightarrow> pointer \<Rightarrow> pointer \<Rightarrow> unity_int \<Rightarrow> unity_int \<Rightarrow> cstring \<Rightarrow> unity \<Rightarrow> unit unity_run" where
  "UNITY_TEST_ASSERT_ARRAY_WITHIN_64 m kind delta expected actual num_elements line message =
     UnityAssertNumbersArrayWithin m delta expected actual (ucast num_elements) message line (style_of kind) UNITY_ARRAY_TO_ARRAY"

definition UNITY_TEST_ASSERT_ARRAY_WITHIN :: "byte_store \<Rightarrow> int_kind \<Rightarrow> unity_int \<Rightarrow> pointer \<Rightarrow> pointer \<Rightarrow> unity_int \<Rightarrow> unity_int \<Rightarrow> cstring \<Rightarrow> unity \<Rightarrow> unit unity_run" where
  "UNITY_TEST_ASSERT_ARRAY_WITHIN m kind delta expected actual num_elements line message =
     (if wide kind then UNITY_TEST_ASSERT_ARRAY_WITHIN_64 m kind delta expected actual num_elements line message
      else UnityAssertNumbersArrayWithin m (array_delta_operand kind delta) expected actual (ucast num_elements) message line
        (style_of kind) UNITY_ARRAY_TO_ARRAY)"

definition UNITY_TEST_ASSERT_EQUAL_ARRAY_64 :: "byte_store \<Rightarrow> int_kind \<Rightarrow> pointer \<Rightarrow> pointer \<Rightarrow> unity_int \<Rightarrow> unity_int \<Rightarrow> cstring \<Rightarrow> unity \<Rightarrow> unit unity_run" where
  "UNITY_TEST_ASSERT_EQUAL_ARRAY_64 m kind expected actual num_elements line message =
     UnityAssertEqualIntArray m expected actual (ucast num_elements) message line (style_of kind) UNITY_ARRAY_TO_ARRAY"

definition UNITY_TEST_ASSERT_EQUAL_ARRAY :: "byte_store \<Rightarrow> int_kind \<Rightarrow> pointer \<Rightarrow> pointer \<Rightarrow> unity_int \<Rightarrow> unity_int \<Rightarrow> cstring \<Rightarrow> unity \<Rightarrow> unit unity_run" where
  "UNITY_TEST_ASSERT_EQUAL_ARRAY m kind expected actual num_elements line message =
     (if wide kind then UNITY_TEST_ASSERT_EQUAL_ARRAY_64 m kind expected actual num_elements line message
      else UnityAssertEqualIntArray m expected actual (ucast num_elements) message line (style_of kind) UNITY_ARRAY_TO_ARRAY)"

text \<open>
  \<^verbatim>\<open>UnityNumToPtr\<close> stores a number in a static variable, of which the address is \<open>quick\<close>, the lowest byte
  first, and returns a pointer to it.
\<close>

definition store_int :: "nat \<Rightarrow> unity_int \<Rightarrow> nat \<Rightarrow> byte_store \<Rightarrow> byte_store" where
  "store_int n num a m = (\<lambda>x. if a \<le> x \<and> x < a + n then Some (ucast (drop_bit (8 * (x - a)) num)) else m x)"

definition UnityNumToPtr :: "nat \<Rightarrow> unity_int \<Rightarrow> nat \<Rightarrow> byte_store \<Rightarrow> pointer \<times> byte_store" where
  "UnityNumToPtr quick num n m =
     (Some quick, store_int (if n = 1 then 1 else if n = 2 then 2 else if n = 8 then 8 else 4) num quick m)"

fun size_argument :: "int_kind \<Rightarrow> nat" where
  "size_argument K_INT = 4"
| "size_argument K_INT8 = 1"
| "size_argument K_INT16 = 2"
| "size_argument K_INT32 = 4"
| "size_argument K_UINT = 4"
| "size_argument K_UINT8 = 1"
| "size_argument K_UINT16 = 2"
| "size_argument K_UINT32 = 4"
| "size_argument K_HEX8 = 1"
| "size_argument K_HEX16 = 2"
| "size_argument K_HEX32 = 4"
| "size_argument K_CHAR = 1"
| "size_argument _ = 8"

definition UNITY_TEST_ASSERT_EACH_EQUAL_64 :: "nat \<Rightarrow> byte_store \<Rightarrow> int_kind \<Rightarrow> unity_int \<Rightarrow> pointer \<Rightarrow> unity_int \<Rightarrow> unity_int \<Rightarrow> cstring \<Rightarrow> unity \<Rightarrow> unit unity_run" where
  "UNITY_TEST_ASSERT_EACH_EQUAL_64 quick m kind expected actual num_elements line message =
     (case UnityNumToPtr quick expected 8 m of (p, m) \<Rightarrow>
        UnityAssertEqualIntArray m p actual (ucast num_elements) message line (style_of kind) UNITY_ARRAY_TO_VAL)"

definition UNITY_TEST_ASSERT_EACH_EQUAL :: "nat \<Rightarrow> byte_store \<Rightarrow> int_kind \<Rightarrow> unity_int \<Rightarrow> pointer \<Rightarrow> unity_int \<Rightarrow> unity_int \<Rightarrow> cstring \<Rightarrow> unity \<Rightarrow> unit unity_run" where
  "UNITY_TEST_ASSERT_EACH_EQUAL quick m kind expected actual num_elements line message =
     (if wide kind then UNITY_TEST_ASSERT_EACH_EQUAL_64 quick m kind expected actual num_elements line message
      else case UnityNumToPtr quick (equal_operand kind expected) (size_argument kind) m of (p, m) \<Rightarrow>
        UnityAssertEqualIntArray m p actual (ucast num_elements) message line (style_of kind) UNITY_ARRAY_TO_VAL)"

section \<open>Pointers, strings and memory\<close>

definition UNITY_PTR_TO_INT :: "pointer \<Rightarrow> unity_int" where
  "UNITY_PTR_TO_INT p = (case p of None \<Rightarrow> 0 | Some a \<Rightarrow> of_nat a)"

definition UNITY_TEST_ASSERT_EQUAL_PTR :: "pointer \<Rightarrow> pointer \<Rightarrow> unity_int \<Rightarrow> cstring \<Rightarrow> unity \<Rightarrow> unit unity_run" where
  "UNITY_TEST_ASSERT_EQUAL_PTR expected actual line message =
     UnityAssertEqualNumber (UNITY_PTR_TO_INT expected) (UNITY_PTR_TO_INT actual) message line UNITY_DISPLAY_STYLE_POINTER"

definition UNITY_TEST_ASSERT_EQUAL_STRING :: "cstring \<Rightarrow> cstring \<Rightarrow> unity_int \<Rightarrow> cstring \<Rightarrow> unity \<Rightarrow> unit unity_run" where
  "UNITY_TEST_ASSERT_EQUAL_STRING expected actual line message = UnityAssertEqualString expected actual message line"

definition UNITY_TEST_ASSERT_EQUAL_STRING_LEN :: "cstring \<Rightarrow> cstring \<Rightarrow> unity_int \<Rightarrow> unity_int \<Rightarrow> cstring \<Rightarrow> unity \<Rightarrow> unit unity_run" where
  "UNITY_TEST_ASSERT_EQUAL_STRING_LEN expected actual len line message =
     UnityAssertEqualStringLen expected actual (ucast len) message line"

definition UNITY_TEST_ASSERT_EQUAL_MEMORY :: "byte_store \<Rightarrow> pointer \<Rightarrow> pointer \<Rightarrow> unity_int \<Rightarrow> unity_int \<Rightarrow> cstring \<Rightarrow> unity \<Rightarrow> unit unity_run" where
  "UNITY_TEST_ASSERT_EQUAL_MEMORY m expected actual len line message =
     UnityAssertEqualMemory m expected actual (ucast len) 1 message line UNITY_ARRAY_TO_ARRAY"

definition UNITY_TEST_ASSERT_EQUAL_PTR_ARRAY :: "byte_store \<Rightarrow> pointer \<Rightarrow> pointer \<Rightarrow> unity_int \<Rightarrow> unity_int \<Rightarrow> cstring \<Rightarrow> unity \<Rightarrow> unit unity_run" where
  "UNITY_TEST_ASSERT_EQUAL_PTR_ARRAY m expected actual num_elements line message =
     UnityAssertEqualIntArray m expected actual (ucast num_elements) message line UNITY_DISPLAY_STYLE_POINTER UNITY_ARRAY_TO_ARRAY"

definition UNITY_TEST_ASSERT_EQUAL_MEMORY_ARRAY :: "byte_store \<Rightarrow> pointer \<Rightarrow> pointer \<Rightarrow> unity_int \<Rightarrow> unity_int \<Rightarrow> unity_int \<Rightarrow> cstring \<Rightarrow> unity \<Rightarrow> unit unity_run" where
  "UNITY_TEST_ASSERT_EQUAL_MEMORY_ARRAY m expected actual len num_elements line message =
     UnityAssertEqualMemory m expected actual (ucast len) (ucast num_elements) message line UNITY_ARRAY_TO_ARRAY"

definition UNITY_TEST_ASSERT_EACH_EQUAL_PTR :: "nat \<Rightarrow> byte_store \<Rightarrow> pointer \<Rightarrow> pointer \<Rightarrow> unity_int \<Rightarrow> unity_int \<Rightarrow> cstring \<Rightarrow> unity \<Rightarrow> unit unity_run" where
  "UNITY_TEST_ASSERT_EACH_EQUAL_PTR quick m expected actual num_elements line message =
     (case UnityNumToPtr quick (UNITY_PTR_TO_INT expected) 8 m of (p, m) \<Rightarrow>
        UnityAssertEqualIntArray m p actual (ucast num_elements) message line UNITY_DISPLAY_STYLE_POINTER UNITY_ARRAY_TO_VAL)"

definition UNITY_TEST_ASSERT_EACH_EQUAL_MEMORY :: "byte_store \<Rightarrow> pointer \<Rightarrow> pointer \<Rightarrow> unity_int \<Rightarrow> unity_int \<Rightarrow> unity_int \<Rightarrow> cstring \<Rightarrow> unity \<Rightarrow> unit unity_run" where
  "UNITY_TEST_ASSERT_EACH_EQUAL_MEMORY m expected actual len num_elements line message =
     UnityAssertEqualMemory m expected actual (ucast len) (ucast num_elements) message line UNITY_ARRAY_TO_VAL"

definition UNITY_TEST_ASSERT_NULL :: "pointer \<Rightarrow> unity_int \<Rightarrow> cstring \<Rightarrow> unity \<Rightarrow> unit unity_run" where
  "UNITY_TEST_ASSERT_NULL p line message = UNITY_TEST_ASSERT (p = None) line message"

definition UNITY_TEST_ASSERT_NOT_NULL :: "pointer \<Rightarrow> unity_int \<Rightarrow> cstring \<Rightarrow> unity \<Rightarrow> unit unity_run" where
  "UNITY_TEST_ASSERT_NOT_NULL p line message = UNITY_TEST_ASSERT (p \<noteq> None) line message"

text \<open>The first character of an array, which the caller has.\<close>

definition UNITY_TEST_ASSERT_EMPTY :: "byte list \<Rightarrow> unity_int \<Rightarrow> cstring \<Rightarrow> unity \<Rightarrow> unit unity_run" where
  "UNITY_TEST_ASSERT_EMPTY s line message = UNITY_TEST_ASSERT (char_at_front s = 0) line message"

definition UNITY_TEST_ASSERT_NOT_EMPTY :: "byte list \<Rightarrow> unity_int \<Rightarrow> cstring \<Rightarrow> unity \<Rightarrow> unit unity_run" where
  "UNITY_TEST_ASSERT_NOT_EMPTY s line message = UNITY_TEST_ASSERT (char_at_front s \<noteq> 0) line message"

section \<open>The macros of the tests\<close>

text \<open>
  The macros of \<^verbatim>\<open>unity.h\<close> give the line of the assertion, here their last argument, and no message; those
  that end in \<^verbatim>\<open>_MESSAGE\<close> take one. \<^verbatim>\<open>TEST_ASSERT_EQUAL\<close> and the comparisons without a suffix are those of \<^verbatim>\<open>int\<close>.
\<close>

definition TEST_ASSERT :: "bool \<Rightarrow> unity_int \<Rightarrow> unity \<Rightarrow> unit unity_run" where
  "TEST_ASSERT c line = UNITY_TEST_ASSERT c line (Some (chars '' Expression Evaluated To FALSE''))"

definition TEST_ASSERT_MESSAGE :: "bool \<Rightarrow> cstring \<Rightarrow> unity_int \<Rightarrow> unity \<Rightarrow> unit unity_run" where
  "TEST_ASSERT_MESSAGE c message line = UNITY_TEST_ASSERT c line message"

definition TEST_ASSERT_TRUE :: "bool \<Rightarrow> unity_int \<Rightarrow> unity \<Rightarrow> unit unity_run" where
  "TEST_ASSERT_TRUE c line = UNITY_TEST_ASSERT c line (Some (chars '' Expected TRUE Was FALSE''))"

definition TEST_ASSERT_TRUE_MESSAGE :: "bool \<Rightarrow> cstring \<Rightarrow> unity_int \<Rightarrow> unity \<Rightarrow> unit unity_run" where
  "TEST_ASSERT_TRUE_MESSAGE c message line = UNITY_TEST_ASSERT c line message"

definition TEST_ASSERT_UNLESS :: "bool \<Rightarrow> unity_int \<Rightarrow> unity \<Rightarrow> unit unity_run" where
  "TEST_ASSERT_UNLESS c line = UNITY_TEST_ASSERT (\<not> c) line (Some (chars '' Expression Evaluated To TRUE''))"

definition TEST_ASSERT_UNLESS_MESSAGE :: "bool \<Rightarrow> cstring \<Rightarrow> unity_int \<Rightarrow> unity \<Rightarrow> unit unity_run" where
  "TEST_ASSERT_UNLESS_MESSAGE c message line = UNITY_TEST_ASSERT (\<not> c) line message"

definition TEST_ASSERT_FALSE :: "bool \<Rightarrow> unity_int \<Rightarrow> unity \<Rightarrow> unit unity_run" where
  "TEST_ASSERT_FALSE c line = UNITY_TEST_ASSERT (\<not> c) line (Some (chars '' Expected FALSE Was TRUE''))"

definition TEST_ASSERT_FALSE_MESSAGE :: "bool \<Rightarrow> cstring \<Rightarrow> unity_int \<Rightarrow> unity \<Rightarrow> unit unity_run" where
  "TEST_ASSERT_FALSE_MESSAGE c message line = UNITY_TEST_ASSERT (\<not> c) line message"

definition TEST_ASSERT_NULL :: "pointer \<Rightarrow> unity_int \<Rightarrow> unity \<Rightarrow> unit unity_run" where
  "TEST_ASSERT_NULL p line = UNITY_TEST_ASSERT_NULL p line (Some (chars '' Expected NULL''))"

definition TEST_ASSERT_NULL_MESSAGE :: "pointer \<Rightarrow> cstring \<Rightarrow> unity_int \<Rightarrow> unity \<Rightarrow> unit unity_run" where
  "TEST_ASSERT_NULL_MESSAGE p message line = UNITY_TEST_ASSERT_NULL p line message"

definition TEST_ASSERT_NOT_NULL :: "pointer \<Rightarrow> unity_int \<Rightarrow> unity \<Rightarrow> unit unity_run" where
  "TEST_ASSERT_NOT_NULL p line = UNITY_TEST_ASSERT_NOT_NULL p line (Some (chars '' Expected Non-NULL''))"

definition TEST_ASSERT_NOT_NULL_MESSAGE :: "pointer \<Rightarrow> cstring \<Rightarrow> unity_int \<Rightarrow> unity \<Rightarrow> unit unity_run" where
  "TEST_ASSERT_NOT_NULL_MESSAGE p message line = UNITY_TEST_ASSERT_NOT_NULL p line message"

definition TEST_ASSERT_EMPTY :: "byte list \<Rightarrow> unity_int \<Rightarrow> unity \<Rightarrow> unit unity_run" where
  "TEST_ASSERT_EMPTY s line = UNITY_TEST_ASSERT_EMPTY s line (Some (chars '' Expected Empty''))"

definition TEST_ASSERT_EMPTY_MESSAGE :: "byte list \<Rightarrow> cstring \<Rightarrow> unity_int \<Rightarrow> unity \<Rightarrow> unit unity_run" where
  "TEST_ASSERT_EMPTY_MESSAGE s message line = UNITY_TEST_ASSERT_EMPTY s line message"

definition TEST_ASSERT_NOT_EMPTY :: "byte list \<Rightarrow> unity_int \<Rightarrow> unity \<Rightarrow> unit unity_run" where
  "TEST_ASSERT_NOT_EMPTY s line = UNITY_TEST_ASSERT_NOT_EMPTY s line (Some (chars '' Expected Non-Empty''))"

definition TEST_ASSERT_NOT_EMPTY_MESSAGE :: "byte list \<Rightarrow> cstring \<Rightarrow> unity_int \<Rightarrow> unity \<Rightarrow> unit unity_run" where
  "TEST_ASSERT_NOT_EMPTY_MESSAGE s message line = UNITY_TEST_ASSERT_NOT_EMPTY s line message"

definition TEST_ASSERT_EQUAL :: "int_kind \<Rightarrow> unity_int \<Rightarrow> unity_int \<Rightarrow> unity_int \<Rightarrow> unity \<Rightarrow> unit unity_run" where
  "TEST_ASSERT_EQUAL kind expected actual line = UNITY_TEST_ASSERT_EQUAL kind expected actual line None"

definition TEST_ASSERT_EQUAL_MESSAGE :: "int_kind \<Rightarrow> unity_int \<Rightarrow> unity_int \<Rightarrow> cstring \<Rightarrow> unity_int \<Rightarrow> unity \<Rightarrow> unit unity_run" where
  "TEST_ASSERT_EQUAL_MESSAGE kind expected actual message line = UNITY_TEST_ASSERT_EQUAL kind expected actual line message"

definition TEST_ASSERT_NOT_EQUAL :: "int_kind \<Rightarrow> unity_int \<Rightarrow> unity_int \<Rightarrow> unity_int \<Rightarrow> unity \<Rightarrow> unit unity_run" where
  "TEST_ASSERT_NOT_EQUAL kind threshold actual line = UNITY_TEST_ASSERT_NOT_EQUAL kind threshold actual line None"

definition TEST_ASSERT_NOT_EQUAL_MESSAGE :: "int_kind \<Rightarrow> unity_int \<Rightarrow> unity_int \<Rightarrow> cstring \<Rightarrow> unity_int \<Rightarrow> unity \<Rightarrow> unit unity_run" where
  "TEST_ASSERT_NOT_EQUAL_MESSAGE kind threshold actual message line = UNITY_TEST_ASSERT_NOT_EQUAL kind threshold actual line message"

definition TEST_ASSERT_GREATER_THAN :: "int_kind \<Rightarrow> unity_int \<Rightarrow> unity_int \<Rightarrow> unity_int \<Rightarrow> unity \<Rightarrow> unit unity_run" where
  "TEST_ASSERT_GREATER_THAN kind threshold actual line = UNITY_TEST_ASSERT_GREATER_THAN kind threshold actual line None"

definition TEST_ASSERT_GREATER_THAN_MESSAGE :: "int_kind \<Rightarrow> unity_int \<Rightarrow> unity_int \<Rightarrow> cstring \<Rightarrow> unity_int \<Rightarrow> unity \<Rightarrow> unit unity_run" where
  "TEST_ASSERT_GREATER_THAN_MESSAGE kind threshold actual message line = UNITY_TEST_ASSERT_GREATER_THAN kind threshold actual line message"

definition TEST_ASSERT_LESS_THAN :: "int_kind \<Rightarrow> unity_int \<Rightarrow> unity_int \<Rightarrow> unity_int \<Rightarrow> unity \<Rightarrow> unit unity_run" where
  "TEST_ASSERT_LESS_THAN kind threshold actual line = UNITY_TEST_ASSERT_SMALLER_THAN kind threshold actual line None"

definition TEST_ASSERT_LESS_THAN_MESSAGE :: "int_kind \<Rightarrow> unity_int \<Rightarrow> unity_int \<Rightarrow> cstring \<Rightarrow> unity_int \<Rightarrow> unity \<Rightarrow> unit unity_run" where
  "TEST_ASSERT_LESS_THAN_MESSAGE kind threshold actual message line = UNITY_TEST_ASSERT_SMALLER_THAN kind threshold actual line message"

definition TEST_ASSERT_GREATER_OR_EQUAL :: "int_kind \<Rightarrow> unity_int \<Rightarrow> unity_int \<Rightarrow> unity_int \<Rightarrow> unity \<Rightarrow> unit unity_run" where
  "TEST_ASSERT_GREATER_OR_EQUAL kind threshold actual line = UNITY_TEST_ASSERT_GREATER_OR_EQUAL kind threshold actual line None"

definition TEST_ASSERT_GREATER_OR_EQUAL_MESSAGE :: "int_kind \<Rightarrow> unity_int \<Rightarrow> unity_int \<Rightarrow> cstring \<Rightarrow> unity_int \<Rightarrow> unity \<Rightarrow> unit unity_run" where
  "TEST_ASSERT_GREATER_OR_EQUAL_MESSAGE kind threshold actual message line = UNITY_TEST_ASSERT_GREATER_OR_EQUAL kind threshold actual line message"

definition TEST_ASSERT_LESS_OR_EQUAL :: "int_kind \<Rightarrow> unity_int \<Rightarrow> unity_int \<Rightarrow> unity_int \<Rightarrow> unity \<Rightarrow> unit unity_run" where
  "TEST_ASSERT_LESS_OR_EQUAL kind threshold actual line = UNITY_TEST_ASSERT_SMALLER_OR_EQUAL kind threshold actual line None"

definition TEST_ASSERT_LESS_OR_EQUAL_MESSAGE :: "int_kind \<Rightarrow> unity_int \<Rightarrow> unity_int \<Rightarrow> cstring \<Rightarrow> unity_int \<Rightarrow> unity \<Rightarrow> unit unity_run" where
  "TEST_ASSERT_LESS_OR_EQUAL_MESSAGE kind threshold actual message line = UNITY_TEST_ASSERT_SMALLER_OR_EQUAL kind threshold actual line message"

text \<open>The shorthand for other types compares the values of the expressions.\<close>

definition TEST_ASSERT_NOT_EQUAL_OLD :: "unity_int \<Rightarrow> unity_int \<Rightarrow> unity_int \<Rightarrow> unity \<Rightarrow> unit unity_run" where
  "TEST_ASSERT_NOT_EQUAL_OLD expected actual line = UNITY_TEST_ASSERT (expected \<noteq> actual) line (Some (chars '' Expected Not-Equal''))"

definition TEST_ASSERT_WITHIN :: "int_kind \<Rightarrow> unity_int \<Rightarrow> unity_int \<Rightarrow> unity_int \<Rightarrow> unity_int \<Rightarrow> unity \<Rightarrow> unit unity_run" where
  "TEST_ASSERT_WITHIN kind delta expected actual line = UNITY_TEST_ASSERT_WITHIN kind delta expected actual line None"

definition TEST_ASSERT_WITHIN_MESSAGE :: "int_kind \<Rightarrow> unity_int \<Rightarrow> unity_int \<Rightarrow> unity_int \<Rightarrow> cstring \<Rightarrow> unity_int \<Rightarrow> unity \<Rightarrow> unit unity_run" where
  "TEST_ASSERT_WITHIN_MESSAGE kind delta expected actual message line = UNITY_TEST_ASSERT_WITHIN kind delta expected actual line message"

definition TEST_ASSERT_BITS :: "unity_int \<Rightarrow> unity_int \<Rightarrow> unity_int \<Rightarrow> unity_int \<Rightarrow> unity \<Rightarrow> unit unity_run" where
  "TEST_ASSERT_BITS msk expected actual line = UNITY_TEST_ASSERT_BITS msk expected actual line None"

definition TEST_ASSERT_BITS_MESSAGE :: "unity_int \<Rightarrow> unity_int \<Rightarrow> unity_int \<Rightarrow> cstring \<Rightarrow> unity_int \<Rightarrow> unity \<Rightarrow> unit unity_run" where
  "TEST_ASSERT_BITS_MESSAGE msk expected actual message line = UNITY_TEST_ASSERT_BITS msk expected actual line message"

text \<open>One bit: a shift of 32 or more is undefined in C, so \<open>b\<close> is below 32.\<close>

definition TEST_ASSERT_BITS_HIGH :: "unity_int \<Rightarrow> unity_int \<Rightarrow> unity_int \<Rightarrow> unity \<Rightarrow> unit unity_run" where
  "TEST_ASSERT_BITS_HIGH msk actual line = UNITY_TEST_ASSERT_BITS msk (UNITY_UINT32 (- 1)) actual line None"

definition TEST_ASSERT_BITS_HIGH_MESSAGE :: "unity_int \<Rightarrow> unity_int \<Rightarrow> cstring \<Rightarrow> unity_int \<Rightarrow> unity \<Rightarrow> unit unity_run" where
  "TEST_ASSERT_BITS_HIGH_MESSAGE msk actual message line = UNITY_TEST_ASSERT_BITS msk (UNITY_UINT32 (- 1)) actual line message"

definition TEST_ASSERT_BIT_HIGH :: "nat \<Rightarrow> unity_int \<Rightarrow> unity_int \<Rightarrow> unity \<Rightarrow> unit unity_run" where
  "TEST_ASSERT_BIT_HIGH b actual line = UNITY_TEST_ASSERT_BITS (ucast (push_bit b (1 :: 32 word))) (UNITY_UINT32 (- 1)) actual line None"

definition TEST_ASSERT_BIT_HIGH_MESSAGE :: "nat \<Rightarrow> unity_int \<Rightarrow> cstring \<Rightarrow> unity_int \<Rightarrow> unity \<Rightarrow> unit unity_run" where
  "TEST_ASSERT_BIT_HIGH_MESSAGE b actual message line = UNITY_TEST_ASSERT_BITS (ucast (push_bit b (1 :: 32 word))) (UNITY_UINT32 (- 1)) actual line message"

definition TEST_ASSERT_BITS_LOW :: "unity_int \<Rightarrow> unity_int \<Rightarrow> unity_int \<Rightarrow> unity \<Rightarrow> unit unity_run" where
  "TEST_ASSERT_BITS_LOW msk actual line = UNITY_TEST_ASSERT_BITS msk (UNITY_UINT32 0) actual line None"

definition TEST_ASSERT_BITS_LOW_MESSAGE :: "unity_int \<Rightarrow> unity_int \<Rightarrow> cstring \<Rightarrow> unity_int \<Rightarrow> unity \<Rightarrow> unit unity_run" where
  "TEST_ASSERT_BITS_LOW_MESSAGE msk actual message line = UNITY_TEST_ASSERT_BITS msk (UNITY_UINT32 0) actual line message"

definition TEST_ASSERT_BIT_LOW :: "nat \<Rightarrow> unity_int \<Rightarrow> unity_int \<Rightarrow> unity \<Rightarrow> unit unity_run" where
  "TEST_ASSERT_BIT_LOW b actual line = UNITY_TEST_ASSERT_BITS (ucast (push_bit b (1 :: 32 word))) (UNITY_UINT32 0) actual line None"

definition TEST_ASSERT_BIT_LOW_MESSAGE :: "nat \<Rightarrow> unity_int \<Rightarrow> cstring \<Rightarrow> unity_int \<Rightarrow> unity \<Rightarrow> unit unity_run" where
  "TEST_ASSERT_BIT_LOW_MESSAGE b actual message line = UNITY_TEST_ASSERT_BITS (ucast (push_bit b (1 :: 32 word))) (UNITY_UINT32 0) actual line message"

definition TEST_ASSERT_ARRAY_WITHIN :: "byte_store \<Rightarrow> int_kind \<Rightarrow> unity_int \<Rightarrow> pointer \<Rightarrow> pointer \<Rightarrow> unity_int \<Rightarrow> unity_int \<Rightarrow> unity \<Rightarrow> unit unity_run" where
  "TEST_ASSERT_ARRAY_WITHIN m kind delta expected actual num_elements line = UNITY_TEST_ASSERT_ARRAY_WITHIN m kind delta expected actual num_elements line None"

definition TEST_ASSERT_ARRAY_WITHIN_MESSAGE :: "byte_store \<Rightarrow> int_kind \<Rightarrow> unity_int \<Rightarrow> pointer \<Rightarrow> pointer \<Rightarrow> unity_int \<Rightarrow> cstring \<Rightarrow> unity_int \<Rightarrow> unity \<Rightarrow> unit unity_run" where
  "TEST_ASSERT_ARRAY_WITHIN_MESSAGE m kind delta expected actual num_elements message line = UNITY_TEST_ASSERT_ARRAY_WITHIN m kind delta expected actual num_elements line message"

definition TEST_ASSERT_EQUAL_PTR :: "pointer \<Rightarrow> pointer \<Rightarrow> unity_int \<Rightarrow> unity \<Rightarrow> unit unity_run" where
  "TEST_ASSERT_EQUAL_PTR expected actual line = UNITY_TEST_ASSERT_EQUAL_PTR expected actual line None"

definition TEST_ASSERT_EQUAL_PTR_MESSAGE :: "pointer \<Rightarrow> pointer \<Rightarrow> cstring \<Rightarrow> unity_int \<Rightarrow> unity \<Rightarrow> unit unity_run" where
  "TEST_ASSERT_EQUAL_PTR_MESSAGE expected actual message line = UNITY_TEST_ASSERT_EQUAL_PTR expected actual line message"

definition TEST_ASSERT_EQUAL_STRING :: "cstring \<Rightarrow> cstring \<Rightarrow> unity_int \<Rightarrow> unity \<Rightarrow> unit unity_run" where
  "TEST_ASSERT_EQUAL_STRING expected actual line = UNITY_TEST_ASSERT_EQUAL_STRING expected actual line None"

definition TEST_ASSERT_EQUAL_STRING_MESSAGE :: "cstring \<Rightarrow> cstring \<Rightarrow> cstring \<Rightarrow> unity_int \<Rightarrow> unity \<Rightarrow> unit unity_run" where
  "TEST_ASSERT_EQUAL_STRING_MESSAGE expected actual message line = UNITY_TEST_ASSERT_EQUAL_STRING expected actual line message"

definition TEST_ASSERT_EQUAL_STRING_LEN :: "cstring \<Rightarrow> cstring \<Rightarrow> unity_int \<Rightarrow> unity_int \<Rightarrow> unity \<Rightarrow> unit unity_run" where
  "TEST_ASSERT_EQUAL_STRING_LEN expected actual len line = UNITY_TEST_ASSERT_EQUAL_STRING_LEN expected actual len line None"

definition TEST_ASSERT_EQUAL_STRING_LEN_MESSAGE :: "cstring \<Rightarrow> cstring \<Rightarrow> unity_int \<Rightarrow> cstring \<Rightarrow> unity_int \<Rightarrow> unity \<Rightarrow> unit unity_run" where
  "TEST_ASSERT_EQUAL_STRING_LEN_MESSAGE expected actual len message line = UNITY_TEST_ASSERT_EQUAL_STRING_LEN expected actual len line message"

definition TEST_ASSERT_EQUAL_MEMORY :: "byte_store \<Rightarrow> pointer \<Rightarrow> pointer \<Rightarrow> unity_int \<Rightarrow> unity_int \<Rightarrow> unity \<Rightarrow> unit unity_run" where
  "TEST_ASSERT_EQUAL_MEMORY m expected actual len line = UNITY_TEST_ASSERT_EQUAL_MEMORY m expected actual len line None"

definition TEST_ASSERT_EQUAL_MEMORY_MESSAGE :: "byte_store \<Rightarrow> pointer \<Rightarrow> pointer \<Rightarrow> unity_int \<Rightarrow> cstring \<Rightarrow> unity_int \<Rightarrow> unity \<Rightarrow> unit unity_run" where
  "TEST_ASSERT_EQUAL_MEMORY_MESSAGE m expected actual len message line = UNITY_TEST_ASSERT_EQUAL_MEMORY m expected actual len line message"

definition TEST_ASSERT_EQUAL_ARRAY :: "byte_store \<Rightarrow> int_kind \<Rightarrow> pointer \<Rightarrow> pointer \<Rightarrow> unity_int \<Rightarrow> unity_int \<Rightarrow> unity \<Rightarrow> unit unity_run" where
  "TEST_ASSERT_EQUAL_ARRAY m kind expected actual num_elements line = UNITY_TEST_ASSERT_EQUAL_ARRAY m kind expected actual num_elements line None"

definition TEST_ASSERT_EQUAL_ARRAY_MESSAGE :: "byte_store \<Rightarrow> int_kind \<Rightarrow> pointer \<Rightarrow> pointer \<Rightarrow> unity_int \<Rightarrow> cstring \<Rightarrow> unity_int \<Rightarrow> unity \<Rightarrow> unit unity_run" where
  "TEST_ASSERT_EQUAL_ARRAY_MESSAGE m kind expected actual num_elements message line = UNITY_TEST_ASSERT_EQUAL_ARRAY m kind expected actual num_elements line message"

definition TEST_ASSERT_EQUAL_PTR_ARRAY :: "byte_store \<Rightarrow> pointer \<Rightarrow> pointer \<Rightarrow> unity_int \<Rightarrow> unity_int \<Rightarrow> unity \<Rightarrow> unit unity_run" where
  "TEST_ASSERT_EQUAL_PTR_ARRAY m expected actual num_elements line = UNITY_TEST_ASSERT_EQUAL_PTR_ARRAY m expected actual num_elements line None"

definition TEST_ASSERT_EQUAL_PTR_ARRAY_MESSAGE :: "byte_store \<Rightarrow> pointer \<Rightarrow> pointer \<Rightarrow> unity_int \<Rightarrow> cstring \<Rightarrow> unity_int \<Rightarrow> unity \<Rightarrow> unit unity_run" where
  "TEST_ASSERT_EQUAL_PTR_ARRAY_MESSAGE m expected actual num_elements message line = UNITY_TEST_ASSERT_EQUAL_PTR_ARRAY m expected actual num_elements line message"

definition TEST_ASSERT_EQUAL_MEMORY_ARRAY :: "byte_store \<Rightarrow> pointer \<Rightarrow> pointer \<Rightarrow> unity_int \<Rightarrow> unity_int \<Rightarrow> unity_int \<Rightarrow> unity \<Rightarrow> unit unity_run" where
  "TEST_ASSERT_EQUAL_MEMORY_ARRAY m expected actual len num_elements line = UNITY_TEST_ASSERT_EQUAL_MEMORY_ARRAY m expected actual len num_elements line None"

definition TEST_ASSERT_EQUAL_MEMORY_ARRAY_MESSAGE :: "byte_store \<Rightarrow> pointer \<Rightarrow> pointer \<Rightarrow> unity_int \<Rightarrow> unity_int \<Rightarrow> cstring \<Rightarrow> unity_int \<Rightarrow> unity \<Rightarrow> unit unity_run" where
  "TEST_ASSERT_EQUAL_MEMORY_ARRAY_MESSAGE m expected actual len num_elements message line = UNITY_TEST_ASSERT_EQUAL_MEMORY_ARRAY m expected actual len num_elements line message"

definition TEST_ASSERT_EACH_EQUAL :: "nat \<Rightarrow> byte_store \<Rightarrow> int_kind \<Rightarrow> unity_int \<Rightarrow> pointer \<Rightarrow> unity_int \<Rightarrow> unity_int \<Rightarrow> unity \<Rightarrow> unit unity_run" where
  "TEST_ASSERT_EACH_EQUAL quick m kind expected actual num_elements line = UNITY_TEST_ASSERT_EACH_EQUAL quick m kind expected actual num_elements line None"

definition TEST_ASSERT_EACH_EQUAL_MESSAGE :: "nat \<Rightarrow> byte_store \<Rightarrow> int_kind \<Rightarrow> unity_int \<Rightarrow> pointer \<Rightarrow> unity_int \<Rightarrow> cstring \<Rightarrow> unity_int \<Rightarrow> unity \<Rightarrow> unit unity_run" where
  "TEST_ASSERT_EACH_EQUAL_MESSAGE quick m kind expected actual num_elements message line = UNITY_TEST_ASSERT_EACH_EQUAL quick m kind expected actual num_elements line message"

definition TEST_ASSERT_EACH_EQUAL_PTR :: "nat \<Rightarrow> byte_store \<Rightarrow> pointer \<Rightarrow> pointer \<Rightarrow> unity_int \<Rightarrow> unity_int \<Rightarrow> unity \<Rightarrow> unit unity_run" where
  "TEST_ASSERT_EACH_EQUAL_PTR quick m expected actual num_elements line = UNITY_TEST_ASSERT_EACH_EQUAL_PTR quick m expected actual num_elements line None"

definition TEST_ASSERT_EACH_EQUAL_PTR_MESSAGE :: "nat \<Rightarrow> byte_store \<Rightarrow> pointer \<Rightarrow> pointer \<Rightarrow> unity_int \<Rightarrow> cstring \<Rightarrow> unity_int \<Rightarrow> unity \<Rightarrow> unit unity_run" where
  "TEST_ASSERT_EACH_EQUAL_PTR_MESSAGE quick m expected actual num_elements message line = UNITY_TEST_ASSERT_EACH_EQUAL_PTR quick m expected actual num_elements line message"

definition TEST_ASSERT_EACH_EQUAL_MEMORY :: "byte_store \<Rightarrow> pointer \<Rightarrow> pointer \<Rightarrow> unity_int \<Rightarrow> unity_int \<Rightarrow> unity_int \<Rightarrow> unity \<Rightarrow> unit unity_run" where
  "TEST_ASSERT_EACH_EQUAL_MEMORY m expected actual len num_elements line = UNITY_TEST_ASSERT_EACH_EQUAL_MEMORY m expected actual len num_elements line None"

definition TEST_ASSERT_EACH_EQUAL_MEMORY_MESSAGE :: "byte_store \<Rightarrow> pointer \<Rightarrow> pointer \<Rightarrow> unity_int \<Rightarrow> unity_int \<Rightarrow> cstring \<Rightarrow> unity_int \<Rightarrow> unity \<Rightarrow> unit unity_run" where
  "TEST_ASSERT_EACH_EQUAL_MEMORY_MESSAGE m expected actual len num_elements message line = UNITY_TEST_ASSERT_EACH_EQUAL_MEMORY m expected actual len num_elements line message"
section \<open>What the macros compare\<close>

text \<open>The number that an operand is in its type.\<close>

fun kind_value :: "int_kind \<Rightarrow> unity_int \<Rightarrow> int" where
  "kind_value K_INT w = sint w"
| "kind_value K_INT8 w = sint (ucast w :: 8 word)"
| "kind_value K_INT16 w = sint (ucast w :: 16 word)"
| "kind_value K_INT32 w = sint (ucast w :: 32 word)"
| "kind_value K_INT64 w = sint w"
| "kind_value K_UINT8 w = uint (ucast w :: 8 word)"
| "kind_value K_UINT16 w = uint (ucast w :: 16 word)"
| "kind_value K_UINT32 w = uint (ucast w :: 32 word)"
| "kind_value K_HEX8 w = uint (ucast w :: 8 word)"
| "kind_value K_HEX16 w = uint (ucast w :: 16 word)"
| "kind_value K_HEX32 w = uint (ucast w :: 32 word)"
| "kind_value K_CHAR w = sint (ucast w :: 8 word)"
| "kind_value _ w = uint w"

lemmas cast_defs = UNITY_INT8_def UNITY_INT16_def UNITY_INT32_def UNITY_UINT8_def UNITY_UINT16_def UNITY_UINT32_def

lemma widened:
  fixes w :: "'a::len word"
  assumes "LENGTH('a) \<le> LENGTH('b::len)"
  shows "sint (scast w :: 'b word) = sint w" and "uint (ucast w :: 'b word) = uint w"
    and "(scast w :: 'b word) = scast v \<longleftrightarrow> w = v" and "(ucast w :: 'b word) = ucast v \<longleftrightarrow> w = v"
proof -
  show s: "sint (scast w :: 'b word) = sint w" for w :: "'a word" using assms by (simp add: sint_up_scast is_up)
  show u: "uint (ucast w :: 'b word) = uint w" for w :: "'a word" using assms by (simp add: uint_up_ucast is_up)
  show "(scast w :: 'b word) = scast v \<longleftrightarrow> w = v" using s [of w] s [of v] by (metis signed_word_eqI)
  show "(ucast w :: 'b word) = ucast v \<longleftrightarrow> w = v" using u [of w] u [of v] by (metis word_uint_eqI)
qed

lemma same_number: "sint v = sint w \<longleftrightarrow> v = w" "uint v = uint w \<longleftrightarrow> v = w"
  by (auto intro: signed_word_eqI word_uint_eqI)

lemma equal_operand_iff: "equal_operand kind e = equal_operand kind a \<longleftrightarrow> kind_value kind e = kind_value kind a"
  by (cases kind) (simp_all add: cast_defs widened same_number)

lemma read_order_operand: "read_as (style_of kind) (order_operand kind w) = kind_value kind w"
  by (cases kind) (simp_all add: read_as_def cast_defs widened)

lemma wide_operands: "wide kind \<Longrightarrow> equal_operand kind w = w \<and> order_operand kind w = w \<and> delta_operand kind w = w"
  by (auto simp: wide_def)

lemma in_order_iff:
  "in_order UNITY_NOT_EQUAL t a \<longleftrightarrow> a \<noteq> t" "in_order UNITY_GREATER_THAN t a \<longleftrightarrow> t < a" "in_order UNITY_SMALLER_THAN t a \<longleftrightarrow> a < t"
  "in_order UNITY_GREATER_OR_EQUAL t a \<longleftrightarrow> t \<le> a" "in_order UNITY_SMALLER_OR_EQUAL t a \<longleftrightarrow> a \<le> t"
  by (auto simp: in_order_def)

text \<open>Each macro is an assertion on the numbers that its operands are in its type.\<close>

lemma equal_macro: "assertion (UNITY_TEST_ASSERT_EQUAL kind e a line msg) (kind_value kind e = kind_value kind a)"
proof -
  have "UNITY_TEST_ASSERT_EQUAL kind e a line msg = UnityAssertEqualNumber (equal_operand kind e) (equal_operand kind a) msg line (style_of kind)"
    using wide_operands [of kind] by (simp add: UNITY_TEST_ASSERT_EQUAL_def UNITY_TEST_ASSERT_EQUAL_64_def)
  then show ?thesis using number_assertion by (simp add: equal_operand_iff [symmetric])
qed

text \<open>The five macros for orders differ in the comparison.\<close>

lemmas order_macro_defs =
  UNITY_TEST_ASSERT_NOT_EQUAL_def UNITY_TEST_ASSERT_GREATER_THAN_def UNITY_TEST_ASSERT_SMALLER_THAN_def
  UNITY_TEST_ASSERT_GREATER_OR_EQUAL_def UNITY_TEST_ASSERT_SMALLER_OR_EQUAL_def UNITY_TEST_ASSERT_NOT_EQUAL_64_def
  UNITY_TEST_ASSERT_GREATER_THAN_64_def UNITY_TEST_ASSERT_SMALLER_THAN_64_def UNITY_TEST_ASSERT_GREATER_OR_EQUAL_64_def
  UNITY_TEST_ASSERT_SMALLER_OR_EQUAL_64_def

lemma order_macro:
  "assertion (if wide kind then UnityAssertGreaterOrLessOrEqualNumber t a compare msg line (style_of kind)
      else UnityAssertGreaterOrLessOrEqualNumber (order_operand kind t) (order_operand kind a) compare msg line (style_of kind))
    (in_order compare (kind_value kind t) (kind_value kind a))"
proof -
  have "(if wide kind then UnityAssertGreaterOrLessOrEqualNumber t a compare msg line (style_of kind)
      else UnityAssertGreaterOrLessOrEqualNumber (order_operand kind t) (order_operand kind a) compare msg line (style_of kind))
    = UnityAssertGreaterOrLessOrEqualNumber (order_operand kind t) (order_operand kind a) compare msg line (style_of kind)"
    using wide_operands [of kind] by simp
  then show ?thesis
    using order_assertion [of "order_operand kind t" "order_operand kind a" compare msg line "style_of kind"]
    by (simp only: read_order_operand)
qed

lemma order_macros:
  "assertion (UNITY_TEST_ASSERT_NOT_EQUAL kind t a line msg) (kind_value kind a \<noteq> kind_value kind t)"
  "assertion (UNITY_TEST_ASSERT_GREATER_THAN kind t a line msg) (kind_value kind t < kind_value kind a)"
  "assertion (UNITY_TEST_ASSERT_SMALLER_THAN kind t a line msg) (kind_value kind a < kind_value kind t)"
  "assertion (UNITY_TEST_ASSERT_GREATER_OR_EQUAL kind t a line msg) (kind_value kind t \<le> kind_value kind a)"
  "assertion (UNITY_TEST_ASSERT_SMALLER_OR_EQUAL kind t a line msg) (kind_value kind a \<le> kind_value kind t)"
  using order_macro [of kind t a UNITY_NOT_EQUAL msg line] order_macro [of kind t a UNITY_GREATER_THAN msg line]
    order_macro [of kind t a UNITY_SMALLER_THAN msg line] order_macro [of kind t a UNITY_GREATER_OR_EQUAL msg line]
    order_macro [of kind t a UNITY_SMALLER_OR_EQUAL msg line]
  by (simp_all only: order_macro_defs in_order_iff)

lemma within_macro:
  "assertion (UNITY_TEST_ASSERT_WITHIN kind delta e a line msg) (\<bar>kind_value kind a - kind_value kind e\<bar> \<le> uint (delta_operand kind delta))"
proof -
  have "UNITY_TEST_ASSERT_WITHIN kind delta e a line msg =
      UnityAssertNumbersWithin (delta_operand kind delta) (order_operand kind e) (order_operand kind a) msg line (style_of kind)"
    using wide_operands [of kind] by (simp add: UNITY_TEST_ASSERT_WITHIN_def UNITY_TEST_ASSERT_WITHIN_64_def)
  then show ?thesis
    using within_assertion [of "delta_operand kind delta" "order_operand kind e" "order_operand kind a" msg line "style_of kind"]
    by (simp add: read_order_operand)
qed

text \<open>
  \<^verbatim>\<open>TEST_ASSERT_BITS_HIGH\<close> has 32 ones to compare with: it asks for zeros in the bits of a mask above them.
\<close>

lemma bits_high_assertion:
  "assertion (TEST_ASSERT_BITS_HIGH msk a line) (\<forall>i<64. bit msk i \<longrightarrow> bit a i = (i < 32))"
proof -
  have "bit (UNITY_UINT32 (- 1)) i \<longleftrightarrow> i < 32" for i
    by (auto simp: UNITY_UINT32_def bit_simps)
  then show ?thesis
    using bits_assertion [of msk "UNITY_UINT32 (- 1)" a None line]
    by (simp add: TEST_ASSERT_BITS_HIGH_def UNITY_TEST_ASSERT_BITS_def eq_commute)
qed

section \<open>Arrays and one number\<close>

text \<open>An integer of \<open>n\<close> bytes that was read back, with its sign.\<close>

definition signed_part :: "nat \<Rightarrow> unity_int \<Rightarrow> unity_int" where
  "signed_part n v = (if n = 1 then UNITY_INT8 v else if n = 2 then UNITY_INT16 v else if n = 8 then v else UNITY_INT32 v)"

lemma bit_word_of_bytes:
  "bit (word_of_bytes (map (\<lambda>i. ucast (drop_bit (8 * i) v)) [0..<n]) :: 'a::len word) j \<longleftrightarrow> j < LENGTH('a) \<and> j < 8 * n \<and> bit (v :: unity_int) j"
proof (induction n arbitrary: v j)
  case (Suc n)
  have "map (\<lambda>i. ucast (drop_bit (8 * i) v) :: byte) [0..<Suc n] = ucast v # map (\<lambda>i. ucast (drop_bit (8 * i) (drop_bit 8 v))) [0..<n]"
    by (simp add: upt_conv_Cons map_Suc_upt [symmetric] o_def add.commute del: upt_Suc)
  then have "word_of_bytes (map (\<lambda>i. ucast (drop_bit (8 * i) v) :: byte) [0..<Suc n])
      = push_bit 8 (word_of_bytes (map (\<lambda>i. ucast (drop_bit (8 * i) (drop_bit 8 v)) :: byte) [0..<n]) :: 'a word) OR ucast (ucast v :: byte)"
    by (simp add: word_of_bytes_def del: drop_bit_drop_bit upt_Suc)
  then show ?case by (simp only:) (auto simp: bit_simps Suc.IH simp del: drop_bit_drop_bit upt_Suc)
qed (simp add: word_of_bytes_def)

lemma word_of_stored:
  "LENGTH('a::len) = 8 * n \<Longrightarrow> word_of_bytes (map (\<lambda>i. ucast (drop_bit (8 * i) v)) [0..<n]) = (ucast (v :: unity_int) :: 'a word)"
  by (intro bit_eqI) (auto simp: bit_word_of_bytes bit_simps)

lemma read_stored:
  assumes "n \<in> {1, 2, 4, 8}"
  shows "read_int (store_int n v a m) n a = Some (signed_part n v)"
proof -
  have "map (store_int n v a m) [a..<a + n] = map (\<lambda>i. Some (ucast (drop_bit (8 * i) v))) [0..<n]"
    by (rule nth_equalityI) (auto simp: store_int_def)
  moreover have "those (map (\<lambda>i. Some (f i)) is) = Some (map f is)" for f :: "nat \<Rightarrow> byte" and "is" by (induction "is") simp_all
  ultimately have r: "read_bytes (store_int n v a m) n a = Some (map (\<lambda>i. ucast (drop_bit (8 * i) v)) [0..<n])"
    by (simp only: read_bytes_def)
  consider "n = 1" | "n = 2" | "n = 4" | "n = 8" using assms by auto
  then show ?thesis
  proof cases
    case 4
    then show ?thesis using r word_of_stored [where 'a = 64, of n v] by (simp add: read_int_def signed_part_def)
  qed (use r word_of_stored [where 'a = 8, of n v] word_of_stored [where 'a = 16, of n v] word_of_stored [where 'a = 32, of n v] in \<open>simp_all add: read_int_def signed_part_def cast_defs\<close>)
qed

lemma read_apart:
  assumes "x + n \<le> a \<or> a + n \<le> x"
  shows "read_int (store_int n v a m) n x = read_int m n x"
proof -
  have "map (store_int n v a m) [x..<x + n] = map m [x..<x + n]"
    using assms by (auto simp: store_int_def)
  then show ?thesis by (simp only: read_int_def read_bytes_def)
qed

text \<open>An \<^verbatim>\<open>int\<close> in an array has 32 bits, where a single operand has 64.\<close>

definition element_kind :: "int_kind \<Rightarrow> int_kind" where
  "element_kind kind = (if kind = K_INT then K_INT32 else if kind = K_UINT then K_UINT32 else kind)"

lemma size_argument_element: "size_argument kind = element_size (style_of kind)"
  by (cases kind) (simp_all add: element_size_def)

lemma element_size_cases: "element_size style \<in> {1, 2, 4, 8}"
  by (simp add: element_size_def Let_def)

lemma element_iff:
  "signed_part (size_argument kind) v = signed_part (size_argument kind) w \<longleftrightarrow> kind_value (element_kind kind) v = kind_value (element_kind kind) w"
  by (cases kind) (simp_all add: signed_part_def element_kind_def cast_defs widened same_number)

lemma narrowed:
  fixes w :: "'a::len word"
  assumes "LENGTH('a) \<le> LENGTH('b::len)"
  shows "ucast (scast w :: 'b word) = w" and "ucast (ucast w :: 'b word) = w"
proof -
  have "n < LENGTH('a) \<Longrightarrow> LENGTH('a) - Suc 0 \<le> n \<longleftrightarrow> n = LENGTH('a) - Suc 0" for n by auto
  then show "ucast (scast w :: 'b word) = w" and "ucast (ucast w :: 'b word) = w"
    using assms by (auto intro!: bit_word_eqI simp: bit_simps min_def)
qed

lemma signed_part_operand: "signed_part (size_argument kind) (equal_operand kind v) = signed_part (size_argument kind) v"
  by (cases kind) (simp_all add: signed_part_def cast_defs narrowed)

lemma read_int_signed: "n \<in> {1, 2, 4, 8} \<Longrightarrow> read_int m n a = Some v \<Longrightarrow> signed_part n v = v"
  by (auto simp: read_int_def signed_part_def cast_defs narrowed split: option.splits)

text \<open>An array is compared with a number: each element is, in the type of an element, this number.\<close>

lemma each_equal_macro:
  defines "n kind \<equiv> size_argument kind" and "k num \<equiv> unat (ucast (num :: unity_int) :: 32 word)"
  assumes r: "\<And>a. actual = Some a \<Longrightarrow> readable m a (k num * n kind)"
    and apart: "\<And>a. actual = Some a \<Longrightarrow> a + k num * n kind \<le> quick \<or> quick + n kind \<le> a"
  shows "assertion (UNITY_TEST_ASSERT_EACH_EQUAL quick m kind e actual num line msg)
    (k num \<noteq> 0 \<and> (\<exists>a. actual = Some a \<and> (\<forall>i<k num.
      kind_value (element_kind kind) (the (read_int m (n kind) (a + i * n kind))) = kind_value (element_kind kind) e)))"
    (is "assertion _ ?holds")
proof -
  let ?n = "n kind" and ?m = "store_int (n kind) (equal_operand kind e) quick m"
  have n: "?n \<in> {1, 2, 4, 8}" "?n = element_size (style_of kind)" "0 < ?n"
    using element_size_cases [of "style_of kind"] by (auto simp: n_def size_argument_element)
  have eq: "UNITY_TEST_ASSERT_EACH_EQUAL quick m kind e actual num line msg =
      UnityAssertEqualIntArray ?m (Some quick) actual (ucast num) msg line (style_of kind) UNITY_ARRAY_TO_VAL"
    using wide_operands [of kind e]
    by (cases kind) (simp_all add: UNITY_TEST_ASSERT_EACH_EQUAL_def UNITY_TEST_ASSERT_EACH_EQUAL_64_def wide_def UnityNumToPtr_def n_def)
  have r': "readable ?m a (k num * ?n)" if "actual = Some a" for a
    using r [OF that] by (auto simp: readable_def store_int_def)
  have q: "readable ?m quick ?n" by (simp add: readable_def store_int_def)
  have "assertion (UnityAssertEqualIntArray ?m (Some quick) actual (ucast num) msg line (style_of kind) UNITY_ARRAY_TO_VAL)
    (\<not> ucast num = (0 :: 32 word) \<and> (Some quick = actual \<or> (\<exists>e a. Some quick = Some e \<and> actual = Some a \<and>
      (\<forall>i<k num. the (read_int ?m ?n (e + i * 0)) = the (read_int ?m ?n (a + i * ?n))))))"
    unfolding k_def using r' q n(2) by (intro int_array_assertion) (simp_all add: k_def)
  moreover have "(\<not> ucast num = (0 :: 32 word) \<and> (Some quick = actual \<or> (\<exists>e a. Some quick = Some e \<and> actual = Some a \<and>
      (\<forall>i<k num. the (read_int ?m ?n (e + i * 0)) = the (read_int ?m ?n (a + i * ?n)))))) \<longleftrightarrow> ?holds"
  proof (cases "k num = 0")
    case True
    then show ?thesis by (simp add: k_def unat_eq_0)
  next
    case False
    show ?thesis
    proof (cases actual)
      case (Some a)
      have "?n \<le> k num * ?n" using False by simp
      then have "a \<noteq> quick" using apart [OF Some] n(3) by auto
      moreover have "the (read_int ?m ?n quick) = the (read_int ?m ?n (a + i * ?n)) \<longleftrightarrow>
          kind_value (element_kind kind) (the (read_int m ?n (a + i * ?n))) = kind_value (element_kind kind) e" if i: "i < k num" for i
      proof -
        have "(i + 1) * ?n \<le> k num * ?n" using i by (intro mult_le_mono1) simp
        then have l: "i * ?n + j < k num * ?n" if "j < ?n" for j
          using that by simp
        have "readable m (a + i * ?n) ?n"
          using r [OF Some] l by (auto simp: readable_def add.assoc simp del: not_None_eq)
        moreover have "read_int ?m ?n (a + i * ?n) = read_int m ?n (a + i * ?n)"
          using apart [OF Some] l [of 0] n(3) \<open>(i + 1) * ?n \<le> k num * ?n\<close> by (intro read_apart) auto
        moreover from calculation(1) obtain v where v: "read_int m ?n (a + i * ?n) = Some v" using read_int_readable by blast
        moreover have "read_int ?m ?n quick = Some (signed_part ?n e)"
          using read_stored [OF n(1)] signed_part_operand [of kind e] by (simp add: n_def)
        ultimately show ?thesis using read_int_signed [OF n(1) v] element_iff [of kind e v] by (auto simp: n_def)
      qed
      ultimately show ?thesis using False Some by (auto simp: k_def unat_eq_0)
    qed (use False in simp)
  qed
  ultimately show ?thesis unfolding eq by simp
qed

section \<open>Interpretations\<close>

interpretation equal: assertion "UNITY_TEST_ASSERT_EQUAL kind e a line msg" "kind_value kind e = kind_value kind a" for kind e a line msg
  by (rule equal_macro)

interpretation within_kind: assertion "UNITY_TEST_ASSERT_WITHIN kind delta e a line msg"
    "\<bar>kind_value kind a - kind_value kind e\<bar> \<le> uint (delta_operand kind delta)" for kind delta e a line msg
  by (rule within_macro)

end
