(* ===== verification/Unity_Run.thy ===== *)
theory Unity_Run
  imports Unity_Macros
begin

text \<open>
  The runner of \<^verbatim>\<open>externals/unity.c\<close>: the begin and the end of a suite, one test, and the verdict that the
  program of a suite returns.
\<close>

unbundle bit_operations_syntax

section \<open>The runner\<close>

definition UNITY_CLR_DETAILS :: "unity \<Rightarrow> unity" where
  "UNITY_CLR_DETAILS u = u\<lparr>CurrentDetail1 := None, CurrentDetail2 := None\<rparr>"

definition UnityBegin :: "cstring \<Rightarrow> unity \<Rightarrow> unity" where
  "UnityBegin filename u =
     UNITY_CLR_DETAILS (u\<lparr>TestFile := filename, CurrentTestName := None, CurrentTestLineNumber := 0, NumberOfTests := 0,
       TestFailures := 0, TestIgnores := 0, CurrentTestFailed := 0, CurrentTestIgnored := 0\<rparr>)"

definition UnitySetTestFile :: "cstring \<Rightarrow> unity \<Rightarrow> unity" where
  "UnitySetTestFile filename u = u\<lparr>TestFile := filename\<rparr>"

definition UnityConcludeTest :: "unity \<Rightarrow> unity" where
  "UnityConcludeTest u =
     (let u = (if CurrentTestIgnored u \<noteq> 0 then u\<lparr>TestIgnores := TestIgnores u + 1\<rparr>
               else if CurrentTestFailed u = 0 then
                 UnityPrint UnityStrPass (UnityTestResultsBegin (TestFile u) (CurrentTestLineNumber u) u)
               else u\<lparr>TestFailures := TestFailures u + 1\<rparr>);
          u = u\<lparr>CurrentTestFailed := 0, CurrentTestIgnored := 0\<rparr> in
      UNITY_PRINT_EOL u)"

abbreviation UnityStrBreaker :: cstring where "UnityStrBreaker \<equiv> Some (chars ''-----------------------'')"
abbreviation UnityStrResultsTests :: cstring where "UnityStrResultsTests \<equiv> Some (chars '' Tests '')"
abbreviation UnityStrResultsFailures :: cstring where "UnityStrResultsFailures \<equiv> Some (chars '' Failures '')"
abbreviation UnityStrResultsIgnored :: cstring where "UnityStrResultsIgnored \<equiv> Some (chars '' Ignored '')"

definition UnityEnd :: "unity \<Rightarrow> 32 word \<times> unity" where
  "UnityEnd u =
     (let u = UNITY_PRINT_EOL u;
          u = UnityPrint UnityStrBreaker u;
          u = UNITY_PRINT_EOL u;
          u = UnityPrintNumber (NumberOfTests u) u;
          u = UnityPrint UnityStrResultsTests u;
          u = UnityPrintNumber (TestFailures u) u;
          u = UnityPrint UnityStrResultsFailures u;
          u = UnityPrintNumber (TestIgnores u) u;
          u = UnityPrint UnityStrResultsIgnored u;
          u = UNITY_PRINT_EOL u;
          u = (if TestFailures u = 0 then UnityPrint UnityStrOk u else UnityPrint UnityStrFail u);
          u = UNITY_PRINT_EOL u in
      (ucast (TestFailures u), u))"

text \<open>A frame catches the jump of an assertion; nothing catches a bad access.\<close>

type_synonym test_function = "unity \<Rightarrow> unit unity_run"

definition and_then :: "test_function \<Rightarrow> test_function \<Rightarrow> test_function" where
  "and_then first second u = (case first u of (Inl j, u) \<Rightarrow> (Inl j, u) | (Inr _, u) \<Rightarrow> second u)"

definition TEST_PROTECT :: "test_function \<Rightarrow> test_function" where
  "TEST_PROTECT body u = (case body u of (Inl Abort, u) \<Rightarrow> (Inr (), u) | r \<Rightarrow> r)"

definition UnityDefaultTestRun :: "test_function \<Rightarrow> test_function \<Rightarrow> test_function \<Rightarrow> cstring \<Rightarrow> 32 word \<Rightarrow> test_function" where
  "UnityDefaultTestRun setUp tearDown func FuncName FuncLineNum u =
     (let u = u\<lparr>CurrentTestName := FuncName, CurrentTestLineNumber := scast FuncLineNum\<rparr>;
          u = u\<lparr>NumberOfTests := NumberOfTests u + 1\<rparr>;
          u = UNITY_CLR_DETAILS u in
      and_then (TEST_PROTECT (and_then setUp func))
        (and_then (TEST_PROTECT tearDown) (\<lambda>u. (Inr (), UnityConcludeTest u))) u)"

text \<open>The \<^verbatim>\<open>main\<close> of a suite: \<^verbatim>\<open>UNITY_BEGIN\<close>, one \<^verbatim>\<open>RUN_TEST\<close> per test, \<^verbatim>\<open>UNITY_END\<close>.\<close>

fun run_tests :: "test_function \<Rightarrow> test_function \<Rightarrow> (test_function \<times> cstring \<times> 32 word) list \<Rightarrow> test_function" where
  "run_tests setUp tearDown [] u = (Inr (), u)"
| "run_tests setUp tearDown ((func, name, line) # tests) u =
     and_then (UnityDefaultTestRun setUp tearDown func name line) (run_tests setUp tearDown tests) u"

definition suite_main :: "cstring \<Rightarrow> test_function \<Rightarrow> test_function \<Rightarrow> (test_function \<times> cstring \<times> 32 word) list \<Rightarrow> unity \<Rightarrow> 32 word unity_run" where
  "suite_main filename setUp tearDown tests u =
     (case run_tests setUp tearDown tests (UnityBegin filename u) of
        (Inl j, u) \<Rightarrow> (Inl j, u)
      | (Inr _, u) \<Rightarrow> (case UnityEnd u of (n, u) \<Rightarrow> (Inr n, u)))"

section \<open>Assertions in sequence\<close>

lemma and_then_assertion:
  assumes "assertion a p" and "assertion b q"
  shows "assertion (and_then a b) (p \<and> q)"
proof
  fix u
  note a = assertion.passes [OF assms(1), of u] assertion.fails [OF assms(1), of u] assertion.guarded [OF assms(1), of u]
  note b = assertion.passes [OF assms(2), of u] assertion.fails [OF assms(2), of u] assertion.guarded [OF assms(2), of u]
  show "clean u \<Longrightarrow> p \<and> q \<Longrightarrow> and_then a b u = (Inr (), u)" using a b by (simp add: and_then_def)
  show "\<exists>v. and_then a b u = (Inl Abort, v) \<and> failed_after u v" if "clean u" "\<not> (p \<and> q)"
    using a b that by (cases p) (auto simp: and_then_def)
  show "\<not> clean u \<Longrightarrow> and_then a b u = (Inl Abort, u) \<or> and_then a b u = (Inr (), u)"
    using a b by (auto simp: and_then_def)
qed

lemma empty_assertion: "assertion (\<lambda>u. (Inr (), u)) True"
  by unfold_locales simp_all

section \<open>The verdict\<close>

text \<open>One test, whatever it does, as long as it keeps its contract: the counters, and the line it writes.\<close>

definition concluded :: "unity \<Rightarrow> bool \<Rightarrow> unity \<Rightarrow> bool" where
  "concluded u ok v \<longleftrightarrow> clean v \<and> TestFile v = TestFile u \<and> NumberOfTests v = NumberOfTests u + 1 \<and> TestIgnores v = TestIgnores u
     \<and> TestFailures v = TestFailures u + of_bool (\<not> ok) \<and> (\<exists>t. unity_output v = unity_output u @ t)"

lemma wrote_fields [simp]:
  "TestFile (wrote t u) = TestFile u" "CurrentTestName (wrote t u) = CurrentTestName u" "CurrentDetail1 (wrote t u) = CurrentDetail1 u"
  "CurrentDetail2 (wrote t u) = CurrentDetail2 u" "CurrentTestLineNumber (wrote t u) = CurrentTestLineNumber u"
  "NumberOfTests (wrote t u) = NumberOfTests u" "TestFailures (wrote t u) = TestFailures u" "TestIgnores (wrote t u) = TestIgnores u"
  "CurrentTestFailed (wrote t u) = CurrentTestFailed u" "CurrentTestIgnored (wrote t u) = CurrentTestIgnored u"
  "unity_output (wrote t u) = unity_output u @ t"
  by (simp_all add: wrote_def)

text \<open>What a passing test prints.\<close>

definition shown_string :: "cstring \<Rightarrow> byte list" where
  "shown_string s = (case s of None \<Rightarrow> [] | Some s \<Rightarrow> shown s)"

definition result_line :: "cstring \<Rightarrow> unity_int \<Rightarrow> cstring \<Rightarrow> byte list \<Rightarrow> byte list" where
  "result_line file line name verdict =
     shown_string file @ [0x3A] @ signed_decimal (sint line) @ [0x3A] @ shown_string name @ [0x3A] @ verdict @ [chr_end]"

lemma results_begin_line:
  "UnityTestResultsBegin file line u = wrote (shown_string file @ [0x3A] @ signed_decimal (sint line) @ [0x3A] @ shown_string (CurrentTestName u) @ [0x3A]) u"
  by (cases "file"; cases "CurrentTestName u") (simp_all add: UnityTestResultsBegin_def shown_string_def Let_def)

lemma run_passes:
  assumes "assertion setUp True" and "assertion tearDown True" and "assertion func True" and "clean u"
  shows "UnityDefaultTestRun setUp tearDown func name line u =
    (Inr (), wrote (result_line (TestFile u) (scast line) name (chars ''PASS''))
      (u\<lparr>CurrentTestName := name, CurrentTestLineNumber := scast line, NumberOfTests := NumberOfTests u + 1,
         CurrentDetail1 := None, CurrentDetail2 := None\<rparr>))"
proof -
  let ?u = "UNITY_CLR_DETAILS (u\<lparr>CurrentTestName := name, CurrentTestLineNumber := scast line, NumberOfTests := NumberOfTests u + 1\<rparr>)"
  have c: "clean ?u" using assms(4) by (simp add: clean_def UNITY_CLR_DETAILS_def)
  have p: "shown (chars ''PASS'') = chars ''PASS''" by code_simp
  have "UnityConcludeTest ?u = wrote (result_line (TestFile u) (scast line) name (chars ''PASS'')) ?u"
    using c by (cases u) (simp add: UnityConcludeTest_def clean_def UNITY_CLR_DETAILS_def results_begin_line result_line_def p wrote_def)
  then show ?thesis
    using assertion.passes [OF assms(1) c] assertion.passes [OF assms(2) c] assertion.passes [OF assms(3) c]
    by (simp add: UnityDefaultTestRun_def Let_def and_then_def TEST_PROTECT_def UNITY_CLR_DETAILS_def)
qed

lemma run_concludes:
  assumes "assertion setUp True" and "assertion tearDown True" and "assertion func ok" and "clean u"
  shows "\<exists>v. UnityDefaultTestRun setUp tearDown func name line u = (Inr (), v) \<and> concluded u ok v"
proof (cases ok)
  case True
  then show ?thesis using run_passes [of setUp tearDown func u name line] assms
    by (simp add: concluded_def clean_def)
next
  case False
  let ?u = "UNITY_CLR_DETAILS (u\<lparr>CurrentTestName := name, CurrentTestLineNumber := scast line, NumberOfTests := NumberOfTests u + 1\<rparr>)"
  have c: "clean ?u" using assms(4) by (simp add: clean_def UNITY_CLR_DETAILS_def)
  from assertion.fails [OF assms(3) c False] obtain t where
    f: "func ?u = (Inl Abort, (wrote t ?u)\<lparr>CurrentTestFailed := 1\<rparr>)" by (auto simp: failed_after_def)
  let ?v = "(wrote t ?u)\<lparr>CurrentTestFailed := 1\<rparr>"
  have d: "\<not> clean ?v" by (simp add: clean_def)
  have "TEST_PROTECT tearDown ?v = (Inr (), ?v)"
    using assertion.guarded [OF assms(2) d] by (auto simp: TEST_PROTECT_def)
  moreover have "TEST_PROTECT (and_then setUp func) ?u = (Inr (), ?v)"
    using assertion.passes [OF assms(1) c] f by (simp add: TEST_PROTECT_def and_then_def)
  moreover have "concluded u ok (UnityConcludeTest ?v)"
    using c False by (simp add: concluded_def UnityConcludeTest_def clean_def UNITY_CLR_DETAILS_def)
  ultimately show ?thesis by (simp add: UnityDefaultTestRun_def Let_def and_then_def)
qed

lemma tests_conclude:
  assumes "assertion setUp True" and "assertion tearDown True" and "clean u"
    and "list_all2 (\<lambda>(func, name, line) ok. assertion func ok) tests oks"
  shows "\<exists>v. run_tests setUp tearDown tests u = (Inr (), v) \<and> clean v \<and> NumberOfTests v = NumberOfTests u + of_nat (length oks)
    \<and> TestFailures v = TestFailures u + of_nat (length (filter Not oks)) \<and> TestIgnores v = TestIgnores u
    \<and> (\<exists>t. unity_output v = unity_output u @ t)"
  using assms(4,3)
proof (induction arbitrary: u rule: list_all2_induct)
  case (Cons test tests ok oks)
  obtain func name line where t: "test = (func, name, line)" by (cases test)
  with Cons run_concludes [OF assms(1,2), of func ok u name line] obtain v where
    v: "UnityDefaultTestRun setUp tearDown func name line u = (Inr (), v)" "concluded u ok v" by auto
  from Cons.IH [of v] v(2) obtain w where "run_tests setUp tearDown tests v = (Inr (), w)" "clean w"
    "NumberOfTests w = NumberOfTests v + of_nat (length oks)" "TestFailures w = TestFailures v + of_nat (length (filter Not oks))"
    "TestIgnores w = TestIgnores v" "\<exists>t. unity_output w = unity_output v @ t" by (auto simp: concluded_def)
  then show ?case using v t by (auto simp: and_then_def concluded_def)
qed simp

text \<open>The program returns the number of tests that failed, as an \<^verbatim>\<open>int\<close>.\<close>

lemma suite_returns_failures:
  assumes "assertion setUp True" and "assertion tearDown True"
    and "list_all2 (\<lambda>(func, name, line) ok. assertion func ok) tests oks"
  shows "fst (suite_main filename setUp tearDown tests u) = Inr (of_nat (length (filter Not oks)))"
proof -
  have c: "clean (UnityBegin filename u)" by (simp add: clean_def UnityBegin_def UNITY_CLR_DETAILS_def)
  from tests_conclude [OF assms(1,2) c assms(3)] obtain v where
    v: "run_tests setUp tearDown tests (UnityBegin filename u) = (Inr (), v)" "TestFailures v = of_nat (length (filter Not oks))"
    by (auto simp: UnityBegin_def UNITY_CLR_DETAILS_def)
  have "fst (UnityEnd v) = ucast (TestFailures v)" by (simp add: UnityEnd_def Let_def)
  moreover have "ucast (of_nat n :: 64 word) = (of_nat n :: 32 word)" for n
    by (rule word_unat_eq_iff [THEN iffD2]) (simp add: unsigned_ucast_eq unat_of_nat take_bit_eq_mod mod_mod_cancel)
  ultimately show ?thesis using v by (simp add: suite_main_def split: prod.splits) (metis fst_conv)
qed

text \<open>What a suite without failures prints.\<close>

definition summary :: "unity_int \<Rightarrow> unity_int \<Rightarrow> unity_int \<Rightarrow> byte list" where
  "summary tests failures ignores =
     [chr_end] @ chars ''-----------------------'' @ [chr_end] @ signed_decimal (sint tests) @ chars '' Tests '' @ signed_decimal (sint failures)
     @ chars '' Failures '' @ signed_decimal (sint ignores) @ chars '' Ignored '' @ [chr_end]
     @ (if failures = 0 then chars ''OK'' else chars ''FAIL'') @ [chr_end]"

lemma shown_labels:
  "shown (chars ''-----------------------'') = chars ''-----------------------''" "shown (chars '' Tests '') = chars '' Tests ''"
  "shown (chars '' Failures '') = chars '' Failures ''" "shown (chars '' Ignored '') = chars '' Ignored ''"
  "shown (chars ''OK'') = chars ''OK''" "shown (chars ''FAIL'') = chars ''FAIL''"
  by code_simp+

lemma end_text: "UnityEnd u = (ucast (TestFailures u), wrote (summary (NumberOfTests u) (TestFailures u) (TestIgnores u)) u)"
  by (simp add: UnityEnd_def Let_def shown_labels summary_def)

lemma tests_pass:
  assumes "assertion setUp True" and "assertion tearDown True"
  shows "clean u \<Longrightarrow> list_all (\<lambda>(func, name, line). assertion func True) tests \<Longrightarrow>
    \<exists>v. run_tests setUp tearDown tests u = (Inr (), v) \<and> clean v \<and> TestFile v = TestFile u \<and> TestIgnores v = TestIgnores u
      \<and> TestFailures v = TestFailures u \<and> NumberOfTests v = NumberOfTests u + of_nat (length tests)
      \<and> unity_output v = unity_output u @ concat (map (\<lambda>(func, name, line). result_line (TestFile u) (scast line) name (chars ''PASS'')) tests)"
proof (induction tests arbitrary: u)
  case (Cons test tests)
  obtain func name line where t: "test = (func, name, line)" by (cases test)
  let ?v = "wrote (result_line (TestFile u) (scast line) name (chars ''PASS''))
      (u\<lparr>CurrentTestName := name, CurrentTestLineNumber := scast line, NumberOfTests := NumberOfTests u + 1,
         CurrentDetail1 := None, CurrentDetail2 := None\<rparr>)"
  have r: "UnityDefaultTestRun setUp tearDown func name line u = (Inr (), ?v)"
    by (rule run_passes [OF assms]) (use Cons.prems t in simp_all)
  have "clean ?v" using Cons.prems(1) by (simp add: clean_def)
  from Cons.IH [OF this] Cons.prems(2) r t show ?case by (auto simp: and_then_def)
qed simp

lemma suite_passes:
  assumes "assertion setUp True" and "assertion tearDown True" and "list_all (\<lambda>(func, name, line). assertion func True) tests"
  shows "\<exists>v. suite_main filename setUp tearDown tests u = (Inr 0, v) \<and> unity_output v = unity_output u
    @ concat (map (\<lambda>(func, name, line). result_line filename (scast line) name (chars ''PASS'')) tests)
    @ summary (of_nat (length tests)) 0 0"
proof -
  have "clean (UnityBegin filename u)" by (simp add: clean_def UnityBegin_def UNITY_CLR_DETAILS_def)
  from tests_pass [OF assms(1,2) this assms(3)] show ?thesis
    by (auto simp: suite_main_def end_text UnityBegin_def UNITY_CLR_DETAILS_def)
qed

section \<open>Suites of checks\<close>

text \<open>
  The tests that are built of the assertions on numbers, strings and conditions; those that end in \<open>_As\<close> are the
  macros with the type of their operands.
\<close>

datatype check =
    Equal_Number unity_int unity_int display_style
  | Bits unity_int unity_int unity_int
  | Ordered unity_int unity_int comparison display_style
  | Within unity_int unity_int unity_int display_style
  | Equal_String cstring cstring
  | Equal_String_Len cstring cstring "32 word"
  | Condition bool
  | Equal_As int_kind unity_int unity_int
  | Not_Equal_As int_kind unity_int unity_int
  | Greater_Than_As int_kind unity_int unity_int
  | Less_Than_As int_kind unity_int unity_int
  | Greater_Or_Equal_As int_kind unity_int unity_int
  | Less_Or_Equal_As int_kind unity_int unity_int
  | Within_As int_kind unity_int unity_int unity_int

fun perform :: "check \<Rightarrow> cstring \<Rightarrow> unity_int \<Rightarrow> test_function" where
  "perform (Equal_Number e a style) msg line = UnityAssertEqualNumber e a msg line style"
| "perform (Bits msk e a) msg line = UnityAssertBits msk e a msg line"
| "perform (Ordered t a compare style) msg line = UnityAssertGreaterOrLessOrEqualNumber t a compare msg line style"
| "perform (Within delta e a style) msg line = UnityAssertNumbersWithin delta e a msg line style"
| "perform (Equal_String e a) msg line = UnityAssertEqualString e a msg line"
| "perform (Equal_String_Len e a n) msg line = UnityAssertEqualStringLen e a n msg line"
| "perform (Condition c) msg line = UNITY_TEST_ASSERT c line msg"
| "perform (Equal_As kind e a) msg line = TEST_ASSERT_EQUAL_MESSAGE kind e a msg line"
| "perform (Not_Equal_As kind t a) msg line = TEST_ASSERT_NOT_EQUAL_MESSAGE kind t a msg line"
| "perform (Greater_Than_As kind t a) msg line = TEST_ASSERT_GREATER_THAN_MESSAGE kind t a msg line"
| "perform (Less_Than_As kind t a) msg line = TEST_ASSERT_LESS_THAN_MESSAGE kind t a msg line"
| "perform (Greater_Or_Equal_As kind t a) msg line = TEST_ASSERT_GREATER_OR_EQUAL_MESSAGE kind t a msg line"
| "perform (Less_Or_Equal_As kind t a) msg line = TEST_ASSERT_LESS_OR_EQUAL_MESSAGE kind t a msg line"
| "perform (Within_As kind delta e a) msg line = TEST_ASSERT_WITHIN_MESSAGE kind delta e a msg line"

fun check_holds :: "check \<Rightarrow> bool" where
  "check_holds (Equal_Number e a style) \<longleftrightarrow> e = a"
| "check_holds (Bits msk e a) \<longleftrightarrow> (\<forall>i<64. bit msk i \<longrightarrow> bit e i = bit a i)"
| "check_holds (Ordered t a compare style) \<longleftrightarrow> in_order compare (read_as style t) (read_as style a)"
| "check_holds (Within delta e a style) \<longleftrightarrow> \<bar>read_as style a - read_as style e\<bar> \<le> uint delta"
| "check_holds (Equal_String e a) \<longleftrightarrow> map_option c_string e = map_option c_string a"
| "check_holds (Equal_String_Len e a n) \<longleftrightarrow>
     map_option (\<lambda>s. c_string (take (unat n) s)) e = map_option (\<lambda>s. c_string (take (unat n) s)) a"
| "check_holds (Condition c) \<longleftrightarrow> c"
| "check_holds (Equal_As kind e a) \<longleftrightarrow> kind_value kind e = kind_value kind a"
| "check_holds (Not_Equal_As kind t a) \<longleftrightarrow> kind_value kind a \<noteq> kind_value kind t"
| "check_holds (Greater_Than_As kind t a) \<longleftrightarrow> kind_value kind t < kind_value kind a"
| "check_holds (Less_Than_As kind t a) \<longleftrightarrow> kind_value kind a < kind_value kind t"
| "check_holds (Greater_Or_Equal_As kind t a) \<longleftrightarrow> kind_value kind t \<le> kind_value kind a"
| "check_holds (Less_Or_Equal_As kind t a) \<longleftrightarrow> kind_value kind a \<le> kind_value kind t"
| "check_holds (Within_As kind delta e a) \<longleftrightarrow> \<bar>kind_value kind a - kind_value kind e\<bar> \<le> uint (delta_operand kind delta)"

lemmas message_macros =
  TEST_ASSERT_EQUAL_MESSAGE_def TEST_ASSERT_NOT_EQUAL_MESSAGE_def TEST_ASSERT_GREATER_THAN_MESSAGE_def TEST_ASSERT_LESS_THAN_MESSAGE_def
  TEST_ASSERT_GREATER_OR_EQUAL_MESSAGE_def TEST_ASSERT_LESS_OR_EQUAL_MESSAGE_def TEST_ASSERT_WITHIN_MESSAGE_def

lemma perform_assertion: "assertion (perform c msg line) (check_holds c)"
  by (cases c)
    (simp_all only: perform.simps check_holds.simps message_macros number_assertion bits_assertion order_assertion within_assertion
      string_assertion string_len_assertion condition_assertion equal_macro order_macros within_macro)

fun perform_all :: "(check \<times> cstring \<times> unity_int) list \<Rightarrow> test_function" where
  "perform_all [] u = (Inr (), u)"
| "perform_all ((c, msg, line) # cs) u = and_then (perform c msg line) (perform_all cs) u"

lemma perform_all_assertion: "assertion (perform_all cs) (\<forall>(c, msg, line)\<in>set cs. check_holds c)"
proof (induction cs)
  case Nil
  then show ?case by unfold_locales simp_all
next
  case (Cons x cs)
  obtain c msg line where x: "x = (c, msg, line)" by (cases x)
  have "perform_all (x # cs) = and_then (perform c msg line) (perform_all cs)" by (rule ext) (simp add: x)
  then show ?case using and_then_assertion [OF perform_assertion Cons.IH] by (simp add: x)
qed

definition test_passes :: "(check \<times> cstring \<times> unity_int) list \<Rightarrow> bool" where
  "test_passes cs = list_all (\<lambda>(c, msg, line). check_holds c) cs"

lemma perform_all_passes: "assertion (perform_all cs) (test_passes cs)"
  using perform_all_assertion [of cs] by (simp add: test_passes_def list_all_iff)

lemma check_suite:
  "fst (suite_main filename (\<lambda>u. (Inr (), u)) (\<lambda>u. (Inr (), u)) (map (\<lambda>(cs, name, line). (perform_all cs, name, line)) tests) u)
    = Inr (of_nat (length (filter (\<lambda>(cs, name, line). \<not> test_passes cs) tests)))"
proof -
  have "list_all2 (\<lambda>(func, name, line) ok. assertion func ok) (map (\<lambda>(cs, name, line). (perform_all cs, name, line)) tests)
      (map (\<lambda>(cs, name, line). test_passes cs) tests)"
    by (induction tests) (auto simp: perform_all_passes)
  moreover have "length (filter Not (map (\<lambda>(cs, name, line). test_passes cs) tests))
      = length (filter (\<lambda>(cs, name, line). \<not> test_passes cs) tests)"
    by (induction tests) auto
  ultimately show ?thesis using suite_returns_failures [OF empty_assertion empty_assertion] by metis
qed

end
