(* ===== verification/Timer_Tests.thy ===== *)
theory Timer_Tests
  imports Unity_Run Millisec_Timer
begin

text \<open>
  \<^verbatim>\<open>unit_test/test_millisec_timer.c\<close>, the tests of the millisecond timer, run by the model of the
  framework on the model of the timer: a test is the list of its statements, in their order.
\<close>

section \<open>Statements\<close>

abbreviation MAXVAL :: "32 word" where "MAXVAL \<equiv> 0xFFFFFFFF"

abbreviation UNITY_DISPLAY_STYLE_UINT32 :: display_style where "UNITY_DISPLAY_STYLE_UINT32 \<equiv> 0x24"
abbreviation UNITY_DISPLAY_STYLE_HEX32 :: display_style where "UNITY_DISPLAY_STYLE_HEX32 \<equiv> 0x44"

text \<open>
  Setting the timer, an assertion on the result of a poll, and one on a time of the timer. The number at the end is the
  line of the statement.
\<close>

datatype timer_step =
    Set_Rel "32 word" "32 word"
  | Once bool "32 word" unity_int
  | Repeat bool "32 word" unity_int
  | Time "millisec_timer \<Rightarrow> 32 word" "32 word" display_style unity_int

definition expired_message :: "bool \<Rightarrow> cstring" where
  "expired_message expected = (if expected then Some (chars '' Expected TRUE Was FALSE'') else Some (chars '' Expected FALSE Was TRUE''))"

definition time_message :: cstring where
  "time_message = Some (chars ''Checking the test is what it should be, not an error with millisec timer but with the test'')"

fun timer_test :: "timer_step list \<Rightarrow> millisec_timer \<Rightarrow> test_function" where
  "timer_test [] timer u = (Inr (), u)"
| "timer_test (Set_Rel now rel # steps) timer u = timer_test steps (millisec_timer_set_rel timer now rel) u"
| "timer_test (Once expected now line # steps) timer u =
     (case millisec_timer_is_expired timer now of (expired, timer) \<Rightarrow>
        and_then (UNITY_TEST_ASSERT (expired = expected) line (expired_message expected)) (timer_test steps timer) u)"
| "timer_test (Repeat expected now line # steps) timer u =
     (case millisec_timer_is_expired_repeat timer now of (expired, timer) \<Rightarrow>
        and_then (UNITY_TEST_ASSERT (expired = expected) line (expired_message expected)) (timer_test steps timer) u)"
| "timer_test (Time time expected style line # steps) timer u =
     and_then (UnityAssertEqualNumber (ucast expected) (ucast (time timer)) time_message line style) (timer_test steps timer) u"

section \<open>The tests\<close>

definition test_millisec_timer_not_wrap_once :: "timer_step list" where
  "test_millisec_timer_not_wrap_once =
    [Set_Rel 0 0, Once True 0 17, Set_Rel 0 0, Once True 1 20, Set_Rel 0 0, Once True MAXVAL 23, Set_Rel 0 1, Once False 0 28,
     Once True 1 29, Once False 1 30, Set_Rel 0 1, Once True 1 33, Once False 1 34, Set_Rel 0 1, Once True 2 37, Once False 2 38,
     Set_Rel 0 5000, Once False 0 43, Once False 5 44, Once False 4999 45, Once True 5000 46, Once False 5000 47,
     Once False 5001 48, Set_Rel 0 5000, Once True 5000 50, Set_Rel 0 5000, Once True 5001 52, Set_Rel 0 (MAXVAL - 1),
     Once False 0 57, Once False 1 58, Once False (MAXVAL - 2) 59, Once True (MAXVAL - 1) 60, Once False MAXVAL 61,
     Set_Rel 0 (MAXVAL - 1), Once True MAXVAL 63, Once False MAXVAL 64, Set_Rel 0 MAXVAL, Once False 0 69, Once False 1 70,
     Once False (MAXVAL - 2) 71, Once False (MAXVAL - 1) 72, Once True MAXVAL 73, Once False MAXVAL 74, Set_Rel 5000 0,
     Once True MAXVAL 80, Once False MAXVAL 81, Set_Rel 5000 0, Once True 0 83, Once False MAXVAL 84, Set_Rel 5000 0,
     Once True 5000 86, Once False MAXVAL 87, Set_Rel 5000 (MAXVAL - 5000), Once False 5000 92, Once False (MAXVAL - 1) 93,
     Once True MAXVAL 94, Once False MAXVAL 95, Set_Rel 5000 (MAXVAL - 5000), Once True 0 97, Once False 0 99, Set_Rel MAXVAL 0,
     Once True MAXVAL 105, Once False MAXVAL 106, Set_Rel MAXVAL 0, Once True 0 108, Once False MAXVAL 109, Set_Rel MAXVAL 0,
     Once True 5000 111, Once False MAXVAL 112]"

definition test_millisec_timer_do_wrap_once :: "timer_step list" where
  "test_millisec_timer_do_wrap_once =
    [Set_Rel 1 MAXVAL, Time set_time 1 UNITY_DISPLAY_STYLE_UINT32 121, Time expire_time 0 UNITY_DISPLAY_STYLE_UINT32 125,
     Once False 1 129, Once False 2 130, Once False MAXVAL 131, Once True 0 132, Once False 0 133, Set_Rel 2 MAXVAL,
     Time set_time 2 UNITY_DISPLAY_STYLE_UINT32 138, Time expire_time 1 UNITY_DISPLAY_STYLE_UINT32 142, Once False 2 146,
     Once False 3 147, Once False MAXVAL 148, Once False 0 149, Once True 1 150, Once False 1 151, Set_Rel (MAXVAL - 1) 2,
     Time set_time (MAXVAL - 1) UNITY_DISPLAY_STYLE_UINT32 156, Time expire_time 0 UNITY_DISPLAY_STYLE_UINT32 160,
     Once False (MAXVAL - 1) 164, Once False MAXVAL 165, Once True 0 166, Once False 0 167, Set_Rel (MAXVAL - 1) 2,
     Once True 1 169, Once False 1 170, Set_Rel (MAXVAL - 1) 2, Once True (MAXVAL - 2) 172, Once False (MAXVAL - 2) 173,
     Set_Rel MAXVAL 1, Time set_time MAXVAL UNITY_DISPLAY_STYLE_UINT32 178, Time expire_time 0 UNITY_DISPLAY_STYLE_UINT32 182,
     Once False MAXVAL 186, Once True 0 187, Once False 0 188, Set_Rel MAXVAL 1, Once True 1 190, Once False 1 191,
     Set_Rel MAXVAL 1, Once True (MAXVAL - 1) 193, Once False (MAXVAL - 1) 194, Set_Rel MAXVAL 2,
     Time set_time MAXVAL UNITY_DISPLAY_STYLE_UINT32 199, Time expire_time 1 UNITY_DISPLAY_STYLE_UINT32 203, Once False MAXVAL 207,
     Once False 0 208, Once True 1 209, Once False 1 210, Set_Rel MAXVAL 2, Once True 2 212, Once False 2 213, Set_Rel MAXVAL 2,
     Once True (MAXVAL - 1) 215, Once False (MAXVAL - 1) 216]"

definition test_millisec_timer_not_wrap_repeat :: "timer_step list" where
  "test_millisec_timer_not_wrap_repeat =
    [Set_Rel 0 0, Repeat True 0 225, Repeat True 0 226, Repeat True 0 227, Set_Rel 0 0, Repeat True 1 230, Repeat True 1 231,
     Repeat True 1 232, Set_Rel 0 0, Repeat True MAXVAL 235, Repeat True MAXVAL 236, Repeat True MAXVAL 237, Set_Rel 0 1,
     Repeat False 0 242, Repeat True 1 243, Repeat False 1 244, Repeat True 2 245, Repeat False 2 246, Repeat True 3 247,
     Repeat False 3 248, Set_Rel 0 1, Repeat True 500 251, Repeat True 500 252, Repeat False 2 253, Repeat True 3 254,
     Repeat False 3 255, Set_Rel 0 1, Repeat True MAXVAL 258, Repeat False 1 259, Set_Rel 0 5000, Repeat False 0 264,
     Repeat False 5 265, Repeat False 4999 266, Repeat True 5000 267, Repeat False 5000 268, Repeat False 5001 269,
     Repeat True 10000 270, Repeat False 10001 271, Repeat True 15000 272, Repeat False 15001 273, Repeat True 30000 274,
     Repeat False 24999 275, Repeat True 30000 276, Set_Rel 0 5000, Repeat True 5000 278, Set_Rel 0 5000, Repeat True 5001 280,
     Set_Rel 0 (MAXVAL - 1), Repeat False 0 285, Repeat False 1 286, Repeat False (MAXVAL - 2) 287, Repeat True (MAXVAL - 1) 288,
     Repeat False MAXVAL 289, Set_Rel 0 (MAXVAL - 1), Repeat True MAXVAL 291, Repeat False MAXVAL 292, Set_Rel 0 MAXVAL,
     Repeat False 0 297, Repeat False 1 298, Repeat False (MAXVAL - 2) 299, Repeat False (MAXVAL - 1) 300, Repeat True MAXVAL 301,
     Time set_time MAXVAL UNITY_DISPLAY_STYLE_UINT32 303, Time expire_time (MAXVAL - 1) UNITY_DISPLAY_STYLE_UINT32 307,
     Repeat False 0 311, Repeat False 1 312, Repeat False (MAXVAL - 2) 313, Repeat True (MAXVAL - 1) 314,
     Time set_time (MAXVAL - 1) UNITY_DISPLAY_STYLE_UINT32 315, Time expire_time (MAXVAL - 2) UNITY_DISPLAY_STYLE_UINT32 319,
     Repeat False MAXVAL 323, Repeat False 0 324, Repeat False 1 325, Repeat False (MAXVAL - 3) 326, Repeat True (MAXVAL - 2) 327,
     Set_Rel 5000 0, Repeat True MAXVAL 333, Repeat True 0 334, Repeat True 5000 335, Set_Rel 5000 5000, Repeat False 5000 340,
     Repeat False 9999 341, Repeat True 10000 342, Repeat False 10000 343, Repeat False 14999 344, Repeat True 15000 345,
     Repeat False 19999 346, Repeat True 20000 347, Repeat True MAXVAL 348, Repeat False 29999 349, Repeat True 30000 350,
     Set_Rel 5000 (MAXVAL - 5000), Repeat False 5000 355, Repeat False (MAXVAL - 1) 356, Repeat True MAXVAL 357,
     Time set_time MAXVAL UNITY_DISPLAY_STYLE_HEX32 358, Time expire_time (2 * MAXVAL - 5000) UNITY_DISPLAY_STYLE_HEX32 362,
     Repeat False MAXVAL 366, Repeat False (2 * MAXVAL - 5001) 367, Repeat True (2 * MAXVAL - 5000) 369]"

definition test_millisec_timer_do_wrap_repeat :: "timer_step list" where
  "test_millisec_timer_do_wrap_repeat =
    [Set_Rel 1 MAXVAL, Time set_time 1 UNITY_DISPLAY_STYLE_UINT32 378, Time expire_time 0 UNITY_DISPLAY_STYLE_UINT32 382,
     Repeat False 1 386, Repeat False 2 387, Repeat False MAXVAL 388, Repeat True 0 389,
     Time set_time 0 UNITY_DISPLAY_STYLE_HEX32 390, Time expire_time MAXVAL UNITY_DISPLAY_STYLE_HEX32 394, Repeat False 1 398,
     Repeat False 2 399, Repeat False (MAXVAL - 1) 400, Repeat True MAXVAL 401, Set_Rel 2 MAXVAL,
     Time set_time 2 UNITY_DISPLAY_STYLE_UINT32 406, Time expire_time 1 UNITY_DISPLAY_STYLE_UINT32 410, Repeat False 2 414,
     Repeat False 3 415, Repeat False MAXVAL 416, Repeat False 0 417, Repeat True 1 418,
     Time set_time 1 UNITY_DISPLAY_STYLE_UINT32 419, Time expire_time 0 UNITY_DISPLAY_STYLE_UINT32 423, Repeat False 1 427,
     Repeat False 1 428, Repeat False 2 429, Repeat False MAXVAL 430, Repeat True 0 431, Set_Rel (MAXVAL - 1) 2,
     Time set_time (MAXVAL - 1) UNITY_DISPLAY_STYLE_UINT32 436, Time expire_time 0 UNITY_DISPLAY_STYLE_UINT32 440,
     Repeat False (MAXVAL - 1) 444, Repeat False MAXVAL 445, Repeat True 0 446, Time set_time 0 UNITY_DISPLAY_STYLE_UINT32 447,
     Time expire_time 2 UNITY_DISPLAY_STYLE_UINT32 451, Repeat False 0 455, Repeat True 2 456, Set_Rel (MAXVAL - 1) 2,
     Repeat True 1 459, Repeat False 1 460, Repeat True MAXVAL 461, Set_Rel (MAXVAL - 1) 2, Repeat True (MAXVAL - 2) 463]"

section \<open>The program\<close>

definition no_setup :: test_function where
  "no_setup u = (Inr (), u)"

definition timer_tests :: "(nat \<Rightarrow> millisec_timer) \<Rightarrow> (test_function \<times> cstring \<times> 32 word) list" where
  "timer_tests timers =
     [(timer_test test_millisec_timer_not_wrap_once (timers 0), Some (chars ''test_millisec_timer_not_wrap_once''), 468),
      (timer_test test_millisec_timer_do_wrap_once (timers 1), Some (chars ''test_millisec_timer_do_wrap_once''), 469),
      (timer_test test_millisec_timer_not_wrap_repeat (timers 2), Some (chars ''test_millisec_timer_not_wrap_repeat''), 470),
      (timer_test test_millisec_timer_do_wrap_repeat (timers 3), Some (chars ''test_millisec_timer_do_wrap_repeat''), 471)]"

text \<open>The timers are local variables that are not initialised: \<open>timers\<close> is what they contain.\<close>

definition test_millisec_timer_main :: "cstring \<Rightarrow> (nat \<Rightarrow> millisec_timer) \<Rightarrow> unity \<Rightarrow> 32 word unity_run" where
  "test_millisec_timer_main filename timers = suite_main filename no_setup no_setup (timer_tests timers)"

section \<open>They pass\<close>

fun timer_test_holds :: "timer_step list \<Rightarrow> millisec_timer \<Rightarrow> bool" where
  "timer_test_holds [] timer \<longleftrightarrow> True"
| "timer_test_holds (Set_Rel now rel # steps) timer \<longleftrightarrow> timer_test_holds steps (millisec_timer_set_rel timer now rel)"
| "timer_test_holds (Once expected now line # steps) timer \<longleftrightarrow>
     fst (millisec_timer_is_expired timer now) = expected \<and> timer_test_holds steps (snd (millisec_timer_is_expired timer now))"
| "timer_test_holds (Repeat expected now line # steps) timer \<longleftrightarrow>
     fst (millisec_timer_is_expired_repeat timer now) = expected \<and> timer_test_holds steps (snd (millisec_timer_is_expired_repeat timer now))"
| "timer_test_holds (Time time expected style line # steps) timer \<longleftrightarrow> expected = time timer \<and> timer_test_holds steps timer"

lemma widened_eq: "(ucast (a :: 32 word) :: unity_int) = ucast b \<longleftrightarrow> a = b"
proof -
  have "unat (ucast w :: unity_int) = unat w" for w :: "32 word"
    unfolding unsigned_ucast_eq by (rule take_bit_nat_eq_self, rule less_le_trans [OF unsigned_less]) simp
  then show ?thesis by (simp only: word_unat_eq_iff)
qed

lemma timer_test_assertion: "assertion (timer_test steps timer) (timer_test_holds steps timer)"
proof (induction steps timer rule: timer_test_holds.induct)
  case (1 timer)
  then show ?case by unfold_locales simp_all
next
  case (2 now rel steps timer)
  have "timer_test (Set_Rel now rel # steps) timer = timer_test steps (millisec_timer_set_rel timer now rel)" by (rule ext) simp
  then show ?case using 2 by simp
next
  case (3 expected now line steps timer)
  have "timer_test (Once expected now line # steps) timer =
      and_then (UNITY_TEST_ASSERT (fst (millisec_timer_is_expired timer now) = expected) line (expired_message expected))
        (timer_test steps (snd (millisec_timer_is_expired timer now)))"
    by (rule ext) (simp split: prod.split)
  then show ?case using and_then_assertion [OF condition_assertion 3] by simp
next
  case (4 expected now line steps timer)
  have "timer_test (Repeat expected now line # steps) timer =
      and_then (UNITY_TEST_ASSERT (fst (millisec_timer_is_expired_repeat timer now) = expected) line (expired_message expected))
        (timer_test steps (snd (millisec_timer_is_expired_repeat timer now)))"
    by (rule ext) (simp split: prod.split)
  then show ?case using and_then_assertion [OF condition_assertion 4] by simp
next
  case (5 time expected style line steps timer)
  have t: "timer_test (Time time expected style line # steps) timer =
      and_then (UnityAssertEqualNumber (ucast expected) (ucast (time timer)) time_message line style) (timer_test steps timer)"
    by (rule ext) simp
  show ?case unfolding t timer_test_holds.simps widened_eq [of expected "time timer", symmetric]
    by (rule and_then_assertion [OF number_assertion 5])
qed

text \<open>The statements on the three members of the timer.\<close>

abbreviation timer_of :: "bool \<Rightarrow> 32 word \<Rightarrow> 32 word \<Rightarrow> millisec_timer" where
  "timer_of e s x \<equiv> \<lparr>enabled = e, set_time = s, expire_time = x\<rparr>"

definition due :: "32 word \<Rightarrow> 32 word \<Rightarrow> 32 word \<Rightarrow> bool" where
  "due s x now \<longleftrightarrow> (x > s \<and> (now \<ge> x \<or> now < s)) \<or> (x < s \<and> now \<ge> x \<and> now < s)"

lemma holds_steps:
  "timer_test_holds [] t"
  "timer_test_holds (Set_Rel now rel # steps) (timer_of e s x) \<longleftrightarrow> timer_test_holds steps (timer_of True now (now + rel))"
  "timer_test_holds (Once b now l # steps) (timer_of False s x) \<longleftrightarrow> \<not> b \<and> timer_test_holds steps (timer_of False s x)"
  "timer_test_holds (Once b now l # steps) (timer_of True s x) \<longleftrightarrow>
     (if x = s \<or> due s x now then b \<and> timer_test_holds steps (timer_of False s x)
      else \<not> b \<and> timer_test_holds steps (timer_of True s x))"
  "timer_test_holds (Repeat b now l # steps) (timer_of True s x) \<longleftrightarrow>
     (if x = s then b \<and> timer_test_holds steps (timer_of True s x)
      else if due s x now then b \<and> timer_test_holds steps (timer_of True x (x + (x - s)))
      else \<not> b \<and> timer_test_holds steps (timer_of True s x))"
  "timer_test_holds (Time f v style l # steps) t \<longleftrightarrow> v = f t \<and> timer_test_holds steps t"
  by (auto simp: millisec_timer_set_rel_def millisec_timer_is_expired_def millisec_timer_is_expired_repeat_def due_def)

lemmas evaluate = holds_steps due_def word_less_def word_le_def

lemma not_wrap_once_holds: "timer_test_holds test_millisec_timer_not_wrap_once timer"
  by (cases timer) (simp add: test_millisec_timer_not_wrap_once_def evaluate del: timer_test_holds.simps)

lemma do_wrap_once_holds: "timer_test_holds test_millisec_timer_do_wrap_once timer"
  by (cases timer) (simp add: test_millisec_timer_do_wrap_once_def evaluate del: timer_test_holds.simps)

lemma not_wrap_repeat_holds: "timer_test_holds test_millisec_timer_not_wrap_repeat timer"
  by (cases timer) (simp add: test_millisec_timer_not_wrap_repeat_def evaluate del: timer_test_holds.simps)

lemma do_wrap_repeat_holds: "timer_test_holds test_millisec_timer_do_wrap_repeat timer"
  by (cases timer) (simp add: test_millisec_timer_do_wrap_repeat_def evaluate del: timer_test_holds.simps)

lemma timer_tests_hold: "list_all (\<lambda>(func, name, line). assertion func True) (timer_tests timers)"
  using timer_test_assertion [of test_millisec_timer_not_wrap_once "timers 0"]
    timer_test_assertion [of test_millisec_timer_do_wrap_once "timers 1"]
    timer_test_assertion [of test_millisec_timer_not_wrap_repeat "timers 2"]
    timer_test_assertion [of test_millisec_timer_do_wrap_repeat "timers 3"]
  by (simp add: timer_tests_def not_wrap_once_holds do_wrap_once_holds not_wrap_repeat_holds do_wrap_repeat_holds)

lemma no_setup_assertion: "assertion no_setup True"
  by unfold_locales (simp_all add: no_setup_def)

text \<open>The lines that the program prints.\<close>

definition passed_line :: "cstring \<Rightarrow> unity_int \<Rightarrow> string \<Rightarrow> byte list" where
  "passed_line filename line name = result_line filename line (Some (chars name)) (chars ''PASS'')"

lemma summary_4: "summary 4 0 0 = [chr_end] @ chars ''-----------------------'' @ [chr_end]
    @ chars ''4 Tests 0 Failures 0 Ignored '' @ [chr_end] @ chars ''OK'' @ [chr_end]"
  by code_simp

lemma timer_program:
  "\<exists>v. test_millisec_timer_main filename timers u = (Inr 0, v) \<and> unity_output v = unity_output u
    @ passed_line filename 468 ''test_millisec_timer_not_wrap_once'' @ passed_line filename 469 ''test_millisec_timer_do_wrap_once''
    @ passed_line filename 470 ''test_millisec_timer_not_wrap_repeat'' @ passed_line filename 471 ''test_millisec_timer_do_wrap_repeat''
    @ [chr_end] @ chars ''-----------------------'' @ [chr_end] @ chars ''4 Tests 0 Failures 0 Ignored '' @ [chr_end] @ chars ''OK'' @ [chr_end]"
proof -
  have "length (timer_tests timers) = 4" by (simp add: timer_tests_def)
  then show ?thesis
    using suite_passes [OF no_setup_assertion no_setup_assertion timer_tests_hold, of filename timers u]
    by (auto simp: test_millisec_timer_main_def summary_4 timer_tests_def passed_line_def)
qed

end
