(* ===== verification/Register_Server.thy ===== *)
theory Register_Server
  imports Avr_Devices
begin

text \<open>
  A firmware with register pointers over a whole session with its host. The specification is a server with a list
  of registers; the firmware, with its interrupt and its polling loop in any interleaving, implements it, as
  long as the host waits for the reply to a request before it sends the next one.
\<close>

section \<open>Events\<close>

text \<open>A byte that the receive interrupt stores between two turns, and a turn of the loop, with the UART ready or not.\<close>

datatype event = Arrives byte | Turn bool

fun run_event :: "event \<Rightarrow> 'w firmware \<Rightarrow> (unit, 'w firmware) res" where
  "run_event (Arrives b) fw = byte_arrives b fw"
| "run_event (Turn r) fw = HANDLE_ASC_COMM_IN_POLLING_LOOP (with_tx_ready r fw)"

abbreviation run_events :: "event list \<Rightarrow> 'w firmware \<Rightarrow> (unit, 'w firmware) res" where
  "run_events \<equiv> for_each run_event"

fun arrivals :: "event list \<Rightarrow> byte list" where
  "arrivals [] = []"
| "arrivals (Arrives b # es) = b # arrivals es"
| "arrivals (Turn r # es) = arrivals es"

lemma arrivals_append [simp]: "arrivals (es @ es') = arrivals es @ arrivals es'"
  by (induction es rule: arrivals.induct) simp_all

section \<open>The firmware during one exchange\<close>

text \<open>The firmware between two exchanges, with the memory \<open>w\<close>.\<close>

definition resting :: "'w ascii_serial_com_device_config \<Rightarrow> 'w \<Rightarrow> 'w firmware \<Rightarrow> bool" where
  "resting cfg w fw \<longleftrightarrow> fw_wf fw \<and> dev_config (ascd fw) = cfg \<and> fw_in fw = [] \<and> fw_extra fw = [] \<and> fw_out fw = [] \<and> fw_mem fw = w"

text \<open>With the line \<open>bs\<close> in the input buffer and nothing to send, the device leaves the bytes \<open>out\<close> to send.\<close>

definition replies_to :: "'w ascii_serial_com_device_config \<Rightarrow> byte list \<Rightarrow> 'w \<Rightarrow> byte list \<Rightarrow> 'w \<Rightarrow> bool" where
  "replies_to cfg bs w out w' \<longleftrightarrow> (\<forall>fw. fw_wf fw \<longrightarrow> dev_config (ascd fw) = cfg \<longrightarrow> fw_in fw = bs \<longrightarrow> fw_out fw = [] \<longrightarrow> fw_mem fw = w \<longrightarrow>
     (\<exists>fw'. on_device ascii_serial_com_device_receive fw = (Inr (), fw') \<and> fw_wf fw' \<and> dev_config (ascd fw') = cfg
       \<and> fw_in fw' = [] \<and> fw_out fw' = out \<and> fw_mem fw' = w' \<and> fw_extra fw' = fw_extra fw \<and> fw_uart fw' = fw_uart fw))"

text \<open>
  The two phases of an exchange: bytes of the request are in the input buffer, in the extra buffer or still to come;
  then the request is answered, and the bytes of the reply are sent or in the output buffer.
\<close>

inductive exchange :: "'w ascii_serial_com_device_config \<Rightarrow> byte list \<Rightarrow> 'w \<Rightarrow> byte list \<Rightarrow> 'w \<Rightarrow> byte list \<Rightarrow> byte list \<Rightarrow> 'w firmware \<Rightarrow> bool"
  for cfg request w out w' sent where
  asking: "fw_wf fw \<Longrightarrow> dev_config (ascd fw) = cfg \<Longrightarrow> fw_in fw @ fw_extra fw @ rest = request \<Longrightarrow> fw_extra fw @ rest \<noteq> [] \<Longrightarrow>
     fw_out fw = [] \<Longrightarrow> fw_mem fw = w \<Longrightarrow> tx_sent (fw_uart fw) = sent \<Longrightarrow> exchange cfg request w out w' sent rest fw"
| answering: "fw_wf fw \<Longrightarrow> dev_config (ascd fw) = cfg \<Longrightarrow> fw_in fw = [] \<Longrightarrow> fw_extra fw = [] \<Longrightarrow> fw_mem fw = w' \<Longrightarrow>
     tx_sent (fw_uart fw) @ fw_out fw = sent @ out \<Longrightarrow> exchange cfg request w out w' sent [] fw"

text \<open>A request is a line of which no part is a message.\<close>

definition one_line :: "byte list \<Rightarrow> bool" where
  "one_line request \<longleftrightarrow> request \<noteq> [] \<and> length request \<le> 64
     \<and> (\<forall>p q. p @ q = request \<longrightarrow> q \<noteq> [] \<longrightarrow> receive_frame p = (No_Message, p))"

lemma frame_one_line:
  assumes "plain ([v, ap, c] @ d)" and "length d \<le> 54"
  shows "one_line (frame v ap c d)"
proof -
  have "receive_frame p = (No_Message, p)" if "p @ q = frame v ap c d" "q \<noteq> []" for p q
  proof (cases "p = []")
    case True
    then show ?thesis by (simp add: receive_frame_Nil)
  next
    case False
    from frame_prefix [OF that(1) this that(2) assms(1)] obtain r where "p = chr_start # r" "chr_start \<notin> set r" "chr_end \<notin> set r" .
    then show ?thesis using receive_frame_open by simp
  qed
  moreover have "frame v ap c d \<noteq> []" by (simp add: frame_def frame_body_def)
  ultimately show ?thesis using assms(2) by (simp add: one_line_def)
qed

lemma bind_unit: "bind_res r (\<lambda>_. Pair (Inr ())) = r" for r :: "(unit, 's) res"
  by (cases r; cases "fst r") (auto simp: bind_res_def)

lemma exchange_arrives:
  assumes "exchange cfg request w out w' sent (b # rest) fw" and "length request \<le> 64"
  shows "\<exists>fw'. run_event (Arrives b) fw = (Inr (), fw') \<and> exchange cfg request w out w' sent rest fw'"
  using assms(1)
proof cases
  case asking
  then have "length (fw_extra fw) + length [b] \<le> 64" using assms(2) by auto
  from bytes_arrive [OF asking(1) this] obtain fw' where
    "byte_arrives b fw = (Inr (), fw')" "fw_wf fw'" "fw_extra fw' = fw_extra fw @ [b]" "ascd fw' = ascd fw" "fw_mem fw' = fw_mem fw"
    "tx_sent (fw_uart fw') = tx_sent (fw_uart fw)" by (auto simp: bind_unit)
  then show ?thesis using asking by (auto intro!: exchange.asking simp: fw_in_def fw_out_def)
qed

lemma exchange_turn:
  assumes x: "exchange cfg request w out w' sent rest fw" and l: "one_line request" and r: "replies_to cfg request w out w'"
  shows "\<exists>fw'. run_event (Turn ready) fw = (Inr (), fw') \<and> exchange cfg request w out w' sent rest fw'
    \<and> length (fw_extra fw') = length (fw_extra fw) - 1
    \<and> (rest = [] \<and> fw_extra fw = [] \<longrightarrow> fw_out fw' = (if ready then drop 1 (fw_out fw) else fw_out fw))"
  using x
proof cases
  case asking
  have wf: "fw_wf (with_tx_ready ready fw)" using asking(1) by simp
  from tx_step [OF wf] asking obtain fw1 where
    t: "on_tx uart_tx_from_circ_buf (with_tx_ready ready fw) = (Inr (), fw1)" "fw_wf fw1" "fw_in fw1 = fw_in fw"
      "fw_extra fw1 = fw_extra fw" "fw_mem fw1 = w" "dev_config (ascd fw1) = cfg" "fw_out fw1 = []"
      "tx_sent (fw_uart fw1) = sent" by auto
  show ?thesis
  proof (cases "fw_extra fw")
    case Nil
    with asking have "receive_frame (fw_in fw1) = (No_Message, fw_in fw1)" using l t(3) by (auto simp: one_line_def)
    from on_device_receive_nothing [OF t(2) this] obtain fw2 where
      f: "on_device ascii_serial_com_device_receive fw1 = (Inr (), fw2)" "fw_wf fw2" "fw_in fw2 = fw_in fw1" "fw_extra fw2 = fw_extra fw1"
        "fw_out fw2 = fw_out fw1" "fw_mem fw2 = fw_mem fw1" "fw_uart fw2 = fw_uart fw1" "dev_config (ascd fw2) = dev_config (ascd fw1)" by auto
    have "run_event (Turn ready) fw = (Inr (), fw2)" using t(1,4) f(1) Nil by (simp add: HANDLE_ASC_COMM_IN_POLLING_LOOP_def extra_empty)
    moreover have "exchange cfg request w out w' sent rest fw2" using f t asking Nil by (intro exchange.asking) auto
    ultimately show ?thesis using f t Nil asking(4) by auto
  next
    case (Cons b q)
    have len: "length (fw_in fw1) < 64" using l asking(3) Cons t(3) by (auto simp: one_line_def)
    from feed_step [OF t(2) _ len, of b q] t(4) Cons obtain fw2 where
      u: "bind_res (on_extra circular_buffer_pop_front_uint8 fw1) (\<lambda>tmp_byte fw. push_input tmp_byte fw) = (Inr (), fw2)"
        "fw_wf fw2" "fw_in fw2 = fw_in fw @ [b]" "fw_extra fw2 = q" "fw_out fw2 = []" "fw_mem fw2 = w" "fw_uart fw2 = fw_uart fw1"
        "dev_config (ascd fw2) = cfg" using t by auto
    have h: "run_event (Turn ready) fw = on_device ascii_serial_com_device_receive fw2"
      using t(1,4) u(1) Cons by (simp add: HANDLE_ASC_COMM_IN_POLLING_LOOP_def extra_empty)
    show ?thesis
    proof (cases "q @ rest = []")
      case True
      then have "fw_in fw2 = request" using u(3) asking(3) Cons by simp
      with r u obtain fw3 where "on_device ascii_serial_com_device_receive fw2 = (Inr (), fw3)" "fw_wf fw3" "dev_config (ascd fw3) = cfg"
        "fw_in fw3 = []" "fw_out fw3 = out" "fw_mem fw3 = w'" "fw_extra fw3 = q" "fw_uart fw3 = fw_uart fw1"
        unfolding replies_to_def by metis
      then show ?thesis using h True Cons t(8) by (auto intro!: exchange.answering)
    next
      case False
      have "(fw_in fw @ [b]) @ (q @ rest) = request" using asking(3) Cons by simp
      with False l have "receive_frame (fw_in fw2) = (No_Message, fw_in fw2)" unfolding u(3) one_line_def by blast
      from on_device_receive_nothing [OF u(2) this] obtain fw3 where
        f: "on_device ascii_serial_com_device_receive fw2 = (Inr (), fw3)" "fw_wf fw3" "fw_in fw3 = fw_in fw2" "fw_extra fw3 = fw_extra fw2"
          "fw_out fw3 = fw_out fw2" "fw_mem fw3 = fw_mem fw2" "fw_uart fw3 = fw_uart fw2" "dev_config (ascd fw3) = dev_config (ascd fw2)" by auto
      have "exchange cfg request w out w' sent rest fw3" using f u t asking Cons False by (intro exchange.asking) auto
      then show ?thesis using h f u Cons by auto
    qed
  qed
next
  case answering
  from idle_turn [OF answering(2,4,5), of ready] obtain fw' where
    "run_event (Turn ready) fw = (Inr (), fw')" "fw_wf fw'" "fw_in fw' = []" "fw_extra fw' = []" "fw_mem fw' = fw_mem fw"
    "dev_config (ascd fw') = dev_config (ascd fw)" "fw_out fw' = (if ready then drop 1 (fw_out fw) else fw_out fw)"
    "tx_sent (fw_uart fw') = tx_sent (fw_uart fw) @ (if ready then take 1 (fw_out fw) else [])" by auto
  then show ?thesis using answering
    by (cases "fw_out fw") (auto intro!: exchange.answering)
qed

text \<open>Any interleaving of bytes and turns; then turns that empty the extra buffer; then turns that send the reply.\<close>

lemma exchange_events:
  assumes "one_line request" and "replies_to cfg request w out w'"
  shows "exchange cfg request w out w' sent (arrivals es @ rest) fw \<Longrightarrow>
    \<exists>fw'. run_events es fw = (Inr (), fw') \<and> exchange cfg request w out w' sent rest fw'"
proof (induction es arbitrary: fw)
  case (Cons e es)
  have "\<exists>fw1. run_event e fw = (Inr (), fw1) \<and> exchange cfg request w out w' sent (arrivals es @ rest) fw1"
  proof (cases e)
    case (Arrives b)
    then show ?thesis using exchange_arrives [of cfg request w out w' sent b "arrivals es @ rest" fw] Cons.prems assms(1)
      by (auto simp: one_line_def)
  next
    case (Turn r)
    then show ?thesis using exchange_turn [OF _ assms, of sent "arrivals es @ rest" fw r] Cons.prems by auto
  qed
  with Cons.IH show ?case by auto
qed simp

lemma exchange_empties:
  assumes "one_line request" and "replies_to cfg request w out w'"
  shows "exchange cfg request w out w' sent [] fw \<Longrightarrow> length (fw_extra fw) \<le> length rs \<Longrightarrow>
    \<exists>fw'. run_events (map Turn rs) fw = (Inr (), fw') \<and> exchange cfg request w out w' sent [] fw' \<and> fw_extra fw' = []"
proof (induction rs arbitrary: fw)
  case (Cons r rs)
  from exchange_turn [OF Cons.prems(1) assms, of r] obtain fw1 where
    "run_event (Turn r) fw = (Inr (), fw1)" "exchange cfg request w out w' sent [] fw1" "length (fw_extra fw1) = length (fw_extra fw) - 1" by auto
  with Cons.IH [of fw1] Cons.prems(2) show ?case by auto
qed simp

lemma exchange_sends:
  assumes "one_line request" and "replies_to cfg request w out w'"
  shows "exchange cfg request w out w' sent [] fw \<Longrightarrow> fw_extra fw = [] \<Longrightarrow> length (fw_out fw) \<le> count_list ts True \<Longrightarrow>
    \<exists>fw'. run_events (map Turn ts) fw = (Inr (), fw') \<and> exchange cfg request w out w' sent [] fw' \<and> fw_extra fw' = [] \<and> fw_out fw' = []"
proof (induction ts arbitrary: fw)
  case (Cons r ts)
  from exchange_turn [OF Cons.prems(1) assms, of r] Cons.prems(2) obtain fw1 where
    "run_event (Turn r) fw = (Inr (), fw1)" "exchange cfg request w out w' sent [] fw1" "fw_extra fw1 = []"
    "fw_out fw1 = (if r then drop 1 (fw_out fw) else fw_out fw)" by auto
  with Cons.IH [of fw1] Cons.prems(3) show ?case by (auto split: if_splits)
qed auto

lemma exchange_extra: "exchange cfg request w out w' sent rest fw \<Longrightarrow> length request \<le> 64 \<Longrightarrow> length (fw_extra fw) \<le> 64"
  by (erule exchange.cases) auto

lemma exchange_out: "exchange cfg request w out w' sent rest fw \<Longrightarrow> length (fw_out fw) \<le> 64"
proof (erule exchange.cases; clarsimp)
  fix fw' :: "'a firmware" assume "fw_wf fw'"
  then have "cb_wf (out_buf (dev_asc (ascd fw')))" "cb_cap (out_buf (dev_asc (ascd fw'))) = 64"
    by (simp_all add: fw_simps)
  from cb_wf_size [OF this(1)] this(2) show "length (fw_out fw') \<le> 64" by (simp add: fw_out_def)
qed

lemma one_exchange:
  assumes l: "one_line request" and r: "replies_to cfg request w out w'" and idle: "resting cfg w fw"
    and es: "arrivals es = request" and rs: "64 \<le> length rs" and ts: "64 \<le> count_list ts True"
  shows "\<exists>fw'. run_events (es @ map Turn (rs @ ts)) fw = (Inr (), fw') \<and> resting cfg w' fw'
    \<and> tx_sent (fw_uart fw') = tx_sent (fw_uart fw) @ out"
proof -
  have "exchange cfg request w out w' (tx_sent (fw_uart fw)) (arrivals es @ []) fw"
    using idle es l by (intro exchange.asking) (auto simp: resting_def one_line_def)
  from exchange_events [OF l r this] obtain fw1 where
    1: "run_events es fw = (Inr (), fw1)" "exchange cfg request w out w' (tx_sent (fw_uart fw)) [] fw1" by auto
  have "length (fw_extra fw1) \<le> length rs" using exchange_extra [OF 1(2)] l rs by (simp add: one_line_def)
  from exchange_empties [OF l r 1(2) this] obtain fw2 where
    2: "run_events (map Turn rs) fw1 = (Inr (), fw2)" "exchange cfg request w out w' (tx_sent (fw_uart fw)) [] fw2" "fw_extra fw2 = []" by auto
  have "length (fw_out fw2) \<le> count_list ts True" using exchange_out [OF 2(2)] ts by simp
  from exchange_sends [OF l r 2(2,3) this] obtain fw3 where
    3: "run_events (map Turn ts) fw2 = (Inr (), fw3)" "exchange cfg request w out w' (tx_sent (fw_uart fw)) [] fw3" "fw_extra fw3 = []" "fw_out fw3 = []" by auto
  from 3(2) have "resting cfg w' fw3 \<and> tx_sent (fw_uart fw3) = tx_sent (fw_uart fw) @ out"
    using 3(3,4) by cases (auto simp: resting_def)
  then show ?thesis using 1(1) 2(1) 3(1) by (simp add: for_each_append)
qed

section \<open>Replies of handlers\<close>

context device_handler
begin

lemma handler_replies:
  assumes "inv w" and pl: "plain ([v, ap, c] @ d)" and len: "length d \<le> 54" and route: "routed cfg c = Some handle"
    and resp: "\<And>m. length m = 54 \<Longrightarrow> respond c (of_nat (length d)) (mem_put 0 d m) w = (rp, w')" and ok: "reply_result rp = Inr ()"
  shows "replies_to cfg (frame v ap c d) w (reply_bytes v ap rp) w'" and "inv w'"
proof -
  show "inv w'" using responds_inv [OF assms(1), of "mem_put 0 d (replicate 54 0)" "of_nat (length d)" c] resp [of "replicate 54 0"] len
    by (simp add: unat_of_nat_64)
  show "replies_to cfg (frame v ap c d) w (reply_bytes v ap rp) w'" unfolding replies_to_def
  proof (intro allI impI)
    fix fw assume wf: "fw_wf fw" and c: "dev_config (ascd fw) = cfg" and i: "fw_in fw = frame v ap c d" and o: "fw_out fw = []" and m: "fw_mem fw = w"
    have w: "device_wf (ascd fw)" "cb_list (out_buf (dev_asc (ascd fw))) = []" "cb_list (in_buf (dev_asc (ascd fw))) = [] @ frame v ap c d @ []"
      using wf i o by (simp_all add: fw_wf_def fw_in_def fw_out_def)
    have r: "respond c (of_nat (length d)) (mem_put 0 d (msg_data (dev_msg (ascd fw)))) w = (rp, w')"
      by (rule resp) (use w in \<open>simp add: device_wf_def\<close>)
    have "routed (dev_config (ascd fw)) c = Some handle" using route c by simp
    from receive_replies [OF w(1,2) assms(1) pl len _ w(3) this r]
    obtain dev' where "ascii_serial_com_device_receive (ascd fw, w) = (reply_result rp, (dev', w'))"
      "cb_list (out_buf (dev_asc dev')) = reply_bytes v ap rp" "cb_list (in_buf (dev_asc dev')) = []" "device_wf dev'" "dev_config dev' = cfg"
      using c by auto
    then show "\<exists>fw'. on_device ascii_serial_com_device_receive fw = (Inr (), fw') \<and> fw_wf fw' \<and> dev_config (ascd fw') = cfg
       \<and> fw_in fw' = [] \<and> fw_out fw' = reply_bytes v ap rp \<and> fw_mem fw' = w' \<and> fw_extra fw' = fw_extra fw \<and> fw_uart fw' = fw_uart fw"
      using wf m ok by (auto simp: on_device_def zoom_def fw_simps)
  qed
qed

end

lemma unknown_replies:
  assumes pl: "plain ([v, ap, c] @ d)" and len: "length d \<le> 54" and route: "routed cfg c = None" and c: "c \<noteq> 0"
  shows "replies_to cfg (frame v ap c d) w
    (if c = chr_z then [] else frame v ap chr_e (error_data c d ASC_ERROR_COMMAND_NOT_IMPLEMENTED)) w"
  unfolding replies_to_def
proof (intro allI impI)
  fix fw assume wf: "fw_wf fw" and cfg: "dev_config (ascd fw) = cfg" and i: "fw_in fw = frame v ap c d" and o: "fw_out fw = []" and m: "fw_mem fw = w"
  have w: "device_wf (ascd fw)" "cb_list (out_buf (dev_asc (ascd fw))) = []" "cb_list (in_buf (dev_asc (ascd fw))) = [] @ frame v ap c d @ []"
    using wf i o by (simp_all add: fw_wf_def fw_in_def fw_out_def)
  have "routed (dev_config (ascd fw)) c = None" using route cfg by simp
  from receive_unhandled [OF w(1,2) pl len _ w(3) this c]
  obtain dev' where "ascii_serial_com_device_receive (ascd fw, w) = (Inr (), (dev', w))"
    "cb_list (out_buf (dev_asc dev')) = (if c = chr_z then [] else frame v ap chr_e (error_data c d ASC_ERROR_COMMAND_NOT_IMPLEMENTED))"
    "cb_list (in_buf (dev_asc dev')) = []" "device_wf dev'" "dev_config dev' = cfg"
    using cfg by auto
  then show "\<exists>fw'. on_device ascii_serial_com_device_receive fw = (Inr (), fw') \<and> fw_wf fw' \<and> dev_config (ascd fw') = cfg
     \<and> fw_in fw' = [] \<and> fw_out fw' = (if c = chr_z then [] else frame v ap chr_e (error_data c d ASC_ERROR_COMMAND_NOT_IMPLEMENTED))
     \<and> fw_mem fw' = w \<and> fw_extra fw' = fw_extra fw \<and> fw_uart fw' = fw_uart fw"
    using wf m by (auto simp: on_device_def zoom_def fw_simps)
qed

text \<open>The handler of the streaming commands has no reply.\<close>

definition nf_respond :: "byte \<Rightarrow> size_t \<Rightarrow> byte list \<Rightarrow> 'v rp_world \<Rightarrow> reply \<times> 'v rp_world" where
  "nf_respond c n d w = (No_Reply, (fst w, if c = chr_n then True else if c = chr_f then False else snd w))"

interpretation nf_handler: device_handler handle_nf_messages "\<lambda>w. rp_inv (fst w)" nf_respond
proof unfold_locales
  fix a :: ascii_serial_com and w :: "'v rp_world" and d :: "byte list" and n :: size_t and v ap c :: byte
  assume "asc_wf a" "cb_list (out_buf a) = []" "length d = 54"
  then show "\<exists>a' d'. handle_nf_messages v ap c n (a, d, w) = (reply_result (fst (nf_respond c n d w)), a', d', snd (nf_respond c n d w))
      \<and> out_content a (reply_bytes v ap (fst (nf_respond c n d w))) a' \<and> length d' = 54"
    using out_content_self [of a] by (auto simp: handle_nf_messages_def nf_respond_def asc_wf_def simp del: cb_list_Nil_iff)
qed (simp add: nf_respond_def)

section \<open>Damaged lines\<close>

text \<open>One byte, or two neighbouring ones, of a line were changed.\<close>

definition damages :: "byte list \<Rightarrow> byte list \<Rightarrow> bool" where
  "damages sent got \<longleftrightarrow> length got = length sent \<and> got \<noteq> sent \<and>
     (\<exists>k<length sent - 1. take k got = take k sent \<and> drop (k + 2) got = drop (k + 2) sent)"

lemma damages_two:
  assumes "damages sent got"
  obtains xs a b a' b' ys where "sent = xs @ [a, b] @ ys" and "got = xs @ [a', b'] @ ys" and "a \<noteq> a' \<or> b \<noteq> b'"
proof -
  obtain k where k: "k < length sent - 1" "take k got = take k sent" "drop (k + 2) got = drop (k + 2) sent"
    and l: "length got = length sent" "got \<noteq> sent" using assms by (auto simp: damages_def)
  have s: "xs = take k xs @ [xs ! k, xs ! (k + 1)] @ drop (k + 2) xs" if "length xs = length sent" for xs :: "byte list"
    using that k(1) by (simp add: Cons_nth_drop_Suc id_take_nth_drop)
  have "got = take k sent @ [got ! k, got ! (k + 1)] @ drop (k + 2) sent" using s [OF l(1)] k(2,3) by simp
  with s [of sent] that [of "take k sent" "sent ! k" "sent ! (k + 1)" "drop (k + 2) sent" "got ! k" "got ! (k + 1)"] l(2)
  show thesis by metis
qed

text \<open>The line without its newline, and what happens to one that arrives with parts of the same shape.\<close>

definition sent_text :: "byte \<Rightarrow> byte \<Rightarrow> byte \<Rightarrow> byte list \<Rightarrow> byte list" where
  "sent_text v ap c d = frame_body v ap c d @ checksum_chars (frame_body v ap c d)"

lemma damaged_one_line:
  assumes damage: "damages (sent_text v ap c d) (frame_body v' ap' c' d' @ chk')" and got: "plain ([v', ap', c'] @ d')" "plain chk'" "length chk' = 4"
    and data: "length d \<le> 54"
  shows "one_line (frame_body v' ap' c' d' @ chk' @ [chr_end])"
proof -
  let ?m = "[v', ap', c'] @ d' @ [chr_period] @ chk'"
  have f: "frame_body v' ap' c' d' @ chk' @ [chr_end] = chr_start # ?m @ [chr_end]" by (simp add: frame_body_def)
  have m: "chr_start \<notin> set ?m" "chr_end \<notin> set ?m" using got by (auto simp: plain_def)
  have "receive_frame p = (No_Message, p)" if "p @ q = chr_start # ?m @ [chr_end]" "q \<noteq> []" for p q
  proof (cases "p = []")
    case True
    then show ?thesis by (simp add: receive_frame_Nil)
  next
    case False
    from line_prefix [OF that(1) this that(2) m] obtain r where "p = chr_start # r" "chr_start \<notin> set r" "chr_end \<notin> set r" .
    then show ?thesis using receive_frame_open by simp
  qed
  moreover have "length d' = length d" using damage got(3) by (simp add: damages_def sent_text_def)
  ultimately show ?thesis unfolding f one_line_def using data got(3) by simp
qed

lemma damaged_dropped:
  assumes damage: "damages (sent_text v ap c d) (frame_body v' ap' c' d' @ chk')" and got: "plain ([v', ap', c'] @ d')" "plain chk'" "length chk' = 4"
    and data: "length d \<le> 54"
  shows "replies_to cfg (frame_body v' ap' c' d' @ chk' @ [chr_end]) w [] w"
  unfolding replies_to_def
proof (intro allI impI)
  fix fw assume wf: "fw_wf fw" and cfg: "dev_config (ascd fw) = cfg"
    and i: "fw_in fw = frame_body v' ap' c' d' @ chk' @ [chr_end]" and o: "fw_out fw = []" and m: "fw_mem fw = w"
  from damages_two [OF damage] obtain xs a b a' b' ys where
    two: "sent_text v ap c d = xs @ [a, b] @ ys" "frame_body v' ap' c' d' @ chk' = xs @ [a', b'] @ ys" "a \<noteq> a' \<or> b \<noteq> b'" .
  have "length d' \<le> 54" using damage got(3) data by (simp add: damages_def sent_text_def)
  from receive_damaged_line [OF two(1) [unfolded sent_text_def] two(2,3) got(1,2) this got(3), of "[]" "[]"]
  have "receive_frame (fw_in fw) = (Bad_Checksum, [])" using i by simp
  from on_device_receive_dropped [OF wf this]
  show "\<exists>fw'. on_device ascii_serial_com_device_receive fw = (Inr (), fw') \<and> fw_wf fw' \<and> dev_config (ascd fw') = cfg
     \<and> fw_in fw' = [] \<and> fw_out fw' = [] \<and> fw_mem fw' = w \<and> fw_extra fw' = fw_extra fw \<and> fw_uart fw' = fw_uart fw"
    using cfg o m by auto
qed

section \<open>The server\<close>

text \<open>
  A server has a list of registers, of which some read as zero and take no value, a mask for each, and streams or
  does not. Its replies are a command and data.
\<close>

datatype 'v request = Read_Register "16 word" | Write_Register "16 word" 'v | Streaming bool | Other byte "byte list"

record 'v server =
  srv_registers :: "'v option list"
  srv_masks :: "'v list"
  srv_streaming :: bool

text \<open>The command and the data of a request; the numbers are written with capitals or without.\<close>

fun request_message :: "(bool \<Rightarrow> 'v \<Rightarrow> byte list) \<Rightarrow> bool \<Rightarrow> 'v request \<Rightarrow> byte \<times> byte list" where
  "request_message digits caps (Read_Register reg) = (chr_r, hex_digits caps 4 reg)"
| "request_message digits caps (Write_Register reg val) = (chr_w, hex_digits caps 4 reg @ chr_comma # digits caps val)"
| "request_message digits caps (Streaming on) = (if on then chr_n else chr_f, [])"
| "request_message digits caps (Other c d) = (c, d)"

definition refuse :: "byte \<times> byte list \<Rightarrow> asc_exception \<Rightarrow> (byte \<times> byte list) option" where
  "refuse message e = Some (chr_e, error_data (fst message) (snd message) e)"

fun serve :: "(bool \<Rightarrow> 'v::len word \<Rightarrow> byte list) \<Rightarrow> bool \<Rightarrow> 'v word request \<Rightarrow> 'v word server \<Rightarrow> (byte \<times> byte list) option \<times> 'v word server" where
  "serve digits caps (Read_Register reg) s =
     (if unat reg < length (srv_registers s)
      then (Some (chr_r, hex_digits caps 4 reg @ chr_comma # digits True (case srv_registers s ! unat reg of None \<Rightarrow> 0 | Some v \<Rightarrow> v)), s)
      else (refuse (request_message digits caps (Read_Register reg)) ASC_ERROR_REGNUM_OOB, s))"
| "serve digits caps (Write_Register reg val) s =
     (if unat reg < length (srv_registers s)
      then (Some (chr_w, hex_digits caps 4 reg),
        s\<lparr>srv_registers := (srv_registers s)[unat reg := map_option (masked (srv_masks s ! unat reg) val) (srv_registers s ! unat reg)]\<rparr>)
      else (refuse (request_message digits caps (Write_Register reg val)) ASC_ERROR_REGNUM_OOB, s))"
| "serve digits caps (Streaming on) s = (None, s\<lparr>srv_streaming := on\<rparr>)"
| "serve digits caps (Other c d) s = (if c = chr_z then None else refuse (c, d) ASC_ERROR_COMMAND_NOT_IMPLEMENTED, s)"

fun valid_request :: "'v request \<Rightarrow> bool" where
  "valid_request (Other c d) \<longleftrightarrow> c \<notin> {0, chr_r, chr_w, chr_n, chr_f} \<and> plain (c # d) \<and> length d \<le> 54"
| "valid_request _ \<longleftrightarrow> True"

definition reply_line :: "byte \<Rightarrow> byte \<Rightarrow> (byte \<times> byte list) option \<Rightarrow> byte list" where
  "reply_line v ap r = (case r of None \<Rightarrow> [] | Some (c, d) \<Rightarrow> frame v ap c d)"

text \<open>The server that a firmware stands for: the registers are what the pointers point to.\<close>

definition server_of :: "'v rp_world \<Rightarrow> 'v server" where
  "server_of w = (case fst (fst w) of
     None \<Rightarrow> \<lparr>srv_registers = [], srv_masks = [], srv_streaming = snd w\<rparr>
   | Some rp \<Rightarrow> \<lparr>srv_registers = map (\<lambda>p. case p of None \<Rightarrow> None | Some a \<Rightarrow> snd (fst w) a) (take (unat (rp_n_regs rp)) (rp_pointers rp)),
        srv_masks = rp_write_masks rp, srv_streaming = snd w\<rparr>)"

text \<open>The memory of a firmware that was set up, with a different address for each register.\<close>

definition server_memory :: "'v rp_world \<Rightarrow> bool" where
  "server_memory w \<longleftrightarrow> rp_inv (fst w) \<and> (\<exists>rp. fst (fst w) = Some rp \<and>
     distinct (filter (\<lambda>p. p \<noteq> None) (take (unat (rp_n_regs rp)) (rp_pointers rp))))"

lemma distinct_pointers:
  "distinct (filter (\<lambda>p. p \<noteq> None) ps) \<Longrightarrow> i < length ps \<Longrightarrow> j < length ps \<Longrightarrow> ps ! i = Some a \<Longrightarrow> ps ! j = Some a \<Longrightarrow> i = j"
proof (induction ps arbitrary: i j)
  case (Cons p ps)
  then show ?case by (cases i; cases j) (auto dest: nth_mem split: if_splits)
qed simp

lemma server_registers:
  assumes "fst (fst w) = Some rp" and "rp_inv (fst w)"
  shows "length (srv_registers (server_of w)) = unat (rp_n_regs rp)"
    and "i < unat (rp_n_regs rp) \<Longrightarrow> srv_registers (server_of w) ! i = (case rp_pointers rp ! i of None \<Rightarrow> None | Some a \<Rightarrow> snd (fst w) a)"
  using assms by (simp_all add: server_of_def rp_inv_def)

lemma server_write:
  assumes rp: "fst (fst w) = Some rp" and m: "server_memory w" and i: "i < unat (rp_n_regs rp)" and a: "rp_pointers rp ! i = Some a"
  shows "server_of ((fst (fst w), (snd (fst w))(a \<mapsto> x)), snd w) = (server_of w)\<lparr>srv_registers := (srv_registers (server_of w))[i := Some x]\<rparr>"
proof -
  have inv: "rp_inv (fst w)" and d: "distinct (filter (\<lambda>p. p \<noteq> None) (take (unat (rp_n_regs rp)) (rp_pointers rp)))"
    using m rp by (auto simp: server_memory_def)
  have l: "unat (rp_n_regs rp) \<le> length (rp_pointers rp)" using inv rp by (simp add: rp_inv_def)
  have "map (\<lambda>p. case p of None \<Rightarrow> None | Some b \<Rightarrow> ((snd (fst w))(a \<mapsto> x)) b) (take (unat (rp_n_regs rp)) (rp_pointers rp))
    = (map (\<lambda>p. case p of None \<Rightarrow> None | Some b \<Rightarrow> snd (fst w) b) (take (unat (rp_n_regs rp)) (rp_pointers rp)))[i := Some x]"
  proof (rule nth_equalityI)
    fix j assume "j < length (map (\<lambda>p. case p of None \<Rightarrow> None | Some b \<Rightarrow> ((snd (fst w))(a \<mapsto> x)) b) (take (unat (rp_n_regs rp)) (rp_pointers rp)))"
    then have j: "j < unat (rp_n_regs rp)" using l by simp
    show "map (\<lambda>p. case p of None \<Rightarrow> None | Some b \<Rightarrow> ((snd (fst w))(a \<mapsto> x)) b) (take (unat (rp_n_regs rp)) (rp_pointers rp)) ! j
      = (map (\<lambda>p. case p of None \<Rightarrow> None | Some b \<Rightarrow> snd (fst w) b) (take (unat (rp_n_regs rp)) (rp_pointers rp)))[i := Some x] ! j"
      using distinct_pointers [OF d, of i j a] i j l a by (cases "rp_pointers rp ! j") (auto simp: nth_list_update)
  qed simp
  then show ?thesis using rp by (simp add: server_of_def)
qed

section \<open>Sessions\<close>

text \<open>
  An exchange of a session: the request and how its line is written; the version characters, command, data and checksum
  that arrive instead when the line is damaged; events of which the bytes are the line, in any interleaving with turns; turns
  after the last byte, of which the first empty the extra buffer, and in the rest the UART is ready often enough.
\<close>

record 'v host_exchange =
  x_version :: byte
  x_app :: byte
  x_caps :: bool
  x_request :: "'v request"
  x_damage :: "(byte \<times> byte \<times> byte \<times> byte list \<times> byte list) option"
  x_arriving :: "event list"
  x_feeding :: "bool list"
  x_sending :: "bool list"

definition run_exchange :: "'v host_exchange \<Rightarrow> 'w firmware \<Rightarrow> (unit, 'w firmware) res" where
  "run_exchange x = run_events (x_arriving x @ map Turn (x_feeding x @ x_sending x))"

abbreviation run_session :: "'v host_exchange list \<Rightarrow> 'w firmware \<Rightarrow> (unit, 'w firmware) res" where
  "run_session \<equiv> for_each run_exchange"

fun exchange_text :: "(bool \<Rightarrow> 'v \<Rightarrow> byte list) \<Rightarrow> 'v host_exchange \<Rightarrow> byte list" where
  "exchange_text digits x = (case request_message digits (x_caps x) (x_request x) of (c, d) \<Rightarrow> sent_text (x_version x) (x_app x) c d)"

fun arriving_line :: "(bool \<Rightarrow> 'v \<Rightarrow> byte list) \<Rightarrow> 'v host_exchange \<Rightarrow> byte list" where
  "arriving_line digits x = (case x_damage x of None \<Rightarrow> exchange_text digits x
     | Some (v', ap', c', d', chk') \<Rightarrow> frame_body v' ap' c' d' @ chk') @ [chr_end]"

definition small_damage :: "(bool \<Rightarrow> 'v \<Rightarrow> byte list) \<Rightarrow> 'v host_exchange \<Rightarrow> bool" where
  "small_damage digits x \<longleftrightarrow> (case x_damage x of None \<Rightarrow> True
     | Some (v', ap', c', d', chk') \<Rightarrow> plain ([v', ap', c'] @ d') \<and> plain chk' \<and> length chk' = 4
         \<and> damages (exchange_text digits x) (frame_body v' ap' c' d' @ chk'))"

definition host_waits :: "(bool \<Rightarrow> 'v \<Rightarrow> byte list) \<Rightarrow> 'v host_exchange \<Rightarrow> bool" where
  "host_waits digits x \<longleftrightarrow> plain [x_version x, x_app x] \<and> valid_request (x_request x) \<and> small_damage digits x
     \<and> arrivals (x_arriving x) = arriving_line digits x
     \<and> 64 \<le> length (x_feeding x) \<and> 64 \<le> count_list (x_sending x) True"

text \<open>What the server sends in an exchange, and in a session, and what becomes of it; a damaged request is not served.\<close>

definition serve_exchange :: "(bool \<Rightarrow> 'v::len word \<Rightarrow> byte list) \<Rightarrow> 'v word host_exchange \<Rightarrow> 'v word server \<Rightarrow> byte list \<times> 'v word server" where
  "serve_exchange digits x s =
     (if x_damage x = None then case serve digits (x_caps x) (x_request x) s of (r, s) \<Rightarrow> (reply_line (x_version x) (x_app x) r, s)
      else ([], s))"

fun serve_session :: "(bool \<Rightarrow> 'v::len word \<Rightarrow> byte list) \<Rightarrow> 'v word host_exchange list \<Rightarrow> 'v word server \<Rightarrow> byte list \<times> 'v word server" where
  "serve_session digits [] s = ([], s)"
| "serve_session digits (x # session) s =
     (case serve_exchange digits x s of (out, s) \<Rightarrow>
      case serve_session digits session s of (bs, s) \<Rightarrow> (out @ bs, s))"

locale register_server = register_codec put get digits width bytes
  for put :: "'a::len word \<Rightarrow> nat \<Rightarrow> bool \<Rightarrow> byte list \<Rightarrow> (unit, byte list) res"
    and get :: "byte list \<Rightarrow> nat \<Rightarrow> 'a word exc" and digits :: "bool \<Rightarrow> 'a word \<Rightarrow> byte list" and width :: nat and bytes :: size_t +
  assumes digits_plain: "plain (digits caps x)"
begin

lemma firmware_handler: "device_handler (handle_fst handler) (\<lambda>w. rp_inv (fst w)) (respond_fst (rp_respond get digits bytes))"
proof (rule device_handler.handle_fst_handler)
  show "device_handler handler rp_inv (rp_respond get digits bytes)"
    by unfold_locales (use handler_answers in \<open>auto simp: answered_def rp_respond_inv\<close>)
qed

lemma message_fits:
  assumes "plain [v, ap]" and "valid_request req" and "request_message digits caps req = (c, d)"
  shows "plain ([v, ap, c] @ d)" and "length d \<le> 54"
proof -
  have w: "width \<le> 8" using width_bytes bytes_le by simp
  have p: "plain ([v, ap] @ c # d)" if "plain (c # d)" using that assms(1) by (simp only: plain_append)
  have "plain (c # d) \<and> length d \<le> 54"
  proof (cases req)
    case (Write_Register reg val)
    then show ?thesis using assms(3) w digits_plain [of caps val] by (auto simp: plain_Cons plain_append)
  next
    case (Streaming on)
    then show ?thesis using assms(3) by (auto split: if_splits)
  qed (use assms(2,3) in \<open>auto simp: plain_Cons\<close>)
  then show "plain ([v, ap, c] @ d)" and "length d \<le> 54" using p by simp_all
qed

text \<open>What the handler computes for the two kinds of requests, in terms of the registers.\<close>

lemma respond_read:
  assumes "fst w = Some rp" and "length m = 54"
  shows "rp_respond get digits bytes chr_r (of_nat (length (hex_digits caps 4 reg))) (mem_put 0 (hex_digits caps 4 reg) m) w =
    (if reg < rp_n_regs rp then Reply chr_r (hex_digits caps 4 reg @ chr_comma # digits True (reg_value (snd w) (rp_pointers rp ! unat reg)))
     else Reply chr_e (error_data chr_r (hex_digits caps 4 reg) ASC_ERROR_REGNUM_OOB), w)"
proof -
  have h: "take 4 (mem_put 0 (hex_digits caps 4 reg) m) = hex_digits caps 4 reg"
    using take_mem_put_0 [of 4 "hex_digits caps 4 reg" m] by simp
  have r: "rp_n_regs rp \<le> reg \<longleftrightarrow> \<not> reg < rp_n_regs rp" by auto
  show ?thesis using assms(1) by (simp add: rp_respond_def Let_def h hex_word_16 r)
qed

lemma respond_write:
  fixes reg :: "16 word" and val :: "'a word" and caps :: bool
  assumes "fst w = Some rp" and "length m = 54"
  defines "d \<equiv> hex_digits caps 4 reg @ chr_comma # digits caps val"
  shows "rp_respond get digits bytes chr_w (of_nat (length d)) (mem_put 0 d m) w =
    (if reg < rp_n_regs rp then
       (Reply chr_w (hex_digits caps 4 reg), case rp_pointers rp ! unat reg of None \<Rightarrow> w
        | Some a \<Rightarrow> (fst w, (snd w)(a \<mapsto> masked (rp_write_masks rp ! unat reg) val (reg_value (snd w) (Some a)))))
     else (Reply chr_e (error_data chr_w d ASC_ERROR_REGNUM_OOB), w))"
proof -
  have l: "length d = 5 + width" by (simp add: d_def)
  have u: "unat (of_nat (length d) :: size_t) = 5 + width"
    unfolding l by (rule unat_of_nat_64) (use width_bytes bytes_le in simp)
  have n: "\<not> (of_nat (length d) :: size_t) < 4" "\<not> (of_nat (length d) :: size_t) < 5 + bytes"
    using u length_reply(2) width_bytes by (simp_all add: word_less_nat_alt)
  have g: "get (mem_put 0 d m) 5 = Inr val"
  proof (rule get_digits)
    show "5 + width \<le> length (mem_put 0 d m)" using assms(2) l width_bytes bytes_le by simp
    have "drop 5 d = digits caps val" by (simp add: d_def)
    then show "take width (drop 5 (mem_put 0 d m)) = digits caps val" using drop_mem_put_0 [of 5 width d m] l by simp
  qed
  have h: "hex_word (take 4 (mem_put 0 d m)) = Some reg" "take 4 (mem_put 0 d m) = hex_digits caps 4 reg"
    "take (unat (of_nat (length d) :: size_t)) (mem_put 0 d m) = d"
    using take_mem_put_0 [of 4 d m] take_mem_put_0 [of "length d" d m] u l by (simp_all add: d_def hex_word_16)
  have r: "rp_n_regs rp \<le> reg \<longleftrightarrow> \<not> reg < rp_n_regs rp" by auto
  show ?thesis using assms(1) n g h
    by (simp add: rp_respond_def Let_def r split: option.split)
qed

text \<open>Each valid request is answered as the server answers it.\<close>

lemma server_read:
  assumes rp: "fst (fst w) = Some rp" and m: "server_memory w" and p: "plain [v, ap]"
  shows "replies_to (rp_config handler) (frame v ap chr_r (hex_digits caps 4 reg)) w
    (reply_line v ap (fst (serve digits caps (Read_Register reg) (server_of w)))) w"
proof -
  let ?resp = "if reg < rp_n_regs rp
      then Reply chr_r (hex_digits caps 4 reg @ chr_comma # digits True (reg_value (snd (fst w)) (rp_pointers rp ! unat reg)))
      else Reply chr_e (error_data chr_r (hex_digits caps 4 reg) ASC_ERROR_REGNUM_OOB)"
  have inv: "rp_inv (fst w)" using m by (simp add: server_memory_def)
  have resp: "respond_fst (rp_respond get digits bytes) chr_r (of_nat (length (hex_digits caps 4 reg))) (mem_put 0 (hex_digits caps 4 reg) d) w
      = (?resp, w)" if "length d = 54" for d
    using respond_read [OF rp that, of caps reg] by (simp add: respond_fst_def)
  have "plain ([v, ap, chr_r] @ hex_digits caps 4 reg)" "length (hex_digits caps 4 reg) \<le> 54" "routed (rp_config handler) chr_r = Some (handle_fst handler)"
    "reply_result ?resp = Inr ()"
    using p by (simp_all add: routed_rp_config)
  from device_handler.handler_replies(1) [OF firmware_handler inv this(1-3) resp this(4)]
  have r: "replies_to (rp_config handler) (frame v ap chr_r (hex_digits caps 4 reg)) w (reply_bytes v ap ?resp) w" by simp
  have "reply_bytes v ap ?resp = reply_line v ap (fst (serve digits caps (Read_Register reg) (server_of w)))"
    using server_registers [OF rp inv] rp_inv_reg(3) [OF inv rp, of reg]
    by (auto simp: word_less_nat_alt reply_line_def refuse_def reg_value_def split: option.split)
  then show ?thesis using r by simp
qed

lemma server_writes:
  assumes rp: "fst (fst w) = Some rp" and m: "server_memory w" and p: "plain [v, ap]"
  shows "\<exists>w'. replies_to (rp_config handler) (frame v ap chr_w (hex_digits caps 4 reg @ chr_comma # digits caps val)) w
    (reply_line v ap (fst (serve digits caps (Write_Register reg val) (server_of w)))) w'
    \<and> server_memory w' \<and> server_of w' = snd (serve digits caps (Write_Register reg val) (server_of w))"
proof -
  let ?d = "hex_digits caps 4 reg @ chr_comma # digits caps val"
  define out where "out = (if reg < rp_n_regs rp then
       (Reply chr_w (hex_digits caps 4 reg), case rp_pointers rp ! unat reg of None \<Rightarrow> fst w
        | Some a \<Rightarrow> (fst (fst w), (snd (fst w))(a \<mapsto> masked (rp_write_masks rp ! unat reg) val (reg_value (snd (fst w)) (Some a)))))
     else (Reply chr_e (error_data chr_w ?d ASC_ERROR_REGNUM_OOB), fst w))"
  have inv: "rp_inv (fst w)" using m by (simp add: server_memory_def)
  have resp: "respond_fst (rp_respond get digits bytes) chr_w (of_nat (length ?d)) (mem_put 0 ?d d) w = (fst out, (snd out, snd w))"
    if "length d = 54" for d
    using respond_write [OF rp that, of caps reg val] by (simp add: respond_fst_def out_def split_beta)
  have "plain ([v, ap, chr_w] @ ?d)" "length ?d \<le> 54" "routed (rp_config handler) chr_w = Some (handle_fst handler)" "reply_result (fst out) = Inr ()"
    using message_fits [OF p, of "Write_Register reg val" caps chr_w ?d] by (simp_all add: routed_rp_config out_def)
  from device_handler.handler_replies [OF firmware_handler inv this(1-3) resp this(4)]
  have r: "replies_to (rp_config handler) (frame v ap chr_w ?d) w (reply_bytes v ap (fst out)) (snd out, snd w)" "rp_inv (snd out)" by simp_all
  have f: "fst (snd out) = Some rp" using rp by (simp add: out_def split: option.split)
  then have m': "server_memory (snd out, snd w)" using m r(2) rp by (simp add: server_memory_def)
  have "reply_bytes v ap (fst out) = reply_line v ap (fst (serve digits caps (Write_Register reg val) (server_of w)))"
    using server_registers(1) [OF rp inv] by (simp add: out_def word_less_nat_alt reply_line_def refuse_def)
  moreover have "server_of (snd out, snd w) = snd (serve digits caps (Write_Register reg val) (server_of w))"
  proof (cases "reg < rp_n_regs rp")
    case False
    then show ?thesis using server_registers(1) [OF rp inv] by (simp add: out_def word_less_nat_alt)
  next
    case True
    then have l: "unat reg < unat (rp_n_regs rp)" by (simp add: word_less_nat_alt)
    show ?thesis
    proof (cases "rp_pointers rp ! unat reg")
      case None
      then have "map_option f (srv_registers (server_of w) ! unat reg) = srv_registers (server_of w) ! unat reg" for f
        using server_registers(2) [OF rp inv l] by simp
      then show ?thesis using True l None server_registers(1) [OF rp inv] by (simp add: out_def)
    next
      case (Some a)
      obtain old where old: "snd (fst w) a = Some old" using rp_inv_reg(3) [OF inv rp True] Some by auto
      have "srv_masks (server_of w) = rp_write_masks rp" using rp by (simp add: server_of_def)
      then show ?thesis using server_write [OF rp m l Some] True l Some old server_registers [OF rp inv]
        by (simp add: out_def reg_value_def)
    qed
  qed
  ultimately show ?thesis using r m' by (intro exI [of _ "(snd out, snd w)"]) simp
qed

lemma server_streams:
  assumes m: "server_memory w" and p: "plain [v, ap]"
  shows "replies_to (rp_config handler) (frame v ap (if on then chr_n else chr_f) []) w [] (fst w, on)"
    and "server_memory (fst w, on)" and "server_of (fst w, on) = (server_of w)\<lparr>srv_streaming := on\<rparr>"
proof -
  let ?c = "if on then chr_n else chr_f"
  have inv: "rp_inv (fst w)" using m by (simp add: server_memory_def)
  have "plain ([v, ap, ?c] @ [])" "length ([] :: byte list) \<le> 54" "routed (rp_config handler) ?c = Some handle_nf_messages"
    "\<And>d. nf_respond ?c (of_nat (length ([] :: byte list))) (mem_put 0 [] d) w = (No_Reply, (fst w, on))" "reply_result No_Reply = Inr ()"
    using p by (simp_all add: routed_rp_config nf_respond_def)
  from nf_handler.handler_replies(1) [OF inv this]
  show "replies_to (rp_config handler) (frame v ap ?c []) w [] (fst w, on)" by simp
  show "server_memory (fst w, on)" using m by (simp add: server_memory_def)
  show "server_of (fst w, on) = (server_of w)\<lparr>srv_streaming := on\<rparr>" by (simp add: server_of_def split: option.split)
qed

lemma server_answers:
  assumes m: "server_memory w" and p: "plain [v, ap]" and q: "valid_request req" and d: "request_message digits caps req = (c, d)"
  shows "\<exists>w'. replies_to (rp_config handler) (frame v ap c d) w (reply_line v ap (fst (serve digits caps req (server_of w)))) w'
    \<and> server_memory w' \<and> server_of w' = snd (serve digits caps req (server_of w))"
proof -
  obtain rp where rp: "fst (fst w) = Some rp" using m by (auto simp: server_memory_def)
  show ?thesis
  proof (cases req)
    case (Read_Register reg)
    then show ?thesis using server_read [OF rp m p, of caps reg] m d by (intro exI [of _ w]) auto
  next
    case (Write_Register reg val)
    then show ?thesis using server_writes [OF rp m p, of caps reg val] d by auto
  next
    case (Streaming on)
    then show ?thesis using server_streams [OF m p, of on] d by (intro exI [of _ "(fst w, on)"]) (auto simp: reply_line_def)
  next
    case (Other c' d')
    then have c: "c = c'" "d = d'" "c \<notin> {0, chr_r, chr_w, chr_n, chr_f}" "plain ([v, ap, c] @ d)" "length d \<le> 54"
      using q d p by auto
    have "routed (rp_config handler) c = None" using c(3) by (simp add: routed_rp_config)
    from unknown_replies [OF c(4,5) this, of w] c(3)
    have "replies_to (rp_config handler) (frame v ap c d) w (reply_line v ap (fst (serve digits caps req (server_of w)))) w"
      unfolding Other using c(1,2) by (auto simp: reply_line_def refuse_def)
    then show ?thesis using m Other by (intro exI [of _ w]) simp
  qed
qed

lemma exchange_served:
  assumes m: "server_memory w" and x: "host_waits digits x" and idle: "resting (rp_config handler) w fw"
  shows "\<exists>fw' w'. run_exchange x fw = (Inr (), fw') \<and> resting (rp_config handler) w' fw' \<and> server_memory w'
    \<and> server_of w' = snd (serve_exchange digits x (server_of w))
    \<and> tx_sent (fw_uart fw') = tx_sent (fw_uart fw) @ fst (serve_exchange digits x (server_of w))"
proof -
  obtain c d where d: "request_message digits (x_caps x) (x_request x) = (c, d)" by fastforce
  have h: "plain [x_version x, x_app x]" "valid_request (x_request x)" "small_damage digits x"
    "arrivals (x_arriving x) = arriving_line digits x" "64 \<le> length (x_feeding x)" "64 \<le> count_list (x_sending x) True"
    using x by (simp_all add: host_waits_def)
  have s: "exchange_text digits x = sent_text (x_version x) (x_app x) c d" using d by simp
  have "\<exists>w'. one_line (arriving_line digits x)
    \<and> replies_to (rp_config handler) (arriving_line digits x) w (fst (serve_exchange digits x (server_of w))) w'
    \<and> server_memory w' \<and> server_of w' = snd (serve_exchange digits x (server_of w))"
  proof (cases "x_damage x")
    case None
    then have "arriving_line digits x = frame (x_version x) (x_app x) c d" using s by (simp add: sent_text_def frame_def Let_def)
    then show ?thesis
      using server_answers [OF m h(1,2) d] frame_one_line [OF message_fits [OF h(1,2) d]] None
      by (simp add: serve_exchange_def split_beta)
  next
    case (Some t)
    obtain v' ap' c' d' chk' where t: "t = (v', ap', c', d', chk')" by (cases t)
    have "damages (sent_text (x_version x) (x_app x) c d) (frame_body v' ap' c' d' @ chk')" "plain ([v', ap', c'] @ d')" "plain chk'" "length chk' = 4"
      using h(3) Some t s by (simp_all add: small_damage_def)
    note damaged = this message_fits(2) [OF h(1,2) d]
    have "arriving_line digits x = frame_body v' ap' c' d' @ chk' @ [chr_end]" using Some t by simp
    then show ?thesis
      using damaged_one_line [OF damaged] damaged_dropped [OF damaged] m Some
      by (intro exI [of _ w]) (simp add: serve_exchange_def)
  qed
  then obtain w' where w: "one_line (arriving_line digits x)"
    "replies_to (rp_config handler) (arriving_line digits x) w (fst (serve_exchange digits x (server_of w))) w'"
    "server_memory w'" "server_of w' = snd (serve_exchange digits x (server_of w))" by blast
  from one_exchange [OF w(1,2) idle h(4-6)] w(3,4) show ?thesis by (simp only: run_exchange_def) blast
qed

lemma session_served:
  assumes "server_memory w" and "resting (rp_config handler) w fw" and "list_all (host_waits digits) session"
  shows "\<exists>fw' w'. run_session session fw = (Inr (), fw') \<and> resting (rp_config handler) w' fw' \<and> server_memory w'
    \<and> server_of w' = snd (serve_session digits session (server_of w))
    \<and> tx_sent (fw_uart fw') = tx_sent (fw_uart fw) @ fst (serve_session digits session (server_of w))"
  using assms
proof (induction session arbitrary: w fw)
  case (Cons x session)
  from exchange_served [OF Cons.prems(1) _ Cons.prems(2), of x] Cons.prems(3) obtain fw1 w1 where
    1: "run_exchange x fw = (Inr (), fw1)" "resting (rp_config handler) w1 fw1" "server_memory w1"
      "server_of w1 = snd (serve_exchange digits x (server_of w))"
      "tx_sent (fw_uart fw1) = tx_sent (fw_uart fw) @ fst (serve_exchange digits x (server_of w))"
    by auto
  from Cons.IH [OF 1(3,2)] Cons.prems(3) obtain fw2 w2 where
    2: "run_session session fw1 = (Inr (), fw2)" "resting (rp_config handler) w2 fw2" "server_memory w2"
      "server_of w2 = snd (serve_session digits session (server_of w1))"
      "tx_sent (fw_uart fw2) = tx_sent (fw_uart fw1) @ fst (serve_session digits session (server_of w1))" by auto
  then show ?case
    by (intro exI [of _ fw2] exI [of _ w2]) (use 1(1,4,5) 2 in \<open>simp add: split_beta\<close>)
qed auto

text \<open>From the setup on.\<close>

lemma firmware_serves:
  assumes "length raw_buffer = 128" "length extra_raw = 64" "length (msg_data (dev_msg (ascd fw))) = 54"
    and mem: "fw_mem fw = ((Some rp, mem), streaming_is_on)"
    and n: "unat nRegs = length register_map" "length masks = length register_map"
    and mapped: "list_all (\<lambda>p. case p of None \<Rightarrow> True | Some a \<Rightarrow> mem a \<noteq> None) register_map"
    and d: "distinct (filter (\<lambda>p. p \<noteq> None) register_map)" and session: "list_all (host_waits digits) session"
  defines "server \<equiv> \<lparr>srv_registers = map (\<lambda>p. case p of None \<Rightarrow> None | Some a \<Rightarrow> mem a) register_map, srv_masks = masks,
      srv_streaming = streaming_is_on\<rparr>"
  shows "\<exists>fw1 fw2. SETUP_ASC_DEVICE_W_REGISTER_POINTERS handler raw_buffer extra_raw register_map masks nRegs fw = (Inr (), fw1)
    \<and> run_session session fw1 = (Inr (), fw2) \<and> fw_wf fw2
    \<and> tx_sent (fw_uart fw2) = tx_sent (fw_uart fw) @ fst (serve_session digits session server)
    \<and> server_of (fw_mem fw2) = snd (serve_session digits session server)"
proof -
  from setup_firmware [OF assms(1-3) mem] obtain fw1 where
    1: "SETUP_ASC_DEVICE_W_REGISTER_POINTERS handler raw_buffer extra_raw register_map masks nRegs fw = (Inr (), fw1)"
      "fw_wf fw1" "fw_in fw1 = []" "fw_out fw1 = []" "fw_extra fw1 = []" "dev_config (ascd fw1) = rp_config handler"
      "fw_mem fw1 = ((Some (ascii_serial_com_register_pointers_init rp register_map masks nRegs), mem), streaming_is_on)"
      "fw_uart fw1 = fw_uart fw" by blast
  have "resting (rp_config handler) (fw_mem fw1) fw1" using 1 by (simp add: resting_def)
  moreover have "server_memory (fw_mem fw1)" using 1(7) n mapped d
    by (simp add: server_memory_def rp_inv_def ascii_serial_com_register_pointers_init_def del: not_None_eq)
  moreover have "server_of (fw_mem fw1) = server" using 1(7) n
    by (simp add: server_of_def server_def ascii_serial_com_register_pointers_init_def)
  ultimately obtain fw2 w2 where "run_session session fw1 = (Inr (), fw2)" "resting (rp_config handler) w2 fw2"
    "server_of w2 = snd (serve_session digits session server)"
    "tx_sent (fw_uart fw2) = tx_sent (fw_uart fw1) @ fst (serve_session digits session server)"
    using session_served [OF _ _ session, of "fw_mem fw1" fw1] by auto
  then show ?thesis using 1(1,8) by (auto simp: resting_def)
qed

end

interpretation server_32: register_server convert_uint32_to_hex convert_hex_to_uint32 "\<lambda>caps. hex_digits caps 8" 8 4
  by unfold_locales simp

interpretation server_avr: register_server convert_uint8_to_hex convert_hex_to_uint8 "\<lambda>caps. hex_digits caps 2" 2 1
  by unfold_locales simp

end
