(* ===== verification/Examples.thy ===== *)
theory Examples
  imports "HOL-Library.Countable" Native_Devices Asc_Helpers Millisec_Timer Isr Patterns Avr_Adc Stm32_Pulser Neorv32 Cmock Printing Buffer_Calls Timer_Tests Register_Server
begin

text \<open>
  Concrete systems: registers, files and firmware on which the properties are applied.
\<close>

text \<open>Two registers: the first at address 16 with the mask \<open>0xFF\<close>, the second a null pointer.\<close>

abbreviation two_pointers :: "32 word ascii_serial_com_register_pointers" where
  "two_pointers \<equiv> \<lparr>rp_pointers = [Some 16, None], rp_write_masks = [0xFF, 0], rp_n_regs = 2\<rparr>"

abbreviation pointers_config :: "32 word reg_world ascii_serial_com_device_config" where
  "pointers_config \<equiv> \<lparr>func_rw = Some handle_message_32, func_s = None, func_nf = None\<rparr>"

text \<open>Files that always have three bytes to read, and take everything.\<close>

abbreviation abc_files :: "unit posix" where
  "abc_files \<equiv> \<lparr>posix_read = \<lambda>_ n f. (Some (take (unat n) [0x41, 0x42, 0x43]), f),
     posix_write = \<lambda>_ bs f. (Some (of_nat (length bs)), f), posix_poll = \<lambda>_ _ f. (2, (POLLIN, POLLOUT), f)\<rparr>"

text \<open>
  Files with one request to read, which then take output, at most five bytes at once; the state counts the polls and keeps
  what was written.
\<close>

abbreviation one_request :: "byte list \<Rightarrow> (nat \<times> byte list) posix" where
  "one_request req \<equiv> \<lparr>posix_read = \<lambda>_ _ f. (Some req, f),
     posix_write = \<lambda>_ bs f. (Some (of_nat (min 5 (length bs))), (fst f, snd f @ take 5 bs)),
     posix_poll = \<lambda>_ _ f. (1, if fst f = 0 then (POLLIN, 0) else (0, POLLOUT), (Suc (fst f), snd f))\<rparr>"

abbreviation std_io :: "'m buf_ptr \<Rightarrow> 'm buf_ptr \<Rightarrow> 'm circular_buffer_io_fd_poll" where
  "std_io i out \<equiv> \<lparr>io_in_buf = i, io_out_buf = out, io_fd_in = 0, io_fd_out = 1,
     io_fds = (\<lparr>pfd_fd = 0, events = POLLIN, revents = 0\<rparr>, \<lparr>pfd_fd = 1, events = POLLHUP, revents = 0\<rparr>)\<rparr>"

lemma one_request_takes:
  "posix_write (one_request req) fd bs f = (Some (of_nat (min 5 (length bs))), (fst f, snd f @ take 5 bs))"
  "unat (of_nat (min 5 (length bs)) :: size_t) = min 5 (length bs)" "take (min 5 (length bs)) bs = take 5 bs"
  by (simp, rule unat_of_nat_64) (simp_all add: min_def)

lemma output_ready_one_request: "output_ready (one_request req) fd snd (\<lambda>f. 0 < fst f)"
  by (auto simp: output_ready_def one_request_takes simp del: of_nat_min)

text \<open>An idle firmware with the two registers, and a request in its extra buffer.\<close>

definition idle_firmware :: "byte list \<Rightarrow> 32 word rp_world firmware" where
  "idle_firmware ins = \<lparr>fw_uart = \<lparr>rx_waiting = False, rx_data = 0, tx_ready = False, tx_sent = []\<rparr>,
     extraInputBuffer = cb_at 0 ins, ascd = dev_with (rp_config handle_message_32) [],
     fw_mem = ((Some \<lparr>rp_pointers = [Some 16, None], rp_write_masks = [0xFF, 0], rp_n_regs = 2\<rparr>, [16 \<mapsto> 0xABCD]), False)\<rparr>"

lemma idle_firmware:
  assumes "length ins \<le> 64"
  shows "fw_wf (idle_firmware ins)" "fw_in (idle_firmware ins) = []" "fw_out (idle_firmware ins) = []"
    "fw_extra (idle_firmware ins) = ins" "dev_config (ascd (idle_firmware ins)) = rp_config handle_message_32"
    "rp_inv (fst (fw_mem (idle_firmware ins)))"
    "fst (fst (fw_mem (idle_firmware ins))) = Some \<lparr>rp_pointers = [Some 16, None], rp_write_masks = [0xFF, 0], rp_n_regs = 2\<rparr>"
  using dev_with [of "[]" "rp_config handle_message_32"] cb_at_0 [OF assms]
  by (simp_all add: idle_firmware_def fw_wf_def fw_in_def fw_out_def fw_extra_def rp_inv_def)

lemma count_replicate: "count_list (replicate n True) True = n"
  by (induction n) simp_all

text \<open>
  A session of three exchanges: a write of a value that its mask cuts, with a turn of the loop after each byte; a write
  of which the command is damaged on the line; a read of the register, of which all bytes arrive before
  the next turn.
\<close>

lemma arrivals_interleaved: "arrivals (concat (map (\<lambda>b. [Arrives b, Turn False]) bs)) = bs"
  by (induction bs) simp_all

lemma arrivals_at_once: "arrivals (map Arrives bs) = bs"
  by (induction bs) simp_all

abbreviation written_data :: "32 word \<Rightarrow> byte list" where
  "written_data val \<equiv> hex_digits True 4 (0 :: 16 word) @ chr_comma # hex_digits True 8 val"

definition write_then_read :: "32 word host_exchange list" where
  "write_then_read =
     [\<lparr>x_version = chr_0, x_app = chr_0, x_caps = True, x_request = Write_Register 0 0x1234, x_damage = None,
        x_arriving = concat (map (\<lambda>b. [Arrives b, Turn False]) (frame chr_0 chr_0 chr_w (written_data 0x1234))),
        x_feeding = replicate 64 False, x_sending = replicate 64 True\<rparr>,
      \<lparr>x_version = chr_0, x_app = chr_0, x_caps = True, x_request = Write_Register 0 0x5678,
        x_damage = Some (chr_0, chr_0, chr_r, written_data 0x5678, checksum_chars (frame_body chr_0 chr_0 chr_w (written_data 0x5678))),
        x_arriving = map Arrives (frame_body chr_0 chr_0 chr_r (written_data 0x5678)
          @ checksum_chars (frame_body chr_0 chr_0 chr_w (written_data 0x5678)) @ [chr_end]),
        x_feeding = replicate 64 False, x_sending = replicate 64 True\<rparr>,
      \<lparr>x_version = chr_0, x_app = chr_0, x_caps = False, x_request = Read_Register 0, x_damage = None,
        x_arriving = map Arrives (frame chr_0 chr_0 chr_r (hex_digits False 4 (0 :: 16 word))),
        x_feeding = replicate 64 False, x_sending = replicate 64 True\<rparr>]"

lemma damaged_command: "damages (sent_text chr_0 chr_0 chr_w d) (frame_body chr_0 chr_0 chr_r d @ checksum_chars (frame_body chr_0 chr_0 chr_w d))"
  unfolding damages_def sent_text_def by (auto simp: frame_body_def intro!: exI [of _ 3])

lemma write_then_read: "list_all (host_waits (\<lambda>caps. hex_digits caps 8)) write_then_read"
  using damaged_command [of "written_data 0x5678"]
  by (simp add: write_then_read_def host_waits_def small_damage_def sent_text_def frame_def Let_def arrivals_interleaved
    arrivals_at_once count_replicate plain_Cons plain_append)

definition idle_system :: "32 word rp_world system" where
  "idle_system = \<lparr>sys_fw = idle_firmware [], sys_pc = At_Tx, received = [], handed = [], overrun = False\<rparr>"

section \<open>Boards\<close>

text \<open>The registers and bits of the ATmega328P.\<close>

primrec uno_reg_addr :: "avr_reg \<Rightarrow> nat" where
  "uno_reg_addr DDRB = 0x24"
| "uno_reg_addr PORTB = 0x25"
| "uno_reg_addr PORTC = 0x28"
| "uno_reg_addr PORTD = 0x2B"
| "uno_reg_addr TCCR0A = 0x44"
| "uno_reg_addr TCCR0B = 0x45"
| "uno_reg_addr OCR0A = 0x47"
| "uno_reg_addr TIMSK0 = 0x6E"
| "uno_reg_addr ADCSRA = 0x7A"
| "uno_reg_addr ADMUX = 0x7C"
| "uno_reg_addr UCSR0A = 0xC0"
| "uno_reg_addr UCSR0B = 0xC1"
| "uno_reg_addr UCSR0C = 0xC2"
| "uno_reg_addr UBRR0L = 0xC4"
| "uno_reg_addr UBRR0H = 0xC5"

primrec uno_bit_no :: "avr_bit \<Rightarrow> nat" where
  "uno_bit_no UCSZ00 = 1"
| "uno_bit_no RXEN0 = 4"
| "uno_bit_no TXEN0 = 3"
| "uno_bit_no RXCIE0 = 7"
| "uno_bit_no UDRIE0 = 5"
| "uno_bit_no WGM01 = 1"
| "uno_bit_no OCIE0A = 1"
| "uno_bit_no ADEN = 7"
| "uno_bit_no ADSC = 6"

definition uno :: avr_io where
  "uno = \<lparr>reg_addr = uno_reg_addr, bit_no = uno_bit_no\<rparr>"

lemma uno_inj: "inj (reg_addr uno)"
proof (rule injI)
  fix r r' assume "reg_addr uno r = reg_addr uno r'"
  then show "r = r'" by (cases r; cases r') (simp_all add: uno_def)
qed

text \<open>The register block of the AVR program, idle, with a request in its extra buffer.\<close>

definition idle_block :: "byte list \<Rightarrow> block_world firmware" where
  "idle_block ins = \<lparr>fw_uart = \<lparr>rx_waiting = False, rx_data = 0, tx_ready = False, tx_sent = []\<rparr>,
     extraInputBuffer = cb_at 0 ins, ascd = dev_with block_config [], fw_mem = (Some (block_of [7, 8]), Map.empty)\<rparr>"

lemma idle_block:
  assumes "length ins \<le> 64"
  shows "fw_wf (idle_block ins)" "fw_in (idle_block ins) = []" "fw_out (idle_block ins) = []"
    "fw_extra (idle_block ins) = ins" "dev_config (ascd (idle_block ins)) = block_config"
    "fw_mem (idle_block ins) = (Some (block_of [7, 8]), Map.empty)"
  using dev_with [of "[]" block_config] cb_at_0 [OF assms]
  by (simp_all add: idle_block_def fw_wf_def fw_in_def fw_out_def fw_extra_def)

text \<open>An ARM board on which every register and variable has an address of its own, with a library without effects on memory.\<close>

lemma stm_const_cases: "c \<in> {
    GPIOA, USART2, TIM1, TIM2, TIM6, ADC, DAC1, SYSTICK, RCC_GPIOA, RCC_USART2, RCC_TIM1, RCC_TIM2, RCC_TIM6,
    RCC_ADC, RCC_DAC, GPIO0, GPIO2, GPIO3, GPIO4, GPIO5, GPIO8, GPIO_AF1, GPIO_AF2, GPIO_MODE_AF,
    GPIO_MODE_OUTPUT, GPIO_MODE_ANALOG, GPIO_PUPD_NONE, GPIO_OTYPE_PP, GPIO_OSPEED_HIGH, USART_PARITY_NONE,
    USART_CR2_STOPBITS_1, USART_MODE_TX_RX, USART_FLOWCONTROL_NONE, NVIC_USART2_IRQ, TIM_CR1_CKD_CK_INT,
    TIM_CR1_CMS_EDGE, TIM_CR1_DIR_UP, TIM_OC1, TIM_OCM_PWM1, TIM_IC1, TIM_IC2, TIM_IC_IN_TI1, TIM_IC_RISING,
    TIM_IC_FALLING, TIM_SMCR_TS_TI1FP1, TIM_SMCR_SMS_RM, TIM_SR_CC1IF, TIM_SR_CC1OF, TIM_SR_CC2OF,
    TIM_CR2_MMS_UPDATE, TIM_CR1_ARPE, TIM_CR1_CEN, ADC_CLKSOURCE_ADC, ADC_MODE_SCAN, ADC_SMPTIME_071DOT5,
    ADC_RESOLUTION_12BIT, ADC_ISR_EOSEQ, ADC_ISR_EOC, DAC_CHANNEL1, DAC_CR_TSEL1_T6, STK_CSR_CLKSOURCE_LSB}"
  by (cases c) (simp_all only: insert_iff simp_thms)

instance stm_const :: finite
  by standard (rule finite_subset [OF subsetI [OF stm_const_cases]], simp)

instance stm_reg :: countable
  by countable_datatype

definition nucleo :: stm_board where
  "nucleo = \<lparr>stm_addr = to_nat, stm_value = \<lambda>c. 2, stm_library = \<lambda>f as m. m\<rparr>"

lemma nucleo: "inj (stm_addr nucleo)" "keeps_variables nucleo"
  by (simp_all add: nucleo_def keeps_variables_def)

text \<open>The ADC program, idle, with values for its variables.\<close>

definition idle_adc :: "bool \<Rightarrow> (stm_reg \<Rightarrow> 32 word) \<Rightarrow> stm_adc" where
  "idle_adc on var = \<lparr>sa_io = ((idle_firmware [])\<lparr>fw_mem := ((Some two_pointers, \<lambda>a. Some (var (from_nat a))), on)\<rparr>, []),
     sa_adc_timer = \<lparr>enabled = True, set_time = 0, expire_time = 100\<rparr>,
     sa_dac_reset_timer = \<lparr>enabled = False, set_time = 0, expire_time = 0\<rparr>, sa_counter = 0\<rparr>"

lemma idle_adc:
  "sa_idle (idle_adc on var)" "sa_streaming (idle_adc on var) = on" "get_var nucleo r (sa_io (idle_adc on var)) = var r"
  "fw_out (fst (sa_io (idle_adc on var))) = []"
  "sa_dac_reset_timer (idle_adc on var) = \<lparr>enabled = False, set_time = 0, expire_time = 0\<rparr>"
  using idle_firmware [of "[]"]
  by (simp_all add: idle_adc_def sa_idle_def get_var_def stm_var_def nucleo_def fw_simps)

abbreviation no_input :: adc_input where
  "no_input \<equiv> \<lparr>adc_eos = False, adc_get_overrun_flag = False, adc_read_regular = 0\<rparr>"

abbreviation counting_adc :: "stm_adc \<times> 16 word" where
  "counting_adc \<equiv> (idle_adc True (\<lambda>r. if r = optionFlags then 1 else 0), 0)"

abbreviation overrun_sample :: adc_input where
  "overrun_sample \<equiv> \<lparr>adc_eos = True, adc_get_overrun_flag = True, adc_read_regular = 0x123\<rparr>"

abbreviation sampling_adc :: stm_adc where
  "sampling_adc \<equiv> idle_adc True (\<lambda>r. if r = MILLISEC_TIMER_NOW_var then 150 else 0)"

text \<open>The loopback of the boards with some input.\<close>

definition loopback_with :: "byte list \<Rightarrow> asc_loopback" where
  "loopback_with ins = \<lparr>al_uart = \<lparr>rx_waiting = False, rx_data = 0, tx_ready = True, tx_sent = []\<rparr>, al_extra = cb_at 0 [],
     al_asc = (asc_with ins [])\<lparr>ignoreCRCMismatch := True\<rparr>, al_msg = empty_message\<rparr>"

lemma loopback_with:
  assumes "length ins \<le> 64"
  shows "al_wf (loopback_with ins)" "cb_list (in_buf (al_asc (loopback_with ins))) = ins" "cb_list (out_buf (al_asc (loopback_with ins))) = []"
    "cb_list (al_extra (loopback_with ins)) = []"
  using asc_with [OF assms, of "[]"] cb_at_0 [of "[]"]
  by (simp_all add: loopback_with_def al_wf_def asc_wf_def empty_message_def)

text \<open>The memory of the mocks after two allocations of 8 bytes.\<close>

definition two_blocks :: cmock where
  "two_blocks = snd (CMock_Guts_MemNew 8 (snd (CMock_Guts_MemNew 8 cmock_initial)))"

lemma two_blocks: "cmock_wf two_blocks" "block_chain two_blocks 16 [16]" "block_chain two_blocks 32 [32]"
proof -
  have r: "room (unat (8 :: 64 word)) = 16" by (simp add: room_def)
  have f: "unat (CMock_Guts_FreePtr cmock_initial) = 8" by (simp add: cmock_initial_def)
  from mem_new [OF initial_wf, of 8] r f obtain i g where 1: "CMock_Guts_MemNew 8 cmock_initial = (Inr i, g)" "cmock_wf g" "unat i = 16"
    "unat (CMock_Guts_FreePtr g) = 24" "block_chain g i [i]" by auto
  from mem_new [OF 1(2), of 8] r 1(4) obtain j g' where 2: "CMock_Guts_MemNew 8 g = (Inr j, g')" "cmock_wf g'" "unat j = 32"
    "block_chain g' j [j]" "\<forall>j xs. block_chain g j xs \<longrightarrow> block_chain g' j xs" by auto
  have "i = 16" "j = 32" using 1(3) 2(3) by (simp_all add: word_unat_eq_iff)
  then show "cmock_wf two_blocks" "block_chain two_blocks 16 [16]" "block_chain two_blocks 32 [32]"
    using 1 2 by (simp_all add: two_blocks_def del: block_chain.simps)
qed

end
