(* ===== verification/Spec2Isabelle.thy ===== *)
theory Spec2Isabelle
  imports Examples
begin

text \<open>
  ASCII Serial Com is a small protocol for microcontrollers: a host and a device exchange lines of
  printable characters over a serial port. A frame is \<^verbatim>\<open>>\<close>, two version characters, a command character, at
  most 54 bytes of data, a period, the CRC-16-DNP of everything so far as four hexadecimal digits, and a
  newline. This library models the C code under \<^verbatim>\<open>src/\<close> and proves what it does.

  \<^bold>\<open>The program.\<close> Bytes arrive from a UART or a file in a circular buffer (\<^verbatim>\<open>circular_buffer.c\<close>).
  \<^verbatim>\<open>ascii_serial_com.c\<close> finds frames in an input buffer of 64 bytes, checks their CRC (one of four
  implementations in \<^verbatim>\<open>crc_16_dnp_*\<close>) and unpacks them, and packs messages into an output buffer.
  \<^verbatim>\<open>ascii_serial_com_device.c\<close> dispatches messages to handlers by their command; the register block and
  the register pointers are handlers for \<^verbatim>\<open>r\<close> and \<^verbatim>\<open>w\<close>. \<^verbatim>\<open>asc_helpers.h\<close> wraps all of this
  into macros for a firmware with a receive interrupt and a polling loop. The programs under \<^verbatim>\<open>native/\<close> use
  files instead, through \<^verbatim>\<open>circular_buffer_io_fd_poll.c\<close>; those under \<^verbatim>\<open>avr/\<close>,
  \<^verbatim>\<open>arm/\<close> and \<^verbatim>\<open>riscv/\<close> are firmware for boards. Errors are thrown with CException.

  \<^bold>\<open>Conventions.\<close> A byte is an \<open>8 word\<close>, \<^verbatim>\<open>size_t\<close> is a \<open>64 word\<close>; arithmetic wraps where the
  code's does. A function that can throw returns a pair of a sum and the state it reached: \<open>Inl (Throw e)\<close> keeps
  what was done before the throw, \<open>Inl UB\<close> stands for an access outside an array, \<open>Inr v\<close> is a
  normal return. A function that gets a pointer to a member works on that member through a \<open>zoom\<close>. A state
  that handlers reach through void pointers is a type variable.

  \<^bold>\<open>Theories.\<close>
  \<^item> \<open>Asc_Prelude\<close>: faults, exceptions, sums with state, arrays with offsets, lemmas about them.
  \<^item> \<open>CException\<close>: frames and jumps of \<^verbatim>\<open>externals/CException.c\<close>, and that the sums implement them.
  \<^item> \<open>Ring\<close>, \<open>Byte_Queue\<close>: arithmetic of a ring, and the interface of a bounded queue as a locale.
  \<^item> \<open>Circular_Buffer\<close>: the operations of \<^verbatim>\<open>circular_buffer.c\<close>; \<open>Circular_Buffer_Spec\<close>: the list
    \<open>cb_list\<close> that a buffer stands for, the invariant \<open>cb_wf\<close>, and that every operation implements
    its operation on lists. \<open>Circular_Buffer_Io\<close>: the operations on file descriptors and the polled pair of
    descriptors.
  \<^item> \<open>Frame_Sync\<close>: what the scan for unfinished frames computes, as a function on lists.
  \<^item> \<open>Hex\<close>, \<open>Crc\<close>: the conversions, the four CRCs and the shift register all four agree with.
  \<^item> \<open>Ascii_Serial_Com\<close>: packing and unpacking; \<open>Ascii_Serial_Com_Spec\<close>: frames as lists of
    bytes, \<open>receive_frame\<close> as the specification of unpacking, and the refinement; what becomes of damaged lines, of data with
    framing characters, of lines that block the input, and of messages for which there is no room.
  \<^item> \<open>Device\<close>: the device; the locale \<open>device_handler\<close> says what a handler promises and gives what the
    device then answers. \<open>Register_Block\<close> and \<open>Register_Pointers\<close>: the two handlers, each an
    interpretation of it.
  \<^item> \<open>Millisec_Timer\<close>: the timer.
  \<^item> \<open>Asc_Helpers\<close>: the macros over a record of the firmware's variables, and runs of the polling loop;
    \<open>Isr\<close>: the interrupt and the loop as a step relation with an invariant.
  \<^item> \<open>Register_Server\<close>: what a firmware with register pointers does over a session of requests: the events of
    interrupt and loop, an exchange as a relation with two phases that every event keeps, damaged lines, the valid requests, the server
    that the firmware implements, and the locale \<open>register_server\<close>, interpreted for registers of 32 and of 8 bits.
  \<^item> \<open>Buffer_Calls\<close>: the calls on a circular buffer as values, and what any sequence of them keeps.
  \<^item> \<open>Native_Devices\<close>: the programs under \<^verbatim>\<open>native/\<close>, one turn of each loop, and \<open>n\<close> iterations of one
    (\<open>loop_turns\<close>); \<open>profiler_body\<close> is what the profiler does inside of its \<^verbatim>\<open>Try\<close>, so that a theorem can say that nothing is
    caught.
  \<^item> \<open>Avr\<close>: the I/O registers of an AVR, \<^verbatim>\<open>avr_uart.h\<close>, \<^verbatim>\<open>avr_timers.h\<close>, interrupts of timers;
    \<open>Avr_Devices\<close>: the programs with the register block, with register pointers to ports, and the test device, each
    with its start and one turn of its loop; the locale \<open>device_handler\<close> is used again for their answers. \<open>Avr_Adc\<close>:
    the ADC program.
  \<^item> \<open>Streaming\<close>: the locales \<open>streamer\<close> and \<open>eager_streamer\<close>, which say of one turn what a program
    that streams does, and give the bytes on the wire after any number of turns; interpreted by the test device,
    the pattern program and the ADC programs.
  \<^item> \<open>Ignore_Crc\<close>: reception with the check of checksums off. \<open>Loopbacks\<close>: the loopbacks of characters,
    buffers and messages on all boards. \<open>Patterns\<close>: the programs that write a pattern or blink.
  \<^item> \<open>Stm32\<close>: the calls to libopencm3 that the macros and starts of the ARM programs make, as a list, and when
    such a list uses peripherals with their clock on; \<open>Stm32_Adc\<close>, \<open>Stm32_Pulser\<close>: the two large ARM programs.
  \<^item> \<open>Neorv32\<close>: the starts and tables of the programs of the RISC-V board; the loops of the loopback and of the blinking
    LED are in \<open>Loopbacks\<close> and \<open>Patterns\<close>.
  \<^item> \<open>Printing\<close>: the functions that print a buffer and the polled files. \<open>Cmock\<close>: the memory from which
    the mocks of the unit tests are taken, \<^verbatim>\<open>externals/cmock.c\<close>.
  \<^item> \<open>Unity_Print\<close>: the state of Unity, the framework of the unit tests (\<^verbatim>\<open>externals/unity.c\<close>), and what its
    printing functions write. \<open>Unity_Assert\<close>: its assertions; the locale \<open>assertion\<close> says what a test relies on, with
    an interpretation for each. \<open>Unity_Macros\<close>: the macros of \<^verbatim>\<open>externals/unity.h\<close>, one definition for the macros of all
    types, and on which numbers they assert. \<open>Unity_Run\<close>: one test, suites, and the verdict. \<open>Timer_Tests\<close>: the program of
    \<^verbatim>\<open>unit_test/test_millisec_timer.c\<close> and that it passes.
  \<^item> \<open>Examples\<close>: concrete states, files and boards, used by the witnesses.

  \<^bold>\<open>Parameters.\<close> \<^verbatim>\<open>poll\<close>, \<^verbatim>\<open>read\<close> and \<^verbatim>\<open>write\<close> are a record of functions on an unknown
  state of the system; a theorem names what it assumes of the calls it makes. \<^verbatim>\<open>fopen\<close> gives descriptors or
  fails. The hardware of a UART is the part of its registers that the macros read and write. Of an AVR the addresses of
  the registers and the numbers of their bits are parameters (\<open>avr_io\<close>), of an ARM board the addresses of registers and
  variables, the values of constants and what the functions of libopencm3 do to memory (\<open>stm_board\<close>); where a
  theorem needs that they leave the variables of a program alone it says so (\<open>keeps_variables\<close>), and that different
  registers have different addresses. What the hardware answers in a turn (a flag, a sample, a received byte) is
  an argument of the turn. The text that \<^verbatim>\<open>printf\<close> makes of a pointer is a parameter.

  \<^bold>\<open>Loops.\<close> Every loop of the library is a recursion on a list of indices or on the remaining count, and those of Unity over
  the divisor of a number and over two strings have a measure, so all functions are total; the two walks over the chains of \<open>Cmock\<close>, which need not end, give an option, and
  the theorems on chains show that it is a value. The endless loops of the programs are given as one turn; runs
  are folds over lists of what arrives, of any length, or a number of turns. No property needs fuel: where a number of turns is given it is a bound
  that is proved to be enough (64 turns for the 64 bytes of a buffer, 15 for a request and an acknowledgement of 14 bytes).

  \<^bold>\<open>Framing.\<close> The start character, the period and the newline structure a line. The code does not check that header and data are free
  of them, and most properties of messages are about those that are (\<open>plain\<close>); what the others lead to is stated by properties of their own.
  Most are with checksums on, as after initialisation; \<open>Ignore_Crc\<close> is about the other case.

  \<^bold>\<open>Not modelled.\<close> The loops of the two RISC-V programs with a device, \<^verbatim>\<open>neorv32_asc_gpio.c\<close> and
  \<^verbatim>\<open>neorv32_asc_pulse_counter.c\<close>, whose macros cannot be expanded (they pass an undefined name, and \<^verbatim>\<open>asc_helpers.h\<close>, which
  they do not include, pastes no token for this processor). Delays, busy waiting and the instructions that enable interrupts; the text that the native programs
  print; the dynamic variant of the mocks' memory, which nothing selects; of Unity the assertions on floating-point numbers
  and on arrays of strings, and the parts that only other configurations compile (\<^verbatim>\<open>UnityPrintF\<close>,
  options of the command line, other formats of the output); of the unit tests all but those of the timer.
\<close>

section \<open>The firmware as a server\<close>

text \<open>C1 Over a whole session of valid requests the firmware with register pointers implements the server \<open>serve\<close>, a list of
  registers with masks and a switch for streaming. Valid requests are reads and writes of any register number, in range or not,
  with numbers in the code's hexadecimal digits, the two streaming commands, and other commands with at most 54 data bytes none of
  which is a framing character; requests with other digits or short data, for which the handlers can throw, are not among them. The
  register pointers are null or have pairwise different addresses in memory. The bytes of a request arrive by interrupts in any
  interleaving with turns of the loop; then the host waits for 64 turns, which feed the rest of it, and for 64 turns with a ready
  UART, which send its reply. Then nothing is thrown, the bytes on the wire are the replies of the server, in order, and its registers
  are in the memory that the pointers point to. A request of which one byte or two neighbouring ones change on the line, in
  the version characters, the command, the data or the checksum and not into or out of a framing character, is dropped,
  without an effect on those after it.\<close>

theorem firmware_implements_server:
  assumes "length raw_buffer = 128" and "length extra_raw = 64" and "length (msg_data (dev_msg (ascd fw))) = 54"
    and "fw_mem fw = ((Some rp, mem), streaming)" and "unat nRegs = length registers" and "length masks = length registers"
    and "list_all (\<lambda>p. case p of None \<Rightarrow> True | Some a \<Rightarrow> mem a \<noteq> None) registers"
    and "distinct (filter (\<lambda>p. p \<noteq> None) registers)"
    and "list_all (host_waits (\<lambda>caps. hex_digits caps 8)) session"
    and "serve_session (\<lambda>caps. hex_digits caps 8) session
        \<lparr>srv_registers = map (\<lambda>p. case p of None \<Rightarrow> None | Some a \<Rightarrow> mem a) registers, srv_masks = masks,
          srv_streaming = streaming\<rparr> = (replies, server')"
  shows "\<exists>fw1 fw2. SETUP_ASC_DEVICE_W_REGISTER_POINTERS handle_message_32 raw_buffer extra_raw registers masks nRegs fw = (Inr (), fw1)
    \<and> run_session session fw1 = (Inr (), fw2) \<and> fw_wf fw2
    \<and> tx_sent (fw_uart fw2) = tx_sent (fw_uart fw) @ replies \<and> server_of (fw_mem fw2) = server'"
  unfolding handle_message_32_def
  using server_32.firmware_serves [OF assms(1-9)] assms(10) by simp

lemma firmware_implements_server_witness:
  "\<exists>fw1 fw2. SETUP_ASC_DEVICE_W_REGISTER_POINTERS handle_message_32 (replicate 128 0) (replicate 64 0) [Some 16, None] [0xFF, 0] 2
      (idle_firmware []) = (Inr (), fw1)
    \<and> run_session write_then_read fw1 = (Inr (), fw2) \<and> fw_wf fw2
    \<and> tx_sent (fw_uart fw2) = tx_sent (fw_uart (idle_firmware [])) @
        frame chr_0 chr_0 chr_w (hex_digits True 4 (0 :: 16 word)) @
        frame chr_0 chr_0 chr_r (hex_digits False 4 (0 :: 16 word) @ chr_comma # hex_digits True 8 (0xAB34 :: 32 word))
    \<and> server_of (fw_mem fw2) = \<lparr>srv_registers = [Some 0xAB34, None], srv_masks = [0xFF, 0], srv_streaming = False\<rparr>"
  by (rule firmware_implements_server [where mem = "[16 \<mapsto> 0xABCD]" and streaming = False])
    (use write_then_read in \<open>simp_all add: idle_firmware_def dev_with_def write_then_read_def serve_exchange_def reply_line_def masked_def\<close>)

section \<open>Messages and frames\<close>

text \<open>C2 Round trip over the line, with checksums on: a message that \<^verbatim>\<open>put_message\<close> packs into an empty
  output buffer is the message that \<^verbatim>\<open>get_message\<close> unpacks on the other side, also
  behind the remains of a frame that was cut off, and the bytes after it stay in the buffer. This is for messages of which neither the
  header nor the data contain one of the framing characters start, period and newline, which \<^verbatim>\<open>put_message\<close>
  does not check; the next two properties are what happens to data with a period and with a start character.\<close>

theorem message_round_trip:
  assumes "asc_wf a" and "cb_list (out_buf a) = []" and "asc_wf b" and "\<not> ignoreCRCMismatch b"
    and "plain ([v, ap, c] @ take (unat dataLen) data)" and "unat dataLen \<le> 54" and "unat dataLen \<le> length data"
    and "length (msg_data m) = 54" and "chr_end \<notin> set noise"
    and "cb_list (in_buf b) = noise @
      cb_list (out_buf (snd (ascii_serial_com_put_message_in_output_buffer a v ap c data dataLen))) @ rest"
  shows "\<exists>b'. ascii_serial_com_get_message_from_input_buffer (b, m) =
      (Inr (), b', stored_message v ap c (take (unat dataLen) data) m) \<and> cb_list (in_buf b') = rest"
proof -
  let ?d = "take (unat dataLen) data"
  have "tx_yields (ascii_serial_com_put_message_in_output_buffer a v ap c data dataLen) (Inr ()) a
      (cb_list (out_buf a) @ frame v ap c ?d)"
    by (rule put_message_fits [OF out_content_self])
      (use assms(1,2,5-7) cb_wfD(4) [of "out_buf a"] in \<open>auto simp: asc_wf_def plain_def cb_cap_def\<close>)
  then have "cb_list (in_buf b) = noise @ frame v ap c ?d @ rest"
    using assms(2,10) by (simp add: tx_yields_def out_content_def)
  then have r: "receive_frame (cb_list (in_buf (fst (b, m)))) = (Message v ap c ?d, rest)"
    using receive_sent_frame [OF assms(5) _ assms(9)] assms(6) by simp
  from get_message_refines [OF _ _ _ r] assms(3,4,8)
  show ?thesis
    by (cases "ascii_serial_com_get_message_from_input_buffer (b, m)")
      (auto simp: rx_yields_def asc_wf_def in_content_def)
qed

lemma message_round_trip_witness:
  "\<exists>b'. ascii_serial_com_get_message_from_input_buffer (asc_with (cb_list (out_buf (snd
      (ascii_serial_com_put_message_in_output_buffer (asc_with [] []) chr_0 chr_0 chr_w [0x46, 0x46] 2)))) [],
      empty_message) = (Inr (), b', stored_message chr_0 chr_0 chr_w (take (unat (2 :: size_t)) [0x46, 0x46]) empty_message)
    \<and> cb_list (in_buf b') = []"
proof -
  let ?r = "ascii_serial_com_put_message_in_output_buffer (asc_with [] []) chr_0 chr_0 chr_w [0x46, 0x46] 2"
  have "tx_yields ?r (Inr ()) (asc_with [] []) ([] @ frame chr_0 chr_0 chr_w [0x46, 0x46])"
    by (rule put_message_fits [where d = "[0x46, 0x46]"])
      (use asc_with [of "[]" "[]"] asc_with_content [of "[]" "[]"] in simp_all)
  then have "length (cb_list (out_buf (snd ?r))) \<le> 64"
    by (simp add: tx_yields_def out_content_def del: length_cb_list)
  note b = asc_with [OF this, of "[]"] and a = asc_with [of "[]" "[]"]
  show ?thesis
    by (rule message_round_trip [where a = "asc_with [] []" and noise = "[]"]) (use a b in simp_all)
qed

text \<open>C3 Data with a period does not survive the line: \<^verbatim>\<open>put_message\<close> sends it without an error, with a
  correct checksum, but \<^verbatim>\<open>get_message\<close> takes the first period for the end of the data, throws
  \<^verbatim>\<open>ASC_ERROR_INVALID_FRAME\<close> and leaves what is behind that period at the front of the input. The header and the data before the
  period have no framing character, those after it no start character and newline.\<close>

theorem period_in_data_refused:
  assumes "asc_wf a" and "cb_list (out_buf a) = []" and "asc_wf b" and "\<not> ignoreCRCMismatch b"
    and "take (unat dataLen) data = p @ chr_period # q" and "unat dataLen \<le> 54" and "unat dataLen \<le> length data"
    and "plain ([v, ap, c] @ p)" and "chr_start \<notin> set q" and "chr_end \<notin> set q"
    and "length (msg_data m) = 54" and "chr_end \<notin> set noise"
    and "cb_list (in_buf b) = noise @
      cb_list (out_buf (snd (ascii_serial_com_put_message_in_output_buffer a v ap c data dataLen))) @ rest"
  shows "fst (ascii_serial_com_put_message_in_output_buffer a v ap c data dataLen) = Inr ()
    \<and> (\<exists>b' m'. ascii_serial_com_get_message_from_input_buffer (b, m) = (Inl (Throw ASC_ERROR_INVALID_FRAME), b', m')
      \<and> cb_list (in_buf b') = q @ [chr_period] @ checksum_chars (frame_body v ap c (take (unat dataLen) data)) @ chr_end # rest)"
proof -
  let ?d = "take (unat dataLen) data"
  have n: "chr_start \<notin> set ([v, ap, c] @ ?d)" using assms(8,9) unfolding assms(5) by (auto simp: plain_def)
  have y: "tx_yields (ascii_serial_com_put_message_in_output_buffer a v ap c data dataLen) (Inr ()) a (cb_list (out_buf a) @ frame v ap c ?d)"
    by (rule put_message_fits [OF out_content_self _ refl n])
      (use assms(1,2,6,7) cb_wfD(4) [of "out_buf a"] in \<open>auto simp: asc_wf_def cb_cap_def\<close>)
  then have i: "cb_list (in_buf b) = noise @ frame v ap c (p @ chr_period # q) @ rest"
    using assms(2,5,13) by (simp add: tx_yields_def out_content_def)
  have l: "length p \<le> 54" using arg_cong [OF assms(5), of length] assms(6) by simp
  have r: "receive_frame (cb_list (in_buf (fst (b, m)))) = (Rx_Error ASC_ERROR_INVALID_FRAME,
      q @ [chr_period] @ checksum_chars (frame_body v ap c ?d) @ chr_end # rest)"
    using receive_period_in_data [OF assms(8-10) l assms(12), of rest] unfolding fst_conv i assms(5) .
  from get_message_refines [OF _ _ _ r] assms(3,4,11) have "\<exists>b' m'. ascii_serial_com_get_message_from_input_buffer (b, m) =
      (Inl (Throw ASC_ERROR_INVALID_FRAME), b', m')
      \<and> cb_list (in_buf b') = q @ [chr_period] @ checksum_chars (frame_body v ap c ?d) @ chr_end # rest"
    by (cases "ascii_serial_com_get_message_from_input_buffer (b, m)")
      (auto simp: rx_yields_def asc_wf_def in_content_def)
  with y show ?thesis by (simp add: tx_yields_def)
qed

lemma period_in_data_refused_witness:
  "fst (ascii_serial_com_put_message_in_output_buffer (asc_with [] []) chr_0 chr_0 chr_w [0x31, chr_period, 0x35] 3) = Inr ()
    \<and> (\<exists>b' m'. ascii_serial_com_get_message_from_input_buffer (asc_with (cb_list (out_buf (snd
        (ascii_serial_com_put_message_in_output_buffer (asc_with [] []) chr_0 chr_0 chr_w [0x31, chr_period, 0x35] 3)))) [],
        empty_message) = (Inl (Throw ASC_ERROR_INVALID_FRAME), b', m')
      \<and> cb_list (in_buf b') = [0x35] @ [chr_period]
        @ checksum_chars (frame_body chr_0 chr_0 chr_w (take (unat (3 :: size_t)) [0x31, chr_period, 0x35])) @ chr_end # [])"
proof -
  let ?r = "ascii_serial_com_put_message_in_output_buffer (asc_with [] []) chr_0 chr_0 chr_w [0x31, chr_period, 0x35] 3"
  have "tx_yields ?r (Inr ()) (asc_with [] []) ([] @ frame chr_0 chr_0 chr_w [0x31, chr_period, 0x35])"
    by (rule put_message_fits [where d = "[0x31, chr_period, 0x35]"])
      (use asc_with [of "[]" "[]"] asc_with_content [of "[]" "[]"] in simp_all)
  then have "length (cb_list (out_buf (snd ?r))) \<le> 64"
    by (simp add: tx_yields_def out_content_def del: length_cb_list)
  note b = asc_with [OF this, of "[]"] and a = asc_with [of "[]" "[]"]
  show ?thesis
    by (rule period_in_data_refused [where a = "asc_with [] []" and noise = "[]" and p = "[0x31]" and rest = "[]"]) (use a b in simp_all)
qed

text \<open>C4 Data with a start character is received as another message: \<^verbatim>\<open>put_message\<close> sends it without an error,
  but with the checksum of the part from the last start character on, and \<^verbatim>\<open>get_message\<close> accepts that part as a
  message, with the three bytes behind the start character as its header. So who chooses the data can choose the command. There are at
  least three bytes behind the last start character, and none of the bytes there is a framing character, and none before
  it a newline; checksums are on, the output buffer is empty and begins in its array so that the start character comes before the end of it.\<close>

theorem start_in_data_received_as_message:
  assumes "asc_wf a" and "cb_list (out_buf a) = []" and "asc_wf b" and "\<not> ignoreCRCMismatch b"
    and "take (unat dataLen) data = pre @ chr_start # [v', ap', c'] @ d'" and "unat dataLen \<le> 54" and "unat dataLen \<le> length data"
    and "plain ([v', ap', c'] @ d')" and "chr_end \<notin> set ([v, ap, c] @ pre)" and "unat (iStart (out_buf a)) + length pre + 4 \<le> 64"
    and "length (msg_data m) = 54" and "chr_end \<notin> set noise"
    and "cb_list (in_buf b) = noise @
      cb_list (out_buf (snd (ascii_serial_com_put_message_in_output_buffer a v ap c data dataLen))) @ rest"
  shows "fst (ascii_serial_com_put_message_in_output_buffer a v ap c data dataLen) = Inr ()
    \<and> (\<exists>b'. ascii_serial_com_get_message_from_input_buffer (b, m) = (Inr (), b', stored_message v' ap' c' d' m)
      \<and> cb_list (in_buf b') = rest)"
proof -
  have y: "tx_yields (ascii_serial_com_put_message_in_output_buffer a v ap c data dataLen) (Inr ()) a
      (cb_list (out_buf a) @ [chr_start, v, ap, c] @ pre @ frame v' ap' c' d')"
    by (rule put_message_with_start [OF out_content_self assms(7,5,8)])
      (use assms(1,2,6,10) in \<open>auto simp: asc_wf_def\<close>)
  then have i: "cb_list (in_buf b) = (noise @ [chr_start, v, ap, c] @ pre) @ frame v' ap' c' d' @ rest"
    using assms(2,13) by (simp add: tx_yields_def out_content_def)
  have l: "length d' \<le> 54" using arg_cong [OF assms(5), of length] assms(6) by simp
  have "chr_end \<notin> set (noise @ [chr_start, v, ap, c] @ pre)" using assms(9,12) by auto
  from receive_sent_frame [OF assms(8) l this, of rest]
  have r: "receive_frame (cb_list (in_buf (fst (b, m)))) = (Message v' ap' c' d', rest)" unfolding fst_conv i .
  from get_message_refines [OF _ _ _ r] assms(3,4,11)
  have "\<exists>b'. ascii_serial_com_get_message_from_input_buffer (b, m) = (Inr (), b', stored_message v' ap' c' d' m)
      \<and> cb_list (in_buf b') = rest"
    by (cases "ascii_serial_com_get_message_from_input_buffer (b, m)")
      (auto simp: rx_yields_def asc_wf_def in_content_def)
  with y show ?thesis by (simp add: tx_yields_def)
qed

lemma start_in_data_received_as_message_witness:
  "fst (ascii_serial_com_put_message_in_output_buffer (asc_with [] []) chr_0 chr_0 chr_s [0x41, chr_start, chr_0, chr_0, chr_f] 5) = Inr ()
    \<and> (\<exists>b'. ascii_serial_com_get_message_from_input_buffer (asc_with (cb_list (out_buf (snd
        (ascii_serial_com_put_message_in_output_buffer (asc_with [] []) chr_0 chr_0 chr_s [0x41, chr_start, chr_0, chr_0, chr_f] 5)))) [],
        empty_message) = (Inr (), b', stored_message chr_0 chr_0 chr_f [] empty_message) \<and> cb_list (in_buf b') = [])"
proof -
  let ?r = "ascii_serial_com_put_message_in_output_buffer (asc_with [] []) chr_0 chr_0 chr_s [0x41, chr_start, chr_0, chr_0, chr_f] 5"
  have "tx_yields ?r (Inr ()) (asc_with [] []) ([] @ [chr_start, chr_0, chr_0, chr_s] @ [0x41] @ frame chr_0 chr_0 chr_f [])"
    by (rule put_message_with_start) (use asc_with [of "[]" "[]"] asc_with_content [of "[]" "[]"] in simp_all)
  then have "length (cb_list (out_buf (snd ?r))) \<le> 64"
    by (simp add: tx_yields_def out_content_def del: length_cb_list)
  note b = asc_with [OF this, of "[]"] and a = asc_with [of "[]" "[]"]
  show ?thesis
    by (rule start_in_data_received_as_message [where a = "asc_with [] []" and noise = "[]" and pre = "[0x41]"]) (use a b in simp_all)
qed

text \<open>C5 What \<^verbatim>\<open>put_message\<close> appends, for any header and data, when there is room for the whole frame: the body, that is start character,
  header, data and period, and behind it the checksum and a newline. The checksum is that of the body from its last start character on; when
  fewer than three bytes come between this character and the period, \<^verbatim>\<open>ASC_ERROR_INVALID_FRAME_PERIOD\<close> is thrown and the
  body stays without a checksum. So when neither the header nor the data have a start character, the frame of the message is appended.
  The pending bytes, and those of the body before the last start character, do not run past the end of the output array.\<close>

theorem put_message_appends_frame:
  assumes "asc_wf asc" and "unat dataLen \<le> length data"
    and "body = frame_body v ap c (take (unat dataLen) data)" and "i = last_index body chr_start"
    and "length (cb_list (out_buf asc)) + unat dataLen + 10 \<le> 64"
    and "unat (iStart (out_buf asc)) + length (cb_list (out_buf asc)) + i \<le> 64"
  shows "tx_yields (ascii_serial_com_put_message_in_output_buffer asc v ap c data dataLen)
      (if unat dataLen < i then Inl (Throw ASC_ERROR_INVALID_FRAME_PERIOD) else Inr ()) asc
      (cb_list (out_buf asc) @ body @ (if unat dataLen < i then [] else checksum_chars (drop i body) @ [chr_end]))
    \<and> (chr_start \<notin> set ([v, ap, c] @ take (unat dataLen) data) \<longrightarrow>
      i = 0 \<and> body @ checksum_chars (drop i body) @ [chr_end] = frame v ap c (take (unat dataLen) data))"
proof -
  have l: "length (take (unat dataLen) data) = unat dataLen" using assms(2) by simp
  have "last_index body chr_start = 0" if "chr_start \<notin> set ([v, ap, c] @ take (unat dataLen) data)"
    using last_index_start [OF that, of "[]"] unfolding assms(3) by simp
  moreover have "out_content asc (cb_list (out_buf asc)) asc" using assms(1) out_content_self [of asc] by (simp add: asc_wf_def)
  from put_message_room [OF this assms(2) refl assms(4) [unfolded assms(3)], unfolded l] assms(5,6)
  have "tx_yields (ascii_serial_com_put_message_in_output_buffer asc v ap c data dataLen)
      (if unat dataLen < i then Inl (Throw ASC_ERROR_INVALID_FRAME_PERIOD) else Inr ()) asc
      (cb_list (out_buf asc) @ body @ (if unat dataLen < i then [] else checksum_chars (drop i body) @ [chr_end]))"
    unfolding assms(3) by simp
  ultimately show ?thesis using assms(3,4) by (simp add: frame_def Let_def)
qed

lemma put_message_appends_frame_witness:
  "tx_yields (ascii_serial_com_put_message_in_output_buffer (asc_with [] [0x41]) chr_0 chr_0 chr_r [0x30] 1) (Inr ()) (asc_with [] [0x41])
    (cb_list (out_buf (asc_with [] [0x41])) @ frame chr_0 chr_0 chr_r [0x30])"
proof -
  have i: "0 = last_index (frame_body chr_0 chr_0 chr_r (take (unat (1 :: size_t)) [0x30])) chr_start"
    by (simp add: frame_body_def last_index_def first_index_def)
  show ?thesis
    using put_message_appends_frame [OF _ _ refl i, of "asc_with [] [0x41]"] asc_with [of "[]" "[0x41]"] by auto
qed

text \<open>C6 With checksums on, as they are after the initialisation, \<^verbatim>\<open>get_message\<close> implements the function
  \<open>receive_frame\<close> on the content of the input buffer: result, output variables and the bytes that stay are those of its outcome.\<close>

theorem get_message_implements_receive_frame:
  assumes "asc_wf asc" and "\<not> ignoreCRCMismatch asc" and "length (msg_data m) = 54"
  shows "\<exists>m'. rx_yields (ascii_serial_com_get_message_from_input_buffer (asc, m))
      (rx_result (fst (receive_frame (cb_list (in_buf asc))))) asc 64 (snd (receive_frame (cb_list (in_buf asc)))) m'
    \<and> rx_output (fst (receive_frame (cb_list (in_buf asc)))) m m'"
  using get_message_refines [of "(asc, m)", OF _ _ _ prod.collapse [symmetric]] assms by (simp add: asc_wf_def)

lemma get_message_implements_receive_frame_witness:
  "\<exists>m'. rx_yields (ascii_serial_com_get_message_from_input_buffer (asc_with [0x41] [], empty_message))
      (rx_result (fst (receive_frame (cb_list (in_buf (asc_with [0x41] [])))))) (asc_with [0x41] []) 64
      (snd (receive_frame (cb_list (in_buf (asc_with [0x41] []))))) m'
    \<and> rx_output (fst (receive_frame (cb_list (in_buf (asc_with [0x41] []))))) empty_message m'"
  by (rule get_message_implements_receive_frame) (use asc_with [of "[0x41]" "[]"] in simp_all)

text \<open>C7 With checksums on, \<^verbatim>\<open>get_message\<close> returns, or throws one of three errors, for every
  content of the input buffer: it never reads or writes outside of an array, keeps the interface
  well-formed and writes at most \<^verbatim>\<open>MAXDATALEN\<close> data bytes.\<close>

theorem get_message_safe:
  assumes "asc_wf asc" and "\<not> ignoreCRCMismatch asc" and "length (msg_data m) = 54"
  shows "case ascii_serial_com_get_message_from_input_buffer (asc, m) of (r, asc', m') \<Rightarrow>
    (r = Inr () \<or> r = Inl (Throw ASC_ERROR_INVALID_FRAME) \<or> r = Inl (Throw ASC_ERROR_INVALID_FRAME_PERIOD)
      \<or> r = Inl (Throw ASC_ERROR_CHECKSUM_PROBLEM))
    \<and> asc_wf asc' \<and> out_buf asc' = out_buf asc \<and> length (msg_data m') = 54 \<and> (r = Inr () \<longrightarrow> unat (msg_dataLen m') \<le> 54)"
  by (rule get_message_keeps_wf) (use assms in auto)

lemma get_message_safe_witness:
  "case ascii_serial_com_get_message_from_input_buffer (asc_with [0x3E, 0x2E] [], empty_message) of (r, asc', m') \<Rightarrow>
    (r = Inr () \<or> r = Inl (Throw ASC_ERROR_INVALID_FRAME) \<or> r = Inl (Throw ASC_ERROR_INVALID_FRAME_PERIOD)
      \<or> r = Inl (Throw ASC_ERROR_CHECKSUM_PROBLEM))
    \<and> asc_wf asc' \<and> out_buf asc' = out_buf (asc_with [0x3E, 0x2E] []) \<and> length (msg_data m') = 54
    \<and> (r = Inr () \<longrightarrow> unat (msg_dataLen m') \<le> 54)"
  by (rule get_message_safe) (use asc_with [of "[0x3E, 0x2E]" "[]"] in simp_all)

text \<open>C8 With checksums on, a line of which one byte, or two neighbouring bytes, were changed on the way is not accepted:
  \<^verbatim>\<open>get_message\<close> reports that there is no message and drops the line. The change may be in the version
  characters, the command, the data or the checksum, as long as the line keeps its shape: the start character, the period and the
  newline are neither changed nor created.\<close>

theorem corrupted_frame_rejected:
  assumes "asc_wf asc" and "\<not> ignoreCRCMismatch asc" and "length (msg_data m) = 54"
    and "frame_body v ap c d @ checksum_chars (frame_body v ap c d) = xs @ [a, b] @ ys"
    and "frame_body v' ap' c' d' @ chk' = xs @ [a', b'] @ ys" and "a \<noteq> a' \<or> b \<noteq> b'"
    and "plain ([v', ap', c'] @ d')" and "plain chk'" and "length d' \<le> 54" and "length chk' = 4" and "chr_end \<notin> set noise"
    and "cb_list (in_buf asc) = noise @ xs @ [a', b'] @ ys @ chr_end # zs"
  shows "\<exists>asc' m'. ascii_serial_com_get_message_from_input_buffer (asc, m) = (Inr (), asc', m')
    \<and> msg_command m' = 0 \<and> msg_dataLen m' = 0 \<and> cb_list (in_buf asc') = zs"
proof -
  have "cb_list (in_buf asc) = noise @ frame_body v' ap' c' d' @ chk' @ chr_end # zs"
    using assms(12) arg_cong [OF assms(5), of "\<lambda>x. x @ chr_end # zs"] by simp
  then have "receive_frame (cb_list (in_buf (fst (asc, m)))) = (Bad_Checksum, zs)"
    using receive_damaged_line [OF assms(4-11), of zs] by simp
  from get_message_refines [OF _ _ _ this] assms(1-3) show ?thesis
    by (cases "ascii_serial_com_get_message_from_input_buffer (asc, m)")
      (auto simp: rx_yields_def asc_wf_def in_content_def no_message_def)
qed

lemma corrupted_frame_rejected_witness:
  "\<exists>asc' m'. ascii_serial_com_get_message_from_input_buffer
      (asc_with ([] @ [chr_start, 0x31, 0x30] @ [chr_w, chr_period] @ checksum_chars (frame_body 0x31 0x30 chr_r []) @ chr_end # []) [],
       empty_message) = (Inr (), asc', m')
    \<and> msg_command m' = 0 \<and> msg_dataLen m' = 0 \<and> cb_list (in_buf asc') = []"
  by (rule corrupted_frame_rejected [where v = "0x31" and ap = "0x30" and c = chr_r and d = "[]" and a = chr_r
        and b = chr_period and v' = "0x31" and ap' = "0x30" and c' = chr_w and d' = "[]" and a' = chr_w and b' = chr_period
        and xs = "[chr_start, 0x31, 0x30]" and ys = "checksum_chars (frame_body 0x31 0x30 chr_r [])" and noise = "[]"
        and chk' = "checksum_chars (frame_body 0x31 0x30 chr_r [])"])
    (use asc_with [of "[chr_start, 0x31, 0x30, chr_w, chr_period] @ checksum_chars (frame_body 0x31 0x30 chr_r []) @ [chr_end]" "[]"]
      in \<open>simp_all add: frame_body_def\<close>)

text \<open>C9 Messages that cannot be sent, for any header and data: more than 54 data bytes raise \<^verbatim>\<open>ASC_ERROR_DATA_TOO_LONG\<close>
  and leave the interface as it was. Any other message whose frame does not fit behind the pending bytes raises
  \<^verbatim>\<open>ASC_ERROR_CHECKSUM_PROBLEM\<close>, after its body was pushed: the output buffer has the last 64 of the pending
  bytes and the body, so that the oldest pending bytes are lost when the body itself does not fit. Nothing else of the interface changes.\<close>

theorem put_message_errors:
  assumes "asc_wf asc" and "unat dataLen \<le> length data" and "64 < length (cb_list (out_buf asc)) + unat dataLen + 10"
  shows "if 54 < unat dataLen
    then ascii_serial_com_put_message_in_output_buffer asc v ap c data dataLen = (Inl (Throw ASC_ERROR_DATA_TOO_LONG), asc)
    else \<exists>cb. ascii_serial_com_put_message_in_output_buffer asc v ap c data dataLen =
        (Inl (Throw ASC_ERROR_CHECKSUM_PROBLEM), asc\<lparr>out_buf := cb\<rparr>)
      \<and> cb_wf cb \<and> cb_cap cb = 64 \<and> cb_list cb =
        drop (length (cb_list (out_buf asc)) + unat dataLen + 5 - 64) (cb_list (out_buf asc) @ frame_body v ap c (take (unat dataLen) data))"
proof (cases "54 < unat dataLen")
  case True
  then show ?thesis using put_message_too_long [OF True] by simp
next
  case False
  have w: "cb_wf (out_buf asc)" "cb_cap (out_buf asc) = 64" using assms(1) by (simp_all add: asc_wf_def)
  have l: "length (take (unat dataLen) data) = unat dataLen" using assms(2) by simp
  from put_message_overflows [OF w refl assms(2) _ refl, of v ap c] False assms(3) l
  obtain b where "ascii_serial_com_put_message_in_output_buffer asc v ap c data dataLen = (Inl (Throw ASC_ERROR_CHECKSUM_PROBLEM), b)"
    "out_keeps asc (cb_list (out_buf asc) @ frame_body v ap c (take (unat dataLen) data)) b" by auto
  then show ?thesis using False l by (auto simp: out_keeps_def add.assoc intro!: exI [of _ "out_buf b"])
qed

lemma put_message_errors_witness:
  "if 54 < unat (0 :: size_t)
    then ascii_serial_com_put_message_in_output_buffer (asc_with [] (replicate 62 0x30)) 0x30 0x30 chr_w [] 0 =
      (Inl (Throw ASC_ERROR_DATA_TOO_LONG), asc_with [] (replicate 62 0x30))
    else \<exists>cb. ascii_serial_com_put_message_in_output_buffer (asc_with [] (replicate 62 0x30)) 0x30 0x30 chr_w [] 0 =
        (Inl (Throw ASC_ERROR_CHECKSUM_PROBLEM), (asc_with [] (replicate 62 0x30))\<lparr>out_buf := cb\<rparr>)
      \<and> cb_wf cb \<and> cb_cap cb = 64 \<and> cb_list cb =
        drop (length (cb_list (out_buf (asc_with [] (replicate 62 0x30)))) + unat (0 :: size_t) + 5 - 64)
          (cb_list (out_buf (asc_with [] (replicate 62 0x30))) @ frame_body 0x30 0x30 chr_w (take (unat (0 :: size_t)) []))"
  by (rule put_message_errors) (use asc_with [of "[]" "replicate 62 0x30"] in \<open>simp_all del: length_cb_list\<close>)

text \<open>When the pending bytes run past the end of the output array, the message that is put behind them is
  checksummed through a pointer outside of the array: the result of \<^verbatim>\<open>put_message\<close> is undefined,
  although the frame fits.\<close>

theorem put_message_behind_wrap:
  assumes "asc_wf asc" and "unat dataLen \<le> length data" and "chr_start \<notin> set ([v, ap, c] @ take (unat dataLen) data)"
    and "length (cb_list (out_buf asc)) + unat dataLen + 10 \<le> 64"
    and "64 < unat (iStart (out_buf asc)) + length (cb_list (out_buf asc))"
  shows "fst (ascii_serial_com_put_message_in_output_buffer asc v ap c data dataLen) = Inl UB"
proof -
  have "tx_yields (ascii_serial_com_put_message_in_output_buffer asc v ap c data dataLen) (Inl UB) asc
      (cb_list (out_buf asc) @ frame_body v ap c (take (unat dataLen) data))"
    by (rule put_message_past [OF out_content_self]) (use assms in \<open>auto simp: asc_wf_def\<close>)
  then show ?thesis by (simp add: tx_yields_def)
qed

lemma put_message_behind_wrap_witness:
  "fst (ascii_serial_com_put_message_in_output_buffer ((asc_with [] [])\<lparr>out_buf := cb_at 60 (replicate 10 0x30)\<rparr>)
    0x30 0x30 chr_w [] 0) = Inl UB"
proof -
  have "cb_wf (cb_at 60 (replicate 10 0x30))" "cb_cap (cb_at 60 (replicate 10 0x30)) = 64" by code_simp+
  then show ?thesis
    by (intro put_message_behind_wrap) (use asc_with [of "[]" "[]"] in \<open>simp_all add: asc_wf_def cb_at_def\<close>)
qed

text \<open>C10 With checksums on, a complete line at the front of the input whose first period comes before the command, or behind 58 bytes or more,
  blocks the input: every call of \<^verbatim>\<open>get_message\<close>, however many came before it, throws and leaves the line, and the
  frames behind it, as they are. The line has no second start character, and no framing character before the
  period. (A line without any period is popped.)\<close>

theorem short_line_blocks_input:
  assumes "asc_wf asc" and "\<not> ignoreCRCMismatch asc" and "length (msg_data m) = 54"
    and "plain p" and "length p < 3 \<or> 58 \<le> length p" and "chr_start \<notin> set q" and "chr_end \<notin> set q"
    and "cb_list (in_buf asc) = chr_start # p @ chr_period # q @ chr_end # zs"
  shows "case ((\<lambda>s. snd (ascii_serial_com_get_message_from_input_buffer s)) ^^ k) (asc, m) of (asc', m') \<Rightarrow>
    fst (ascii_serial_com_get_message_from_input_buffer (asc', m')) =
      Inl (Throw (if length p < 3 then ASC_ERROR_INVALID_FRAME_PERIOD else ASC_ERROR_CHECKSUM_PROBLEM))
    \<and> cb_list (in_buf asc') = cb_list (in_buf asc) \<and> out_buf asc' = out_buf asc"
  using front_error_blocks [OF assms(1-3,8) receive_misplaced_period [OF assms(4-7)], of k] assms(8) by (auto split: prod.splits)

lemma short_line_blocks_input_witness:
  "case ((\<lambda>s. snd (ascii_serial_com_get_message_from_input_buffer s)) ^^ 7)
      (asc_with (chr_start # [] @ chr_period # [] @ chr_end # [0x41]) [], empty_message) of (asc', m') \<Rightarrow>
    fst (ascii_serial_com_get_message_from_input_buffer (asc', m')) =
      Inl (Throw (if length ([] :: byte list) < 3 then ASC_ERROR_INVALID_FRAME_PERIOD else ASC_ERROR_CHECKSUM_PROBLEM))
    \<and> cb_list (in_buf asc') = cb_list (in_buf (asc_with (chr_start # [] @ chr_period # [] @ chr_end # [0x41]) []))
    \<and> out_buf asc' = out_buf (asc_with (chr_start # [] @ chr_period # [] @ chr_end # [0x41]) [])"
  by (rule short_line_blocks_input [where zs = "[0x41]"])
    (use asc_with [of "[chr_start, chr_period, chr_end, 0x41]" "[]"] in simp_all)

text \<open>A stream message carries the frame counter, which goes up by one modulo 256, and its payload.\<close>

theorem stream_message_counts:
  assumes "asc_wf asc" and "unat dataLen \<le> length data" and "chr_start \<notin> set ([v, ap] @ take (unat dataLen) data)"
    and "length (cb_list (out_buf asc)) + unat dataLen + 13 \<le> 64"
    and "unat (iStart (out_buf asc)) + length (cb_list (out_buf asc)) \<le> 64"
  shows "tx_yields (ascii_serial_com_put_s_message_in_output_buffer asc v ap data dataLen) (Inr ())
    (asc\<lparr>send_stream_frame_counter := send_stream_frame_counter asc + 1\<rparr>)
    (cb_list (out_buf asc) @ frame v ap chr_s (hex_digits True 2 (send_stream_frame_counter asc) @ chr_comma # take (unat dataLen) data))"
  unfolding stream_data_def [symmetric]
  by (rule put_s_fits [OF out_content_self]) (use assms in \<open>auto simp: asc_wf_def\<close>)

lemma stream_message_counts_witness:
  "tx_yields (ascii_serial_com_put_s_message_in_output_buffer (asc_with [] []) 0x30 0x30 [0x41] 1) (Inr ())
    ((asc_with [] [])\<lparr>send_stream_frame_counter := send_stream_frame_counter (asc_with [] []) + 1\<rparr>)
    (cb_list (out_buf (asc_with [] [])) @ frame 0x30 0x30 chr_s
      (hex_digits True 2 (send_stream_frame_counter (asc_with [] [])) @ chr_comma # take (unat (1 :: size_t)) [0x41]))"
  by (rule stream_message_counts) (use asc_with [of "[]" "[]"] in simp_all)

text \<open>An error message carries the code of the error in two digits, the command and the first nine data
  bytes of the message it answers.\<close>

theorem error_message_content:
  assumes "asc_wf asc" and "unat dataLen \<le> length data" and "chr_start \<notin> set ([v, ap, c] @ take (unat dataLen) data)"
    and "length (cb_list (out_buf asc)) + min (unat dataLen) 9 + 15 \<le> 64"
    and "unat (iStart (out_buf asc)) + length (cb_list (out_buf asc)) \<le> 64"
  shows "tx_yields (ascii_serial_com_put_error_in_output_buffer asc v ap c data dataLen e) (Inr ()) asc
    (cb_list (out_buf asc) @ frame v ap chr_e (hex_digits True 2 (of_nat (asc_exception_code e) :: byte)
      @ [chr_comma, c, chr_comma] @ take 9 (take (unat dataLen) data)))"
  unfolding error_data_def [symmetric]
  by (rule put_error_fits [OF out_content_self])
    (use assms in \<open>auto simp: asc_wf_def error_data_length min.commute min.left_commute\<close>)

lemma error_message_content_witness:
  "tx_yields (ascii_serial_com_put_error_in_output_buffer (asc_with [] []) 0x30 0x30 chr_w [0x41] 1 ASC_ERROR_REGNUM_OOB) (Inr ())
    (asc_with [] [])
    (cb_list (out_buf (asc_with [] [])) @ frame 0x30 0x30 chr_e (hex_digits True 2 (of_nat (asc_exception_code ASC_ERROR_REGNUM_OOB) :: byte)
      @ [chr_comma, chr_w, chr_comma] @ take 9 (take (unat (1 :: size_t)) [0x41])))"
  by (rule error_message_content) (use asc_with [of "[]" "[]"] in simp_all)

text \<open>C11 With the check of checksums off nothing limits the data: a line with more than 54 bytes of it, which fits
  into the input buffer, makes \<^verbatim>\<open>get_message\<close> write behind the caller's array.\<close>

theorem ignored_checksum_overflows:
  assumes "asc_wf asc" and "ignoreCRCMismatch asc" and "length (msg_data m) = 54" and "54 < length ds"
    and "plain ([v, ap, c] @ ds)" and "cb_list (in_buf asc) = [chr_start, v, ap, c] @ ds @ [chr_period, chr_end]"
  shows "fst (ascii_serial_com_get_message_from_input_buffer (asc, m)) = Inl UB"
  by (rule get_message_overflow [OF assms])

lemma ignored_checksum_overflows_witness:
  "fst (ascii_serial_com_get_message_from_input_buffer
    ((asc_with ([chr_start, chr_0, chr_0, chr_w] @ replicate 55 0x41 @ [chr_period, chr_end]) [])\<lparr>ignoreCRCMismatch := True\<rparr>, empty_message)) = Inl UB"
  by (rule ignored_checksum_overflows [where ds = "replicate 55 0x41"])
    (use asc_with [of "[chr_start, chr_0, chr_0, chr_w] @ replicate 55 0x41 @ [chr_period, chr_end]" "[]"] in
      \<open>simp_all add: asc_wf_def empty_message_def plain_def\<close>)

section \<open>Checksums and digits\<close>

text \<open>C12 The four CRC implementations that the preprocessor chooses from give the same checksum, however the bytes
  are split into blocks: that of the shift register of the polynomial 0x3D65.\<close>

theorem crc_choices_agree: "crc_of_blocks opt blocks = crc_16_dnp (concat blocks)"
  by (rule crc_of_blocks_eq)

text \<open>C13 The checksum of a text changes whenever one byte, or two neighbouring bytes, of it change.\<close>

theorem crc_detects_two_bytes:
  assumes "a \<noteq> a' \<or> b \<noteq> b'"
  shows "crc_of_blocks crc_option [xs @ [a, b] @ ys] \<noteq> crc_of_blocks crc_option [xs @ [a', b'] @ ys]"
  using crc_detects_burst [of xs a b ys a' b'] assms by (auto simp: crc_of_blocks_eq)

lemma crc_detects_two_bytes_witness:
  "crc_of_blocks crc_option [[] @ [0x41, 0x42] @ [0x43]] \<noteq> crc_of_blocks crc_option [[] @ [0x41, 0x43] @ [0x43]]"
  by (rule crc_detects_two_bytes) simp

text \<open>C14 Hexadecimal round trip: a number of 8, 16 or 32 bits that was written into an array, in capitals or not, is
  read back from it.\<close>

theorem hex_round_trip:
  assumes "p + 2 \<le> length mem" and "q + 4 \<le> length mem'" and "r + 8 \<le> length mem''"
  shows "convert_hex_to_uint8 (snd (convert_uint8_to_hex x p caps mem)) p = Inr x
    \<and> convert_hex_to_uint16 (snd (convert_uint16_to_hex y q caps mem')) q = Inr y
    \<and> convert_hex_to_uint32 (snd (convert_uint32_to_hex z r caps mem'')) r = Inr z"
  using hex8.get_put [OF assms(1)] hex16.get_put [OF assms(2)] hex32.get_put [OF assms(3)] by simp

lemma hex_round_trip_witness:
  "convert_hex_to_uint8 (snd (convert_uint8_to_hex 0xAB 1 True (replicate 3 0))) 1 = Inr 0xAB
    \<and> convert_hex_to_uint16 (snd (convert_uint16_to_hex 0xBEEF 0 True (replicate 4 0))) 0 = Inr 0xBEEF
    \<and> convert_hex_to_uint32 (snd (convert_uint32_to_hex 7 0 True (replicate 8 0))) 0 = Inr 7"
  by (rule hex_round_trip) simp_all

text \<open>Reading digits fails, with \<^verbatim>\<open>ASC_ERROR_NOT_HEX_CHAR\<close>, exactly when one of the characters
  is not a hexadecimal digit.\<close>

theorem hex_error_iff:
  assumes "p + 8 \<le> length mem"
  shows "(convert_hex_to_uint8 mem p = Inl (Throw ASC_ERROR_NOT_HEX_CHAR) \<longleftrightarrow>
      (\<exists>c \<in> set (take 2 (drop p mem)). hex_value c = None))
    \<and> (convert_hex_to_uint16 mem p = Inl (Throw ASC_ERROR_NOT_HEX_CHAR) \<longleftrightarrow>
      (\<exists>c \<in> set (take 4 (drop p mem)). hex_value c = None))
    \<and> (convert_hex_to_uint32 mem p = Inl (Throw ASC_ERROR_NOT_HEX_CHAR) \<longleftrightarrow>
      (\<exists>c \<in> set (take 8 (drop p mem)). hex_value c = None))"
  using assms
  by (simp add: convert_hex_to_uint8_digits convert_hex_to_uint16_digits convert_hex_to_uint32_digits hex_result_eq
      hex_word_None_iff)

lemma hex_error_iff_witness:
  "(convert_hex_to_uint8 (replicate 8 0x2E) 0 = Inl (Throw ASC_ERROR_NOT_HEX_CHAR) \<longleftrightarrow>
      (\<exists>c \<in> set (take 2 (drop 0 (replicate 8 0x2E))). hex_value c = None))
    \<and> (convert_hex_to_uint16 (replicate 8 0x2E) 0 = Inl (Throw ASC_ERROR_NOT_HEX_CHAR) \<longleftrightarrow>
      (\<exists>c \<in> set (take 4 (drop 0 (replicate 8 0x2E))). hex_value c = None))
    \<and> (convert_hex_to_uint32 (replicate 8 0x2E) 0 = Inl (Throw ASC_ERROR_NOT_HEX_CHAR) \<longleftrightarrow>
      (\<exists>c \<in> set (take 8 (drop 0 (replicate 8 0x2E))). hex_value c = None))"
  by (rule hex_error_iff) simp

section \<open>The circular buffer\<close>



text \<open>C16 Pushing at either end of a buffer implements the push of a bounded list: when the buffer is full, the element
  at the other end is dropped. The buffer stays well-formed.\<close>

theorem push_implements_bounded_list:
  assumes "cb_wf cb"
  shows "cb_returns (circular_buffer_push_back_uint8 cb x) () (cb_cap cb)
      ((if length (cb_list cb) = cb_cap cb then tl (cb_list cb) else cb_list cb) @ [x])
    \<and> cb_returns (circular_buffer_push_front_uint8 cb x) () (cb_cap cb)
      (x # (if length (cb_list cb) = cb_cap cb then butlast (cb_list cb) else cb_list cb))"
  using push_back_returns [OF assms, of x] push_front_refines [OF assms, of x] by (simp add: cb_returns_def)

lemma push_implements_bounded_list_witness:
  "cb_returns (circular_buffer_push_back_uint8 (cb_at 0 [1, 2]) 3) () (cb_cap (cb_at 0 [1, 2]))
      ((if length (cb_list (cb_at 0 [1, 2])) = cb_cap (cb_at 0 [1, 2]) then tl (cb_list (cb_at 0 [1, 2])) else cb_list (cb_at 0 [1, 2])) @ [3])
    \<and> cb_returns (circular_buffer_push_front_uint8 (cb_at 0 [1, 2]) 3) () (cb_cap (cb_at 0 [1, 2]))
      (3 # (if length (cb_list (cb_at 0 [1, 2])) = cb_cap (cb_at 0 [1, 2]) then butlast (cb_list (cb_at 0 [1, 2])) else cb_list (cb_at 0 [1, 2])))"
  by (rule push_implements_bounded_list) (simp add: cb_at_0)

text \<open>C17 Popping takes the first, or the last, element off the list; an empty buffer throws and stays as it is.\<close>

theorem pop_implements_list:
  assumes "cb_wf cb"
  shows "if cb_list cb = []
    then circular_buffer_pop_front_uint8 cb = (Inl (Throw ASC_ERROR_CB_POP_EMPTY), cb)
      \<and> circular_buffer_pop_back_uint8 cb = (Inl (Throw ASC_ERROR_CB_POP_EMPTY), cb)
    else cb_returns (circular_buffer_pop_front_uint8 cb) (hd (cb_list cb)) (cb_cap cb) (tl (cb_list cb))
      \<and> cb_returns (circular_buffer_pop_back_uint8 cb) (last (cb_list cb)) (cb_cap cb) (butlast (cb_list cb))"
  using pop_front_refines [OF assms] pop_back_refines [OF assms] pop_front_empty [of cb] pop_back_empty [of cb]
  by (simp add: cb_returns_def)

lemma pop_implements_list_witness:
  "if cb_list (cb_at 0 [1, 2]) = []
    then circular_buffer_pop_front_uint8 (cb_at 0 [1, 2]) = (Inl (Throw ASC_ERROR_CB_POP_EMPTY), cb_at 0 [1, 2])
      \<and> circular_buffer_pop_back_uint8 (cb_at 0 [1, 2]) = (Inl (Throw ASC_ERROR_CB_POP_EMPTY), cb_at 0 [1, 2])
    else cb_returns (circular_buffer_pop_front_uint8 (cb_at 0 [1, 2])) (hd (cb_list (cb_at 0 [1, 2])))
        (cb_cap (cb_at 0 [1, 2])) (tl (cb_list (cb_at 0 [1, 2])))
      \<and> cb_returns (circular_buffer_pop_back_uint8 (cb_at 0 [1, 2])) (last (cb_list (cb_at 0 [1, 2])))
        (cb_cap (cb_at 0 [1, 2])) (butlast (cb_list (cb_at 0 [1, 2])))"
  by (rule pop_implements_list) (simp add: cb_at_0)

text \<open>Blocks: pushing a block is appending its bytes, of which the last ones that fit stay; popping one
  writes the first bytes, at most as many as are asked for and up to the end of the array, to the destination.\<close>

theorem block_transfer:
  assumes "cb_wf cb" and "unat n \<le> length source" and "unat dest_size \<le> length dest"
  shows "cb_returns (circular_buffer_push_back_block_uint8 cb source n) () (cb_cap cb)
      (drop (length (cb_list cb) + unat n - cb_cap cb) (cb_list cb @ take (unat n) source))
    \<and> (\<exists>k cb'. circular_buffer_pop_front_block_uint8 cb dest dest_size =
        (Inr (of_nat k), (take k (cb_list cb) @ drop k dest, cb'))
      \<and> k \<le> unat dest_size \<and> (cb_list cb \<noteq> [] \<and> 0 < dest_size \<longrightarrow> 0 < k) \<and> cb_wf cb' \<and> cb_list cb' = drop k (cb_list cb))"
  using push_back_block_returns [OF assms(1,2)] pop_front_block_returns [OF assms(1,3)] cb_wfD [OF assms(1)]
  by (auto simp: first_block_len_def unat_gt_0 word_gt_0 intro!: exI [of _ "min (unat dest_size) (first_block_len cb)"])

lemma block_transfer_witness:
  "cb_returns (circular_buffer_push_back_block_uint8 (cb_at 0 [5]) [7, 8, 9] 2) () (cb_cap (cb_at 0 [5]))
      (drop (length (cb_list (cb_at 0 [5])) + unat (2 :: size_t) - cb_cap (cb_at 0 [5])) (cb_list (cb_at 0 [5]) @ take (unat (2 :: size_t)) [7, 8, 9]))
    \<and> (\<exists>k cb'. circular_buffer_pop_front_block_uint8 (cb_at 0 [5]) [0, 0] 2 =
        (Inr (of_nat k), (take k (cb_list (cb_at 0 [5])) @ drop k [0, 0], cb'))
      \<and> k \<le> unat (2 :: size_t) \<and> (cb_list (cb_at 0 [5]) \<noteq> [] \<and> 0 < (2 :: size_t) \<longrightarrow> 0 < k) \<and> cb_wf cb'
      \<and> cb_list cb' = drop k (cb_list (cb_at 0 [5])))"
  by (rule block_transfer) (simp_all add: cb_at_0)

text \<open>C18 The searches return the position of the first, or of the last, occurrence of a byte, and the size of the
  buffer when there is none; the count is that of the list.\<close>

theorem searches_implement_list:
  assumes "cb_wf cb"
  shows "circular_buffer_find_first_uint8 cb v = Inr (of_nat (first_index (cb_list cb) v))
    \<and> circular_buffer_find_last_uint8 cb v = Inr (of_nat (last_index (cb_list cb) v))
    \<and> circular_buffer_count_uint8 cb v = Inr (of_nat (count_list (cb_list cb) v))"
  using find_first_refines find_last_refines count_refines assms by blast

lemma searches_implement_list_witness:
  "circular_buffer_find_first_uint8 (cb_at 0 [5, 6, 5]) 5 = Inr (of_nat (first_index (cb_list (cb_at 0 [5, 6, 5])) 5))
    \<and> circular_buffer_find_last_uint8 (cb_at 0 [5, 6, 5]) 5 = Inr (of_nat (last_index (cb_list (cb_at 0 [5, 6, 5])) 5))
    \<and> circular_buffer_count_uint8 (cb_at 0 [5, 6, 5]) 5 = Inr (of_nat (count_list (cb_list (cb_at 0 [5, 6, 5])) 5))"
  by (rule searches_implement_list) (simp add: cb_at_0)

text \<open>C19 \<^verbatim>\<open>get_blocks\<close> hands out the bytes of a section of the buffer, unless the section begins
  past the end of the array: then the first of its pointers is outside of the array.\<close>

theorem get_blocks_bytes:
  assumes "cb_wf cb" and "unat start + unat n \<le> length (cb_list cb)"
  shows "\<exists>bl. circular_buffer_get_blocks_uint8 cb start n = Inr bl
    \<and> blocks_bytes cb bl = (if unat (iStart cb) + unat start \<le> cb_cap cb
        then Inr (take (unat n) (drop (unat start) (cb_list cb))) else Inl UB)"
  using get_blocks_in_range [OF assms] get_blocks_out_of_range [OF assms] by (auto simp: cb_cap_def not_le)

lemma get_blocks_bytes_witness:
  "\<exists>bl. circular_buffer_get_blocks_uint8 (cb_at 0 [5, 6, 7]) 1 2 = Inr bl
    \<and> blocks_bytes (cb_at 0 [5, 6, 7]) bl = (if unat (iStart (cb_at 0 [5, 6, 7])) + unat (1 :: size_t) \<le> cb_cap (cb_at 0 [5, 6, 7])
        then Inr (take (unat (2 :: size_t)) (drop (unat (1 :: size_t)) (cb_list (cb_at 0 [5, 6, 7])))) else Inl UB)"
  by (rule get_blocks_bytes) (simp_all add: cb_at_0 del: length_cb_list)

text \<open>C20 Dropping unfinished frames, for every content of the buffer, leaves what
  \<open>frame_sync\<close> computes: nothing, or a start character and the bytes from it on, with neither framing
  character before the end of the frame. It returns the number of elements that it removed, less one for each end
  character that it found at the very front of what was left (\<open>leading_ends\<close>), where the documentation promises the number of elements
  removed. The start character is below 128 and is not the end character.\<close>

theorem remove_unfinished_frames_implements_sync:
  assumes "cb_wf cb" and "0 \<le> sint st" and "st \<noteq> en"
  shows "cb_returns (circular_buffer_remove_front_unfinished_frames_uint8 cb st en)
      (of_nat (length (cb_list cb) - length (frame_sync st en (cb_list cb)) - leading_ends st en (cb_list cb)))
      (cb_cap cb) (frame_sync st en (cb_list cb))
    \<and> (frame_sync st en (cb_list cb) = [] \<or>
      (\<exists>p rest. frame_sync st en (cb_list cb) = st # p @ rest \<and> st \<notin> set p \<and> en \<notin> set p
       \<and> (rest = [] \<or> (\<exists>rest'. rest = en # rest'))))"
  using remove_unfinished_frames_returns [OF assms(1,2)] frame_sync_shape [OF assms(3)] by blast

lemma remove_unfinished_frames_implements_sync_witness:
  "cb_returns (circular_buffer_remove_front_unfinished_frames_uint8 (cb_at 0 [chr_end, 0x41, chr_start]) chr_start chr_end)
      (of_nat (length (cb_list (cb_at 0 [chr_end, 0x41, chr_start])) - length (frame_sync chr_start chr_end (cb_list (cb_at 0 [chr_end, 0x41, chr_start])))
        - leading_ends chr_start chr_end (cb_list (cb_at 0 [chr_end, 0x41, chr_start]))))
      (cb_cap (cb_at 0 [chr_end, 0x41, chr_start])) (frame_sync chr_start chr_end (cb_list (cb_at 0 [chr_end, 0x41, chr_start])))
    \<and> (frame_sync chr_start chr_end (cb_list (cb_at 0 [chr_end, 0x41, chr_start])) = [] \<or>
      (\<exists>p rest. frame_sync chr_start chr_end (cb_list (cb_at 0 [chr_end, 0x41, chr_start])) = chr_start # p @ rest
       \<and> chr_start \<notin> set p \<and> chr_end \<notin> set p \<and> (rest = [] \<or> (\<exists>rest'. rest = chr_end # rest'))))"
  by (rule remove_unfinished_frames_implements_sync) (simp_all add: cb_at_0)

text \<open>Initialisation throws for a capacity that is not a power of two, zero included, and makes an empty
  well-formed buffer otherwise.\<close>

theorem init_checks_capacity:
  assumes "length mem = unat cap"
  shows "if \<exists>k<64. cap = 2 ^ k
    then cb_returns (circular_buffer_init_uint8 cb cap mem) () (unat cap) []
    else circular_buffer_init_uint8 cb cap mem = (Inl (Throw ASC_ERROR_CB_BAD_CAPACITY), cb)"
  using init_returns [of cap mem cb] init_throws [of cap cb mem] assms by (simp add: isPowerOfTwo_iff)

lemma init_checks_capacity_witness:
  "if \<exists>k<64. (8 :: size_t) = 2 ^ k
    then cb_returns (circular_buffer_init_uint8 (cb_at 0 []) 8 (replicate 8 0)) () (unat (8 :: size_t)) []
    else circular_buffer_init_uint8 (cb_at 0 []) 8 (replicate 8 0) = (Inl (Throw ASC_ERROR_CB_BAD_CAPACITY), cb_at 0 [])"
  by (rule init_checks_capacity) simp

text \<open>\<^verbatim>\<open>push_back_string\<close> pushes the characters of the string up to its end and always returns 0, where
  its documentation promises the number of characters pushed.\<close>

theorem push_back_string_returns_0:
  assumes "cb_wf cb" and "0 \<notin> set xs"
  shows "cb_returns (circular_buffer_push_back_string_uint8 cb (xs @ 0 # rest)) 0 (cb_cap cb)
    (drop (length (cb_list cb) + length xs - cb_cap cb) (cb_list cb @ xs))"
  using assms by (rule push_back_string_returns)

lemma push_back_string_returns_0_witness:
  "cb_returns (circular_buffer_push_back_string_uint8 (cb_at 0 []) ([0x41, 0x42] @ 0 # [])) 0 (cb_cap (cb_at 0 []))
    (drop (length (cb_list (cb_at 0 [])) + length [0x41, 0x42 :: byte] - cb_cap (cb_at 0 [])) (cb_list (cb_at 0 []) @ [0x41, 0x42]))"
  by (rule push_back_string_returns_0) (simp_all add: cb_at_0)

section \<open>Devices and registers\<close>

text \<open>C21 A register block over the line: after a write request, which is acknowledged with the number of the
  register, a read request for the same register is answered with the value that was written, and no other
  register has changed.\<close>

theorem register_block_round_trip:
  assumes "device_wf dev" and "cb_list (out_buf (dev_asc dev)) = []"
    and "func_rw (dev_config dev) = Some ascii_serial_com_register_block_handle_message"
    and "unat (rb_n_regs rb) \<le> length (rb_block rb)" and "reg < rb_n_regs rb"
    and "plain [v, ap, x]" and "chr_end \<notin> set noise"
    and "cb_list (in_buf (dev_asc dev)) = noise @ frame v ap chr_w (hex_digits caps 4 reg @ x # hex_digits caps' 2 val)
      @ frame v ap chr_r (hex_digits caps 4 reg)"
  shows "\<exists>dev1 dev2 rb'. ascii_serial_com_device_receive (dev, Some rb) = (Inr (), (dev1, Some rb'))
    \<and> rb' = rb\<lparr>rb_block := (rb_block rb)[unat reg := val]\<rparr>
    \<and> cb_list (out_buf (dev_asc dev1)) = frame v ap chr_w (hex_digits caps 4 reg)
    \<and> ascii_serial_com_device_receive (drained dev1, Some rb') = (Inr (), (dev2, Some rb'))
    \<and> cb_list (out_buf (dev_asc dev2)) = frame v ap chr_r (hex_digits caps 4 reg @ chr_comma # hex_digits True 2 val)
    \<and> cb_list (in_buf (dev_asc dev2)) = []"
proof -
  let ?rb' = "rb\<lparr>rb_block := (rb_block rb)[unat reg := val]\<rparr>"
  have i: "rb_inv (Some rb)" "rb_inv (Some ?rb')" using assms(4) by (simp_all add: rb_inv_def)
  have p: "plain ([v, ap, chr_w] @ hex_digits caps 4 reg @ x # hex_digits caps' 2 val)" "plain ([v, ap, chr_r] @ hex_digits caps 4 reg)"
    using assms(6) by simp_all
  have r: "routed (dev_config dev) chr_w = Some ascii_serial_com_register_block_handle_message"
    using assms(3) by (simp add: routed_def)
  from rb.receive_replies [OF assms(1,2) i(1) p(1) _ assms(7,8) r rb_respond_write [OF assms(5)]]
  obtain dev1 where 1: "ascii_serial_com_device_receive (dev, Some rb) = (Inr (), (dev1, Some ?rb'))"
      "cb_list (out_buf (dev_asc dev1)) = frame v ap chr_w (hex_digits caps 4 reg)"
      "cb_list (in_buf (dev_asc dev1)) = frame v ap chr_r (hex_digits caps 4 reg)" "device_wf dev1" "dev_config dev1 = dev_config dev"
    by auto
  have b: "cb_list (in_buf (dev_asc (drained dev1))) = [] @ frame v ap chr_r (hex_digits caps 4 reg) @ []"
    and r': "routed (dev_config (drained dev1)) chr_r = Some ascii_serial_com_register_block_handle_message"
    and reg': "reg < rb_n_regs ?rb'"
    using 1(3,5) assms(3,5) by (simp_all add: drained(3,4) routed_def)
  have "unat reg < length (rb_block rb)" using assms(4,5) by (simp add: word_less_nat_alt)
  with rb.receive_replies [OF drained(1) [OF 1(4)] drained(2) i(2) p(2) _ _ b r' rb_respond_read [OF reg']]
  obtain dev2 where "ascii_serial_com_device_receive (drained dev1, Some ?rb') = (Inr (), (dev2, Some ?rb'))"
      "cb_list (out_buf (dev_asc dev2)) = frame v ap chr_r (hex_digits caps 4 reg @ chr_comma # hex_digits True 2 val)"
      "cb_list (in_buf (dev_asc dev2)) = []" by auto
  then show ?thesis using 1 by blast
qed

lemma register_block_round_trip_witness:
  "\<exists>dev1 dev2 rb'. ascii_serial_com_device_receive (dev_with rb_config (frame chr_0 chr_0 chr_w (hex_digits True 4 (2 :: 16 word)
        @ chr_comma # hex_digits True 2 (0xA7 :: byte)) @ frame chr_0 chr_0 chr_r (hex_digits True 4 (2 :: 16 word))), Some (block_of [0, 0, 0]))
      = (Inr (), (dev1, Some rb'))
    \<and> rb' = (block_of [0, 0, 0])\<lparr>rb_block := (rb_block (block_of [0, 0, 0]))[unat (2 :: 16 word) := 0xA7]\<rparr>
    \<and> cb_list (out_buf (dev_asc dev1)) = frame chr_0 chr_0 chr_w (hex_digits True 4 (2 :: 16 word))
    \<and> ascii_serial_com_device_receive (drained dev1, Some rb') = (Inr (), (dev2, Some rb'))
    \<and> cb_list (out_buf (dev_asc dev2)) = frame chr_0 chr_0 chr_r (hex_digits True 4 (2 :: 16 word) @ chr_comma # hex_digits True 2 (0xA7 :: byte))
    \<and> cb_list (in_buf (dev_asc dev2)) = []"
  by (rule register_block_round_trip [where noise = "[]"])
    (use dev_with [of "frame chr_0 chr_0 chr_w (hex_digits True 4 (2 :: 16 word) @ chr_comma # hex_digits True 2 (0xA7 :: byte))
      @ frame chr_0 chr_0 chr_r (hex_digits True 4 (2 :: 16 word))" rb_config] in \<open>simp_all add: block_of_def rb_config_def\<close>)

text \<open>The length check of a register write counts bytes where it needs digits: a write request with a single
  digit is acknowledged, and the register gets that digit and whatever the data buffer still held behind
  it.\<close>

theorem register_block_short_write:
  assumes "device_wf dev" and "cb_list (out_buf (dev_asc dev)) = []"
    and "func_rw (dev_config dev) = Some ascii_serial_com_register_block_handle_message"
    and "unat (rb_n_regs rb) \<le> length (rb_block rb)" and "reg < rb_n_regs rb" and "plain [v, ap, x, a]"
    and "cb_list (in_buf (dev_asc dev)) = frame v ap chr_w (hex_digits caps 4 reg @ [x, a])"
    and "hex_word [a, msg_data (dev_msg dev) ! 6] = Some val"
  shows "\<exists>dev'. ascii_serial_com_device_receive (dev, Some rb) =
      (Inr (), (dev', Some (rb\<lparr>rb_block := (rb_block rb)[unat reg := val]\<rparr>)))
    \<and> cb_list (out_buf (dev_asc dev')) = frame v ap chr_w (hex_digits caps 4 reg)"
proof -
  have i: "rb_inv (Some rb)" using assms(4) by (simp add: rb_inv_def)
  have p: "plain ([v, ap, chr_w] @ hex_digits caps 4 reg @ [x, a])" using assms(6) by simp
  have r: "routed (dev_config dev) chr_w = Some ascii_serial_com_register_block_handle_message"
    and b: "cb_list (in_buf (dev_asc dev)) = [] @ frame v ap chr_w (hex_digits caps 4 reg @ [x, a]) @ []"
    and l: "length (msg_data (dev_msg dev)) = 54"
    using assms(1,3,7) by (simp_all add: routed_def device_wf_def)
  from rb.receive_replies [OF assms(1,2) i p _ _ b r rb_respond_short_write [OF assms(5) l assms(8)]] show ?thesis
    by auto
qed

lemma register_block_short_write_witness:
  "\<exists>dev'. ascii_serial_com_device_receive
      ((dev_with rb_config (frame chr_0 chr_0 chr_w (hex_digits True 4 (1 :: 16 word) @ [chr_comma, 0x35])))
        \<lparr>dev_msg := empty_message\<lparr>msg_data := replicate 54 0x46\<rparr>\<rparr>, Some (block_of [0, 0])) =
      (Inr (), (dev', Some ((block_of [0, 0])\<lparr>rb_block := (rb_block (block_of [0, 0]))[unat (1 :: 16 word) := 0x5F]\<rparr>)))
    \<and> cb_list (out_buf (dev_asc dev')) = frame chr_0 chr_0 chr_w (hex_digits True 4 (1 :: 16 word))"
proof -
  have h: "hex_word [0x35, 0x46] = Some (0x5F :: byte)" by code_simp
  show ?thesis
    by (rule register_block_short_write [where x = chr_comma and a = "0x35" and val = "0x5F"])
      (use dev_with [of "frame chr_0 chr_0 chr_w (hex_digits True 4 (1 :: 16 word) @ [chr_comma, 0x35])" rb_config] h in
        \<open>simp_all add: block_of_def rb_config_def device_wf_def\<close>)
qed

text \<open>C22 A register block throws its errors: for a register out of range it sends nothing, and it
  leaves the registers and the output alone.\<close>

theorem register_block_error_throws:
  assumes "device_wf dev" and "cb_list (out_buf (dev_asc dev)) = []"
    and "func_rw (dev_config dev) = Some ascii_serial_com_register_block_handle_message"
    and "unat (rb_n_regs rb) \<le> length (rb_block rb)" and "rb_n_regs rb \<le> reg" and "c = chr_r \<or> c = chr_w"
    and "plain ([v, ap, c] @ ds)" and "length ds \<le> 50"
    and "cb_list (in_buf (dev_asc dev)) = frame v ap c (hex_digits caps 4 reg @ ds)"
  shows "\<exists>dev'. ascii_serial_com_device_receive (dev, Some rb) = (Inl (Throw ASC_ERROR_REGNUM_OOB), (dev', Some rb))
    \<and> cb_list (out_buf (dev_asc dev')) = [] \<and> cb_list (in_buf (dev_asc dev')) = []"
proof -
  have i: "rb_inv (Some rb)" using assms(4) by (simp add: rb_inv_def)
  have p: "plain ([v, ap, c] @ hex_digits caps 4 reg @ ds)" using assms(7) by simp
  have r: "routed (dev_config dev) c = Some ascii_serial_com_register_block_handle_message"
    and b: "cb_list (in_buf (dev_asc dev)) = [] @ frame v ap c (hex_digits caps 4 reg @ ds) @ []"
    using assms(3,6,9) by (auto simp: routed_def)
  have n: "\<not> (of_nat (length (hex_digits caps 4 reg @ ds)) :: size_t) < 4"
    using assms(8) by (simp add: word_less_nat_alt unat_of_nat_64 del: of_nat_add)
  have "rb_respond c (of_nat (length (hex_digits caps 4 reg @ ds))) (mem_put 0 (hex_digits caps 4 reg @ ds) (msg_data (dev_msg dev)))
      (Some rb) = (Raise ASC_ERROR_REGNUM_OOB, Some rb)"
    using assms(5,6) n by (auto simp: rb_respond_def take_mem_put_0 hex_word_16)
  from rb.receive_replies [OF assms(1,2) i p _ _ b r this] assms(8) show ?thesis by auto
qed

lemma register_block_error_throws_witness:
  "\<exists>dev'. ascii_serial_com_device_receive
      (dev_with rb_config (frame chr_0 chr_0 chr_r (hex_digits True 4 (2 :: 16 word) @ [])), Some (block_of [0, 0])) =
      (Inl (Throw ASC_ERROR_REGNUM_OOB), (dev', Some (block_of [0, 0])))
    \<and> cb_list (out_buf (dev_asc dev')) = [] \<and> cb_list (in_buf (dev_asc dev')) = []"
  by (rule register_block_error_throws [where c = chr_r and ds = "[]"])
    (use dev_with [of "frame chr_0 chr_0 chr_r (hex_digits True 4 (2 :: 16 word))" rb_config] in
      \<open>simp_all add: block_of_def rb_config_def\<close>)

text \<open>C23 A masked write through a register pointer changes exactly the bits of the register that its mask allows,
  and no other memory, and is acknowledged with the number of the register.\<close>

theorem register_pointers_masked_write:
  assumes "device_wf dev" and "cb_list (out_buf (dev_asc dev)) = []" and "func_rw (dev_config dev) = Some handle_message_32"
    and "rp_inv (Some rp, mem)" and "reg < rp_n_regs rp" and "rp_pointers rp ! unat reg = Some p" and "mem p = Some old"
    and "plain [v, ap, x]" and "chr_end \<notin> set noise"
    and "cb_list (in_buf (dev_asc dev)) = noise @ frame v ap chr_w (hex_digits caps 4 reg @ x # hex_digits caps' 8 (val :: 32 word)) @ rest"
  shows "\<exists>dev' new. ascii_serial_com_device_receive (dev, (Some rp, mem)) = (Inr (), (dev', (Some rp, mem(p \<mapsto> new))))
    \<and> (\<forall>n < 32. bit new n = (if bit (rp_write_masks rp ! unat reg) n then bit val n else bit old n))
    \<and> cb_list (out_buf (dev_asc dev')) = frame v ap chr_w (hex_digits caps 4 reg)
    \<and> cb_list (in_buf (dev_asc dev')) = rest"
proof -
  have p: "plain ([v, ap, chr_w] @ hex_digits caps 4 reg @ x # hex_digits caps' 8 val)" using assms(8) by simp
  have r: "routed (dev_config dev) chr_w = Some handle_message_32" using assms(3) by (simp add: routed_def)
  have l: "length (msg_data (dev_msg dev)) = 54" using assms(1) by (simp add: device_wf_def)
  have w: "fst (Some rp, mem) = Some rp" "snd (Some rp, mem) p = Some old" using assms(7) by simp_all
  from rp_32_handler.receive_replies [OF assms(1,2,4) p _ assms(9,10) r rp32_respond_write [OF w(1) assms(5,6) w(2) l]]
  show ?thesis
    by (force simp: bit_masked)
qed

lemma register_pointers_masked_write_witness:
  "\<exists>dev' new. ascii_serial_com_device_receive (dev_with pointers_config
        (frame chr_0 chr_0 chr_w (hex_digits True 4 (0 :: 16 word) @ chr_comma # hex_digits True 8 (0x12345678 :: 32 word))),
      (Some two_pointers, [16 \<mapsto> 0xABCD])) = (Inr (), (dev', (Some two_pointers, [16 \<mapsto> 0xABCD](16 \<mapsto> new))))
    \<and> (\<forall>n < 32. bit new n = (if bit (rp_write_masks two_pointers ! unat (0 :: 16 word)) n then bit (0x12345678 :: 32 word) n else bit (0xABCD :: 32 word) n))
    \<and> cb_list (out_buf (dev_asc dev')) = frame chr_0 chr_0 chr_w (hex_digits True 4 (0 :: 16 word))
    \<and> cb_list (in_buf (dev_asc dev')) = []"
  by (rule register_pointers_masked_write [where x = chr_comma and noise = "[]"])
    (use dev_with [of "frame chr_0 chr_0 chr_w (hex_digits True 4 (0 :: 16 word) @ chr_comma # hex_digits True 8 (0x12345678 :: 32 word))"
      pointers_config] in \<open>simp_all add: rp_inv_def\<close>)

text \<open>C24 Register pointers answer an error with an error message: a request for a register out of range gets the
  code of the error, the command and the first data bytes back, and memory does not change.\<close>

theorem register_pointers_error_replies:
  assumes "device_wf dev" and "cb_list (out_buf (dev_asc dev)) = []" and "func_rw (dev_config dev) = Some handle_message_32"
    and "rp_inv (Some rp, mem)" and "rp_n_regs rp \<le> reg" and "c = chr_r \<or> c = chr_w"
    and "plain ([v, ap, c] @ ds)" and "length ds \<le> 50"
    and "cb_list (in_buf (dev_asc dev)) = frame v ap c (hex_digits caps 4 reg @ ds)"
  shows "\<exists>dev'. ascii_serial_com_device_receive (dev, (Some rp, mem)) = (Inr (), (dev', (Some rp, mem)))
    \<and> cb_list (out_buf (dev_asc dev')) =
      frame v ap chr_e (hex_digits True 2 (0x21 :: byte) @ [chr_comma, c, chr_comma] @ take 9 (hex_digits caps 4 reg @ ds))
    \<and> cb_list (in_buf (dev_asc dev')) = []"
proof -
  have p: "plain ([v, ap, c] @ hex_digits caps 4 reg @ ds)" using assms(7) by simp
  have r: "routed (dev_config dev) c = Some handle_message_32"
    and b: "cb_list (in_buf (dev_asc dev)) = [] @ frame v ap c (hex_digits caps 4 reg @ ds) @ []"
    using assms(3,6,9) by (auto simp: routed_def)
  have u: "unat (of_nat (length (hex_digits caps 4 reg @ ds)) :: size_t) = length (hex_digits caps 4 reg @ ds)"
    by (rule unat_of_nat_64) (use assms(8) in simp)
  have n: "\<not> (of_nat (length (hex_digits caps 4 reg @ ds)) :: size_t) < 4"
    using u by (simp add: word_less_nat_alt)
  have "rp_respond convert_hex_to_uint32 (\<lambda>caps. hex_digits caps 8) 4 c (of_nat (length (hex_digits caps 4 reg @ ds)))
      (mem_put 0 (hex_digits caps 4 reg @ ds) (msg_data (dev_msg dev))) (Some rp, mem) =
    (Reply chr_e (error_data c (hex_digits caps 4 reg @ ds) ASC_ERROR_REGNUM_OOB), (Some rp, mem))"
    using assms(5,6) n u by (auto simp: rp_respond_def take_mem_put_0 hex_word_16 Let_def)
  from rp_32_handler.receive_replies [OF assms(1,2,4) p _ _ b r this] assms(8) show ?thesis
    by (auto simp: error_data_def)
qed

lemma register_pointers_error_replies_witness:
  "\<exists>dev'. ascii_serial_com_device_receive (dev_with pointers_config (frame chr_0 chr_0 chr_r (hex_digits True 4 (2 :: 16 word) @ [])),
      (Some two_pointers, [16 \<mapsto> 0xABCD])) = (Inr (), (dev', (Some two_pointers, [16 \<mapsto> 0xABCD])))
    \<and> cb_list (out_buf (dev_asc dev')) =
      frame chr_0 chr_0 chr_e (hex_digits True 2 (0x21 :: byte) @ [chr_comma, chr_r, chr_comma] @ take 9 (hex_digits True 4 (2 :: 16 word) @ []))
    \<and> cb_list (in_buf (dev_asc dev')) = []"
  by (rule register_pointers_error_replies)
    (use dev_with [of "frame chr_0 chr_0 chr_r (hex_digits True 4 (2 :: 16 word))" pointers_config] in \<open>simp_all add: rp_inv_def\<close>)

text \<open>A device answers a command that nobody handles with an error message, and a \<^verbatim>\<open>'z'\<close> with
  nothing; either way the message is consumed.\<close>

theorem device_unhandled_command:
  assumes "device_wf dev" and "cb_list (out_buf (dev_asc dev)) = []" and "plain ([v, ap, c] @ d)" and "length d \<le> 54"
    and "chr_end \<notin> set noise" and "cb_list (in_buf (dev_asc dev)) = noise @ frame v ap c d @ rest"
    and "routed (dev_config dev) c = None" and "c \<noteq> 0"
  shows "\<exists>dev'. ascii_serial_com_device_receive (dev, w) = (Inr (), (dev', w))
    \<and> cb_list (out_buf (dev_asc dev')) = (if c = chr_z then []
        else frame v ap chr_e (hex_digits True 2 (0x15 :: byte) @ [chr_comma, c, chr_comma] @ take 9 d))
    \<and> cb_list (in_buf (dev_asc dev')) = rest"
proof -
  have e: "error_data c d ASC_ERROR_COMMAND_NOT_IMPLEMENTED = hex_digits True 2 (0x15 :: byte) @ [chr_comma, c, chr_comma] @ take 9 d"
    by (simp add: error_data_def)
  show ?thesis using receive_unhandled [OF assms(1-8), where w = w] unfolding e by blast
qed

lemma device_unhandled_command_witness:
  "\<exists>dev'. ascii_serial_com_device_receive (dev_with rb_config (frame chr_0 chr_0 chr_s [0x41]), None) = (Inr (), (dev', None))
    \<and> cb_list (out_buf (dev_asc dev')) = (if chr_s = chr_z then []
        else frame chr_0 chr_0 chr_e (hex_digits True 2 (0x15 :: byte) @ [chr_comma, chr_s, chr_comma] @ take 9 [0x41]))
    \<and> cb_list (in_buf (dev_asc dev')) = []"
  by (rule device_unhandled_command [where noise = "[]"])
    (use dev_with [of "frame chr_0 chr_0 chr_s [0x41]" rb_config] in \<open>simp_all add: routed_def rb_config_def\<close>)

section \<open>Exceptions\<close>

text \<open>C25 The sum implements the frames: when the body of a \<^verbatim>\<open>Try\<close> and the code of its \<^verbatim>\<open>Catch\<close> implement two
  computations that return a sum, with throws that jump, the whole block implements their composition, for
  any enclosing frame, and gives the enclosing frame back.\<close>

theorem try_block_implements_sum:
  assumes "implements (Some NewFrame) body f" and "\<forall>e. implements k (handler (exception_id e)) (h e)"
  shows "implements k (c_try_catch NewFrame body handler) (\<lambda>s. try_catch (f s) h)"
  by (rule try_catch_implements) (use assms in simp_all)

lemma try_block_implements_sum_witness:
  "implements None (c_try_catch 7 (c_throw (exception_id ASC_ERROR_CB_OOB)) (\<lambda>e s. (Normal, fst s, snd s + 1)))
    (\<lambda>s. try_catch (Inl (Throw ASC_ERROR_CB_OOB), s) (\<lambda>e s. (Inr (), s + (1 :: nat))))"
  by (rule try_block_implements_sum [where f = "\<lambda>s. (Inl (Throw ASC_ERROR_CB_OOB), s)"])
    (simp_all add: implements_throw, simp add: implements_def ends_as_def)

section \<open>Time\<close>

text \<open>C26 A timer that was set to \<open>rel\<close> milliseconds is expired \<open>t\<close> milliseconds later exactly
  when \<open>rel\<close> is at most \<open>t\<close>, also when the count wraps around in between; it answers
  so once, and is off afterwards.\<close>

theorem timer_expiry:
  fixes timer :: millisec_timer and now rel t :: millisec_timer_unit_t
  defines "tm \<equiv> millisec_timer_set_rel timer now rel"
  shows "fst (millisec_timer_is_expired tm (now + t)) = (rel \<le> t)
    \<and> fst (millisec_timer_is_expired_repeat tm (now + t)) = (rel \<le> t)
    \<and> (fst (millisec_timer_is_expired (snd (millisec_timer_is_expired tm (now + t))) later) = (\<not> rel \<le> t \<and> rel \<le> later - now))"
proof -
  have i: "interval tm = unat rel" "elapsed tm n = unat (n - now)" "enabled tm" for n
    by (simp_all add: tm_def millisec_timer_set_rel_def interval_def elapsed_def)
  show ?thesis
    by (auto simp: is_expired_iff is_expired_repeat_iff is_expired_state i word_le_nat_alt)
qed

text \<open>C27 A repeating timer with a period of at least 1 and at most \<open>2 ^ 31\<close> milliseconds does not drift: polled at least once per period, from the
  setting on, it has answered yes as often as whole periods have passed, however late each poll was.\<close>

theorem timer_repeat_no_drift:
  assumes "0 < unat rel" and "unat rel \<le> 2 ^ 31" and "polls_from (unat rel) 0 us"
  shows "length (filter id (fst (poll_repeat (millisec_timer_set_rel timer now rel) (map (\<lambda>u. now + of_nat u) us))))
    = last (0 # us) div unat rel"
  using poll_repeat_count [OF _ assms(1,2,3), of now "millisec_timer_set_rel timer now rel"] set_rel_timer_at by simp

lemma timer_repeat_no_drift_witness:
  "length (filter id (fst (poll_repeat (millisec_timer_set_rel \<lparr>enabled = False, set_time = 0, expire_time = 0\<rparr> 0xFFFFFFFA 10) (map (\<lambda>u. 0xFFFFFFFA + of_nat u) [4, 11, 19, 23, 31]))))
    = last (0 # [4, 11, 19, 23, 31]) div unat (10 :: 32 word)"
  by (rule timer_repeat_no_drift) simp_all

section \<open>Files\<close>

text \<open>One \<^verbatim>\<open>read\<close> into a buffer appends what was read; as the room that is offered is not
  limited by the free space of a full buffer, a full buffer loses its oldest bytes instead.\<close>

theorem fd_read_appends:
  assumes "cb_wf cb" and "cb_cap cb < 2 ^ 63" and "posix_read os fd (of_nat (read_room cb)) f = (Some bs, f')" and "length bs \<le> read_room cb"
  shows "\<exists>cb'. circular_buffer_push_back_from_fd_uint8 os fd (cb, f) = (Inr (of_nat (length bs)), (cb', f')) \<and> cb_wf cb'
    \<and> cb_list cb' = (if length (cb_list cb) < cb_cap cb then cb_list cb @ bs else drop (length bs) (cb_list cb) @ bs)"
proof -
  from push_back_from_fd_refines [OF assms(1,3,4,2)] obtain cb' where
    "circular_buffer_push_back_from_fd_uint8 os fd (cb, f) = (Inr (of_nat (length bs)), (cb', f'))" "cb_wf cb'"
    "cb_list cb' = drop (length (cb_list cb) + length bs - cb_cap cb) (cb_list cb @ bs)" by blast
  moreover have "length (cb_list cb) + length bs \<le> cb_cap cb" if "length (cb_list cb) < cb_cap cb"
    using read_room_free [OF assms(1) that] assms(4) by simp
  moreover have "length (cb_list cb) \<le> cb_cap cb" by (rule cb_wf_size [OF assms(1)])
  moreover have "length bs \<le> cb_cap cb" using assms(4) read_room_eq(2) [OF assms(1)] by simp
  ultimately show ?thesis by (auto simp del: length_cb_list)
qed

lemma fd_read_appends_witness:
  "\<exists>cb'. circular_buffer_push_back_from_fd_uint8 abc_files 0 (cb_at 0 (replicate 64 0x61), ()) =
      (Inr (of_nat (length [0x41, 0x42, 0x43 :: byte])), (cb', ())) \<and> cb_wf cb'
    \<and> cb_list cb' = (if length (cb_list (cb_at 0 (replicate 64 0x61))) < cb_cap (cb_at 0 (replicate 64 0x61))
        then cb_list (cb_at 0 (replicate 64 0x61)) @ [0x41, 0x42, 0x43]
        else drop (length [0x41, 0x42, 0x43 :: byte]) (cb_list (cb_at 0 (replicate 64 0x61))) @ [0x41, 0x42, 0x43])"
proof -
  have r: "read_room (cb_at 0 (replicate 64 0x61)) = 64" by (simp add: read_room_def cb_at_def cb_cap_def)
  have u: "unat (word_of_nat 64 :: size_t) = 64" by simp
  show ?thesis by (rule fd_read_appends) (use cb_at_0 [of "replicate 64 0x61"] r u in simp_all)
qed

section \<open>Firmware\<close>

text \<open>The polling loop answers: a read request that waits in the extra buffer is on the wire as its reply, with
  the value of the register, after one turn per byte of the request and then as many turns with a ready
  UART as the reply has bytes; the loop throws nothing, and ends idle.\<close>

theorem firmware_serves_request:
  assumes "fw_wf fw" and "fw_in fw = []" and "fw_out fw = []" and "dev_config (ascd fw) = rp_config handle_message_32"
    and "rp_inv (fst (fw_mem fw))" and "fst (fst (fw_mem fw)) = Some rp" and "reg < rp_n_regs rp" and "plain [v, ap]"
    and "fw_extra fw = frame v ap chr_r (hex_digits caps 4 reg)" and "length turns = 14" and "23 \<le> count_list more_turns True"
  shows "\<exists>fw'. poll_loop (turns @ more_turns) fw = (Inr (), fw')
    \<and> tx_sent (fw_uart fw') = tx_sent (fw_uart fw) @ frame v ap chr_r (hex_digits caps 4 reg @ chr_comma #
        hex_digits True 8 (reg_value (snd (fst (fw_mem fw))) (rp_pointers rp ! unat reg)))
    \<and> fw_mem fw' = fw_mem fw \<and> fw_in fw' = [] \<and> fw_extra fw' = [] \<and> fw_out fw' = []"
proof -
  let ?x = "hex_digits True 8 (reg_value (snd (fst (fw_mem fw))) (rp_pointers rp ! unat reg))"
  have r: "respond_fst (rp_respond convert_hex_to_uint32 (\<lambda>caps. hex_digits caps 8) 4) chr_r
      (of_nat (length (hex_digits caps 4 reg))) (mem_put 0 (hex_digits caps 4 reg) m) (fw_mem fw) =
    (Reply chr_r (hex_digits caps 4 reg @ chr_comma # ?x), fw_mem fw)" for m
    using rp32_respond_read [OF assms(6,7), of caps m] by (simp add: respond_fst_def)
  have p: "plain ([v, ap, chr_r] @ hex_digits caps 4 reg)" using assms(8) by simp
  have rt: "routed (dev_config (ascd fw)) chr_r = Some (handle_fst handle_message_32)"
    by (simp add: assms(4) routed_rp_config)
  have "length (hex_digits caps 4 reg) \<le> 54" by simp
  from rp_32_firmware.serve_loop [OF assms(1,5,2,9,3) p this rt r _ _ _, of turns more_turns] assms(10,11)
  show ?thesis by auto
qed

lemma firmware_serves_request_witness:
  "\<exists>fw'. poll_loop (replicate 14 False @ replicate 23 True) (idle_firmware (frame chr_0 chr_0 chr_r (hex_digits True 4 (0 :: 16 word)))) = (Inr (), fw')
    \<and> tx_sent (fw_uart fw') = tx_sent (fw_uart (idle_firmware (frame chr_0 chr_0 chr_r (hex_digits True 4 (0 :: 16 word)))))
      @ frame chr_0 chr_0 chr_r (hex_digits True 4 (0 :: 16 word) @ chr_comma #
        hex_digits True 8 (reg_value (snd (fst (fw_mem (idle_firmware (frame chr_0 chr_0 chr_r (hex_digits True 4 (0 :: 16 word)))))))
          (rp_pointers \<lparr>rp_pointers = [Some 16, None], rp_write_masks = [0xFF, 0 :: 32 word], rp_n_regs = 2\<rparr> ! unat (0 :: 16 word))))
    \<and> fw_mem fw' = fw_mem (idle_firmware (frame chr_0 chr_0 chr_r (hex_digits True 4 (0 :: 16 word))))
    \<and> fw_in fw' = [] \<and> fw_extra fw' = [] \<and> fw_out fw' = []"
  by (rule firmware_serves_request)
    (use count_replicate [of 23] idle_firmware [of "frame chr_0 chr_0 chr_r (hex_digits True 4 (0 :: 16 word))"] in simp_all)

text \<open>C28 The interrupt and the loop in any interleaving: when the loop reaches the pop of the atomic block, there is a byte to
  pop; and until a byte is pushed on a full extra buffer, the bytes the interrupt received are those handed
  to the device, the one in hand, and those still in the buffer, in this order.\<close>

theorem interrupt_keeps_order:
  assumes "sys_step\<^sup>*\<^sup>* s t" and "fw_wf (sys_fw s)" and "sys_pc s = At_Tx" and "fw_extra (sys_fw s) = []"
    and "handed s = []" and "received s = []"
  shows "(sys_pc t = At_Pop \<longrightarrow> (\<exists>b fw'. on_extra circular_buffer_pop_front_uint8 (sys_fw t) = (Inr b, fw')))
    \<and> (\<not> overrun t \<longrightarrow> handed t @ in_hand (sys_pc t) @ fw_extra (sys_fw t) = received t)"
proof -
  have "sys_inv s" using assms(2-6) by (simp add: sys_inv_def fw_wf_def)
  then have i: "sys_inv t" using reachable_inv [OF assms(1)] by blast
  have "\<exists>b fw'. on_extra circular_buffer_pop_front_uint8 (sys_fw t) = (Inr b, fw')" if "sys_pc t = At_Pop"
  proof -
    have "fw_extra (sys_fw t) \<noteq> []" using i that by (simp add: sys_inv_def)
    then obtain x q where "fw_extra (sys_fw t) = x # q" by (cases "fw_extra (sys_fw t)") auto
    then show ?thesis using pop_extra [of "sys_fw t" x q] i by (auto simp: sys_inv_def)
  qed
  then show ?thesis using i by (simp add: sys_inv_def)
qed

lemma interrupt_keeps_order_witness:
  "\<exists>t. sys_step\<^sup>*\<^sup>* idle_system t \<and> received t = [chr_start] \<and> fw_extra (sys_fw t) = [chr_start]
    \<and> (sys_pc t = At_Pop \<longrightarrow> (\<exists>b fw'. on_extra circular_buffer_pop_front_uint8 (sys_fw t) = (Inr b, fw')))
    \<and> (\<not> overrun t \<longrightarrow> handed t @ in_hand (sys_pc t) @ fw_extra (sys_fw t) = received t)"
proof -
  let ?fw = "(idle_firmware [])\<lparr>fw_uart := (fw_uart (idle_firmware []))\<lparr>rx_waiting := True, rx_data := chr_start\<rparr>\<rparr>"
  let ?s1 = "idle_system\<lparr>sys_fw := ?fw\<rparr>"
  note I = idle_firmware [of "[]", simplified]
  have 1: "sys_step idle_system ?s1"
    using sys_step.arrive [of idle_system chr_start] by (simp add: idle_system_def idle_firmware_def)
  from isr_extra [of ?fw] I obtain fw' where f: "usart_rx_isr ?fw = (Inr (), fw')" "fw_extra fw' = [chr_start]"
    by (auto simp: fw_wf_def fw_extra_def)
  have 2: "sys_step ?s1 (?s1\<lparr>sys_fw := fw', received := received ?s1 @ [rx_data (fw_uart (sys_fw ?s1))],
       overrun := (overrun ?s1 \<or> length (fw_extra (sys_fw ?s1)) = 64)\<rparr>)" (is "sys_step _ ?s2")
    by (rule sys_step.isr) (simp_all add: f)
  have r: "sys_step\<^sup>*\<^sup>* idle_system ?s2" using 1 2 by (meson converse_rtranclp_into_rtranclp rtranclp.rtrancl_refl)
  have "(sys_pc ?s2 = At_Pop \<longrightarrow> (\<exists>b fw'. on_extra circular_buffer_pop_front_uint8 (sys_fw ?s2) = (Inr b, fw')))
    \<and> (\<not> overrun ?s2 \<longrightarrow> handed ?s2 @ in_hand (sys_pc ?s2) @ fw_extra (sys_fw ?s2) = received ?s2)"
    by (rule interrupt_keeps_order [OF r]) (use I in \<open>simp_all add: idle_system_def\<close>)
  moreover have "received ?s2 = [chr_start]" "fw_extra (sys_fw ?s2) = [chr_start]"
    using f by (simp_all add: idle_system_def)
  ultimately show ?thesis using r by blast
qed

section \<open>Boards\<close>

text \<open>C29 The register block on the AVR board, from power-up to the answer: when a read request arrives by interrupts after the
  start, enough turns of the loop put its answer, with the value of the register, on the wire, and count no exception.\<close>

theorem avr_register_block_answers:
  assumes "length raw_buffer = 128" "length extra_raw = 64" "length (msg_data (dev_msg (ascd fw))) = 54" "fw_mem fw = (Some rb, m)"
    and "length regs = 10" and "unat (reg :: 16 word) < 10" and "plain [v, ap]" and "length rs = 14" and "17 \<le> count_list ts True"
  shows "\<exists>fw1 fw2 fw3. dummy_register_block_start io regs raw_buffer extra_raw fw = (Inr None, (fw1, 0))
    \<and> for_each byte_arrives (frame v ap chr_r (hex_digits caps 4 reg)) fw1 = (Inr (), fw2)
    \<and> program_turns dummy_register_block_turn ready_fst (rs @ ts @ [r]) (fw2, 0) = (Inr (), (fw3, 0)) \<and> fw_idle fw3
    \<and> tx_sent (fw_uart fw3) = tx_sent (fw_uart fw) @
        frame v ap chr_r (hex_digits caps 4 reg @ chr_comma # hex_digits True 2 (regs ! unat reg))"
  by (rule dummy_register_block_answers [OF assms])

lemma avr_register_block_answers_witness:
  "\<exists>fw1 fw2 fw3. dummy_register_block_start uno [0, 1, 2, 3, 4, 5, 6, 7, 8, 9] (replicate 128 0) (replicate 64 0) (idle_block []) = (Inr None, (fw1, 0))
    \<and> for_each byte_arrives (frame chr_0 chr_0 chr_r (hex_digits True 4 (3 :: 16 word))) fw1 = (Inr (), fw2)
    \<and> program_turns dummy_register_block_turn ready_fst (replicate 14 False @ replicate 17 True @ [True]) (fw2, 0) = (Inr (), (fw3, 0)) \<and> fw_idle fw3
    \<and> tx_sent (fw_uart fw3) = tx_sent (fw_uart (idle_block [])) @
        frame chr_0 chr_0 chr_r (hex_digits True 4 (3 :: 16 word) @ chr_comma # hex_digits True 2 ([0, 1, 2, 3, 4, 5, 6, 7, 8, 9] ! unat (3 :: 16 word) :: byte))"
  by (rule avr_register_block_answers)
    (simp_all add: idle_block_def dev_with_def empty_message_def count_replicate)

text \<open>C30 A read request for a register that does not exist makes the AVR program count one exception; it sends nothing, keeps
  the registers, and is idle again when the request was read.\<close>

theorem avr_register_block_counts:
  assumes "fw_wf fw" "fw_in fw = []" "fw_out fw = []" and "dev_config (ascd fw) = block_config"
    and "fw_mem fw = (Some rb, m)" "unat (rb_n_regs rb) \<le> length (rb_block rb)" "rb_n_regs rb \<le> reg"
    and "plain [v, ap]" and "fw_extra fw = frame v ap chr_r (hex_digits caps 4 reg)" and "length rs = 14"
  shows "\<exists>fw'. program_turns dummy_register_block_turn ready_fst rs (fw, n) = (Inr (), (fw', n + 1)) \<and> fw_idle fw'
    \<and> fw_mem fw' = fw_mem fw \<and> tx_sent (fw_uart fw') = tx_sent (fw_uart fw)"
  by (rule dummy_register_block_counts [OF assms])

lemma avr_register_block_counts_witness:
  "\<exists>fw'. program_turns dummy_register_block_turn ready_fst (replicate 14 True) (idle_block (frame chr_0 chr_0 chr_r (hex_digits True 4 (2 :: 16 word))), 65535) =
      (Inr (), (fw', 65535 + 1)) \<and> fw_idle fw'
    \<and> fw_mem fw' = fw_mem (idle_block (frame chr_0 chr_0 chr_r (hex_digits True 4 (2 :: 16 word))))
    \<and> tx_sent (fw_uart fw') = tx_sent (fw_uart (idle_block (frame chr_0 chr_0 chr_r (hex_digits True 4 (2 :: 16 word)))))"
  by (rule avr_register_block_counts [where v = chr_0 and ap = chr_0 and caps = True and reg = 2 and rb = "block_of [7, 8]" and m = Map.empty])
    (use idle_block [of "frame chr_0 chr_0 chr_r (hex_digits True 4 (2 :: 16 word))"] in \<open>simp_all add: block_of_def\<close>)

text \<open>C31 No ARM program configures a peripheral before its clock runs: in the calls of each start, every call on a GPIO port, a
  timer, the USART, the ADC or the DAC comes after the one that enables the clock of this peripheral.\<close>

theorem arm_starts_clocked:
  "clocked {} start_usart_irq \<and> clocked {} stm_char_loopback_start \<and> clocked {} stm_pattern_start
    \<and> clocked {} (gpio_setup @ stm_blink_turn) \<and> clocked {} (stm_adc_calls board ahb_freq) \<and> clocked {} (pulser_calls board ahb_freq timer_freq)"
  using small_programs_clocked adc_program_clocked pulser_clocked by blast

text \<open>C32 The counter stream of the ARM board: with the UART always ready, after \<open>21 n + 1\<close> turns the \<open>n\<close> frames with
  the next \<open>n\<close> values of the counter and of the frame counter are on the wire, without a byte in between.\<close>

theorem arm_counter_stream:
  assumes "counting board s" and "fw_out (fst (sa_io (fst s))) = []"
  shows "\<exists>s'. run_turns (\<lambda>s. stm_adc_turn board inp (sa_ready s)) (Suc (n * 21)) s = (Inr (), s')
    \<and> tx_sent (fw_uart (fst (sa_io (fst s')))) = tx_sent (fw_uart (fst (sa_io (fst s))))
      @ concat (map (\<lambda>i. counter_frame (fw_counter (fst (sa_io (fst s))) + of_nat i, sa_counter (fst s) + of_nat i)) [0..<n])"
proof -
  have k: "((\<lambda>k :: byte \<times> 32 word. (fst k + 1, snd k + 1)) ^^ i) k = (fst k + of_nat i, snd k + of_nat i)" for i k
    by (induction i) (simp_all add: ac_simps)
  from adc_counter.frames [OF assms, of inp n] show ?thesis by (auto simp: k counter_key_def)
qed

lemma arm_counter_stream_witness:
  "\<exists>s'. run_turns (\<lambda>s. stm_adc_turn nucleo no_input (sa_ready s)) (Suc (3 * 21)) counting_adc = (Inr (), s')
    \<and> tx_sent (fw_uart (fst (sa_io (fst s')))) = tx_sent (fw_uart (fst (sa_io (fst counting_adc))))
      @ concat (map (\<lambda>i. counter_frame (fw_counter (fst (sa_io (fst counting_adc))) + of_nat i, sa_counter (fst counting_adc) + of_nat i)) [0..<3])"
  by (rule arm_counter_stream) (simp_all add: counting_def idle_adc)

text \<open>C33 A sample of the ADC: in the turn that finds the conversions complete and the last message sent, the sample goes out as a
  stream message with three digits; an overrun is counted and cleared, and the next conversion is started exactly
  when the timer of the samples says so.\<close>

theorem arm_adc_sample:
  assumes "inj (stm_addr board)" and "keeps_variables board" and "sa_idle s" and "sa_streaming s" and "fw_out (fst (sa_io s)) = []"
    and "get_var board optionFlags (sa_io s) AND 1 = 0" and "\<not> dac_flag board s" and "\<not> enabled (sa_dac_reset_timer s)" and "adc_eos inp"
  shows "\<exists>s'. stm_adc_turn board inp (s, n) = (Inr (), (s', n)) \<and> sa_idle s' \<and> sa_streaming s'
    \<and> fw_out (fst (sa_io s')) = sample_frame (fw_counter (fst (sa_io s))) (ucast (adc_read_regular inp))
    \<and> get_var board adc_n_overruns (sa_io s') = get_var board adc_n_overruns (sa_io s) + (if adc_get_overrun_flag inp then 1 else 0)
    \<and> sa_adc_timer s' = snd (millisec_timer_is_expired_repeat (sa_adc_timer s) (stm_now board s))
    \<and> (\<exists>isr. snd (sa_io s') = snd (sa_io s)
        @ (if fst (millisec_timer_is_expired_repeat (sa_adc_timer s) (stm_now board s)) then [Call adc_start_conversion_regular [Named ADC]] else [])
        @ (if adc_get_overrun_flag inp then [Call adc_clear_overrun_flag [Named ADC]] else []) @ [Or_Assign (ADC_ISR ADC) isr])"
  by (rule adc_sample_turn [OF assms])

lemma arm_adc_sample_witness:
  "\<exists>s'. stm_adc_turn nucleo overrun_sample (sampling_adc, 0) = (Inr (), (s', 0)) \<and> sa_idle s' \<and> sa_streaming s'
    \<and> fw_out (fst (sa_io s')) = sample_frame (fw_counter (fst (sa_io sampling_adc))) (ucast (adc_read_regular overrun_sample))
    \<and> get_var nucleo adc_n_overruns (sa_io s') = get_var nucleo adc_n_overruns (sa_io sampling_adc) + (if adc_get_overrun_flag overrun_sample then 1 else 0)
    \<and> sa_adc_timer s' = snd (millisec_timer_is_expired_repeat (sa_adc_timer sampling_adc) (stm_now nucleo sampling_adc))
    \<and> (\<exists>isr. snd (sa_io s') = snd (sa_io sampling_adc)
        @ (if fst (millisec_timer_is_expired_repeat (sa_adc_timer sampling_adc) (stm_now nucleo sampling_adc)) then [Call adc_start_conversion_regular [Named ADC]] else [])
        @ (if adc_get_overrun_flag overrun_sample then [Call adc_clear_overrun_flag [Named ADC]] else []) @ [Or_Assign (ADC_ISR ADC) isr])"
  by (rule arm_adc_sample) (simp_all add: nucleo idle_adc)

text \<open>C34 The reset of the DAC, while the program does not stream: when the host sets the option, the next turn clears it and disables the DAC with one
  call; the turn \<open>k\<close> ticks of the millisecond timer later, with \<open>k\<close> below \<open>2 ^ 32\<close>, enables it again if and only if
  \<open>k\<close> is at least 500.\<close>

theorem arm_dac_reset:
  assumes "inj (stm_addr board)" and "keeps_variables board" and "sa_idle s" and "\<not> sa_streaming s" and "dac_flag board s" and "k < 2 ^ 32"
  shows "\<exists>s1 s2. stm_adc_turn board inp (s, n) = (Inr (), (s1, n)) \<and> \<not> dac_flag board s1
    \<and> snd (sa_io s1) = snd (sa_io s) @ [Call dac_disable [Named DAC1, Named DAC_CHANNEL1]]
    \<and> stm_adc_turn board inp' (ticks board k s1, n) = (Inr (), (s2, n))
    \<and> snd (sa_io s2) = snd (sa_io s1) @ (if 500 \<le> k then [Call dac_enable [Named DAC1, Named DAC_CHANNEL1]] else [])"
  by (rule dac_reset_cycle [OF assms])

lemma arm_dac_reset_witness:
  "\<exists>s1 s2. stm_adc_turn nucleo no_input (idle_adc False (\<lambda>r. if r = optionFlags then 2 else 0), 0) = (Inr (), (s1, 0)) \<and> \<not> dac_flag nucleo s1
    \<and> snd (sa_io s1) = snd (sa_io (idle_adc False (\<lambda>r. if r = optionFlags then 2 else 0))) @ [Call dac_disable [Named DAC1, Named DAC_CHANNEL1]]
    \<and> stm_adc_turn nucleo no_input (ticks nucleo 700 s1, 0) = (Inr (), (s2, 0))
    \<and> snd (sa_io s2) = snd (sa_io s1) @ (if 500 \<le> (700 :: nat) then [Call dac_enable [Named DAC1, Named DAC_CHANNEL1]] else [])"
  by (rule arm_dac_reset) (simp_all add: nucleo idle_adc)

text \<open>C35 The ASC loopbacks of both boards repair frames: with the check of checksums off, a frame with any four characters in
  place of its checksum comes back, from the turn that finds it, with the right checksum. Neither these four characters nor the header and the at
  most 54 data bytes contain a framing character (start, period, newline), the command is not 0, there is no newline in what comes before the
  frame, and no other byte waits in the extra buffer or to be sent.\<close>

theorem asc_loopback_repairs:
  assumes "al_wf s" and "cb_list (out_buf (al_asc s)) = []" and "cb_list (al_extra s) = []" and "c \<noteq> 0" and "length ds \<le> 54"
    and "plain ([v, ap, c] @ ds)" and "length chk = 4" and "plain chk" and "chr_end \<notin> set noise"
    and "cb_list (in_buf (al_asc s)) = noise @ [chr_start, v, ap, c] @ ds @ [chr_period] @ chk @ [chr_end] @ zs"
    and "turn = stm_asc_loopback_turn \<or> turn = avr_asc_loopback_turn"
  shows "\<exists>s'. turn (s, n) = (Inr (), (s', n)) \<and> al_wf s' \<and> cb_list (in_buf (al_asc s')) = zs
    \<and> tx_sent (al_uart s') @ cb_list (out_buf (al_asc s')) = tx_sent (al_uart s) @ frame v ap c ds"
  by (rule boards_repair [OF assms])

lemma asc_loopback_repairs_witness:
  "\<exists>s'. avr_asc_loopback_turn (loopback_with [chr_start, chr_0, chr_0, chr_w, 0x41, chr_period, chr_0, chr_0, chr_0, chr_0, chr_end], 0) = (Inr (), (s', 0)) \<and> al_wf s'
    \<and> cb_list (in_buf (al_asc s')) = []
    \<and> tx_sent (al_uart s') @ cb_list (out_buf (al_asc s')) =
      tx_sent (al_uart (loopback_with [chr_start, chr_0, chr_0, chr_w, 0x41, chr_period, chr_0, chr_0, chr_0, chr_0, chr_end])) @ frame chr_0 chr_0 chr_w [0x41]"
  by (rule asc_loopback_repairs [where noise = "[]" and chk = "[chr_0, chr_0, chr_0, chr_0]"])
    (simp_all add: loopback_with)

section \<open>Native programs\<close>



text \<open>A request for a register that does not exist ends the register device: the turn that reads it returns the
  exit code 1, without an answer.\<close>

theorem register_device_exits:
  assumes "io_in_buf cb_io = dev_in_ptr" and "io_out_buf cb_io = dev_out_ptr" and "device_wf dev"
    and "in_buf (dev_asc dev) = cb_at 0 []" and "out_buf (dev_asc dev) = cb_at 0 []"
    and "unat (rb_n_regs rb) \<le> length (rb_block rb)" and "rb_n_regs rb \<le> reg" and "dev_config dev = rb_config" and "plain [v, ap]"
    and "posix_poll os (io_fds (set_outsetflags POLLHUP cb_io)) timeout f = (1, (POLLIN, 0), f1)"
    and "posix_read os (io_fd_in cb_io) 64 f1 = (Some (frame v ap chr_r (hex_digits caps 4 reg)), f2)"
  shows "\<exists>s1. register_device_turn os ((cb_io, (dev, Some rb), f), timeout) = (Inr (Some 1), s1)
    \<and> snd (fst (snd (fst s1))) = Some rb \<and> cb_list (out_buf (dev_asc (fst (fst (snd (fst s1)))))) = []"
proof -
  have room: "read_room (in_buf (dev_asc dev)) = 64" by (simp add: assms(4) read_room_def cb_at_def cb_cap_def)
  have i: "cb_list (in_buf (dev_asc dev)) = []" "cb_list (out_buf (dev_asc dev)) = []" using cb_at_0 [of "[]"] assms(4,5) by simp_all
  have a: "asks (out_buf (dev_asc dev)) cb_io = set_outsetflags POLLHUP cb_io" using i(2) by (simp add: asks_def)
  have inv: "rb_inv (Some rb)" using assms(6) by (simp add: rb_inv_def)
  have p: "plain ([v, ap, chr_r] @ hex_digits caps 4 reg)" using assms(9) by simp
  have resp: "rb_respond chr_r (of_nat (length (hex_digits caps 4 reg))) (mem_put 0 (hex_digits caps 4 reg) (msg_data (dev_msg dev)))
      (Some rb) = (Raise ASC_ERROR_REGNUM_OOB, Some rb)"
    using assms(7) by (simp add: rb_respond_def take_mem_put_0 hex_word_16)
  have poll: "posix_poll os (io_fds (asks (out_buf (dev_asc dev)) cb_io)) timeout f = (1, (POLLIN, 0), f1)"
    unfolding a by (rule assms(10))
  have rd: "posix_read os (io_fd_in cb_io) (of_nat (read_room (in_buf (dev_asc dev)))) f1 = (Some (frame v ap chr_r (hex_digits caps 4 reg)), f2)"
    using assms(11) room by simp
  from register_device_reads [OF assms(1,2,3) i inv assms(8) _ p _ resp poll _ rd] show ?thesis
    by (force simp: room)
qed

lemma register_device_exits_witness:
  "\<exists>s1. register_device_turn (one_request (frame chr_0 chr_0 chr_r (hex_digits True 4 (2 :: 16 word))))
      ((std_io dev_in_ptr dev_out_ptr, (dev_with rb_config [], Some (block_of [0, 0])), (0, [])), - 1) = (Inr (Some 1), s1)
    \<and> snd (fst (snd (fst s1))) = Some (block_of [0, 0]) \<and> cb_list (out_buf (dev_asc (fst (fst (snd (fst s1)))))) = []"
  by (rule register_device_exits [where f = "(0, [])" and ?f1.0 = "(1, [])" and ?f2.0 = "(1, [])" and reg = 2 and caps = True])
    (use dev_with [of "[]" rb_config] in \<open>simp_all add: block_of_def\<close>)

text \<open>The loopback device goes on after an exception, but a short line at the front of its input is never removed: while nothing
  new is read, every turn throws again, and even replies that are ready are not written to the output file.\<close>

theorem loopback_blocked_by_short_line:
  assumes "io_in_buf cb_io = lb_in_ptr" and "io_out_buf cb_io = lb_out_ptr" and "\<not> rawLoopback m" and "lb_wf m"
    and "cb_list (in_buf (lb_asc m)) = chr_start # p @ chr_period # chr_end # zs" and "plain p" and "length p < 3"
    and "posix_poll os (io_fds (asks (out_buf (lb_asc m)) cb_io)) timeout f = (1, (0, POLLOUT), f1)"
  shows "\<exists>cb_io' m'. loopback_device_turn os ((cb_io, m, f), timeout) = (Inr None, ((cb_io', m', f1), timeout))
    \<and> cb_list (in_buf (lb_asc m')) = cb_list (in_buf (lb_asc m)) \<and> out_buf (lb_asc m') = out_buf (lb_asc m)
    \<and> lb_wf m' \<and> \<not> rawLoopback m' \<and> io_in_buf cb_io' = lb_in_ptr \<and> io_out_buf cb_io' = lb_out_ptr"
  using loopback_blocked [OF assms(1-8)] assms(1-3) by force

lemma loopback_blocked_by_short_line_witness:
  "\<exists>cb_io' m'. loopback_device_turn (one_request []) ((std_io lb_in_ptr lb_out_ptr,
      \<lparr>lb_asc = asc_with [chr_start, chr_period, chr_end] [0x41], lb_msg = empty_message, lb_buffer = cb_at 0 [], rawLoopback = False\<rparr>, (1, [])), 5) =
      (Inr None, ((cb_io', m', (2, [])), 5))
    \<and> cb_list (in_buf (lb_asc m')) = cb_list (in_buf (asc_with [chr_start, chr_period, chr_end] [0x41]))
    \<and> out_buf (lb_asc m') = out_buf (asc_with [chr_start, chr_period, chr_end] [0x41])
    \<and> lb_wf m' \<and> \<not> rawLoopback m' \<and> io_in_buf cb_io' = lb_in_ptr \<and> io_out_buf cb_io' = lb_out_ptr"
  using loopback_blocked_by_short_line [of "std_io lb_in_ptr lb_out_ptr"
      "\<lparr>lb_asc = asc_with [chr_start, chr_period, chr_end] [0x41], lb_msg = empty_message, lb_buffer = cb_at 0 [], rawLoopback = False\<rparr>"
      "[]" "[]" "one_request []" 5 "(1, [])" "(2, [])"]
    asc_with [of "[chr_start, chr_period, chr_end]" "[0x41]"] cb_at_0 [of "[]"]
  by (simp add: lb_wf_def)

text \<open>C37 A turn of raw loopback keeps all bytes in their order: what the output file was given, followed by what the buffer holds after the turn, is what
  it was given before, followed by what the buffer held and what the turn read. This is so whichever of the two files is ready, and when the
  output file takes only some of the bytes that it is offered, as long as the buffer was not full; a full buffer loses as many of its oldest bytes as
  were read. Neither file has an error, and the read gives at most as many bytes as it was offered room for.\<close>

theorem raw_loopback_fifo:
  assumes "io_in_buf cb_io = lb_raw_ptr" and "io_out_buf cb_io = lb_raw_ptr" and "rawLoopback m" and "lb_wf m"
    and "posix_poll os (io_fds (asks (lb_buffer m) cb_io)) timeout f = (rdy, (i, out), f1)" and "0 \<le> rdy"
    and "i = 0 \<or> i = POLLIN" and "out = 0 \<or> out = POLLOUT"
    and "if i = 0 then bs = [] \<and> f2 = f1 else
      posix_read os (io_fd_in cb_io) (of_nat (read_room (lb_buffer m))) f1 = (Some bs, f2) \<and> length bs \<le> read_room (lb_buffer m)"
    and "\<forall>offered. \<exists>k f3. posix_write os (io_fd_out cb_io) offered f2 = (Some k, f3) \<and> unat k \<le> length offered
      \<and> written f3 = written f2 @ take (unat k) offered"
  shows "\<exists>cb_io' m' f3. loopback_device_turn os ((cb_io, m, f), timeout) = (Inr None, ((cb_io', m', f3), - 1)) \<and> lb_wf m' \<and> rawLoopback m'
    \<and> written f3 @ cb_list (lb_buffer m') =
      written f2 @ (if length (cb_list (lb_buffer m)) < 64 then cb_list (lb_buffer m) else drop (length bs) (cb_list (lb_buffer m))) @ bs"
  using raw_loopback_turn [OF assms(1-9), of written] assms(10) by blast

lemma raw_loopback_fifo_witness:
  "\<exists>cb_io' m' f3. loopback_device_turn (one_request [0x41, 0x42]) ((std_io lb_raw_ptr lb_raw_ptr,
      \<lparr>lb_asc = asc_with [] [], lb_msg = empty_message, lb_buffer = cb_at 0 [0x61], rawLoopback = True\<rparr>, (0, [])), - 1) =
      (Inr None, ((cb_io', m', f3), - 1)) \<and> lb_wf m' \<and> rawLoopback m'
    \<and> snd f3 @ cb_list (lb_buffer m') = snd (1 :: nat, []) @ (if length (cb_list (cb_at 0 [0x61])) < 64 then cb_list (cb_at 0 [0x61])
        else drop (length [0x41, 0x42 :: byte]) (cb_list (cb_at 0 [0x61]))) @ [0x41, 0x42]"
proof -
  let ?m = "\<lparr>lb_asc = asc_with [] [], lb_msg = empty_message, lb_buffer = cb_at 0 [0x61], rawLoopback = True\<rparr>"
  have r: "read_room (cb_at 0 [0x61]) = 63" by (simp add: read_room_def cb_at_def cb_cap_def)
  have w: "lb_wf ?m" using asc_with [of "[]" "[]"] cb_at_0 [of "[0x61]"] by (simp add: lb_wf_def)
  have "\<forall>offered. \<exists>k f3. posix_write (one_request [0x41, 0x42]) 1 offered (1, []) = (Some k, f3) \<and> unat k \<le> length offered
      \<and> snd f3 = snd (1, []) @ take (unat k) offered" by (simp add: one_request_takes(2,3) del: of_nat_min)
  then show ?thesis
    using raw_loopback_fifo [of "std_io lb_raw_ptr lb_raw_ptr" ?m "one_request [0x41, 0x42]" "- 1" "(0, [])" 1 POLLIN 0 "(1, [])" "[0x41, 0x42]" "(1, [])" snd] w r
      cb_at_0 [of "[0x61]"] by (simp del: length_cb_list)
qed

text \<open>C38 The profiler ends with code 0 for every number \<open>n\<close> of iterations, and in none of them an exception is thrown, which the loop would catch:
  the initialisation returns, and whatever number \<open>k\<close> of turns came before, the body of the next returns. At the end both buffers are empty, and the last
  message received is the one that was sent.\<close>

theorem profiler_terminates:
  assumes "length raw_buffer = 128" and "length (msg_data g) = 54"
  shows "\<exists>a1 a' g'. ascii_serial_com_init a raw_buffer = (Inr (), a1)
    \<and> (\<forall>k. fst (profiler_body (snd (for_each (\<lambda>_. profiler_turn) [0..<k] (a1, g)))) = Inr ())
    \<and> profiler_main n raw_buffer (a, g) = (Inr 0, (a', g')) \<and> cb_list (in_buf a') = [] \<and> cb_list (out_buf a') = []
    \<and> (0 < n \<longrightarrow> msg_command g' = chr_z)"
  using profiler_main_ends [OF assms, of a n] by (auto simp: profiler_idle_def)

lemma profiler_terminates_witness:
  "\<exists>a1 a' g'. ascii_serial_com_init (asc_with [] []) (replicate 128 0) = (Inr (), a1)
    \<and> (\<forall>k. fst (profiler_body (snd (for_each (\<lambda>_. profiler_turn) [0..<k] (a1, empty_message)))) = Inr ())
    \<and> profiler_main 100 (replicate 128 0) (asc_with [] [], empty_message) = (Inr 0, (a', g')) \<and> cb_list (in_buf a') = [] \<and> cb_list (out_buf a') = []
    \<and> msg_command g' = chr_z"
  using profiler_terminates [of "replicate 128 0" empty_message "asc_with [] []" 100] by simp

section \<open>The framework of the unit tests\<close>

text \<open>C39 The verdict of a suite: whatever assertions on bits, strings, conditions and on equality, order and distance of integers of any
  type its tests make, the program returns the number of the tests in which some assertion does not hold; the state before and the failures of
  other tests do not matter. The tests have empty \<^verbatim>\<open>setUp\<close> and \<^verbatim>\<open>tearDown\<close>, and make no assertions on floating-point numbers
  and pointers.\<close>

theorem suite_counts_failures:
  "fst (suite_main filename (\<lambda>u. (Inr (), u)) (\<lambda>u. (Inr (), u)) (map (\<lambda>(cs, name, line). (perform_all cs, name, line)) tests) u)
    = Inr (of_nat (length (filter (\<lambda>(cs, name, line). \<not> test_passes cs) tests)))"
  by (rule check_suite)

section \<open>The memory of the mocks\<close>

text \<open>C40 Chains of the mocks' memory are lists: linking the chain of \<open>xs\<close> to that of \<open>ys\<close>, both with at least one block and no block in
  common, returns, with the first block, a chain of both in a row, keeps every chain that shares no block with \<open>xs\<close>, and its end is the end of \<open>ys\<close>.\<close>

theorem mem_chain_appends:
  assumes "cmock_wf g" and "block_chain g r xs" and "xs \<noteq> []" and "block_chain g obj ys" and "ys \<noteq> []" and "set xs \<inter> set ys = {}"
  shows "\<exists>g'. CMock_Guts_MemChain r obj g = Some (Inr r, g') \<and> cmock_wf g' \<and> block_chain g' r (xs @ ys)
    \<and> CMock_Guts_MemEndOfChain r g' = Some (Inr (last ys))
    \<and> (\<forall>j zs. block_chain g j zs \<and> set xs \<inter> set zs = {} \<longrightarrow> block_chain g' j zs)"
proof -
  from mem_chain [OF assms] obtain g' where "CMock_Guts_MemChain r obj g = Some (Inr r, g')" "cmock_wf g'" "block_chain g' r (xs @ ys)"
    "\<forall>j zs. block_chain g j zs \<longrightarrow> set xs \<inter> set zs = {} \<longrightarrow> block_chain g' j zs" by blast
  with mem_end_of_chain [of g' r "xs @ ys"] assms(5) show ?thesis by auto
qed

lemma mem_chain_appends_witness:
  "\<exists>g'. CMock_Guts_MemChain 16 32 two_blocks = Some (Inr 16, g') \<and> cmock_wf g' \<and> block_chain g' 16 ([16] @ [32])
    \<and> CMock_Guts_MemEndOfChain 16 g' = Some (Inr (last [32]))
    \<and> (\<forall>j zs. block_chain two_blocks j zs \<and> set [16] \<inter> set zs = {} \<longrightarrow> block_chain g' j zs)"
  by (rule mem_chain_appends) (simp_all add: two_blocks del: block_chain.simps)

end
